(* ===== verification/Prelude.thy ===== *)
theory Prelude
  imports Complex_Main "HOL-Library.Sublist"
begin

text \<open>
  What every component of the development shares: the JavaScript values the TypeScript
  sources handle as \<open>unknown\<close>, the insertion-ordered \<open>Map\<close> of the language, the few
  string operations the sources use (\<open>trim\<close>, character classes of their regular
  expressions), fallible results, and a locale for ledgers that remember an identifier until a
  deadline.

  Strings are lists of code units. A JavaScript number is a rational or an infinity; the sources
  never let a NaN out of the places that could make one, and where one could arise the model of
  that place says so.
\<close>

named_theorems js_simps \<open>evaluation of JavaScript library operations\<close>
named_theorems omap_simps \<open>laws of the insertion-ordered map\<close>

subsection \<open>Fallible results\<close>

fun res_bind :: "'e + 'a \<Rightarrow> ('a \<Rightarrow> 'e + 'b) \<Rightarrow> 'e + 'b" where
  "res_bind (Inl e) f = Inl e"
| "res_bind (Inr x) f = f x"

lemma res_bind_Inr_iff [simp]:
  "res_bind r f = Inr y \<longleftrightarrow> (\<exists>x. r = Inr x \<and> f x = Inr y)"
  by (cases r) auto

lemma res_bind_Inl_iff:
  "res_bind r f = Inl e \<longleftrightarrow> r = Inl e \<or> (\<exists>x. r = Inr x \<and> f x = Inl e)"
  by (cases r) auto

lemma res_bind_split_asm:
  "P (res_bind r f) \<longleftrightarrow>
     \<not> ((\<exists>e. r = Inl e \<and> \<not> P (Inl e)) \<or> (\<exists>x. r = Inr x \<and> \<not> P (f x)))"
  by (cases r) auto

lemma res_bind_cong [fundef_cong]:
  "r = r' \<Longrightarrow> (\<And>x. r' = Inr x \<Longrightarrow> f x = g x) \<Longrightarrow> res_bind r f = res_bind r' g"
  by (cases r') auto

text \<open>\<open>array.map(f)\<close> where \<open>f\<close> may throw: the first failure wins.\<close>

fun map_res :: "('a \<Rightarrow> 'e + 'b) \<Rightarrow> 'a list \<Rightarrow> 'e + 'b list" where
  "map_res f [] = Inr []"
| "map_res f (x # xs) =
     res_bind (f x) (\<lambda>y. res_bind (map_res f xs) (\<lambda>ys. Inr (y # ys)))"

lemma map_res_Inr_iff:
  "map_res f xs = Inr ys \<longleftrightarrow> list_all2 (\<lambda>x y. f x = Inr y) xs ys"
  by (induction xs arbitrary: ys) (auto simp: list_all2_Cons1)

lemma map_res_total: "(\<And>x. x \<in> set xs \<Longrightarrow> f x = Inr (g x)) \<Longrightarrow> map_res f xs = Inr (map g xs)"
  by (induction xs) auto

lemma map_res_cong [fundef_cong]:
  "xs = ys \<Longrightarrow> (\<And>x. x \<in> set ys \<Longrightarrow> f x = g x) \<Longrightarrow> map_res f xs = map_res g ys"
  by (induction ys arbitrary: xs) auto

lemma map_res_length: "map_res f xs = Inr ys \<Longrightarrow> length ys = length xs"
  by (auto simp: map_res_Inr_iff dest: list_all2_lengthD)

subsection \<open>JavaScript values\<close>

datatype jsnum = Fin rat | Inf bool

datatype json =
    JNull
  | JBool bool
  | JNum jsnum
  | JStr string
  | JArr "json list"
  | JObj "(string \<times> json) list"

text \<open>
  \<open>isRecord\<close> of the sources: an object that is neither \<open>null\<close> nor an array.
  \<open>jfield v k\<close> is \<open>v.k\<close> for a value other than \<open>null\<close> (none of the properties the
  sources read is one that arrays, strings, numbers or booleans inherit); \<open>None\<close> is
  \<open>undefined\<close>.
\<close>

fun is_record :: "json \<Rightarrow> bool" where
  "is_record (JObj kvs) = True"
| "is_record _ = False"

fun jfield :: "json \<Rightarrow> string \<Rightarrow> json option" where
  "jfield (JObj kvs) k = map_of kvs k"
| "jfield _ k = None"

text \<open>
  \<open>String(v)\<close>, as far as the sources compare it with names: \<open>None\<close> stands for the text
  of a number, of an object or of an array of two or more elements, which starts with a digit, a
  sign, \<open>I\<close> or a bracket or holds a comma and so is never one of the names. The text of an
  array of one element is the text of the element (empty for \<open>[null]\<close>).
\<close>

fun js_text :: "json \<Rightarrow> string option" where
  "js_text JNull = Some ''null''"
| "js_text (JBool b) = Some (if b then ''true'' else ''false'')"
| "js_text (JNum n) = None"
| "js_text (JStr s) = Some s"
| "js_text (JArr []) = Some []"
| "js_text (JArr [v]) = (if v = JNull then Some [] else js_text v)"
| "js_text (JArr (v # w # vs)) = None"
| "js_text (JObj kvs) = None"

definition js_text_opt :: "json option \<Rightarrow> string option" where
  "js_text_opt v = (case v of None \<Rightarrow> Some ''undefined'' | Some j \<Rightarrow> js_text j)"

definition text_among :: "json option \<Rightarrow> string list \<Rightarrow> bool" where
  "text_among v names = (case js_text_opt v of None \<Rightarrow> False | Some s \<Rightarrow> s \<in> set names)"

lemma text_among_JStr [simp]: "text_among (Some (JStr s)) names \<longleftrightarrow> s \<in> set names"
  by (simp add: text_among_def js_text_opt_def)

definition is_string :: "json option \<Rightarrow> bool" where
  "is_string v = (case v of Some (JStr s) \<Rightarrow> True | _ \<Rightarrow> False)"

definition opt_string :: "json option \<Rightarrow> string option" where
  "opt_string v = (case v of Some (JStr s) \<Rightarrow> Some s | _ \<Rightarrow> None)"

definition opt_array :: "json option \<Rightarrow> json list option" where
  "opt_array v = (case v of Some (JArr xs) \<Rightarrow> Some xs | _ \<Rightarrow> None)"

text \<open>The value a check has just found to be there.\<close>

definition opt_json :: "json option \<Rightarrow> json" where
  "opt_json v = (case v of None \<Rightarrow> JNull | Some j \<Rightarrow> j)"

lemma opt_json_Some [simp]: "opt_json (Some j) = j"
  by (simp add: opt_json_def)

lemma opt_array_simps [simp]: "opt_array None = None" "opt_array (Some (JArr xs)) = Some xs"
  by (simp_all add: opt_array_def)

lemma opt_array_Some_iff: "opt_array v = Some xs \<longleftrightarrow> v = Some (JArr xs)"
  by (auto simp: opt_array_def split: option.splits json.splits)

lemma is_record_iff: "is_record v \<longleftrightarrow> (\<exists>kvs. v = JObj kvs)"
  by (cases v) auto

lemma is_string_iff: "is_string v \<longleftrightarrow> (\<exists>s. v = Some (JStr s))"
  by (auto simp: is_string_def split: option.splits json.splits)

lemma is_string_simps [simp]:
  "is_string None = False" "is_string (Some (JStr s)) = True"
  by (simp_all add: is_string_def)

lemma opt_string_simps [simp]:
  "opt_string None = None" "opt_string (Some (JStr s)) = Some s"
  by (simp_all add: opt_string_def)

lemma opt_string_Some_iff: "opt_string v = Some s \<longleftrightarrow> v = Some (JStr s)"
  by (auto simp: opt_string_def split: option.splits json.splits)

subsection \<open>Strings\<close>

definition char_between :: "char \<Rightarrow> char \<Rightarrow> char \<Rightarrow> bool" where
  "char_between lo hi c \<longleftrightarrow> (of_char lo :: nat) \<le> of_char c \<and> (of_char c :: nat) \<le> of_char hi"

definition is_lower :: "char \<Rightarrow> bool" where
  "is_lower c \<longleftrightarrow> char_between (CHR ''a'') (CHR ''z'') c"

definition is_upper :: "char \<Rightarrow> bool" where
  "is_upper c \<longleftrightarrow> char_between (CHR ''A'') (CHR ''Z'') c"

definition is_digit :: "char \<Rightarrow> bool" where
  "is_digit c \<longleftrightarrow> char_between (CHR ''0'') (CHR ''9'') c"

definition is_alnum :: "char \<Rightarrow> bool" where
  "is_alnum c \<longleftrightarrow> is_lower c \<or> is_upper c \<or> is_digit c"

lemmas char_class_defs = char_between_def is_lower_def is_upper_def is_digit_def is_alnum_def

text \<open>The white space \<open>String.prototype.trim\<close> removes (among one-byte code units).\<close>

definition is_space :: "char \<Rightarrow> bool" where
  "is_space c \<longleftrightarrow> (of_char c :: nat) \<in> {9, 10, 11, 12, 13, 32, 160}"

definition js_trim :: "string \<Rightarrow> string" where
  "js_trim s = rev (dropWhile is_space (rev (dropWhile is_space s)))"

lemma alnum_not_space: "is_alnum c \<Longrightarrow> \<not> is_space c"
  by (auto simp: char_class_defs is_space_def)

lemma dropWhile_none: "(\<And>x. x \<in> set xs \<Longrightarrow> \<not> P x) \<Longrightarrow> dropWhile P xs = xs"
  by (cases xs) auto

lemma js_trim_none:
  assumes "\<And>c. c \<in> set s \<Longrightarrow> \<not> is_space c"
  shows "js_trim s = s"
proof -
  have "dropWhile is_space s = s" using assms by (rule dropWhile_none)
  moreover have "dropWhile is_space (rev s) = rev s" using assms by (intro dropWhile_none) simp
  ultimately show ?thesis by (simp add: js_trim_def)
qed

text \<open>\<open>/^[first][rest]{lo,hi}$/\<close>, the shape of every name pattern of the sources.\<close>

fun name_pattern :: "(char \<Rightarrow> bool) \<Rightarrow> (char \<Rightarrow> bool) \<Rightarrow> nat \<Rightarrow> nat \<Rightarrow> string \<Rightarrow> bool" where
  "name_pattern first rest lo hi [] = False"
| "name_pattern first rest lo hi (c # cs) =
     (first c \<and> lo \<le> length cs \<and> length cs \<le> hi \<and> list_all rest cs)"

lemma append_sep_inj:
  "x \<notin> set ks \<Longrightarrow> x \<notin> set ks' \<Longrightarrow> ks @ x # ns = ks' @ x # ns' \<Longrightarrow> ks = ks' \<and> ns = ns'"
proof (induction ks arbitrary: ks')
  case Nil
  then show ?case by (cases ks') auto
next
  case (Cons a ks)
  from Cons.prems obtain b bs where ks': "ks' = b # bs" by (cases ks') auto
  with Cons.prems have "ks = bs \<and> ns = ns'" by (intro Cons.IH) auto
  with Cons.prems ks' show ?case by auto
qed

subsection \<open>The insertion-ordered \<open>Map\<close>\<close>

text \<open>
  A JavaScript \<open>Map\<close> is the list of its entries in the order its iteration visits them:
  \<open>set\<close> on a key that is present keeps the entry's place, on a new key appends.
\<close>

type_synonym ('k, 'v) omap = "('k \<times> 'v) list"

definition om_get :: "('k, 'v) omap \<Rightarrow> 'k \<Rightarrow> 'v option" where
  "om_get m k = map_of m k"

definition om_has :: "('k, 'v) omap \<Rightarrow> 'k \<Rightarrow> bool" where
  "om_has m k \<longleftrightarrow> k \<in> fst ` set m"

fun om_set :: "'k \<Rightarrow> 'v \<Rightarrow> ('k, 'v) omap \<Rightarrow> ('k, 'v) omap" where
  "om_set k v [] = [(k, v)]"
| "om_set k v ((k', v') # m) = (if k = k' then (k, v) # m else (k', v') # om_set k v m)"

definition om_delete :: "'k \<Rightarrow> ('k, 'v) omap \<Rightarrow> ('k, 'v) omap" where
  "om_delete k m = filter (\<lambda>e. fst e \<noteq> k) m"

text \<open>\<open>for (const [key, value] of map) if (p(key, value)) map.delete(key)\<close>\<close>

definition om_prune :: "('k \<Rightarrow> 'v \<Rightarrow> bool) \<Rightarrow> ('k, 'v) omap \<Rightarrow> ('k, 'v) omap" where
  "om_prune p m = filter (\<lambda>e. \<not> p (fst e) (snd e)) m"

definition om_ok :: "('k, 'v) omap \<Rightarrow> bool" where
  "om_ok m \<longleftrightarrow> distinct (map fst m)"

lemma om_has_get: "om_has m k \<longleftrightarrow> om_get m k \<noteq> None"
  by (auto simp: om_has_def om_get_def map_of_eq_None_iff)

lemma om_get_nil [simp]: "om_get [] k = None"
  by (simp add: om_get_def)

lemma om_has_nil [simp]: "\<not> om_has [] k"
  by (simp add: om_has_def)

lemma om_get_set [simp, omap_simps]: "om_get (om_set k v m) k' = (if k' = k then Some v else om_get m k')"
  by (induction m) (auto simp: om_get_def)

lemma om_keys_set: "fst ` set (om_set k v m) = insert k (fst ` set m)"
  by (induction k v m rule: om_set.induct) auto

lemma om_has_set [simp, omap_simps]: "om_has (om_set k v m) k' \<longleftrightarrow> k' = k \<or> om_has m k'"
  by (auto simp: om_has_def om_keys_set)

lemma om_get_delete [simp, omap_simps]:
  "om_get (om_delete k m) k' = (if k' = k then None else om_get m k')"
  by (induction m) (auto simp: om_get_def om_delete_def)

lemma om_has_delete [simp, omap_simps]: "om_has (om_delete k m) k' \<longleftrightarrow> k' \<noteq> k \<and> om_has m k'"
  by (auto simp: om_has_get)

lemma om_ok_nil [simp]: "om_ok []"
  by (simp add: om_ok_def)

lemma om_ok_set [simp]: "om_ok m \<Longrightarrow> om_ok (om_set k v m)"
  by (induction k v m rule: om_set.induct) (auto simp: om_ok_def om_keys_set)

lemma om_ok_filter: "om_ok m \<Longrightarrow> om_ok (filter P m)"
  by (induction m) (auto simp: om_ok_def)

lemma om_ok_delete [simp]: "om_ok m \<Longrightarrow> om_ok (om_delete k m)"
  by (simp add: om_delete_def om_ok_filter)

lemma om_ok_prune [simp]: "om_ok m \<Longrightarrow> om_ok (om_prune p m)"
  by (simp add: om_prune_def om_ok_filter)

lemma om_get_in: "om_ok m \<Longrightarrow> (k, v) \<in> set m \<Longrightarrow> om_get m k = Some v"
  by (simp add: om_ok_def om_get_def)

lemma om_get_mem: "om_get m k = Some v \<Longrightarrow> (k, v) \<in> set m"
  by (simp add: om_get_def map_of_SomeD)

lemma om_get_prune [omap_simps]:
  "om_ok m \<Longrightarrow> om_get (om_prune p m) k =
     (case om_get m k of None \<Rightarrow> None | Some v \<Rightarrow> if p k v then None else Some v)"
proof (induction m)
  case (Cons e m)
  obtain k' v' where e: "e = (k', v')" by (cases e)
  from Cons.prems have "om_ok m" and "k' \<notin> fst ` set m" by (auto simp: om_ok_def e)
  then have "om_get m k' = None" by (simp add: om_get_def map_of_eq_None_iff)
  with Cons.IH [OF \<open>om_ok m\<close>] show ?case
    by (auto simp: om_prune_def om_get_def e split: option.splits)
qed (simp add: om_prune_def)

lemma om_has_prune:
  "om_ok m \<Longrightarrow> om_has (om_prune p m) k \<longleftrightarrow> (\<exists>v. om_get m k = Some v \<and> \<not> p k v)"
  by (auto simp: om_has_get om_get_prune split: option.splits)

lemma om_has_prune_mono: "om_has (om_prune p m) k \<Longrightarrow> om_has m k"
  by (auto simp: om_has_def om_prune_def)

lemma om_set_new: "\<not> om_has m k \<Longrightarrow> om_set k v m = m @ [(k, v)]"
  by (induction k v m rule: om_set.induct) (auto simp: om_has_def)

lemma om_length_set: "length (om_set k v m) = (if om_has m k then length m else Suc (length m))"
  by (induction k v m rule: om_set.induct) (auto simp: om_has_def)

lemma om_length_prune: "length (om_prune p m) \<le> length m"
  by (simp add: om_prune_def)

lemma om_length_delete: "length (om_delete k m) \<le> length m"
  by (simp add: om_delete_def)

end
