(* ===== verification/Ledger.thy ===== *)
theory Ledger
  imports Prelude
begin

text \<open>
  The interface of a ledger that takes an identifier at most once while it remembers it. The
  Keryx server keeps three of them (publish nonces, consumed admission tickets, published
  message ids). The client-side law proved once here is: over any sequence of offers made at
  non-decreasing times, an identifier that was taken is not taken again before its deadline.
\<close>

subsection \<open>Runs of a ledger\<close>

fun run_offers :: "('e \<Rightarrow> 's \<Rightarrow> bool \<times> 's) \<Rightarrow> 'e list \<Rightarrow> 's \<Rightarrow> bool list \<times> 's" where
  "run_offers step [] s = ([], s)"
| "run_offers step (e # es) s =
     (let (taken, s') = step e s; (rest, s'') = run_offers step es s' in (taken # rest, s''))"

lemma run_offers_Cons [simp]:
  "fst (run_offers step (e # es) s) = fst (step e s) # fst (run_offers step es (snd (step e s)))"
  "snd (run_offers step (e # es) s) = snd (run_offers step es (snd (step e s)))"
  by (simp_all add: split_beta Let_def)

declare run_offers.simps(2) [simp del]

lemma run_offers_length [simp]: "length (fst (run_offers step es s)) = length es"
  by (induction es arbitrary: s) auto

subsection \<open>The interface\<close>

locale once_ledger =
  fixes step :: "'e \<Rightarrow> 's \<Rightarrow> bool \<times> 's"
    and clock :: "'e \<Rightarrow> int"
    and ident :: "'e \<Rightarrow> 'k"
    and until :: "'e \<Rightarrow> int"
    and alive :: "int \<Rightarrow> int \<Rightarrow> bool"
    and remembers :: "'s \<Rightarrow> 'k \<Rightarrow> int \<Rightarrow> bool"
    and ok :: "'s \<Rightarrow> bool"
  assumes alive_antimono: "t \<le> t' \<Longrightarrow> alive t' u \<Longrightarrow> alive t u"
    and ok_step: "ok s \<Longrightarrow> ok (snd (step e s))"
    and step_records: "ok s \<Longrightarrow> fst (step e s) \<Longrightarrow> remembers (snd (step e s)) (ident e) (until e)"
    and step_refuses: "ok s \<Longrightarrow> remembers s (ident e) u \<Longrightarrow> alive (clock e) u \<Longrightarrow> \<not> fst (step e s)"
    and step_keeps: "ok s \<Longrightarrow> remembers s k u \<Longrightarrow> alive (clock e) u \<Longrightarrow> remembers (snd (step e s)) k u"
begin

lemma remembered_refused:
  assumes "ok s" and "remembers s k u" and "sorted (map clock es)" and "j < length es"
    and "ident (es ! j) = k" and "alive (clock (es ! j)) u"
  shows "\<not> fst (run_offers step es s) ! j"
  using assms
proof (induction es arbitrary: s j)
  case Nil
  then show ?case by simp
next
  case (Cons e es)
  show ?case
  proof (cases j)
    case 0
    with Cons.prems step_refuses show ?thesis by simp
  next
    case (Suc i)
    with Cons.prems have "clock e \<le> clock (es ! i)" by auto
    with Cons.prems Suc have "alive (clock e) u" by (auto intro: alive_antimono)
    with Cons.prems Suc have "\<not> fst (run_offers step es (snd (step e s))) ! i"
      by (intro Cons.IH) (simp_all add: ok_step step_keeps)
    with Suc show ?thesis by simp
  qed
qed

lemma taken_once:
  assumes "ok s" and "sorted (map clock es)" and "i < j" and "j < length es"
    and "fst (run_offers step es s) ! i"
    and "ident (es ! j) = ident (es ! i)" and "alive (clock (es ! j)) (until (es ! i))"
  shows "\<not> fst (run_offers step es s) ! j"
  using assms
proof (induction es arbitrary: s i j)
  case Nil
  then show ?case by simp
next
  case (Cons e es)
  from Cons.prems obtain j' where j: "j = Suc j'" by (cases j) auto
  show ?case
  proof (cases i)
    case 0
    with Cons.prems j have "\<not> fst (run_offers step es (snd (step e s))) ! j'"
      by (intro remembered_refused [where k = "ident e" and u = "until e"])
         (simp_all add: ok_step step_records)
    with j show ?thesis by simp
  next
    case (Suc i')
    with Cons.prems j have "\<not> fst (run_offers step es (snd (step e s))) ! j'"
      by (intro Cons.IH [of _ i']) (simp_all add: ok_step)
    with j show ?thesis by simp
  qed
qed

end

subsection \<open>Entries with a deadline\<close>

text \<open>\<open>remembers\<close> for a \<open>Map\<close> from identifiers to deadlines.\<close>

definition entry_until :: "('k, int) omap \<Rightarrow> 'k \<Rightarrow> int \<Rightarrow> bool" where
  "entry_until m k u \<longleftrightarrow> om_get m k = Some u"

lemma entry_until_set_other:
  "entry_until m k u \<Longrightarrow> k' \<noteq> k \<Longrightarrow> entry_until (om_set k' u' m) k u"
  by (simp add: entry_until_def)

lemma entry_until_prune:
  "om_ok m \<Longrightarrow> entry_until m k u \<Longrightarrow> \<not> p k u \<Longrightarrow> entry_until (om_prune p m) k u"
  by (simp add: entry_until_def om_get_prune)

end
