(* ===== verification/Protocol.thy ===== *)
theory Protocol
  imports Prelude
begin

text \<open>
  The Keryx wire protocol: \<open>packages/keryx/src/protocol.ts\<close> and the channel-name check of
  \<open>packages/core/src/broadcasting.ts\<close> it calls.

  A frame arrives as text. The model starts at the outcome of \<open>JSON.parse\<close> on it
  (\<open>None\<close> where that throws). An exception is \<open>Protocol_error\<close> with the fields the
  code constructs it with, or \<open>Type_error\<close> for every \<open>TypeError\<close>, whether thrown by hand
  or by reading a property of \<open>null\<close>.
\<close>

subsection \<open>Names and destinations\<close>

definition channel_char :: "char \<Rightarrow> bool" where
  "channel_char c \<longleftrightarrow> is_alnum c \<or> c \<in> {CHR ''_'', CHR ''.'', CHR '':'', CHR ''-''}"

text \<open>\<open>/^[A-Za-z0-9][A-Za-z0-9_.:-]*$/\<close> on a name of 1 to 200 characters.\<close>

definition channel_name_ok :: "string \<Rightarrow> bool" where
  "channel_name_ok s \<longleftrightarrow> \<not> (length s = 0 \<or> length s > 200 \<or>
     \<not> (case s of [] \<Rightarrow> False | c # cs \<Rightarrow> is_alnum c \<and> list_all channel_char cs))"

definition validate_broadcast_channel_name :: "string \<Rightarrow> string + string" where
  "validate_broadcast_channel_name name =
     (let normalized = js_trim name in
      if channel_name_ok normalized then Inr normalized
      else Inl ''Broadcast channel names must be 1-200 characters using letters, numbers, dot, underscore, colon, or hyphen.'')"

text \<open>
  A destination as the code holds it: the kind is the value found in the frame, cast to the
  union of the three names without being changed.
\<close>

record destination =
  dest_name :: string
  dest_kind :: json

definition channel_kinds :: "string list" where
  "channel_kinds = [''public'', ''private'', ''presence'']"

definition normalize_destination :: "json option \<Rightarrow> string + destination" where
  "normalize_destination v = (case v of
     None \<Rightarrow> Inl ''Channel is required.''
   | Some value \<Rightarrow>
       if \<not> is_record value then Inl ''Channel is required.''
       else if \<not> text_among (jfield value ''kind'') channel_kinds then Inl ''Invalid channel kind.''
       else (case opt_string (jfield value ''name'') of
               None \<Rightarrow> Inl ''Invalid channel name.''
             | Some name \<Rightarrow>
                 res_bind (validate_broadcast_channel_name name)
                   (\<lambda>n. Inr \<lparr>dest_name = n, dest_kind = opt_json (jfield value ''kind'')\<rparr>)))"

text \<open>\<open>destination.kind === k\<close>, and the template \<open>kind:name\<close> that keys subscriptions.\<close>

definition kind_is :: "destination \<Rightarrow> string \<Rightarrow> bool" where
  "kind_is d k \<longleftrightarrow> dest_kind d = JStr k"

definition text_of :: "json \<Rightarrow> string" where
  "text_of v = (case js_text v of None \<Rightarrow> [] | Some k \<Rightarrow> k)"

definition destination_key :: "destination \<Rightarrow> string" where
  "destination_key d = text_of (dest_kind d) @ '':'' @ dest_name d"

definition destination_ok :: "destination \<Rightarrow> bool" where
  "destination_ok d \<longleftrightarrow> channel_name_ok (dest_name d) \<and> text_among (Some (dest_kind d)) channel_kinds"

subsection \<open>Actors\<close>

record actor =
  actor_kind :: json
  actor_id :: "string option"

definition actor_kinds :: "string list" where
  "actor_kinds = [''anonymous'', ''user'', ''service'', ''system'']"

definition parse_actor :: "json option \<Rightarrow> string + actor" where
  "parse_actor v = (case v of
     None \<Rightarrow> Inl ''Presence actor is invalid.''
   | Some value \<Rightarrow>
       if \<not> is_record value \<or> \<not> text_among (jfield value ''kind'') actor_kinds
       then Inl ''Presence actor is invalid.''
       else if jfield value ''id'' \<noteq> None \<and> \<not> is_string (jfield value ''id'')
       then Inl ''Presence actor id is invalid.''
       else Inr \<lparr>actor_kind = opt_json (jfield value ''kind''),
                 actor_id = opt_string (jfield value ''id'')\<rparr>)"

definition actor_key :: "actor \<Rightarrow> string" where
  "actor_key a = text_of (actor_kind a) @ '':'' @ (case actor_id a of None \<Rightarrow> [] | Some i \<Rightarrow> i)"

definition actor_json :: "actor \<Rightarrow> json" where
  "actor_json a = JObj ((''kind'', actor_kind a) #
     (case actor_id a of None \<Rightarrow> [] | Some i \<Rightarrow> [(''id'', JStr i)]))"

definition actor_ok :: "actor \<Rightarrow> bool" where
  "actor_ok a \<longleftrightarrow> text_among (Some (actor_kind a)) actor_kinds"

subsection \<open>Payloads\<close>

text \<open>
  \<open>assertJson(value, depth)\<close>: the depth check first, then the shape; the members of an array
  or object one level deeper, in order, the first failure wins. An infinite number (as
  \<open>JSON.parse\<close> makes of \<open>1e999\<close>) is not JSON.
\<close>

fun assert_json :: "nat \<Rightarrow> json \<Rightarrow> string + unit"
  and assert_json_items :: "nat \<Rightarrow> json list \<Rightarrow> string + unit"
  and assert_json_values :: "nat \<Rightarrow> (string \<times> json) list \<Rightarrow> string + unit" where
  "assert_json depth v =
     (if depth > 100 then Inl ''Published data is nested too deeply.''
      else (case v of
              JNum (Inf s) \<Rightarrow> Inl ''Published data must be JSON.''
            | JArr xs \<Rightarrow> assert_json_items (depth + 1) xs
            | JObj kvs \<Rightarrow> assert_json_values (depth + 1) kvs
            | _ \<Rightarrow> Inr ()))"
| "assert_json_items depth [] = Inr ()"
| "assert_json_items depth (x # xs) =
     res_bind (assert_json depth x) (\<lambda>_. assert_json_items depth xs)"
| "assert_json_values depth [] = Inr ()"
| "assert_json_values depth ((k, x) # kvs) =
     res_bind (assert_json depth x) (\<lambda>_. assert_json_values depth kvs)"

declare assert_json.simps [simp del]

definition assert_json_opt :: "json option \<Rightarrow> string + unit" where
  "assert_json_opt v = (case v of
     None \<Rightarrow> Inl ''Published data must be JSON.'' | Some value \<Rightarrow> assert_json 0 value)"

text \<open>What the check promises: a bound on the nesting and no infinite number anywhere.\<close>

fun json_depth :: "json \<Rightarrow> nat" where
  "json_depth (JArr xs) = (case xs of [] \<Rightarrow> 0 | _ \<Rightarrow> Suc (foldr max (map json_depth xs) 0))"
| "json_depth (JObj kvs) =
     (case kvs of [] \<Rightarrow> 0 | _ \<Rightarrow> Suc (foldr max (map (\<lambda>e. json_depth (snd e)) kvs) 0))"
| "json_depth _ = 0"

fun json_finite :: "json \<Rightarrow> bool" where
  "json_finite (JNum n) = (case n of Fin q \<Rightarrow> True | Inf s \<Rightarrow> False)"
| "json_finite (JArr xs) = list_all json_finite xs"
| "json_finite (JObj kvs) = list_all (\<lambda>e. json_finite (snd e)) kvs"
| "json_finite _ = True"

lemma add_foldr_max_le:
  "(d::nat) + foldr max xs 0 \<le> n \<longleftrightarrow> d \<le> n \<and> (\<forall>x\<in>set xs. d + x \<le> n)"
  by (induction xs) (auto simp: max_def)

lemma json_depth_JArr:
  "d + json_depth (JArr xs) \<le> n \<longleftrightarrow> d \<le> n \<and> (\<forall>x\<in>set xs. Suc d + json_depth x \<le> n)"
  using add_foldr_max_le [of "Suc d" "map json_depth xs" n] by (cases xs) auto

lemma json_depth_JObj:
  "d + json_depth (JObj kvs) \<le> n \<longleftrightarrow> d \<le> n \<and> (\<forall>e\<in>set kvs. Suc d + json_depth (snd e) \<le> n)"
  using add_foldr_max_le [of "Suc d" "map (\<lambda>e. json_depth (snd e)) kvs" n] by (cases kvs) auto

lemma assert_json_correct_aux:
  "assert_json d v = Inr () \<longleftrightarrow> d + json_depth v \<le> 100 \<and> json_finite v"
  "assert_json_items d xs = Inr () \<longleftrightarrow> (\<forall>x\<in>set xs. d + json_depth x \<le> 100 \<and> json_finite x)"
  "assert_json_values d kvs = Inr () \<longleftrightarrow>
     (\<forall>e\<in>set kvs. d + json_depth (snd e) \<le> 100 \<and> json_finite (snd e))"
proof (induction d v and d xs and d kvs rule: assert_json_assert_json_items_assert_json_values.induct)
  case (1 depth v)
  show ?case
  proof (cases "depth > 100")
    case True
    then show ?thesis by (simp add: assert_json.simps)
  next
    case False
    note d = json_depth_JArr [of depth _ 100] json_depth_JObj [of depth _ 100]
    from 1 False show ?thesis
      by (cases v)
         (auto simp: assert_json.simps d list_all_iff split: jsnum.splits
           simp del: json_depth.simps(1,2))
  qed
qed auto

subsection \<open>Client frames\<close>

datatype keryx_operation = Op_connect | Op_subscribe | Op_unsubscribe | Op_command | Op_publish | Op_receive

datatype client_frame =
    Subscribe destination
  | Unsubscribe destination
  | Ping "string option"
  | Command string string json

record keryx_error =
  err_code :: string
  err_message :: string
  err_operation :: keryx_operation
  err_retryable :: bool
  err_fatal :: bool
  err_channel :: "destination option"

datatype exn = Protocol_error keryx_error | Type_error string

definition keryx_protocol_error ::
  "string \<Rightarrow> string \<Rightarrow> keryx_operation \<Rightarrow> bool \<Rightarrow> bool \<Rightarrow> keryx_error" where
  "keryx_protocol_error code message operation retryable fatal =
     \<lparr>err_code = code, err_message = message, err_operation = operation,
      err_retryable = retryable, err_fatal = fatal, err_channel = None\<rparr>"

definition js_int :: "int \<Rightarrow> json" where
  "js_int n = JNum (Fin (of_int n))"

definition keryx_protocol :: json where
  "keryx_protocol = js_int 3"

text \<open>\<open>/^[a-z][a-z0-9._:-]{1,127}$/\<close>\<close>

definition command_char :: "char \<Rightarrow> bool" where
  "command_char c \<longleftrightarrow> is_lower c \<or> is_digit c \<or> c \<in> {CHR ''.'', CHR ''_'', CHR '':'', CHR ''-''}"

definition command_name_ok :: "string \<Rightarrow> bool" where
  "command_name_ok = name_pattern is_lower command_char 1 127"

definition parse_ping :: "json \<Rightarrow> exn + client_frame" where
  "parse_ping frame =
     (if jfield frame ''id'' \<noteq> None \<and> \<not> is_string (jfield frame ''id'') then
        Inl (Protocol_error (keryx_protocol_error ''invalid_frame''
          ''Ping identifiers must be strings.'' Op_receive False False))
      else Inr (Ping (opt_string (jfield frame ''id''))))"

definition parse_command :: "json \<Rightarrow> exn + client_frame" where
  "parse_command frame = (case opt_string (jfield frame ''id'') of
     None \<Rightarrow> Inl (Protocol_error (keryx_protocol_error ''invalid_frame''
       ''Command identifiers must be non-empty strings of at most 200 characters.''
       Op_command False False))
   | Some ident \<Rightarrow>
     if length ident = 0 \<or> length ident > 200 then
       Inl (Protocol_error (keryx_protocol_error ''invalid_frame''
         ''Command identifiers must be non-empty strings of at most 200 characters.''
         Op_command False False))
     else (case opt_string (jfield frame ''command'') of
       None \<Rightarrow> Inl (Protocol_error (keryx_protocol_error ''invalid_frame''
         ''The command name is invalid.'' Op_command False False))
     | Some command \<Rightarrow>
       if \<not> command_name_ok command then
         Inl (Protocol_error (keryx_protocol_error ''invalid_frame''
           ''The command name is invalid.'' Op_command False False))
       else (case assert_json_opt (jfield frame ''payload'') of
         Inl message \<Rightarrow> Inl (Type_error message)
       | Inr _ \<Rightarrow> Inr (Command ident command (opt_json (jfield frame ''payload''))))))"

definition parse_channel_frame :: "bool \<Rightarrow> json \<Rightarrow> exn + client_frame" where
  "parse_channel_frame subscribe frame = (case normalize_destination (jfield frame ''channel'') of
     Inl _ \<Rightarrow> Inl (Protocol_error (keryx_protocol_error ''invalid_channel''
       ''The frame contains an invalid channel.''
       (if subscribe then Op_subscribe else Op_unsubscribe) False False))
   | Inr channel \<Rightarrow> Inr (if subscribe then Subscribe channel else Unsubscribe channel))"

definition parse_client_frame :: "json option \<Rightarrow> exn + client_frame" where
  "parse_client_frame text = (case text of
     None \<Rightarrow> Inl (Protocol_error (keryx_protocol_error ''invalid_json''
       ''The frame must contain valid JSON.'' Op_receive False True))
   | Some frame \<Rightarrow>
     if frame = JNull then Inl (Type_error ''Cannot read properties of null'')
     else if jfield frame ''protocol'' \<noteq> Some keryx_protocol then
       Inl (Protocol_error (keryx_protocol_error ''unsupported_protocol''
         ''Keryx protocol 3 is required.'' Op_receive False True))
     else if jfield frame ''type'' = Some (JStr ''ping'') then parse_ping frame
     else if jfield frame ''type'' = Some (JStr ''command'') then parse_command frame
     else if jfield frame ''type'' \<noteq> Some (JStr ''subscribe'') \<and>
             jfield frame ''type'' \<noteq> Some (JStr ''unsubscribe'') then
       Inl (Protocol_error (keryx_protocol_error ''unsupported_operation''
         ''The frame operation is not supported.'' Op_receive False False))
     else parse_channel_frame (jfield frame ''type'' = Some (JStr ''subscribe'')) frame)"

subsection \<open>Published messages\<close>

record broadcast_message =
  msg_id :: string
  msg_event :: string
  msg_channels :: "destination list"
  msg_data :: json
  msg_occurred_at :: string

text \<open>\<open>/^[A-Za-z0-9][A-Za-z0-9_.:/-]{0,199}$/\<close>\<close>

definition event_char :: "char \<Rightarrow> bool" where
  "event_char c \<longleftrightarrow> is_alnum c \<or> c \<in> {CHR ''_'', CHR ''.'', CHR '':'', CHR ''/'', CHR ''-''}"

definition event_name_ok :: "string \<Rightarrow> bool" where
  "event_name_ok = name_pattern is_alnum event_char 0 199"

text \<open>
  \<open>date_ok s\<close> is \<open>Number.isFinite(Date.parse(s))\<close>: which texts a date parser takes is the
  host's matter, and no property depends on it.
\<close>

definition parse_published_message :: "(string \<Rightarrow> bool) \<Rightarrow> json option \<Rightarrow> string + broadcast_message" where
  "parse_published_message date_ok v = (case v of
     None \<Rightarrow> Inl ''Published message must be an object.''
   | Some value \<Rightarrow>
     if \<not> is_record value then Inl ''Published message must be an object.''
     else (case opt_string (jfield value ''id'') of
       None \<Rightarrow> Inl ''Published message id is required.''
     | Some ident \<Rightarrow>
       if length ident = 0 \<or> length ident > 200 then Inl ''Published message id is required.''
       else (case opt_string (jfield value ''event'') of
         None \<Rightarrow> Inl ''Published event name is invalid.''
       | Some event \<Rightarrow>
         if \<not> event_name_ok event then Inl ''Published event name is invalid.''
         else (case opt_array (jfield value ''channels'') of
           None \<Rightarrow> Inl ''Published message channels are required.''
         | Some channels \<Rightarrow>
           if length channels = 0 then Inl ''Published message channels are required.''
           else (case opt_string (jfield value ''occurredAt'') of
             None \<Rightarrow> Inl ''Published occurrence time is invalid.''
           | Some occurred_at \<Rightarrow>
             if \<not> date_ok occurred_at then Inl ''Published occurrence time is invalid.''
             else res_bind (assert_json_opt (jfield value ''data'')) (\<lambda>_.
               res_bind (map_res (\<lambda>c. normalize_destination (Some c)) channels) (\<lambda>destinations.
                 Inr \<lparr>msg_id = ident, msg_event = event, msg_channels = destinations,
                      msg_data = opt_json (jfield value ''data''),
                      msg_occurred_at = occurred_at\<rparr>)))))))"

text \<open>How the sender writes a destination and a message as JSON objects.\<close>

definition destination_json :: "destination \<Rightarrow> json" where
  "destination_json d = JObj [(''name'', JStr (dest_name d)), (''kind'', dest_kind d)]"

definition message_json :: "broadcast_message \<Rightarrow> json" where
  "message_json m = JObj [
     (''id'', JStr (msg_id m)), (''event'', JStr (msg_event m)),
     (''channels'', JArr (map destination_json (msg_channels m))),
     (''data'', msg_data m), (''occurredAt'', JStr (msg_occurred_at m))]"

subsection \<open>Facts about destinations, frames and messages\<close>

lemma channel_name_chars: "channel_name_ok s \<Longrightarrow> c \<in> set s \<Longrightarrow> channel_char c"
  by (auto simp: channel_name_ok_def channel_char_def list_all_iff split: list.splits)

lemma channel_char_not_space: "channel_char c \<Longrightarrow> \<not> is_space c"
  by (auto simp: channel_char_def is_space_def char_class_defs)

lemma js_trim_channel_name [simp]: "channel_name_ok s \<Longrightarrow> js_trim s = s"
  by (rule js_trim_none) (blast dest: channel_name_chars channel_char_not_space)

lemma validate_channel_name_ok [simp]:
  "channel_name_ok s \<Longrightarrow> validate_broadcast_channel_name s = Inr s"
  by (simp add: validate_broadcast_channel_name_def Let_def)

lemma validate_channel_name_Inr:
  "validate_broadcast_channel_name s = Inr n \<longleftrightarrow> channel_name_ok (js_trim s) \<and> n = js_trim s"
  by (auto simp: validate_broadcast_channel_name_def Let_def)

lemma text_among_None_kinds: "\<not> text_among None channel_kinds" "\<not> text_among None actor_kinds"
  by (simp_all add: text_among_def js_text_opt_def channel_kinds_def actor_kinds_def)

lemma normalize_destination_Inr:
  "normalize_destination v = Inr d \<longleftrightarrow>
     (\<exists>kvs name. v = Some (JObj kvs) \<and> map_of kvs ''name'' = Some (JStr name) \<and>
       map_of kvs ''kind'' = Some (dest_kind d) \<and>
       text_among (Some (dest_kind d)) channel_kinds \<and>
       validate_broadcast_channel_name name = Inr (dest_name d))"
  (is "?l = ?r")
proof
  assume ?l
  then obtain kvs where v: "v = Some (JObj kvs)"
    by (auto simp: normalize_destination_def is_record_iff split: option.splits if_splits)
  with \<open>?l\<close> obtain kind where "map_of kvs ''kind'' = Some kind"
    by (cases "map_of kvs ''kind''") (auto simp: normalize_destination_def text_among_None_kinds)
  with \<open>?l\<close> v show ?r
    by (auto simp: normalize_destination_def opt_string_Some_iff split: option.splits if_splits)
next
  assume ?r
  then show ?l by (auto simp: normalize_destination_def)
qed

lemma normalize_destination_ok: "normalize_destination v = Inr d \<Longrightarrow> destination_ok d"
  by (auto simp: normalize_destination_Inr destination_ok_def validate_channel_name_Inr)

lemma normalize_destination_json [simp]:
  "destination_ok d \<Longrightarrow> normalize_destination (Some (destination_json d)) = Inr d"
  by (simp add: normalize_destination_Inr destination_json_def destination_ok_def)

lemma destination_ok_text:
  "destination_ok d \<Longrightarrow> \<exists>k\<in>set channel_kinds. js_text (dest_kind d) = Some k"
  by (auto simp: destination_ok_def text_among_def js_text_opt_def split: option.splits)

lemma channel_kinds_no_colon: "k \<in> set channel_kinds \<Longrightarrow> CHR '':'' \<notin> set k"
  by (auto simp: channel_kinds_def)

lemma destination_key_text:
  "js_text (dest_kind d) = Some k \<Longrightarrow> destination_key d = k @ '':'' @ dest_name d"
  by (simp add: destination_key_def text_of_def)

text \<open>
  Subscriptions are keyed by the text \<open>kind:name\<close>. For any two destinations
  the server's normalisation lets through, equal keys mean the same channel: the same name and
  kinds that read as the same one of the three names, whatever colons the names hold.
\<close>

theorem destination_key_injective:
  assumes "normalize_destination v = Inr d" and "normalize_destination v' = Inr d'"
    and "destination_key d = destination_key d'"
  shows "dest_name d = dest_name d' \<and> js_text (dest_kind d) = js_text (dest_kind d')"
proof -
  from assms(1,2) have "destination_ok d" and "destination_ok d'"
    by (auto intro: normalize_destination_ok)
  then obtain k k' where k: "js_text (dest_kind d) = Some k" "k \<in> set channel_kinds"
    and k': "js_text (dest_kind d') = Some k'" "k' \<in> set channel_kinds"
    by (auto dest!: destination_ok_text)
  from assms(3) have "k @ CHR '':'' # dest_name d = k' @ CHR '':'' # dest_name d'"
    by (simp add: destination_key_text [OF k(1)] destination_key_text [OF k'(1)])
  with append_sep_inj [OF channel_kinds_no_colon [OF k(2)] channel_kinds_no_colon [OF k'(2)]]
  have "k = k' \<and> dest_name d = dest_name d'" .
  with k(1) k'(1) show ?thesis by simp
qed

theorem destination_key_injective_witness:
  "js_text (JStr ''private'') = js_text (JArr [JStr ''private''])"
proof -
  let ?v = "Some (JObj [(''kind'', JStr ''private''), (''name'', JStr ''a:b'')])"
    and ?v' = "Some (JObj [(''kind'', JArr [JStr ''private'']), (''name'', JStr '' a:b'')])"
  have 1: "normalize_destination ?v = Inr \<lparr>dest_name = ''a:b'', dest_kind = JStr ''private''\<rparr>"
    by code_simp
  have 2: "normalize_destination ?v' = Inr \<lparr>dest_name = ''a:b'', dest_kind = JArr [JStr ''private'']\<rparr>"
    by code_simp
  from destination_key_injective [OF 1 2] show ?thesis by (simp add: destination_key_def text_of_def)
qed

subsection \<open>What an accepted client frame guarantees\<close>

fun client_frame_ok :: "client_frame \<Rightarrow> bool" where
  "client_frame_ok (Subscribe d) = destination_ok d"
| "client_frame_ok (Unsubscribe d) = destination_ok d"
| "client_frame_ok (Ping i) = True"
| "client_frame_ok (Command i c p) =
     (0 < length i \<and> length i \<le> 200 \<and> command_name_ok c \<and> json_depth p \<le> 100 \<and> json_finite p)"

lemma assert_json_0: "assert_json 0 v = Inr () \<longleftrightarrow> json_depth v \<le> 100 \<and> json_finite v"
  using assert_json_correct_aux(1) [of 0 v] by simp

text \<open>
  \<open>assertJson\<close>, run at any depth, accepts a value exactly when the value fits in what is
  left of the hundred levels of nesting and holds no infinite number anywhere.
\<close>

theorem assert_json_correct:
  "assert_json depth v = Inr () \<longleftrightarrow> depth + json_depth v \<le> 100 \<and> json_finite v"
  by (rule assert_json_correct_aux(1))

lemma assert_json_opt_Inr:
  "assert_json_opt v = Inr u \<longleftrightarrow> (\<exists>j. v = Some j \<and> json_depth j \<le> 100 \<and> json_finite j)"
  by (cases u) (auto simp: assert_json_opt_def assert_json_0 split: option.splits)

lemma assert_json_messages:
  "assert_json d v = Inl m \<Longrightarrow>
     m \<in> {''Published data must be JSON.'', ''Published data is nested too deeply.''}"
  "assert_json_items d xs = Inl m \<Longrightarrow>
     m \<in> {''Published data must be JSON.'', ''Published data is nested too deeply.''}"
  "assert_json_values d kvs = Inl m \<Longrightarrow>
     m \<in> {''Published data must be JSON.'', ''Published data is nested too deeply.''}"
proof (induction d v and d xs and d kvs rule: assert_json_assert_json_items_assert_json_values.induct)
  case (1 depth v)
  then show ?case by (auto simp: assert_json.simps split: if_splits json.splits jsnum.splits)
qed (auto simp: res_bind_Inl_iff)

lemma assert_json_opt_messages:
  "assert_json_opt v = Inl m \<Longrightarrow>
     m \<in> {''Published data must be JSON.'', ''Published data is nested too deeply.''}"
  by (auto simp: assert_json_opt_def dest!: assert_json_messages(1) split: option.splits)

lemma parse_client_frame_Inr_ok: "parse_client_frame text = Inr frame \<Longrightarrow> client_frame_ok frame"
  by (auto simp: parse_client_frame_def Let_def assert_json_0 normalize_destination_ok
      parse_ping_def parse_command_def parse_channel_frame_def assert_json_opt_Inr
      split: option.splits if_splits sum.splits)

lemma parse_client_frame_error_shape:
  "parse_client_frame text = Inl (Protocol_error e) \<Longrightarrow>
     (err_fatal e \<longleftrightarrow> err_code e \<in> {''invalid_json'', ''unsupported_protocol''}) \<and>
     \<not> err_retryable e \<and> err_channel e = None"
  by (auto simp: parse_client_frame_def Let_def keryx_protocol_error_def
      parse_ping_def parse_command_def parse_channel_frame_def assert_json_opt_Inr
      split: option.splits if_splits sum.splits)

text \<open>
  Whatever text arrives, a frame the server takes is well formed: its channel has a
  valid trimmed name of at most 200 characters and one of the three kinds, a command has an
  identifier of 1 to 200 characters, a name of the declared shape and a payload that is finite
  JSON at most one hundred levels deep. A frame it turns away with a protocol error is never
  marked retryable, and is fatal to the connection exactly when it was no JSON or named
  another protocol version.
\<close>

theorem parse_client_frame_contract:
  "case parse_client_frame text of
     Inr frame \<Rightarrow> client_frame_ok frame
   | Inl (Protocol_error e) \<Rightarrow>
       \<not> err_retryable e \<and> (err_fatal e \<longleftrightarrow> err_code e \<in> {''invalid_json'', ''unsupported_protocol''})
   | Inl (Type_error message) \<Rightarrow>
       message \<in> {''Cannot read properties of null'', ''Published data must be JSON.'',
                   ''Published data is nested too deeply.''}"
proof (cases "parse_client_frame text")
  case (Inl e)
  show ?thesis
  proof (cases e)
    case (Protocol_error k)
    with Inl show ?thesis using parse_client_frame_error_shape by (auto split: exn.splits)
  next
    case (Type_error m)
    with Inl show ?thesis
      by (auto simp: parse_client_frame_def parse_ping_def parse_command_def parse_channel_frame_def
          dest: assert_json_opt_messages split: option.splits if_splits sum.splits)
  qed
next
  case (Inr frame)
  with parse_client_frame_Inr_ok show ?thesis by simp
qed

subsection \<open>What an accepted message guarantees\<close>

definition message_ok :: "(string \<Rightarrow> bool) \<Rightarrow> broadcast_message \<Rightarrow> bool" where
  "message_ok date_ok m \<longleftrightarrow>
     0 < length (msg_id m) \<and> length (msg_id m) \<le> 200 \<and> event_name_ok (msg_event m) \<and>
     msg_channels m \<noteq> [] \<and> list_all destination_ok (msg_channels m) \<and>
     date_ok (msg_occurred_at m) \<and> json_depth (msg_data m) \<le> 100 \<and> json_finite (msg_data m)"

lemma parse_published_message_Inr_ok:
  assumes "parse_published_message date_ok v = Inr m"
  shows "message_ok date_ok m"
proof -
  have "list_all destination_ok ds"
    if "map_res (\<lambda>c. normalize_destination (Some c)) cs = Inr ds" for cs ds
    using that by (auto simp: map_res_Inr_iff list_all2_conv_all_nth list_all_length
        intro: normalize_destination_ok)
  moreover have "length ds = length cs"
    if "map_res (\<lambda>c. normalize_destination (Some c)) cs = Inr ds" for cs ds
    using that by (rule map_res_length)
  ultimately show ?thesis using assms
    by (fastforce simp: parse_published_message_def message_ok_def assert_json_opt_Inr
        split: option.splits if_splits)
qed

lemma parse_message_json:
  assumes "message_ok date_ok m"
  shows "parse_published_message date_ok (Some (message_json m)) = Inr m"
proof -
  have "map_res (\<lambda>c. normalize_destination (Some c)) (map destination_json (msg_channels m)) =
      Inr (msg_channels m)"
    using assms by (auto simp: map_res_Inr_iff list_all2_conv_all_nth message_ok_def list_all_length)
  moreover have "assert_json_opt (Some (msg_data m)) = Inr ()"
    using assms by (simp add: assert_json_opt_Inr message_ok_def)
  ultimately show ?thesis using assms
    by (simp add: parse_published_message_def message_json_def message_ok_def)
qed

text \<open>
  A published message that one process has accepted is accepted unchanged by the
  next: writing it as JSON and parsing it again gives the same message, so the checks of the
  publisher, of the HTTP endpoint and of the Redis subscribers agree and never alter a channel.
\<close>

theorem published_message_stable:
  assumes "parse_published_message date_ok v = Inr m"
  shows "parse_published_message date_ok (Some (message_json m)) = Inr m"
  using assms by (intro parse_message_json parse_published_message_Inr_ok)

theorem published_message_stable_witness:
  "parse_published_message (\<lambda>_. True) (Some (message_json
     \<lparr>msg_id = ''1'', msg_event = ''e'', msg_channels = [\<lparr>dest_name = ''a'', dest_kind = JStr ''public''\<rparr>],
      msg_data = JNull, msg_occurred_at = ''now''\<rparr>)) =
   Inr \<lparr>msg_id = ''1'', msg_event = ''e'', msg_channels = [\<lparr>dest_name = ''a'', dest_kind = JStr ''public''\<rparr>],
      msg_data = JNull, msg_occurred_at = ''now''\<rparr>"
proof (rule published_message_stable)
  show "parse_published_message (\<lambda>_. True) (Some (JObj [(''id'', JStr ''1''), (''event'', JStr ''e''),
      (''channels'', JArr [JObj [(''name'', JStr '' a ''), (''kind'', JStr ''public'')]]),
      (''data'', JNull), (''occurredAt'', JStr ''now'')])) =
    Inr \<lparr>msg_id = ''1'', msg_event = ''e'', msg_channels = [\<lparr>dest_name = ''a'', dest_kind = JStr ''public''\<rparr>],
      msg_data = JNull, msg_occurred_at = ''now''\<rparr>"
    by code_simp
qed

end
