(* ===== verification/PublishAuth.thy ===== *)
theory PublishAuth
  imports Ledger
begin

text \<open>
  \<open>KeryxPublishAuthenticator\<close> of \<open>packages/keryx/src/security.ts\<close>: the headers a publisher
  signs a request with and the check the server makes, with its memory of used nonces.

  The hash, the keyed hash and the conversions between numbers and their text are host
  functions, arguments of the definitions. A header that is absent or empty is missing to the
  code, which tests for truth.
\<close>

record publish_host =
  sha256_hex :: "string \<Rightarrow> string"
  hmac_sha256_hex :: "string \<Rightarrow> string \<Rightarrow> string"
  number_of :: "string \<Rightarrow> rat option"
  text_of_int :: "int \<Rightarrow> string"

record authenticator =
  auth_key :: string
  auth_secret :: string
  auth_skew_seconds :: int

record publish_request =
  req_method :: string
  req_path :: string
  req_key :: "string option"
  req_timestamp :: "string option"
  req_nonce :: "string option"
  req_signature :: "string option"
  req_body :: string

record auth_error =
  auth_code :: string
  auth_status :: int

type_synonym nonces = "(string, int) omap"

definition new_authenticator :: "string \<Rightarrow> string \<Rightarrow> int \<Rightarrow> string + authenticator" where
  "new_authenticator key secret skew =
     (if key = [] then Inl ''Keryx publish key is required.''
      else if length secret < 32 then Inl ''Keryx publish secret must contain at least 32 characters.''
      else Inr \<lparr>auth_key = key, auth_secret = secret, auth_skew_seconds = skew\<rparr>)"

text \<open>\<open>toUpperCase\<close> of a request method, a token of ASCII characters.\<close>

definition upper_char :: "char \<Rightarrow> char" where
  "upper_char c = (if is_lower c then char_of (of_char c - 32 :: nat) else c)"

fun join :: "string \<Rightarrow> string list \<Rightarrow> string" where
  "join sep [] = []"
| "join sep [x] = x"
| "join sep (x # y # ys) = x @ sep @ join sep (y # ys)"

definition newline :: string where
  "newline = [CHR 0x0A]"

definition canonical_request ::
  "publish_host \<Rightarrow> string \<Rightarrow> string \<Rightarrow> string \<Rightarrow> string \<Rightarrow> string \<Rightarrow> string" where
  "canonical_request h method path timestamp nonce body =
     join newline [map upper_char method, path, timestamp, nonce, sha256_hex h body]"

definition signature ::
  "publish_host \<Rightarrow> string \<Rightarrow> string \<Rightarrow> string \<Rightarrow> string \<Rightarrow> string \<Rightarrow> string \<Rightarrow> string" where
  "signature h secret method path timestamp nonce body =
     hmac_sha256_hex h secret (canonical_request h method path timestamp nonce body)"

text \<open>
  \<open>headers(method, path, body)\<close> with the clock at \<open>now\<close> milliseconds and \<open>uuid\<close> the fresh
  nonce, as the request the server then sees.
\<close>

definition headers ::
  "publish_host \<Rightarrow> authenticator \<Rightarrow> int \<Rightarrow> string \<Rightarrow> string \<Rightarrow> string \<Rightarrow> string \<Rightarrow> publish_request" where
  "headers h a now uuid method path body =
     (let timestamp = text_of_int h (now div 1000) in
      \<lparr>req_method = method, req_path = path,
       req_key = Some (auth_key a),
       req_timestamp = Some timestamp,
       req_nonce = Some uuid,
       req_signature = Some (signature h (auth_secret a) method path timestamp uuid body),
       req_body = body\<rparr>)"

definition missing :: "string option \<Rightarrow> bool" where
  "missing v \<longleftrightarrow> v = None \<or> v = Some []"

text \<open>\<open>Number.isSafeInteger\<close>, giving the integer.\<close>

definition safe_integer :: "rat option \<Rightarrow> int option" where
  "safe_integer v = (case v of
     None \<Rightarrow> None
   | Some q \<Rightarrow> if of_int \<lfloor>q\<rfloor> = q \<and> \<bar>\<lfloor>q\<rfloor>\<bar> \<le> 9007199254740991 then Some \<lfloor>q\<rfloor> else None)"

definition prune_nonces :: "int \<Rightarrow> nonces \<Rightarrow> nonces" where
  "prune_nonces now_seconds m = om_prune (\<lambda>n expires_at. expires_at < now_seconds) m"

definition auth_fail :: "string \<Rightarrow> int \<Rightarrow> auth_error" where
  "auth_fail code status = \<lparr>auth_code = code, auth_status = status\<rparr>"

text \<open>
  \<open>verify(request, body)\<close>: its checks in the order of the code. The memory of nonces is pruned
  once the time stamp is accepted, even if the request is then turned away.
\<close>

definition verify ::
  "publish_host \<Rightarrow> authenticator \<Rightarrow> int \<Rightarrow> publish_request \<Rightarrow> nonces \<Rightarrow> (auth_error + unit) \<times> nonces" where
  "verify h a now r m =
     (if missing (req_key r) \<or> missing (req_timestamp r) \<or> missing (req_nonce r) \<or>
         missing (req_signature r)
      then (Inl (auth_fail ''publish_authentication_required'' 401), m)
      else if the (req_key r) \<noteq> auth_key a
      then (Inl (auth_fail ''publish_key_invalid'' 401), m)
      else (let now_seconds = now div 1000 in
        case safe_integer (number_of h (the (req_timestamp r))) of
          None \<Rightarrow> (Inl (auth_fail ''publish_timestamp_invalid'' 401), m)
        | Some timestamp_seconds \<Rightarrow>
          if \<bar>now_seconds - timestamp_seconds\<bar> > auth_skew_seconds a
          then (Inl (auth_fail ''publish_timestamp_invalid'' 401), m)
          else (let m' = prune_nonces now_seconds m in
            if om_has m' (the (req_nonce r))
            then (Inl (auth_fail ''publish_replay_detected'' 409), m')
            else if the (req_signature r) \<noteq>
                signature h (auth_secret a) (req_method r) (req_path r) (the (req_timestamp r))
                  (the (req_nonce r)) (req_body r)
            then (Inl (auth_fail ''publish_signature_invalid'' 401), m')
            else (Inr (), om_set (the (req_nonce r)) (timestamp_seconds + auth_skew_seconds a) m'))))"

subsection \<open>The nonces are a ledger\<close>

definition timestamp_seconds :: "publish_host \<Rightarrow> publish_request \<Rightarrow> int option" where
  "timestamp_seconds h r = safe_integer (number_of h (the (req_timestamp r)))"

definition publish_step ::
  "publish_host \<Rightarrow> authenticator \<Rightarrow> int \<times> publish_request \<Rightarrow> nonces \<Rightarrow> bool \<times> nonces" where
  "publish_step h a e m = (case verify h a (fst e) (snd e) m of (r, m') \<Rightarrow> (r = Inr (), m'))"

definition publish_until :: "publish_host \<Rightarrow> authenticator \<Rightarrow> int \<times> publish_request \<Rightarrow> int" where
  "publish_until h a e =
     (case timestamp_seconds h (snd e) of None \<Rightarrow> 0 | Some t \<Rightarrow> t) + auth_skew_seconds a"

lemma verify_accepts:
  "fst (verify h a now r m) = Inr () \<longleftrightarrow>
     \<not> missing (req_key r) \<and> \<not> missing (req_timestamp r) \<and> \<not> missing (req_nonce r) \<and>
     \<not> missing (req_signature r) \<and> the (req_key r) = auth_key a \<and>
     (\<exists>t. timestamp_seconds h r = Some t \<and> \<bar>now div 1000 - t\<bar> \<le> auth_skew_seconds a) \<and>
     \<not> om_has (prune_nonces (now div 1000) m) (the (req_nonce r)) \<and>
     the (req_signature r) = signature h (auth_secret a) (req_method r) (req_path r)
       (the (req_timestamp r)) (the (req_nonce r)) (req_body r)"
  by (auto simp: verify_def timestamp_seconds_def Let_def split: option.splits)

lemma verify_state:
  "snd (verify h a now r m) =
     (if fst (verify h a now r m) = Inr ()
      then om_set (the (req_nonce r)) (publish_until h a (now, r)) (prune_nonces (now div 1000) m)
      else if snd (verify h a now r m) = m then m else prune_nonces (now div 1000) m)"
  by (auto simp: verify_def timestamp_seconds_def publish_until_def Let_def split: option.splits)

lemma prune_nonces_ok [simp]: "om_ok m \<Longrightarrow> om_ok (prune_nonces t m)"
  by (simp add: prune_nonces_def)

lemma prune_nonces_keeps:
  "om_ok m \<Longrightarrow> entry_until m k u \<Longrightarrow> t \<le> u \<Longrightarrow> entry_until (prune_nonces t m) k u"
  by (simp add: prune_nonces_def entry_until_prune)

lemma publish_step_taken:
  "fst (publish_step h a e m) \<longleftrightarrow> fst (verify h a (fst e) (snd e) m) = Inr ()"
  by (simp add: publish_step_def split_beta)

lemma publish_step_state: "snd (publish_step h a e m) = snd (verify h a (fst e) (snd e) m)"
  by (simp add: publish_step_def split_beta)

interpretation publish: once_ledger "publish_step h a"
    "\<lambda>e. fst e div 1000" "\<lambda>e. the (req_nonce (snd e))" "publish_until h a" "(\<le>)" entry_until om_ok
  for h a
proof unfold_locales
  fix e :: "int \<times> publish_request" and m :: nonces and k :: string and u :: int
  assume ok: "om_ok m"
  show "om_ok (snd (publish_step h a e m))"
    using ok by (subst publish_step_state, subst verify_state) simp
  {
    assume "fst (publish_step h a e m)"
    then show "entry_until (snd (publish_step h a e m)) (the (req_nonce (snd e))) (publish_until h a e)"
      by (simp add: publish_step_taken publish_step_state entry_until_def
          verify_state [of h a "fst e" "snd e" m])
  next
    assume "entry_until m (the (req_nonce (snd e))) u" and "fst e div 1000 \<le> u"
    with ok have "om_has (prune_nonces (fst e div 1000) m) (the (req_nonce (snd e)))"
      by (auto dest!: prune_nonces_keeps simp: entry_until_def om_has_get)
    then show "\<not> fst (publish_step h a e m)"
      by (simp add: publish_step_taken verify_accepts)
  next
    assume k: "entry_until m k u" and u: "fst e div 1000 \<le> u"
    with ok have p: "entry_until (prune_nonces (fst e div 1000) m) k u"
      by (rule prune_nonces_keeps)
    have "the (req_nonce (snd e)) \<noteq> k" if "fst (verify h a (fst e) (snd e) m) = Inr ()"
      using that p by (auto simp: verify_accepts entry_until_def om_has_get)
    with k p show "entry_until (snd (publish_step h a e m)) k u"
      by (subst publish_step_state, subst verify_state) (auto intro: entry_until_set_other)
  }
qed simp

subsection \<open>Properties\<close>

lemma sorted_seconds: "sorted (map fst es) \<Longrightarrow> sorted (map (\<lambda>e. fst e div 1000) es)"
  for es :: "(int \<times> 'b) list"
  by (auto simp: sorted_iff_nth_mono intro!: zdiv_mono1)

lemma publish_until_same_timestamp:
  "req_timestamp (snd e) = req_timestamp (snd e') \<Longrightarrow> publish_until h a e = publish_until h a e'"
  by (simp add: publish_until_def timestamp_seconds_def)


text \<open>
  What a publisher signs, the server accepts: headers made with the server's key and
  secret pass when they arrive within the clock skew, with a nonce the server does not remember,
  provided the host reads a number back from the text it printed for it.
\<close>

theorem signed_headers_accepted:
  assumes "new_authenticator key secret skew = Inr a" and "uuid \<noteq> []"
    and "number_of h (text_of_int h (sent div 1000)) = Some (of_int (sent div 1000))"
    and "text_of_int h (sent div 1000) \<noteq> []"
    and "signature h secret method path (text_of_int h (sent div 1000)) uuid body \<noteq> []"
    and "\<bar>sent div 1000\<bar> \<le> 9007199254740991"
    and "\<bar>now div 1000 - sent div 1000\<bar> \<le> skew"
    and "\<not> om_has m uuid"
  shows "verify h a now (headers h a sent uuid method path body) m =
    (Inr (), om_set uuid (sent div 1000 + skew) (prune_nonces (now div 1000) m))"
proof -
  from assms(1) have a: "auth_key a = key" "auth_secret a = secret" "auth_skew_seconds a = skew" "key \<noteq> []"
    by (auto simp: new_authenticator_def split: if_splits)
  have "\<not> om_has (prune_nonces (now div 1000) m) uuid"
    using assms(8) by (auto simp: prune_nonces_def dest: om_has_prune_mono)
  then show ?thesis using assms(2-7) a
    by (simp add: verify_def headers_def missing_def safe_integer_def Let_def)
qed

lemma join_newline_inj:
  "CHR 0x0A \<notin> set x \<Longrightarrow> CHR 0x0A \<notin> set x' \<Longrightarrow>
     x @ newline @ r = x' @ newline @ r' \<Longrightarrow> x = x' \<and> r = r'"
  by (rule append_sep_inj [of "CHR 0x0A"]) (simp_all add: newline_def)

text \<open>
  The text that is signed determines the request: when no part holds a line break
  (as no header, method or path can), two requests with the same canonical text have the same
  method up to case, path, time stamp, nonce and body hash. Parts cannot be shifted from one
  field into the next.
\<close>

theorem canonical_request_injective:
  assumes "canonical_request h method path ts nonce body =
      canonical_request h method' path' ts' nonce' body'"
    and "CHR 0x0A \<notin> set (map upper_char method) \<union> set path \<union> set ts \<union> set nonce"
    and "CHR 0x0A \<notin> set (map upper_char method') \<union> set path' \<union> set ts' \<union> set nonce'"
  shows "map upper_char method = map upper_char method' \<and> path = path' \<and> ts = ts' \<and> nonce = nonce' \<and>
    sha256_hex h body = sha256_hex h body'"
proof -
  from assms have 1: "map upper_char method = map upper_char method' \<and>
      path @ newline @ ts @ newline @ nonce @ newline @ sha256_hex h body =
      path' @ newline @ ts' @ newline @ nonce' @ newline @ sha256_hex h body'"
    by (intro join_newline_inj) (simp_all add: canonical_request_def)
  with assms have 2: "path = path' \<and>
      ts @ newline @ nonce @ newline @ sha256_hex h body =
      ts' @ newline @ nonce' @ newline @ sha256_hex h body'"
    by (intro join_newline_inj) simp_all
  with assms have 3: "ts = ts' \<and>
      nonce @ newline @ sha256_hex h body = nonce' @ newline @ sha256_hex h body'"
    by (intro join_newline_inj) simp_all
  with assms have "nonce = nonce' \<and> sha256_hex h body = sha256_hex h body'"
    by (intro join_newline_inj) simp_all
  with 1 2 3 show ?thesis by simp
qed

subsection \<open>Witnesses\<close>

text \<open>A host whose hash and text functions are simple enough to evaluate by hand.\<close>

definition plain_host :: publish_host where
  "plain_host = \<lparr>sha256_hex = (\<lambda>s. s), hmac_sha256_hex = (\<lambda>k s. k @ s),
     number_of = (\<lambda>s. if s = ''60'' then Some 60 else None), text_of_int = (\<lambda>n. ''60'')\<rparr>"

definition plain_secret :: string where
  "plain_secret = ''0123456789abcdef0123456789abcdef''"

definition plain_authenticator :: authenticator where
  "plain_authenticator = \<lparr>auth_key = ''k'', auth_secret = plain_secret, auth_skew_seconds = 60\<rparr>"

definition plain_request :: publish_request where
  "plain_request = headers plain_host plain_authenticator 60000 ''n1'' ''POST'' ''/p'' ''b''"

lemmas plain_defs = plain_host_def plain_secret_def plain_authenticator_def plain_request_def

lemma plain_request_accepted:
  "publish_step plain_host plain_authenticator (60000, plain_request) [] = (True, [(''n1'', 120)])"
  by (simp add: publish_step_def verify_def headers_def plain_defs missing_def safe_integer_def
      prune_nonces_def om_prune_def signature_def canonical_request_def newline_def Let_def)


theorem signed_headers_accepted_witness:
  "verify plain_host plain_authenticator 61000
     (headers plain_host plain_authenticator 60000 ''n1'' ''POST'' ''/p'' ''b'') [] =
    (Inr (), om_set ''n1'' (60000 div 1000 + 60) (prune_nonces (61000 div 1000) []))"
  by (rule signed_headers_accepted [where key = "''k''" and secret = plain_secret])
     (simp_all add: new_authenticator_def plain_defs signature_def canonical_request_def newline_def)

lemma upper_post: "map upper_char ''post'' = ''POST''" "map upper_char ''POST'' = ''POST''"
  by code_simp+

theorem canonical_request_injective_witness:
  "map upper_char ''post'' = map upper_char ''POST'' \<and> ''/p'' = ''/p'' \<and> ''1'' = ''1'' \<and> ''n'' = ''n'' \<and>
    sha256_hex plain_host ''b'' = sha256_hex plain_host ''b''"
  by (rule canonical_request_injective)
     (simp_all add: canonical_request_def upper_post plain_host_def newline_def del: list.map)

end
