(* ===== verification/AdmissionTickets.thy ===== *)
theory AdmissionTickets
  imports Protocol PublishAuth
begin

text \<open>
  \<open>KeryxAdmissionTickets\<close> of \<open>packages/keryx/src/security.ts\<close>: the sealed ticket a browser
  presents to open a connection, with the serialisers and parsers of the parts it carries.

  AES-256-GCM, base64url, \<open>JSON\<close>, the text of an instant and the URL parser are host
  functions, the fields of \<open>ticket_host\<close>. Instants are counted in microseconds, the clock in
  milliseconds. Every \<open>TypeError\<close> is its message.
\<close>

subsection \<open>The parts of a ticket\<close>

record url =
  url_protocol :: string
  url_origin :: string
  url_username :: string
  url_password :: string

record ticket_host =
  derive_key :: "string \<Rightarrow> string"
  encrypt :: "string \<Rightarrow> string \<Rightarrow> string \<Rightarrow> string \<Rightarrow> string \<times> string"
  decrypt :: "string \<Rightarrow> string \<Rightarrow> string \<Rightarrow> string \<Rightarrow> string \<Rightarrow> string option"
  to_base64url :: "string \<Rightarrow> string"
  from_base64url :: "string \<Rightarrow> string"
  json_stringify :: "json \<Rightarrow> string"
  json_parse :: "string \<Rightarrow> json option"
  instant_text :: "int \<Rightarrow> string"
  instant_parse :: "string \<Rightarrow> int option"
  parse_url :: "string \<Rightarrow> url option"

record hop =
  hop_from :: actor
  hop_to :: actor
  hop_grant_id :: string
  hop_reason :: string
  hop_expires_at :: "int option"

record authentication =
  au_state :: json
  au_identity_id :: "string option"
  au_method :: "string option"
  au_assurance :: "json option"
  au_authenticated_at :: "int option"
  au_session_id :: "string option"
  au_impersonation_grant_id :: "string option"
  au_credential_id :: "string option"
  au_constraints :: "string list option"

record ticket_input =
  in_actor :: actor
  in_initiator :: "actor option"
  in_delegation :: "hop list option"
  in_authentication :: authentication
  in_tenant :: "string option"
  in_correlation_id :: string
  in_origin :: string

record admission =
  adm_ticket_id :: string
  adm_actor :: actor
  adm_initiator :: "actor option"
  adm_delegation :: "hop list option"
  adm_authentication :: authentication
  adm_tenant :: "string option"
  adm_correlation_id :: string
  adm_expires_at :: int

record tickets =
  tk_application_id :: string
  tk_key :: string
  tk_lifetime_ms :: int

definition new_tickets :: "ticket_host \<Rightarrow> string \<Rightarrow> string \<Rightarrow> int \<Rightarrow> string + tickets" where
  "new_tickets h application_id secret lifetime =
     (if application_id = [] then Inl ''Keryx application id is required.''
      else if length secret < 32 then Inl ''Keryx admission secret must contain at least 32 characters.''
      else if \<not> (lifetime \<le> 9007199254740991) \<or> lifetime \<le> 0
      then Inl ''Keryx admission ticket lifetime must be a positive integer.''
      else Inr \<lparr>tk_application_id = application_id, tk_key = derive_key h secret,
                tk_lifetime_ms = lifetime\<rparr>)"

subsection \<open>Field checks\<close>

definition non_empty_string :: "json option \<Rightarrow> string \<Rightarrow> string + string" where
  "non_empty_string v name = (case opt_string v of
     None \<Rightarrow> Inl (''Keryx admission ticket '' @ name @ '' is invalid.'')
   | Some s \<Rightarrow> if length s = 0 \<or> length s > 512
       then Inl (''Keryx admission ticket '' @ name @ '' is invalid.'') else Inr s)"

definition optional_string :: "json option \<Rightarrow> bool" where
  "optional_string v \<longleftrightarrow> v = None \<or> is_string v"

fun js_truthy :: "json \<Rightarrow> bool" where
  "js_truthy JNull = False"
| "js_truthy (JBool b) = b"
| "js_truthy (JNum n) = (n \<noteq> Fin 0)"
| "js_truthy (JStr s) = (s \<noteq> [])"
| "js_truthy _ = True"

definition truthy_json :: "json option \<Rightarrow> json option" where
  "truthy_json v = (case v of None \<Rightarrow> None | Some j \<Rightarrow> if js_truthy j then Some j else None)"

definition truthy_string :: "string option \<Rightarrow> string option" where
  "truthy_string v = (if v = Some [] then None else v)"

text \<open>\<open>...(v ? { key: v } : {})\<close>\<close>

definition opt_entry :: "string \<Rightarrow> json option \<Rightarrow> (string \<times> json) list" where
  "opt_entry k v = (case v of None \<Rightarrow> [] | Some j \<Rightarrow> [(k, j)])"

lemma map_of_opt_entry [simp]:
  "map_of (opt_entry k v @ kvs) k' =
     (if k = k' then (case v of None \<Rightarrow> map_of kvs k' | Some j \<Rightarrow> Some j) else map_of kvs k')"
  "map_of (opt_entry k v) k' = (if k = k' then v else None)"
  by (auto simp: opt_entry_def split: option.splits)

definition parse_ticket_actor :: "json option \<Rightarrow> string + actor" where
  "parse_ticket_actor v = (case v of
     None \<Rightarrow> Inl ''Keryx admission ticket actor is invalid.''
   | Some value \<Rightarrow>
     if \<not> is_record value \<or> \<not> text_among (jfield value ''kind'') actor_kinds \<or>
        (jfield value ''id'' \<noteq> None \<and> \<not> is_string (jfield value ''id''))
     then Inl ''Keryx admission ticket actor is invalid.''
     else Inr \<lparr>actor_kind = opt_json (jfield value ''kind''), actor_id = opt_string (jfield value ''id'')\<rparr>)"

definition parse_ticket_tenant :: "json option \<Rightarrow> string + string" where
  "parse_ticket_tenant v = (case v of
     None \<Rightarrow> Inl ''Keryx admission ticket tenant is invalid.''
   | Some value \<Rightarrow>
     if \<not> is_record value then Inl ''Keryx admission ticket tenant is invalid.''
     else non_empty_string (jfield value ''id'') ''tenant id'')"

definition tenant_json :: "string \<Rightarrow> json" where
  "tenant_json i = JObj [(''id'', JStr i)]"

subsection \<open>Delegation\<close>

definition serialize_ticket_hop :: "ticket_host \<Rightarrow> hop \<Rightarrow> string + json" where
  "serialize_ticket_hop h hp =
     res_bind (parse_ticket_actor (Some (actor_json (hop_from hp)))) (\<lambda>from.
     res_bind (parse_ticket_actor (Some (actor_json (hop_to hp)))) (\<lambda>to.
     res_bind (non_empty_string (Some (JStr (hop_grant_id hp))) ''delegation grant id'') (\<lambda>grant.
     res_bind (non_empty_string (Some (JStr (hop_reason hp))) ''delegation reason'') (\<lambda>reason.
       Inr (JObj ([(''from'', actor_json from), (''to'', actor_json to),
         (''grantId'', JStr grant), (''reason'', JStr reason)] @
         opt_entry ''expiresAt'' (map_option (\<lambda>t. JStr (instant_text h t)) (hop_expires_at hp))))))))"

definition serialize_ticket_delegation :: "ticket_host \<Rightarrow> hop list \<Rightarrow> string + json" where
  "serialize_ticket_delegation h delegation =
     (if length delegation > 16 then Inl ''Keryx admission ticket delegation is invalid.''
      else res_bind (map_res (serialize_ticket_hop h) delegation) (\<lambda>hops. Inr (JArr hops)))"

definition parse_ticket_hop :: "ticket_host \<Rightarrow> json \<Rightarrow> string + hop" where
  "parse_ticket_hop h entry =
     (if \<not> is_record entry then Inl ''Keryx admission ticket delegation is invalid.''
      else res_bind
        (case jfield entry ''expiresAt'' of
           None \<Rightarrow> Inr None
         | Some e \<Rightarrow> (case opt_string (Some e) of
             None \<Rightarrow> Inl ''Keryx admission ticket delegation is invalid.''
           | Some text \<Rightarrow> (case instant_parse h text of
               None \<Rightarrow> Inl ''Keryx admission ticket delegation is invalid.''
             | Some t \<Rightarrow> Inr (Some t)))) (\<lambda>expires_at.
        res_bind (parse_ticket_actor (jfield entry ''from'')) (\<lambda>from.
        res_bind (parse_ticket_actor (jfield entry ''to'')) (\<lambda>to.
        res_bind (non_empty_string (jfield entry ''grantId'') ''delegation grant id'') (\<lambda>grant.
        res_bind (non_empty_string (jfield entry ''reason'') ''delegation reason'') (\<lambda>reason.
          Inr \<lparr>hop_from = from, hop_to = to, hop_grant_id = grant, hop_reason = reason,
               hop_expires_at = expires_at\<rparr>))))))"

definition parse_ticket_delegation :: "ticket_host \<Rightarrow> json option \<Rightarrow> string + hop list" where
  "parse_ticket_delegation h v = (case opt_array v of
     None \<Rightarrow> Inl ''Keryx admission ticket delegation is invalid.''
   | Some entries \<Rightarrow>
     if length entries > 16 then Inl ''Keryx admission ticket delegation is invalid.''
     else map_res (parse_ticket_hop h) entries)"

subsection \<open>Authentication\<close>

definition serialize_ticket_authentication :: "ticket_host \<Rightarrow> authentication \<Rightarrow> json" where
  "serialize_ticket_authentication h a = JObj ((''state'', au_state a) #
     opt_entry ''identityId'' (map_option JStr (truthy_string (au_identity_id a))) @
     opt_entry ''method'' (map_option JStr (truthy_string (au_method a))) @
     opt_entry ''assurance'' (truthy_json (au_assurance a)) @
     opt_entry ''authenticatedAt'' (map_option (\<lambda>t. JStr (instant_text h t)) (au_authenticated_at a)) @
     opt_entry ''sessionId'' (map_option JStr (truthy_string (au_session_id a))) @
     opt_entry ''impersonationGrantId'' (map_option JStr (truthy_string (au_impersonation_grant_id a))) @
     opt_entry ''credentialId'' (map_option JStr (truthy_string (au_credential_id a))) @
     opt_entry ''constraints'' (map_option (\<lambda>cs. JArr (map JStr cs)) (au_constraints a)))"

definition authentication_states :: "string list" where
  "authentication_states = [''anonymous'', ''authenticated'']"

definition assurance_levels :: "string list" where
  "assurance_levels = [''single-factor'', ''multi-factor'', ''phishing-resistant'']"

text \<open>An array all of whose elements are strings.\<close>

definition string_array :: "json option \<Rightarrow> string list option" where
  "string_array v = (case opt_array v of
     None \<Rightarrow> None
   | Some xs \<Rightarrow> if list_all (\<lambda>x. is_string (Some x)) xs
       then Some (map (\<lambda>x. case opt_string (Some x) of None \<Rightarrow> [] | Some s \<Rightarrow> s) xs) else None)"

definition parse_ticket_authentication :: "ticket_host \<Rightarrow> json option \<Rightarrow> string + authentication" where
  "parse_ticket_authentication h v = (case v of
     None \<Rightarrow> Inl ''Keryx admission ticket authentication is invalid.''
   | Some value \<Rightarrow>
     if \<not> is_record value \<or> \<not> text_among (jfield value ''state'') authentication_states \<or>
        \<not> optional_string (jfield value ''identityId'') \<or> \<not> optional_string (jfield value ''method'') \<or>
        \<not> optional_string (jfield value ''sessionId'') \<or>
        \<not> optional_string (jfield value ''impersonationGrantId'') \<or>
        \<not> optional_string (jfield value ''credentialId'') \<or>
        (jfield value ''assurance'' \<noteq> None \<and> \<not> text_among (jfield value ''assurance'') assurance_levels) \<or>
        (jfield value ''constraints'' \<noteq> None \<and> string_array (jfield value ''constraints'') = None)
     then Inl ''Keryx admission ticket authentication is invalid.''
     else res_bind
       (case jfield value ''authenticatedAt'' of
          None \<Rightarrow> Inr None
        | Some e \<Rightarrow> (case opt_string (Some e) of
            None \<Rightarrow> Inl ''Keryx admission ticket authentication is invalid.''
          | Some text \<Rightarrow> (case instant_parse h text of
              None \<Rightarrow> Inl ''Keryx admission ticket authentication is invalid.''
            | Some t \<Rightarrow> Inr (Some t)))) (\<lambda>authenticated_at.
         Inr \<lparr>au_state = opt_json (jfield value ''state''),
              au_identity_id = opt_string (jfield value ''identityId''),
              au_method = opt_string (jfield value ''method''),
              au_assurance = truthy_json (jfield value ''assurance''),
              au_authenticated_at = authenticated_at,
              au_session_id = opt_string (jfield value ''sessionId''),
              au_impersonation_grant_id = opt_string (jfield value ''impersonationGrantId''),
              au_credential_id = opt_string (jfield value ''credentialId''),
              au_constraints = string_array (jfield value ''constraints'')\<rparr>))"

subsection \<open>Origins\<close>

definition normalize_browser_origin :: "ticket_host \<Rightarrow> string \<Rightarrow> string + string" where
  "normalize_browser_origin h value = (case parse_url h value of
     None \<Rightarrow> Inl ''Keryx admission tickets require a valid browser origin.''
   | Some origin \<Rightarrow>
     if url_protocol origin \<notin> {''http:'', ''https:''} \<or> url_origin origin \<noteq> value \<or>
        url_username origin \<noteq> [] \<or> url_password origin \<noteq> []
     then Inl ''Keryx admission tickets require an exact HTTP browser origin.''
     else Inr (url_origin origin))"

subsection \<open>Issuing\<close>

text \<open>\<open>...(v ? { key: f(v) } : {})\<close> where \<open>f\<close> may throw.\<close>

definition opt_res :: "('a \<Rightarrow> 'e + 'b) \<Rightarrow> 'a option \<Rightarrow> 'e + 'b option" where
  "opt_res f v = (case v of None \<Rightarrow> Inr None | Some x \<Rightarrow> res_bind (f x) (\<lambda>y. Inr (Some y)))"

definition ticket_deadline :: "int \<Rightarrow> int \<Rightarrow> hop list option \<Rightarrow> int" where
  "ticket_deadline issued_at lifetime delegation =
     foldl (\<lambda>expires_at hp. case hop_expires_at hp of
              None \<Rightarrow> expires_at
            | Some t \<Rightarrow> if t < expires_at then t else expires_at)
       ((issued_at + lifetime) * 1000) (case delegation of None \<Rightarrow> [] | Some hops \<Rightarrow> hops)"

definition ticket_payload ::
  "ticket_host \<Rightarrow> tickets \<Rightarrow> int \<Rightarrow> string \<Rightarrow> ticket_input \<Rightarrow> string + json \<times> int" where
  "ticket_payload h tk now uuid input =
     (let expires_at = ticket_deadline now (tk_lifetime_ms tk) (in_delegation input) in
      if expires_at \<le> now * 1000
      then Inl ''Keryx cannot issue a ticket for expired delegation.''
      else
        res_bind (normalize_browser_origin h (in_origin input)) (\<lambda>origin.
        res_bind (parse_ticket_actor (Some (actor_json (in_actor input)))) (\<lambda>actor.
        res_bind (opt_res (\<lambda>a. parse_ticket_actor (Some (actor_json a))) (in_initiator input)) (\<lambda>initiator.
        res_bind (opt_res (serialize_ticket_delegation h) (in_delegation input)) (\<lambda>delegation.
        res_bind (opt_res (\<lambda>t. parse_ticket_tenant (Some (tenant_json t))) (in_tenant input)) (\<lambda>tenant.
        res_bind (non_empty_string (Some (JStr (in_correlation_id input))) ''correlation id'') (\<lambda>correlation.
          Inr (JObj ([(''version'', js_int 1),
              (''applicationId'', JStr (tk_application_id tk)),
              (''ticketId'', JStr uuid),
              (''issuedAt'', js_int now),
              (''expiresAt'', JStr (instant_text h expires_at)),
              (''origin'', JStr origin),
              (''actor'', actor_json actor)] @
            opt_entry ''initiator'' (map_option actor_json initiator) @
            opt_entry ''delegation'' delegation @
            [(''authentication'', serialize_ticket_authentication h (in_authentication input))] @
            opt_entry ''tenant'' (map_option tenant_json tenant) @
            [(''correlationId'', JStr correlation)]), expires_at))))))))"

definition additional_data :: "tickets \<Rightarrow> string" where
  "additional_data tk = ''doxa:keryx:admission:v1:'' @ tk_application_id tk"

text \<open>\<open>issue(input)\<close>, with the random identifier and initialisation vector as arguments.\<close>

definition issue ::
  "ticket_host \<Rightarrow> tickets \<Rightarrow> int \<Rightarrow> string \<Rightarrow> string \<Rightarrow> ticket_input \<Rightarrow> string + string \<times> int" where
  "issue h tk now uuid iv input =
     res_bind (ticket_payload h tk now uuid input) (\<lambda>(payload, expires_at).
       let (encrypted, tag) =
         encrypt h (tk_key tk) iv (additional_data tk) (json_stringify h payload) in
       Inr (join ''.'' [''v1'', to_base64url h iv, to_base64url h encrypted, to_base64url h tag],
            expires_at))"

subsection \<open>Opening\<close>

definition parse_instant :: "ticket_host \<Rightarrow> string \<Rightarrow> string + int" where
  "parse_instant h text = (case instant_parse h text of
     None \<Rightarrow> Inl ''Invalid instant'' | Some t \<Rightarrow> Inr t)"

definition number_value :: "json option \<Rightarrow> rat option" where
  "number_value v = (case v of Some (JNum (Fin q)) \<Rightarrow> Some q | _ \<Rightarrow> None)"

text \<open>
  \<open>#parsePayload(value, origin)\<close>. \<open>open\<close> turns whatever it throws into the one error
  \<open>admission_ticket_invalid\<close>, so the model keeps no more of a failure than its message.
\<close>

definition parse_payload :: "ticket_host \<Rightarrow> tickets \<Rightarrow> int \<Rightarrow> json \<Rightarrow> string \<Rightarrow> string + admission" where
  "parse_payload h tk now value origin =
     (if \<not> is_record value then Inl ''admission_ticket_invalid''
      else if jfield value ''version'' \<noteq> Some (js_int 1) \<or>
              jfield value ''applicationId'' \<noteq> Some (JStr (tk_application_id tk))
      then Inl ''admission_ticket_invalid''
      else (case safe_integer (number_value (jfield value ''issuedAt'')) of
        None \<Rightarrow> Inl ''admission_ticket_invalid''
      | Some issued_at \<Rightarrow> (case opt_string (jfield value ''expiresAt'') of
          None \<Rightarrow> Inl ''admission_ticket_invalid''
        | Some expires_text \<Rightarrow>
          if issued_at > now + 5000 then Inl ''admission_ticket_invalid''
          else
            res_bind (normalize_browser_origin h origin) (\<lambda>browser_origin.
            if jfield value ''origin'' \<noteq> Some (JStr browser_origin)
            then Inl ''admission_ticket_invalid''
            else
              res_bind (parse_instant h expires_text) (\<lambda>expires_at.
              if expires_at \<le> now * 1000 \<or> expires_at \<le> issued_at * 1000 \<or>
                 expires_at - issued_at * 1000 > tk_lifetime_ms tk * 1000
              then Inl ''admission_ticket_invalid''
              else
                res_bind (non_empty_string (jfield value ''ticketId'') ''ticket id'') (\<lambda>ticket_id.
                res_bind (parse_ticket_actor (jfield value ''actor'')) (\<lambda>actor.
                res_bind (opt_res (\<lambda>v. parse_ticket_actor (Some v)) (jfield value ''initiator'')) (\<lambda>initiator.
                res_bind (opt_res (\<lambda>v. parse_ticket_delegation h (Some v)) (jfield value ''delegation'')) (\<lambda>delegation.
                res_bind (parse_ticket_authentication h (jfield value ''authentication'')) (\<lambda>authentication.
                res_bind (opt_res (\<lambda>v. parse_ticket_tenant (Some v)) (jfield value ''tenant'')) (\<lambda>tenant.
                res_bind (non_empty_string (jfield value ''correlationId'') ''correlation id'') (\<lambda>correlation.
                  Inr \<lparr>adm_ticket_id = ticket_id, adm_actor = actor, adm_initiator = initiator,
                       adm_delegation = delegation, adm_authentication = authentication,
                       adm_tenant = tenant, adm_correlation_id = correlation,
                       adm_expires_at = expires_at\<rparr>))))))))))))"

fun split_on :: "char \<Rightarrow> string \<Rightarrow> string list" where
  "split_on x [] = [[]]"
| "split_on x (c # cs) =
     (if c = x then [] # split_on x cs
      else (case split_on x cs of [] \<Rightarrow> [[c]] | s # ss \<Rightarrow> (c # s) # ss))"

text \<open>The sealed parts of a ticket: \<open>v1\<close> and three non-empty parts, nothing after them.\<close>

definition ticket_parts :: "string \<Rightarrow> (string \<times> string \<times> string) option" where
  "ticket_parts ticket = (case split_on (CHR ''.'') ticket of
     [version, iv, payload, tag] \<Rightarrow>
       if version \<noteq> ''v1'' \<or> iv = [] \<or> payload = [] \<or> tag = [] then None else Some (iv, payload, tag)
   | _ \<Rightarrow> None)"

definition invalid_ticket :: auth_error where
  "invalid_ticket = auth_fail ''admission_ticket_invalid'' 401"

definition open_ticket ::
  "ticket_host \<Rightarrow> tickets \<Rightarrow> int \<Rightarrow> string \<Rightarrow> string \<Rightarrow> auth_error + admission" where
  "open_ticket h tk now ticket origin =
     (if length ticket = 0 \<or> length ticket > 8192 then Inl invalid_ticket
      else (case ticket_parts ticket of
        None \<Rightarrow> Inl invalid_ticket
      | Some (encoded_iv, encoded_payload, encoded_tag) \<Rightarrow>
        (let iv = from_base64url h encoded_iv;
             encrypted = from_base64url h encoded_payload;
             tag = from_base64url h encoded_tag in
         if length iv \<noteq> 12 \<or> length encrypted = 0 \<or> length tag \<noteq> 16 then Inl invalid_ticket
         else (case decrypt h (tk_key tk) iv (additional_data tk) tag encrypted of
           None \<Rightarrow> Inl invalid_ticket
         | Some decoded \<Rightarrow> (case json_parse h decoded of
             None \<Rightarrow> Inl invalid_ticket
           | Some value \<Rightarrow> (case parse_payload h tk now value origin of
               Inl message \<Rightarrow> Inl invalid_ticket
             | Inr admission \<Rightarrow> Inr admission))))))"

subsection \<open>Each part is read back as it was written\<close>

lemma parse_ticket_actor_json:
  "parse_ticket_actor (Some (actor_json a)) = Inr b \<longleftrightarrow> actor_ok a \<and> b = a"
  by (auto simp: parse_ticket_actor_def actor_json_def actor_ok_def split: option.splits)

lemma parse_ticket_actor_ok: "parse_ticket_actor v = Inr a \<Longrightarrow> actor_ok a"
  by (cases "jfield (the v) ''kind''")
     (auto simp: parse_ticket_actor_def actor_ok_def text_among_None_kinds split: option.splits if_splits)

lemma non_empty_string_JStr:
  "non_empty_string (Some (JStr s)) name = Inr t \<longleftrightarrow> t = s \<and> 0 < length s \<and> length s \<le> 512"
  by (auto simp: non_empty_string_def)

lemma parse_tenant_json:
  "parse_ticket_tenant (Some (tenant_json t)) = Inr t' \<longleftrightarrow> t' = t \<and> 0 < length t \<and> length t \<le> 512"
  by (simp add: parse_ticket_tenant_def tenant_json_def non_empty_string_JStr)

lemma opt_res_Inr:
  "opt_res f v = Inr w \<longleftrightarrow> (case v of None \<Rightarrow> w = None | Some x \<Rightarrow> \<exists>y. f x = Inr y \<and> w = Some y)"
  by (auto simp: opt_res_def split: option.splits)

definition instants_read_back :: "ticket_host \<Rightarrow> bool" where
  "instants_read_back h \<longleftrightarrow> (\<forall>t. instant_parse h (instant_text h t) = Some t)"

lemma parse_serialized_hop:
  assumes "instants_read_back h" and "serialize_ticket_hop h hp = Inr j"
  shows "parse_ticket_hop h j = Inr hp"
proof -
  from assms(2) have ok: "actor_ok (hop_from hp)" "actor_ok (hop_to hp)"
      "0 < length (hop_grant_id hp) \<and> length (hop_grant_id hp) \<le> 512"
      "0 < length (hop_reason hp) \<and> length (hop_reason hp) \<le> 512"
    and j: "j = JObj ([(''from'', actor_json (hop_from hp)), (''to'', actor_json (hop_to hp)),
         (''grantId'', JStr (hop_grant_id hp)), (''reason'', JStr (hop_reason hp))] @
         opt_entry ''expiresAt'' (map_option (\<lambda>t. JStr (instant_text h t)) (hop_expires_at hp)))"
    by (auto simp: serialize_ticket_hop_def parse_ticket_actor_json non_empty_string_JStr)
  have actors: "parse_ticket_actor (Some (actor_json (hop_from hp))) = Inr (hop_from hp)"
      "parse_ticket_actor (Some (actor_json (hop_to hp))) = Inr (hop_to hp)"
    using ok by (simp_all add: parse_ticket_actor_json)
  have texts: "non_empty_string (Some (JStr (hop_grant_id hp))) n = Inr (hop_grant_id hp)"
      "non_empty_string (Some (JStr (hop_reason hp))) n = Inr (hop_reason hp)" for n
    using ok by (simp_all add: non_empty_string_JStr)
  show ?thesis
  proof (cases "hop_expires_at hp")
    case None
    then show ?thesis by (simp add: parse_ticket_hop_def j actors texts)
  next
    case (Some t)
    then show ?thesis using assms(1)
      by (simp add: parse_ticket_hop_def j actors texts instants_read_back_def)
  qed
qed

lemma parse_serialized_delegation:
  assumes "instants_read_back h" and "serialize_ticket_delegation h hops = Inr j"
  shows "parse_ticket_delegation h (Some j) = Inr hops"
proof -
  from assms(2) obtain js where js: "map_res (serialize_ticket_hop h) hops = Inr js"
    and j: "j = JArr js" and n: "length hops \<le> 16"
    by (auto simp: serialize_ticket_delegation_def split: if_splits)
  from js have "map_res (parse_ticket_hop h) js = Inr hops"
    by (auto simp: map_res_Inr_iff list_all2_conv_all_nth intro: parse_serialized_hop [OF assms(1)])
  with j n map_res_length [OF js] show ?thesis
    by (simp add: parse_ticket_delegation_def)
qed

text \<open>What the ticket carries of an authentication: empty strings count as absent.\<close>

definition compact_authentication :: "authentication \<Rightarrow> authentication" where
  "compact_authentication a = a\<lparr>
     au_identity_id := truthy_string (au_identity_id a), au_method := truthy_string (au_method a),
     au_assurance := truthy_json (au_assurance a), au_session_id := truthy_string (au_session_id a),
     au_impersonation_grant_id := truthy_string (au_impersonation_grant_id a),
     au_credential_id := truthy_string (au_credential_id a)\<rparr>"

definition authentication_ok :: "authentication \<Rightarrow> bool" where
  "authentication_ok a \<longleftrightarrow> text_among (Some (au_state a)) authentication_states \<and>
     (au_assurance a \<noteq> None \<longrightarrow> text_among (au_assurance a) assurance_levels)"

lemma string_array_None [simp]: "string_array None = None"
  by (simp add: string_array_def)

lemma string_array_strings [simp]: "string_array (Some (JArr (map JStr cs))) = Some cs"
  by (simp add: string_array_def list_all_iff comp_def)

lemma optional_string_simps [simp]:
  "optional_string None" "optional_string (Some (JStr s))"
  "optional_string (map_option JStr v)"
  by (auto simp: optional_string_def is_string_def split: option.splits)

lemma opt_string_map_option [simp]: "opt_string (map_option JStr v) = v"
  by (cases v) auto

lemma truthy_json_idem [simp]: "truthy_json (truthy_json v) = truthy_json v"
  by (auto simp: truthy_json_def split: option.splits)

lemma truthy_json_among:
  "truthy_json v \<noteq> None \<Longrightarrow> text_among v names \<Longrightarrow> text_among (truthy_json v) names"
  by (auto simp: truthy_json_def split: option.splits if_splits)

lemma parse_serialized_authentication:
  assumes "instants_read_back h" and "authentication_ok a"
  shows "parse_ticket_authentication h (Some (serialize_ticket_authentication h a)) =
    Inr (compact_authentication a)"
proof -
  let ?v = "serialize_ticket_authentication h a"
  have f: "jfield ?v ''state'' = Some (au_state a)"
    "jfield ?v ''identityId'' = map_option JStr (truthy_string (au_identity_id a))"
    "jfield ?v ''method'' = map_option JStr (truthy_string (au_method a))"
    "jfield ?v ''assurance'' = truthy_json (au_assurance a)"
    "jfield ?v ''authenticatedAt'' = map_option (\<lambda>t. JStr (instant_text h t)) (au_authenticated_at a)"
    "jfield ?v ''sessionId'' = map_option JStr (truthy_string (au_session_id a))"
    "jfield ?v ''impersonationGrantId'' = map_option JStr (truthy_string (au_impersonation_grant_id a))"
    "jfield ?v ''credentialId'' = map_option JStr (truthy_string (au_credential_id a))"
    "jfield ?v ''constraints'' = map_option (\<lambda>cs. JArr (map JStr cs)) (au_constraints a)"
    by (simp_all add: serialize_ticket_authentication_def split: option.splits del: map_of_append)
  have rec: "is_record ?v" by (simp add: serialize_ticket_authentication_def)
  have as: "truthy_json (au_assurance a) = None \<or>
      text_among (truthy_json (au_assurance a)) assurance_levels"
    using assms(2) truthy_json_among by (cases "au_assurance a") (auto simp: authentication_ok_def truthy_json_def)
  have cs: "string_array (map_option (\<lambda>cs. JArr (map JStr cs)) (au_constraints a)) = au_constraints a"
    by (cases "au_constraints a") simp_all
  have cs': "map_option (\<lambda>cs. JArr (map JStr cs)) (au_constraints a) \<noteq> None \<Longrightarrow> au_constraints a \<noteq> None"
    by auto
  show ?thesis using assms rec as cs cs'
    by (cases "au_authenticated_at a")
       (auto simp: parse_ticket_authentication_def f authentication_ok_def compact_authentication_def
         instants_read_back_def)
qed

subsection \<open>The payload is read back as it was written\<close>

definition issued_admission :: "string \<Rightarrow> ticket_input \<Rightarrow> int \<Rightarrow> admission" where
  "issued_admission uuid input expires_at =
     \<lparr>adm_ticket_id = uuid, adm_actor = in_actor input, adm_initiator = in_initiator input,
      adm_delegation = in_delegation input,
      adm_authentication = compact_authentication (in_authentication input),
      adm_tenant = in_tenant input, adm_correlation_id = in_correlation_id input,
      adm_expires_at = expires_at\<rparr>"

lemma normalize_browser_origin_Inr:
  "normalize_browser_origin h v = Inr w \<Longrightarrow> w = v"
  by (auto simp: normalize_browser_origin_def split: option.splits if_splits)

lemma safe_integer_of_int [simp]:
  "safe_integer (Some (of_int n)) = (if \<bar>n\<bar> \<le> 9007199254740991 then Some n else None)"
  by (simp add: safe_integer_def)

lemma deadline_fold:
  "foldl (\<lambda>e hp. case hop_expires_at hp of None \<Rightarrow> e | Some t \<Rightarrow> if t < e then t else e) e0 hops \<le> e0 \<and>
   (\<forall>hp\<in>set hops. \<forall>t. hop_expires_at hp = Some t \<longrightarrow>
     foldl (\<lambda>e hp. case hop_expires_at hp of None \<Rightarrow> e | Some t \<Rightarrow> if t < e then t else e) e0 hops \<le> t)"
proof (induction hops arbitrary: e0)
  case (Cons hp hops)
  show ?case using Cons.IH [of "case hop_expires_at hp of None \<Rightarrow> e0 | Some t \<Rightarrow> if t < e0 then t else e0"]
    by (auto split: option.splits if_splits)
qed simp

lemma ticket_deadline_le:
  "ticket_deadline issued lifetime delegation \<le> (issued + lifetime) * 1000"
  "delegation = Some hops \<Longrightarrow> hp \<in> set hops \<Longrightarrow> hop_expires_at hp = Some t \<Longrightarrow>
     ticket_deadline issued lifetime delegation \<le> t"
  using deadline_fold by (auto simp: ticket_deadline_def)

lemma ticket_payload_fields:
  assumes "ticket_payload h tk now uuid input = Inr (p, expires_at)"
  shows "is_record p"
    and "jfield p ''version'' = Some (js_int 1)"
    and "jfield p ''applicationId'' = Some (JStr (tk_application_id tk))"
    and "jfield p ''ticketId'' = Some (JStr uuid)"
    and "jfield p ''issuedAt'' = Some (js_int now)"
    and "jfield p ''expiresAt'' = Some (JStr (instant_text h expires_at))"
    and "jfield p ''origin'' = Some (JStr (in_origin input))"
    and "jfield p ''actor'' = Some (actor_json (in_actor input))"
    and "jfield p ''initiator'' = map_option actor_json (in_initiator input)"
    and "opt_res (serialize_ticket_delegation h) (in_delegation input) = Inr (jfield p ''delegation'')"
    and "jfield p ''authentication'' = Some (serialize_ticket_authentication h (in_authentication input))"
    and "jfield p ''tenant'' = map_option tenant_json (in_tenant input)"
    and "jfield p ''correlationId'' = Some (JStr (in_correlation_id input))"
proof -
  from assms obtain delegation initiator tenant where
    d: "opt_res (serialize_ticket_delegation h) (in_delegation input) = Inr delegation"
    and i: "opt_res (\<lambda>a. parse_ticket_actor (Some (actor_json a))) (in_initiator input) = Inr initiator"
    and t: "opt_res (\<lambda>t. parse_ticket_tenant (Some (tenant_json t))) (in_tenant input) = Inr tenant"
    and o: "normalize_browser_origin h (in_origin input) = Inr (in_origin input)"
    and p: "p = JObj ([(''version'', js_int 1), (''applicationId'', JStr (tk_application_id tk)),
              (''ticketId'', JStr uuid), (''issuedAt'', js_int now),
              (''expiresAt'', JStr (instant_text h expires_at)), (''origin'', JStr (in_origin input)),
              (''actor'', actor_json (in_actor input))] @
            opt_entry ''initiator'' (map_option actor_json initiator) @
            opt_entry ''delegation'' delegation @
            [(''authentication'', serialize_ticket_authentication h (in_authentication input))] @
            opt_entry ''tenant'' (map_option tenant_json tenant) @
            [(''correlationId'', JStr (in_correlation_id input))])"
    by (auto simp: ticket_payload_def Let_def parse_ticket_actor_json non_empty_string_JStr
        dest: normalize_browser_origin_Inr split: if_splits)
  have i': "initiator = in_initiator input"
    using i by (auto simp: opt_res_Inr parse_ticket_actor_json split: option.splits)
  have t': "tenant = in_tenant input"
    using t by (auto simp: opt_res_Inr parse_tenant_json split: option.splits)
  note f = p i' t' option.case_eq_if option.expand
  show "is_record p" "jfield p ''version'' = Some (js_int 1)"
    "jfield p ''applicationId'' = Some (JStr (tk_application_id tk))"
    "jfield p ''ticketId'' = Some (JStr uuid)" "jfield p ''issuedAt'' = Some (js_int now)"
    "jfield p ''expiresAt'' = Some (JStr (instant_text h expires_at))"
    "jfield p ''origin'' = Some (JStr (in_origin input))"
    "jfield p ''actor'' = Some (actor_json (in_actor input))"
    "jfield p ''initiator'' = map_option actor_json (in_initiator input)"
    "opt_res (serialize_ticket_delegation h) (in_delegation input) = Inr (jfield p ''delegation'')"
    "jfield p ''authentication'' = Some (serialize_ticket_authentication h (in_authentication input))"
    "jfield p ''tenant'' = map_option tenant_json (in_tenant input)"
    "jfield p ''correlationId'' = Some (JStr (in_correlation_id input))"
    by (simp_all add: f d del: map_of_append)
qed

lemma ticket_payload_checks:
  assumes "ticket_payload h tk now uuid input = Inr (p, expires_at)"
  shows "expires_at = ticket_deadline now (tk_lifetime_ms tk) (in_delegation input)"
    and "now * 1000 < expires_at"
    and "normalize_browser_origin h (in_origin input) = Inr (in_origin input)"
    and "actor_ok (in_actor input)"
    and "in_initiator input = Some i \<Longrightarrow> actor_ok i"
    and "in_tenant input = Some t \<Longrightarrow> 0 < length t \<and> length t \<le> 512"
    and "0 < length (in_correlation_id input) \<and> length (in_correlation_id input) \<le> 512"
  using assms
  by (auto simp: ticket_payload_def Let_def parse_ticket_actor_json parse_tenant_json opt_res_Inr
      non_empty_string_JStr dest: normalize_browser_origin_Inr split: if_splits option.splits)

lemma parse_issued_payload:
  assumes p: "ticket_payload h tk now uuid input = Inr (p, expires_at)"
    and h: "instants_read_back h"
    and a: "authentication_ok (in_authentication input)"
    and uuid: "0 < length uuid" "length uuid \<le> 512"
    and now: "\<bar>now\<bar> \<le> 9007199254740991"
    and later: "now \<le> later + 5000" "later * 1000 < expires_at"
  shows "parse_payload h tk later p (in_origin input) = Inr (issued_admission uuid input expires_at)"
proof -
  note f = ticket_payload_fields [OF p] and c = ticket_payload_checks [OF p]
  have "expires_at \<le> (now + tk_lifetime_ms tk) * 1000"
    using ticket_deadline_le(1) c(1) by simp
  then have window: "\<not> (expires_at \<le> later * 1000 \<or> expires_at \<le> now * 1000 \<or>
      expires_at - now * 1000 > tk_lifetime_ms tk * 1000)"
    using later c(2) by (simp add: algebra_simps)
  have initiator: "opt_res (\<lambda>v. parse_ticket_actor (Some v)) (map_option actor_json (in_initiator input)) =
      Inr (in_initiator input)"
    using c(5) by (auto simp: opt_res_Inr parse_ticket_actor_json split: option.splits)
  have tenant: "opt_res (\<lambda>v. parse_ticket_tenant (Some v)) (map_option tenant_json (in_tenant input)) =
      Inr (in_tenant input)"
    using c(6) by (auto simp: opt_res_Inr parse_tenant_json split: option.splits)
  have delegation: "opt_res (\<lambda>v. parse_ticket_delegation h (Some v)) (jfield p ''delegation'') =
      Inr (in_delegation input)"
    using f(10) by (auto simp: opt_res_Inr split: option.splits intro: parse_serialized_delegation [OF h])
  have texts: "non_empty_string (Some (JStr uuid)) n = Inr uuid"
      "non_empty_string (Some (JStr (in_correlation_id input))) n = Inr (in_correlation_id input)" for n
    using uuid c(7) by (simp_all add: non_empty_string_JStr)
  show ?thesis using h now later window
    by (simp add: parse_payload_def f(1-9,11-13) c(3,4) initiator tenant delegation texts
        parse_serialized_authentication [OF h a] parse_ticket_actor_json
        number_value_def js_int_def parse_instant_def instants_read_back_def issued_admission_def
        safe_integer_of_int)
qed

subsection \<open>Sealing and opening\<close>

lemma split_on_no_sep: "x \<notin> set s \<Longrightarrow> split_on x s = [s]"
  by (induction s) auto

lemma split_on_append: "x \<notin> set s \<Longrightarrow> split_on x (s @ x # t) = s # split_on x t"
  by (induction s) auto

lemma ticket_parts_join:
  assumes "\<forall>s\<in>{a, b, c}. CHR ''.'' \<notin> set s \<and> s \<noteq> []"
  shows "ticket_parts (join ''.'' [''v1'', a, b, c]) = Some (a, b, c)"
proof -
  have v1: "CHR ''.'' \<notin> set ''v1''" by simp
  have "join ''.'' [''v1'', a, b, c] =
      ''v1'' @ CHR ''.'' # (a @ CHR ''.'' # (b @ CHR ''.'' # c))"
    by simp
  then have "split_on (CHR ''.'') (join ''.'' [''v1'', a, b, c]) = [''v1'', a, b, c]"
    using assms split_on_append [OF v1] by (simp only: split_on_append split_on_no_sep) (simp add: split_on_append split_on_no_sep)
  with assms show ?thesis by (simp add: ticket_parts_def)
qed

text \<open>
  What the ticket code relies on of the host for one payload: authenticated encryption opens what
  it sealed under the same key, vector and additional data, its tag has 16 bytes, \<open>JSON.parse\<close>
  reads what \<open>JSON.stringify\<close> wrote, and base64url is its own alphabet (no dot) and decodes what
  it encoded.
\<close>

definition host_seals :: "ticket_host \<Rightarrow> tickets \<Rightarrow> string \<Rightarrow> json \<Rightarrow> bool" where
  "host_seals h tk iv p \<longleftrightarrow>
     (let (encrypted, tag) = encrypt h (tk_key tk) iv (additional_data tk) (json_stringify h p) in
      decrypt h (tk_key tk) iv (additional_data tk) tag encrypted = Some (json_stringify h p) \<and>
      json_parse h (json_stringify h p) = Some p \<and>
      length iv = 12 \<and> encrypted \<noteq> [] \<and> length tag = 16 \<and>
      (\<forall>x\<in>{iv, encrypted, tag}. from_base64url h (to_base64url h x) = x \<and>
         CHR ''.'' \<notin> set (to_base64url h x) \<and> to_base64url h x \<noteq> []))"

lemma open_sealed:
  assumes "host_seals h tk iv p"
    and "encrypt h (tk_key tk) iv (additional_data tk) (json_stringify h p) = (encrypted, tag)"
    and "ticket = join ''.'' [''v1'', to_base64url h iv, to_base64url h encrypted, to_base64url h tag]"
    and "length ticket \<le> 8192"
  shows "open_ticket h tk now ticket origin =
    (case parse_payload h tk now p origin of Inl _ \<Rightarrow> Inl invalid_ticket | Inr adm \<Rightarrow> Inr adm)"
proof -
  have seals: "decrypt h (tk_key tk) iv (additional_data tk) tag encrypted = Some (json_stringify h p)"
      "json_parse h (json_stringify h p) = Some p" "length iv = 12" "encrypted \<noteq> []" "length tag = 16"
      "from_base64url h (to_base64url h iv) = iv"
      "from_base64url h (to_base64url h encrypted) = encrypted"
      "from_base64url h (to_base64url h tag) = tag"
      "\<forall>s\<in>{to_base64url h iv, to_base64url h encrypted, to_base64url h tag}. CHR ''.'' \<notin> set s \<and> s \<noteq> []"
    using assms(1,2) by (auto simp: host_seals_def)
  have "ticket_parts ticket = Some (to_base64url h iv, to_base64url h encrypted, to_base64url h tag)"
    unfolding assms(3) by (rule ticket_parts_join [OF seals(9)])
  moreover have "length ticket \<noteq> 0" by (simp add: assms(3))
  ultimately show ?thesis using assms(4) seals(1-8)
    by (simp add: open_ticket_def Let_def)
qed

subsection \<open>Properties\<close>


text \<open>
  No delegated authority outlives its grant: the deadline of every ticket handed out
  lies strictly in the future, no further than the configured lifetime, and not after the
  deadline of any hop of the delegation it carries.
\<close>

theorem issued_deadline_bounds:
  assumes "issue h tk now uuid iv input = Inr (ticket, expires_at)"
  shows "now * 1000 < expires_at \<and> expires_at \<le> (now + tk_lifetime_ms tk) * 1000 \<and>
    (\<forall>hops hp t. in_delegation input = Some hops \<longrightarrow> hp \<in> set hops \<longrightarrow>
       hop_expires_at hp = Some t \<longrightarrow> expires_at \<le> t)"
proof -
  from assms obtain p where p: "ticket_payload h tk now uuid input = Inr (p, expires_at)"
    by (auto simp: issue_def split_beta Let_def)
  from ticket_payload_checks(1,2) [OF p]
    ticket_deadline_le(1) [of now "tk_lifetime_ms tk" "in_delegation input"]
  show ?thesis by (auto intro: ticket_deadline_le(2))
qed

lemma open_ticket_payload:
  assumes "open_ticket h tk now ticket origin = Inr adm"
  obtains payload where "parse_payload h tk now payload origin = Inr adm"
  using assms by (auto simp: open_ticket_def Let_def split: if_splits option.splits sum.splits)

lemma parse_payload_Inr:
  assumes "parse_payload h tk now value origin = Inr adm"
  obtains issued_at where "safe_integer (number_value (jfield value ''issuedAt'')) = Some issued_at"
    and "issued_at \<le> now + 5000" and "now * 1000 < adm_expires_at adm"
    and "adm_expires_at adm - issued_at * 1000 \<le> tk_lifetime_ms tk * 1000"
    and "actor_ok (adm_actor adm)" and "0 < length (adm_ticket_id adm)"
    and "normalize_browser_origin h origin = Inr origin"
    and "jfield value ''origin'' = Some (JStr origin)"
    and "jfield value ''applicationId'' = Some (JStr (tk_application_id tk))"
proof -
  from assms obtain issued_at where i: "safe_integer (number_value (jfield value ''issuedAt'')) = Some issued_at"
    by (auto simp: parse_payload_def split: if_splits option.splits)
  from assms i obtain expires_text where t: "opt_string (jfield value ''expiresAt'') = Some expires_text"
    by (auto simp: parse_payload_def split: if_splits option.splits)
  from assms i t have "issued_at \<le> now + 5000 \<and> now * 1000 < adm_expires_at adm \<and>
      adm_expires_at adm - issued_at * 1000 \<le> tk_lifetime_ms tk * 1000 \<and>
      actor_ok (adm_actor adm) \<and> 0 < length (adm_ticket_id adm) \<and>
      normalize_browser_origin h origin = Inr origin \<and>
      jfield value ''origin'' = Some (JStr origin) \<and>
      jfield value ''applicationId'' = Some (JStr (tk_application_id tk))"
    by (auto simp: parse_payload_def non_empty_string_def dest: parse_ticket_actor_ok
      normalize_browser_origin_Inr split: if_splits option.splits)
  with i show thesis by (intro that [of issued_at]) simp_all
qed

text \<open>
  Whatever text is presented, a ticket that opens is current: its deadline is after the
  server's clock and at most the configured lifetime plus five seconds of tolerated clock
  difference ahead of it, its actor is of a known kind, and the origin it was presented from is an
  exact browser origin.
\<close>

theorem opened_ticket_is_current:
  assumes "open_ticket h tk now ticket origin = Inr adm"
  shows "now * 1000 < adm_expires_at adm \<and>
    adm_expires_at adm \<le> (now + 5000 + tk_lifetime_ms tk) * 1000 \<and>
    actor_ok (adm_actor adm) \<and> normalize_browser_origin h origin = Inr origin"
proof -
  from assms obtain payload where "parse_payload h tk now payload origin = Inr adm"
    by (rule open_ticket_payload)
  then show ?thesis by (rule parse_payload_Inr) (simp add: algebra_simps)
qed

subsection \<open>Witnesses\<close>

text \<open>A host simple enough to evaluate: instants in unary, a cipher that adds a fixed tag.\<close>

definition unary_text :: "int \<Rightarrow> string" where
  "unary_text t = (if t < 0 then ''-'' else ''+'') @ replicate (nat \<bar>t\<bar>) (CHR ''1'')"

definition unary_parse :: "string \<Rightarrow> int option" where
  "unary_parse s = (case s of
     [] \<Rightarrow> None
   | c # cs \<Rightarrow> Some (if c = CHR ''-'' then - int (length cs) else int (length cs)))"

lemma unary_parse_text: "unary_parse (unary_text t) = Some t"
  by (simp add: unary_parse_def unary_text_def)

definition demo_user :: actor where
  "demo_user = \<lparr>actor_kind = JStr ''user'', actor_id = Some ''u''\<rparr>"

definition demo_admin :: actor where
  "demo_admin = \<lparr>actor_kind = JStr ''user'', actor_id = Some ''a''\<rparr>"

definition demo_hop :: hop where
  "demo_hop = \<lparr>hop_from = demo_admin, hop_to = demo_user, hop_grant_id = ''g'', hop_reason = ''r'',
     hop_expires_at = Some 500\<rparr>"

definition demo_authentication :: authentication where
  "demo_authentication = \<lparr>au_state = JStr ''authenticated'', au_identity_id = Some ''u'', au_method = Some [],
     au_assurance = Some (JStr ''multi-factor''), au_authenticated_at = Some 3, au_session_id = None,
     au_impersonation_grant_id = None, au_credential_id = None, au_constraints = Some [''*'']\<rparr>"

definition demo_input :: ticket_input where
  "demo_input = \<lparr>in_actor = demo_user, in_initiator = Some demo_admin, in_delegation = Some [demo_hop],
     in_authentication = demo_authentication, in_tenant = Some ''t'', in_correlation_id = ''c'',
     in_origin = ''https://a''\<rparr>"

definition demo_tickets :: tickets where
  "demo_tickets = \<lparr>tk_application_id = ''app'', tk_key = ''k'', tk_lifetime_ms = 1\<rparr>"

definition demo_ticket_host :: "json \<Rightarrow> ticket_host" where
  "demo_ticket_host p = \<lparr>derive_key = (\<lambda>s. s), encrypt = (\<lambda>k iv aad s. (s, ''0123456789abcdef'')),
     decrypt = (\<lambda>k iv aad tag s. Some s), to_base64url = (\<lambda>s. s), from_base64url = (\<lambda>s. s),
     json_stringify = (\<lambda>j. ''{}''), json_parse = (\<lambda>s. Some p),
     instant_text = unary_text, instant_parse = unary_parse,
     parse_url = (\<lambda>v. Some \<lparr>url_protocol = ''https:'', url_origin = v, url_username = [], url_password = []\<rparr>)\<rparr>"

definition demo_payload :: json where
  "demo_payload = (case ticket_payload (demo_ticket_host JNull) demo_tickets 0 ''id'' demo_input of
     Inl e \<Rightarrow> JNull | Inr (p, t) \<Rightarrow> p)"

lemmas demo_ticket_defs = demo_ticket_host_def demo_tickets_def demo_input_def demo_authentication_def
  demo_hop_def demo_admin_def demo_user_def

lemma demo_ticket_payload:
  "ticket_payload (demo_ticket_host q) demo_tickets 0 ''id'' demo_input = Inr (demo_payload, 500)"
  by (simp add: demo_payload_def ticket_payload_def demo_ticket_defs ticket_deadline_def
      normalize_browser_origin_def opt_res_def parse_ticket_actor_def actor_json_def actor_kinds_def
      serialize_ticket_delegation_def serialize_ticket_hop_def non_empty_string_def
      parse_ticket_tenant_def tenant_json_def serialize_ticket_authentication_def Let_def)

abbreviation "demo_host \<equiv> demo_ticket_host demo_payload"

abbreviation "demo_ticket \<equiv> ''v1.abcdefghijkl.{}.0123456789abcdef''"

lemma demo_issue:
  "issue demo_host demo_tickets 0 ''id'' ''abcdefghijkl'' demo_input = Inr (demo_ticket, 500)"
  by (simp add: issue_def demo_ticket_payload) (simp add: demo_ticket_defs)

lemma demo_host_seals: "host_seals demo_host demo_tickets ''abcdefghijkl'' demo_payload"
  by (simp add: host_seals_def demo_ticket_host_def)

lemma demo_instants: "instants_read_back demo_host"
  by (simp add: instants_read_back_def demo_ticket_host_def unary_parse_text)


theorem issued_deadline_bounds_witness:
  "0 * 1000 < (500::int) \<and> 500 \<le> (0 + tk_lifetime_ms demo_tickets) * 1000 \<and>
    hop_expires_at demo_hop = Some 500"
  using issued_deadline_bounds [OF demo_issue]
  by (auto simp: demo_hop_def)

lemma demo_open:
  "open_ticket demo_host demo_tickets 0 demo_ticket ''https://a'' =
    Inr (issued_admission ''id'' demo_input 500)"
proof -
  have "open_ticket demo_host demo_tickets 0 demo_ticket (in_origin demo_input) =
      (case parse_payload demo_host demo_tickets 0 demo_payload (in_origin demo_input) of
         Inl _ \<Rightarrow> Inl invalid_ticket | Inr adm \<Rightarrow> Inr adm)"
    by (rule open_sealed [OF demo_host_seals, where encrypted = "''{}''" and tag = "''0123456789abcdef''"])
       (simp_all add: demo_ticket_host_def)
  moreover have "parse_payload demo_host demo_tickets 0 demo_payload (in_origin demo_input) =
      Inr (issued_admission ''id'' demo_input 500)"
    by (rule parse_issued_payload [OF demo_ticket_payload demo_instants])
       (simp_all add: authentication_ok_def demo_ticket_defs authentication_states_def assurance_levels_def)
  ultimately show ?thesis by (simp add: demo_input_def)
qed

theorem opened_ticket_is_current_witness:
  "0 * 1000 < adm_expires_at (issued_admission ''id'' demo_input 500) \<and>
    adm_expires_at (issued_admission ''id'' demo_input 500) \<le> (0 + 5000 + tk_lifetime_ms demo_tickets) * 1000 \<and>
    actor_ok (adm_actor (issued_admission ''id'' demo_input 500)) \<and>
    normalize_browser_origin demo_host ''https://a'' = Inr ''https://a''"
  by (rule opened_ticket_is_current [OF demo_open])

end
