(* ===== verification/Throttle.thy ===== *)
theory Throttle
  imports Prelude "HOL-Library.Multiset"
begin

text \<open>
  The throttle of realtime commands, a sliding window per actor and command, in its three
  implementations: \<open>consumeRealtimeCommandThrottle\<close> of the Keryx server
  (\<open>packages/keryx/src/index.ts\<close>), of \<open>FakeBroadcastTransport\<close>
  (\<open>packages/core/src/broadcasting.ts\<close>), and the Lua script the Redis topology evaluates
  (\<open>packages/keryx/src/redis-backplane.ts\<close>).

  All three promise the contract of the locale \<open>sliding_window\<close>. Times are milliseconds. A
  deadline that the code would compute from an empty list of attempts, which is \<open>NaN\<close>, is
  \<open>None\<close>: it compares as false with everything.
\<close>

subsection \<open>Requests and decisions\<close>

type_synonym throttle_key = "string \<times> string"

record throttle_request =
  thr_key :: throttle_key \<comment> \<open>actor id and command\<close>
  thr_request_id :: string
  thr_limit :: int
  thr_window :: int

text \<open>\<open>Denied (Some d)\<close> carries \<open>retryAfterMs\<close>; \<open>Denied None\<close> is a \<open>NaN\<close> there.\<close>

datatype throttle_decision = Allowed | Denied "int option"

record bucket =
  bk_attempts :: "int list"
  bk_expires_at :: "int option"

type_synonym buckets = "(throttle_key, bucket) omap"

definition expired :: "int \<Rightarrow> bucket \<Rightarrow> bool" where
  "expired now b = (case bk_expires_at b of None \<Rightarrow> False | Some u \<Rightarrow> u \<le> now)"

definition prune_buckets :: "int \<Rightarrow> buckets \<Rightarrow> buckets" where
  "prune_buckets now s = om_prune (\<lambda>k b. expired now b) s"

definition attempts_of :: "buckets \<Rightarrow> throttle_key \<Rightarrow> int list" where
  "attempts_of s k = (case om_get s k of None \<Rightarrow> [] | Some b \<Rightarrow> bk_attempts b)"

text \<open>The part the two in-memory versions share: filter, compare with the limit, record.\<close>

definition throttle_bucket :: "int \<Rightarrow> throttle_request \<Rightarrow> buckets \<Rightarrow> throttle_decision \<times> buckets" where
  "throttle_bucket now r s =
     (let cutoff = now - thr_window r;
          attempts = filter (\<lambda>v. v > cutoff) (attempts_of s (thr_key r)) in
      if int (length attempts) \<ge> thr_limit r
      then (Denied (if attempts = [] then None else Some (max 1 (hd attempts + thr_window r - now))),
            om_set (thr_key r)
              \<lparr>bk_attempts = attempts,
               bk_expires_at = (if attempts = [] then None else Some (last attempts + thr_window r))\<rparr> s)
      else (Allowed,
            om_set (thr_key r)
              \<lparr>bk_attempts = attempts @ [now], bk_expires_at = Some (now + thr_window r)\<rparr> s))"

text \<open>\<open>FakeBroadcastTransport.consumeRealtimeCommandThrottle\<close>: prune everything, then as above.\<close>

definition fake_throttle :: "int \<Rightarrow> throttle_request \<Rightarrow> buckets \<Rightarrow> throttle_decision \<times> buckets" where
  "fake_throttle now r s = throttle_bucket now r (prune_buckets now s)"

text \<open>
  \<open>Keryx.consumeRealtimeCommandThrottle\<close> in the single topology: the request's own bucket is
  dropped when it has run out (a deadline of 0 or \<open>NaN\<close> is not true), and a new bucket is
  refused while the table is full even after pruning.
\<close>

definition drop_own_bucket :: "int \<Rightarrow> throttle_key \<Rightarrow> buckets \<Rightarrow> buckets" where
  "drop_own_bucket now k s = (case om_get s k of
     None \<Rightarrow> s
   | Some b \<Rightarrow> (case bk_expires_at b of
       None \<Rightarrow> s
     | Some u \<Rightarrow> if u \<noteq> 0 \<and> u \<le> now then om_delete k s else s))"

definition keryx_throttle ::
  "nat \<Rightarrow> int \<Rightarrow> throttle_request \<Rightarrow> buckets \<Rightarrow> throttle_decision \<times> buckets" where
  "keryx_throttle max_buckets now r s =
     (let s1 = drop_own_bucket now (thr_key r) s in
      if \<not> om_has s1 (thr_key r) \<and> length s1 \<ge> max_buckets
      then (let s2 = prune_buckets now s1 in
            if length s2 \<ge> max_buckets then (Denied (Some (thr_window r)), s2)
            else throttle_bucket now r s2)
      else throttle_bucket now r s1)"

subsection \<open>The Redis script\<close>

text \<open>
  A sorted set with a time to live: members with their scores, and the time from which Redis
  treats the key as gone. \<open>None\<close> as the decision is the error of \<open>tonumber(nil)\<close> on an
  empty set, which only a limit below one could reach.
\<close>

record zkey =
  z_entries :: "(string \<times> int) list"
  z_expires_at :: "int option"

definition z_live :: "int \<Rightarrow> zkey \<Rightarrow> (string \<times> int) list" where
  "z_live now z = (case z_expires_at z of
     None \<Rightarrow> z_entries z | Some u \<Rightarrow> if u \<le> now then [] else z_entries z)"

fun z_add :: "string \<Rightarrow> int \<Rightarrow> (string \<times> int) list \<Rightarrow> (string \<times> int) list" where
  "z_add m v es = filter (\<lambda>e. fst e \<noteq> m) es @ [(m, v)]"

definition redis_throttle ::
  "int \<Rightarrow> int \<Rightarrow> int \<Rightarrow> string \<Rightarrow> zkey \<Rightarrow> throttle_decision option \<times> zkey" where
  "redis_throttle now window limit member z =
     (let entries = filter (\<lambda>e. \<not> snd e \<le> now - window) (z_live now z);
          count = int (length entries) in
      if count \<ge> limit
      then (case entries of
              [] \<Rightarrow> (None, \<lparr>z_entries = entries, z_expires_at = None\<rparr>)
            | _ \<Rightarrow> (Some (Denied (Some (max 1 (Min (snd ` set entries) + window - now)))),
                    \<lparr>z_entries = entries, z_expires_at = Some (now + window)\<rparr>))
      else (Some Allowed,
            \<lparr>z_entries = z_add member now entries, z_expires_at = Some (now + window)\<rparr>))"

text \<open>
  \<open>RedisBackplane.consumeRealtimeCommandThrottle\<close>: one sorted set per hash of actor and command
  (here the pair itself), the member made of the request id and a random part.
\<close>

type_synonym zkeys = "(throttle_key, zkey) omap"

definition no_zkey :: zkey where
  "no_zkey = \<lparr>z_entries = [], z_expires_at = None\<rparr>"

definition zkey_of :: "zkeys \<Rightarrow> throttle_key \<Rightarrow> zkey" where
  "zkey_of s k = (case om_get s k of None \<Rightarrow> no_zkey | Some z \<Rightarrow> z)"

definition backplane_throttle ::
  "int \<Rightarrow> throttle_request \<Rightarrow> string \<Rightarrow> zkeys \<Rightarrow> throttle_decision option \<times> zkeys" where
  "backplane_throttle now r uuid s =
     (let (d, z) = redis_throttle now (thr_window r) (thr_limit r)
            (thr_request_id r @ '':'' @ uuid) (zkey_of s (thr_key r)) in
      (d, om_set (thr_key r) z s))"

subsection \<open>The contract of a sliding window\<close>

text \<open>
  \<open>forgets w now A B\<close>: the log \<open>B\<close> is \<open>A\<close> without some entries that left the window of
  length \<open>w\<close> by the time \<open>now\<close>.
\<close>

definition forgets :: "int \<Rightarrow> int \<Rightarrow> int list \<Rightarrow> int list \<Rightarrow> bool" where
  "forgets w now A B \<longleftrightarrow>
     (\<exists>p. (\<forall>x\<in>set A. \<not> p x \<longrightarrow> x + w \<le> now) \<and> mset B = filter_mset p (mset A))"

lemma forgets_refl [simp]: "forgets w now A A"
  unfolding forgets_def by (rule exI [of _ "\<lambda>_. True"]) simp

lemma forgets_nil: "(\<And>x. x \<in> set A \<Longrightarrow> x + w \<le> now) \<Longrightarrow> forgets w now A []"
  unfolding forgets_def by (rule exI [of _ "\<lambda>_. False"]) simp

lemma forgets_filter:
  "(\<And>x. x \<in> set A \<Longrightarrow> \<not> p x \<Longrightarrow> x + w \<le> now) \<Longrightarrow> forgets w now A (filter p A)"
  unfolding forgets_def by (rule exI [of _ p]) simp

lemma forgetsE:
  assumes "forgets w now A B"
  obtains p where "\<forall>x\<in>set A. \<not> p x \<longrightarrow> x + w \<le> now" and "mset B = filter_mset p (mset A)"
  using assms unfolding forgets_def by blast

lemma forgets_trans: "forgets w now A B \<Longrightarrow> forgets w now B C \<Longrightarrow> forgets w now A C"
proof -
  assume AB: "forgets w now A B" and BC: "forgets w now B C"
  from AB obtain p where p: "\<forall>x\<in>set A. \<not> p x \<longrightarrow> x + w \<le> now" "mset B = filter_mset p (mset A)"
    by (rule forgetsE)
  from BC obtain q where q: "\<forall>x\<in>set B. \<not> q x \<longrightarrow> x + w \<le> now" "mset C = filter_mset q (mset B)"
    by (rule forgetsE)
  have "set B = {x \<in> set A. p x}" using arg_cong [OF p(2), of set_mset] by simp
  then have "\<forall>x\<in>set A. \<not> (p x \<and> q x) \<longrightarrow> x + w \<le> now" using p(1) q(1) by blast
  moreover have "mset C = filter_mset (\<lambda>x. p x \<and> q x) (mset A)"
    unfolding q(2) p(2) filter_filter_mset by (rule refl)
  ultimately show ?thesis unfolding forgets_def by (intro exI [of _ "\<lambda>x. p x \<and> q x"] conjI)
qed

lemma forgets_length: "forgets w now A B \<Longrightarrow> length B \<le> length A"
proof -
  assume "forgets w now A B"
  then obtain p where "mset B = filter_mset p (mset A)" by (rule forgetsE)
  then have "size (mset B) = size (filter_mset p (mset A))" by simp
  also have "\<dots> \<le> size (mset A)" by (rule size_filter_mset_lesseq)
  finally show ?thesis by simp
qed

fun allowed_times ::
  "(int \<Rightarrow> 'r \<Rightarrow> 's \<Rightarrow> bool \<times> 's) \<Rightarrow> ('r \<Rightarrow> 'k) \<Rightarrow> 'k \<Rightarrow> (int \<times> 'r) list \<Rightarrow> 's \<Rightarrow> int list" where
  "allowed_times consume key k [] s = []"
| "allowed_times consume key k ((now, r) # es) s =
     (if fst (consume now r s) \<and> key r = k then [now] else []) @
     allowed_times consume key k es (snd (consume now r s))"

definition in_window :: "int \<Rightarrow> int \<Rightarrow> int \<Rightarrow> bool" where
  "in_window w t x \<longleftrightarrow> t - w < x \<and> x \<le> t"

lemma allowed_times_subset: "set (allowed_times consume key k es s) \<subseteq> fst ` set es"
  by (induction consume key k es s rule: allowed_times.induct) auto

fun ok_run ::
  "(int \<Rightarrow> 'r \<Rightarrow> 's \<Rightarrow> bool \<times> 's) \<Rightarrow> ('s \<Rightarrow> 'r \<Rightarrow> bool) \<Rightarrow> (int \<times> 'r) list \<Rightarrow> 's \<Rightarrow> bool" where
  "ok_run consume okreq [] s = True"
| "ok_run consume okreq ((now, r) # es) s =
     (okreq s r \<and> ok_run consume okreq es (snd (consume now r s)))"

locale sliding_window =
  fixes consume :: "int \<Rightarrow> 'r \<Rightarrow> 's \<Rightarrow> bool \<times> 's"
    and key :: "'r \<Rightarrow> 'k"
    and limit_of :: "'r \<Rightarrow> int"
    and log :: "'s \<Rightarrow> 'k \<Rightarrow> int list"
    and inv :: "'s \<Rightarrow> int \<Rightarrow> bool"
    and W :: "'k \<Rightarrow> int"
    and okreq :: "'s \<Rightarrow> 'r \<Rightarrow> bool"
  assumes inv_step: "inv s t \<Longrightarrow> t \<le> now \<Longrightarrow> okreq s r \<Longrightarrow> inv (snd (consume now r s)) now"
    and log_step: "inv s t \<Longrightarrow> t \<le> now \<Longrightarrow> okreq s r \<Longrightarrow>
        \<exists>B. forgets (W k) now (log s k) B \<and>
          mset (log (snd (consume now r s)) k) =
            mset B + (if fst (consume now r s) \<and> key r = k then {#now#} else {#})"
    and limit_step: "inv s t \<Longrightarrow> t \<le> now \<Longrightarrow> okreq s r \<Longrightarrow> fst (consume now r s) \<Longrightarrow>
        int (length (log (snd (consume now r s)) (key r))) \<le> limit_of r"
begin

lemma window_limit:
  assumes "inv s t0" and "int (length (log s k)) \<le> n" and "sorted (t0 # map fst es)"
    and "ok_run consume okreq es s"
    and "\<And>r. r \<in> snd ` set es \<Longrightarrow> key r = k \<Longrightarrow> limit_of r = n"
  shows "int (size (filter_mset (in_window (W k) t)
    (mset (log s k) + mset (allowed_times consume key k es s)))) \<le> n"
  using assms
proof (induction es arbitrary: s t0)
  case Nil
  have "size (filter_mset (in_window (W k) t) (mset (log s k))) \<le> size (mset (log s k))"
    by (rule size_filter_mset_lesseq)
  with Nil.prems show ?case by simp
next
  case (Cons e es)
  obtain now r where e: "e = (now, r)" by (cases e)
  let ?s = "snd (consume now r s)" and ?new = "if fst (consume now r s) \<and> key r = k then [now] else []"
  let ?rest = "allowed_times consume key k es ?s"
  have r: "okreq s r" "key r = k \<Longrightarrow> limit_of r = n" and es: "ok_run consume okreq es ?s"
    using Cons.prems(4,5) by (simp_all add: e)
  have t0: "t0 \<le> now" using Cons.prems(3) by (simp add: e)
  have new: "(if fst (consume now r s) \<and> key r = k then {#now#} else {#}) = mset ?new" by simp
  from log_step [OF Cons.prems(1) t0 r(1), of k] obtain B where
    B: "forgets (W k) now (log s k) B" "mset (log ?s k) = mset B + mset ?new"
    unfolding new by blast
  from B(1) obtain p where p: "\<forall>x\<in>set (log s k). \<not> p x \<longrightarrow> x + W k \<le> now"
      "mset B = filter_mset p (mset (log s k))"
    by (rule forgetsE)
  have small: "int (length (log ?s k)) \<le> n"
  proof (cases "?new = []")
    case True
    with B(2) have "mset (log ?s k) = mset B" by simp
    then have "length (log ?s k) = length B" by (rule mset_eq_length)
    with forgets_length [OF B(1)] Cons.prems(2) show ?thesis by simp
  next
    case False
    then have "fst (consume now r s)" "key r = k" by (simp_all split: if_splits)
    with limit_step [OF Cons.prems(1) t0 r(1)] r(2) show ?thesis by simp
  qed
  have later: "\<forall>x\<in>set ?rest. now \<le> x"
    using allowed_times_subset [of consume key k es ?s] Cons.prems(3) e by auto
  have IH: "int (size (filter_mset (in_window (W k) t) (mset (log ?s k) + mset ?rest))) \<le> n"
  proof (rule Cons.IH [OF inv_step [OF Cons.prems(1) t0 r(1)] small _ es])
    show "sorted (now # map fst es)" using Cons.prems(3) by (simp add: e)
    show "limit_of r' = n" if "r' \<in> snd ` set es" "key r' = k" for r'
      using Cons.prems(5) [of r'] that by simp
  qed
  show ?case
  proof (cases "\<exists>x\<in>set (log s k). \<not> p x \<and> in_window (W k) t x")
    case True
    then have "t < now" using p(1) by (auto simp: in_window_def)
    with later have "set_mset (filter_mset (in_window (W k) t) (mset ?new + mset ?rest)) = {}"
      by (auto simp: in_window_def)
    then have "filter_mset (in_window (W k) t) (mset ?new + mset ?rest) = {#}"
      by (rule set_mset_eq_empty_iff [THEN iffD1])
    then have "filter_mset (in_window (W k) t) (mset (log s k) + mset (?new @ ?rest)) =
        filter_mset (in_window (W k) t) (mset (log s k))"
      by (simp only: mset_append filter_union_mset add_0_right)
    then have "int (size (filter_mset (in_window (W k) t) (mset (log s k) + mset (?new @ ?rest)))) \<le> n"
      using Cons.prems(2) size_filter_mset_lesseq [of "in_window (W k) t" "mset (log s k)"]
      by (simp only: size_mset)
    then show ?thesis by (simp only: e allowed_times.simps)
  next
    case False
    then have "filter_mset (in_window (W k) t) (mset (log s k)) =
        filter_mset (in_window (W k) t) (mset B)"
      unfolding p(2) filter_filter_mset by (intro filter_mset_cong) auto
    then have "filter_mset (in_window (W k) t) (mset (log s k) + mset (?new @ ?rest)) =
        filter_mset (in_window (W k) t) (mset (log ?s k) + mset ?rest)"
      by (simp add: B(2))
    with IH show ?thesis by (simp only: e allowed_times.simps)
  qed
qed

end

subsection \<open>The in-memory implementations keep the contract\<close>

text \<open>
  Every bucket lists its attempts in order, none of them in the future, and its deadline is not
  before the end of the window of any of them.
\<close>

definition bucket_ok :: "int \<Rightarrow> int \<Rightarrow> bucket \<Rightarrow> bool" where
  "bucket_ok w t b \<longleftrightarrow> sorted (bk_attempts b) \<and> (\<forall>x\<in>set (bk_attempts b). x \<le> t) \<and>
     (case bk_expires_at b of
        None \<Rightarrow> bk_attempts b = []
      | Some u \<Rightarrow> \<forall>x\<in>set (bk_attempts b). x + w \<le> u)"

definition buckets_ok :: "(throttle_key \<Rightarrow> int) \<Rightarrow> buckets \<Rightarrow> int \<Rightarrow> bool" where
  "buckets_ok W s t \<longleftrightarrow> om_ok s \<and> (\<forall>k b. om_get s k = Some b \<longrightarrow> bucket_ok (W k) t b)"

lemma buckets_okD:
  "buckets_ok W s t \<Longrightarrow> om_get s k = Some b \<Longrightarrow> bucket_ok (W k) t b"
  "buckets_ok W s t \<Longrightarrow> om_ok s"
  by (simp_all only: buckets_ok_def)

lemma buckets_ok_nil [simp]: "buckets_ok W [] t"
  by (simp add: buckets_ok_def)

lemma bucket_ok_later: "bucket_ok w t b \<Longrightarrow> t \<le> t' \<Longrightarrow> bucket_ok w t' b"
  by (auto simp: bucket_ok_def)

lemma buckets_ok_later: "buckets_ok W s t \<Longrightarrow> t \<le> t' \<Longrightarrow> buckets_ok W s t'"
  by (auto simp: buckets_ok_def intro: bucket_ok_later)

lemma buckets_ok_prune: "buckets_ok W s t \<Longrightarrow> buckets_ok W (prune_buckets now s) t"
  by (auto simp: buckets_ok_def prune_buckets_def om_get_prune split: option.splits if_splits)

lemma buckets_ok_drop: "buckets_ok W s t \<Longrightarrow> buckets_ok W (drop_own_bucket now k s) t"
  by (auto simp: buckets_ok_def drop_own_bucket_def split: option.splits if_splits)

lemma expired_forgotten:
  "bucket_ok w t b \<Longrightarrow> bk_expires_at b = Some u \<Longrightarrow> u \<le> now \<Longrightarrow> forgets w now (bk_attempts b) []"
  by (rule forgets_nil) (auto simp: bucket_ok_def dest: bspec)

lemma prune_forgets:
  assumes "buckets_ok W s t"
  shows "forgets (W k) now (attempts_of s k) (attempts_of (prune_buckets now s) k)"
proof (cases "om_get s k")
  case None
  with assms show ?thesis
    by (simp add: attempts_of_def prune_buckets_def om_get_prune buckets_ok_def)
next
  case (Some b)
  have ok: "om_ok s" "bucket_ok (W k) t b" using buckets_okD [OF assms] Some by simp_all
  show ?thesis
  proof (cases "expired now b")
    case True
    then obtain u where "bk_expires_at b = Some u" "u \<le> now"
      by (auto simp: expired_def split: option.splits)
    with expired_forgotten [OF ok(2)] True Some ok(1) show ?thesis
      by (simp add: attempts_of_def prune_buckets_def om_get_prune)
  next
    case False
    with Some ok(1) show ?thesis by (simp add: attempts_of_def prune_buckets_def om_get_prune)
  qed
qed

lemma drop_forgets:
  assumes "buckets_ok W s t"
  shows "forgets (W k) now (attempts_of s k) (attempts_of (drop_own_bucket now k' s) k)"
proof (cases "k' = k \<and> drop_own_bucket now k' s = om_delete k s")
  case True
  then show ?thesis
  proof (cases "om_get s k")
    case (Some b)
    have ok: "bucket_ok (W k) t b" using buckets_okD(1) [OF assms Some] .
    show ?thesis
    proof (cases "\<exists>u. bk_expires_at b = Some u \<and> u \<le> now")
      case True
      with expired_forgotten [OF ok] Some \<open>k' = k \<and> _\<close> show ?thesis
        by (auto simp: attempts_of_def)
    next
      case False
      with Some \<open>k' = k \<and> _\<close> have "drop_own_bucket now k' s = s"
        by (auto simp: drop_own_bucket_def split: option.splits)
      then show ?thesis by simp
    qed
  qed (simp add: attempts_of_def drop_own_bucket_def)
next
  case False
  then have "om_get (drop_own_bucket now k' s) k = om_get s k"
    by (auto simp: drop_own_bucket_def split: option.splits)
  then show ?thesis by (simp add: attempts_of_def)
qed

lemma throttle_bucket_result:
  assumes "buckets_ok W s t" and "t \<le> now" and "thr_window r = W (thr_key r)"
  defines "s' \<equiv> snd (throttle_bucket now r s)"
  shows "buckets_ok W s' now"
    and "\<exists>B. forgets (W k) now (attempts_of s k) B \<and>
      mset (attempts_of s' k) =
        mset B + (if fst (throttle_bucket now r s) = Allowed \<and> thr_key r = k then {#now#} else {#})"
    and "fst (throttle_bucket now r s) = Allowed \<Longrightarrow>
      int (length (attempts_of s' (thr_key r))) \<le> thr_limit r"
proof -
  let ?w = "thr_window r"
  define A where "A = filter (\<lambda>v. v > now - ?w) (attempts_of s (thr_key r))"
  have srt: "sorted (attempts_of s (thr_key r))" "\<forall>x\<in>set (attempts_of s (thr_key r)). x \<le> t"
    using buckets_okD(1) [OF assms(1), of "thr_key r"]
    by (cases "om_get s (thr_key r)"; simp add: bucket_ok_def attempts_of_def)+
  then have A: "sorted A" "\<forall>x\<in>set A. x \<le> now"
    using assms(2) by (auto simp: A_def sorted_wrt_filter intro: order_trans)
  have last: "\<forall>x\<in>set A. x \<le> last A" using A(1)
    by (cases A rule: rev_cases) (auto simp: sorted_append)
  have fA: "forgets ?w now (attempts_of s (thr_key r)) A"
    unfolding A_def by (rule forgets_filter) simp
  have later: "buckets_ok W s now" using assms(1,2) by (rule buckets_ok_later)
  have res: "throttle_bucket now r s =
      (if int (length A) \<ge> thr_limit r
       then (Denied (if A = [] then None else Some (max 1 (hd A + ?w - now))),
             om_set (thr_key r) \<lparr>bk_attempts = A,
               bk_expires_at = (if A = [] then None else Some (last A + ?w))\<rparr> s)
       else (Allowed, om_set (thr_key r)
               \<lparr>bk_attempts = A @ [now], bk_expires_at = Some (now + ?w)\<rparr> s))"
    by (simp add: throttle_bucket_def A_def Let_def)
  have b1: "bucket_ok ?w now \<lparr>bk_attempts = A,
      bk_expires_at = (if A = [] then None else Some (last A + ?w))\<rparr>"
    using A last by (simp add: bucket_ok_def)
  have b2: "bucket_ok ?w now \<lparr>bk_attempts = A @ [now], bk_expires_at = Some (now + ?w)\<rparr>"
    using A by (auto simp: bucket_ok_def sorted_append)
  from later b1 b2 assms(3) show "buckets_ok W s' now"
    by (auto simp: s'_def res buckets_ok_def)
  show "int (length (attempts_of s' (thr_key r))) \<le> thr_limit r"
    if "fst (throttle_bucket now r s) = Allowed"
    using that by (auto simp: s'_def res attempts_of_def split: if_splits)
  show "\<exists>B. forgets (W k) now (attempts_of s k) B \<and> mset (attempts_of s' k) =
      mset B + (if fst (throttle_bucket now r s) = Allowed \<and> thr_key r = k then {#now#} else {#})"
  proof (cases "thr_key r = k")
    case True
    with fA assms(3) show ?thesis
      by (intro exI [of _ A]) (auto simp: s'_def res attempts_of_def)
  next
    case False
    then have "attempts_of s' k = attempts_of s k" by (auto simp: s'_def res attempts_of_def)
    with False show ?thesis by (intro exI [of _ "attempts_of s k"]) simp
  qed
qed

text \<open>Any preparation of the table that only forgets may come before \<open>throttle_bucket\<close>.\<close>

lemma throttle_after:
  assumes "buckets_ok W s0 t" and "t \<le> now" and "thr_window r = W (thr_key r)"
    and "\<And>k. forgets (W k) now (attempts_of s k) (attempts_of s0 k)"
  shows "\<exists>B. forgets (W k) now (attempts_of s k) B \<and>
      mset (attempts_of (snd (throttle_bucket now r s0)) k) =
        mset B + (if fst (throttle_bucket now r s0) = Allowed \<and> thr_key r = k then {#now#} else {#})"
  using throttle_bucket_result(2) [OF assms(1-3), of k] assms(4) [of k]
  by (blast intro: forgets_trans)

text \<open>The fake transport.\<close>

abbreviation granted :: "throttle_decision \<times> 's \<Rightarrow> bool \<times> 's" where
  "granted d \<equiv> map_prod (\<lambda>x. x = Allowed) (\<lambda>s. s) d"

definition own_window :: "(throttle_key \<Rightarrow> int) \<Rightarrow> 's \<Rightarrow> throttle_request \<Rightarrow> bool" where
  "own_window W s r \<longleftrightarrow> thr_window r = W (thr_key r)"

interpretation fake: sliding_window
  "\<lambda>now r s. granted (fake_throttle now r s)" thr_key thr_limit attempts_of "buckets_ok W" W
  "own_window W"
  for W
proof unfold_locales
  fix s t now r k
  assume a: "buckets_ok W s t" "t \<le> now" "own_window W s r"
  note p = buckets_ok_prune [OF a(1), of now]
  show "buckets_ok W (snd (granted (fake_throttle now r s))) now"
    using throttle_bucket_result(1) [OF p a(2)] a(3) by (simp add: fake_throttle_def own_window_def)
  show "\<exists>B. forgets (W k) now (attempts_of s k) B \<and>
      mset (attempts_of (snd (granted (fake_throttle now r s))) k) =
        mset B + (if fst (granted (fake_throttle now r s)) \<and> thr_key r = k then {#now#} else {#})"
    using throttle_after [OF p a(2) _ prune_forgets [OF a(1)]] a(3)
    by (simp add: fake_throttle_def own_window_def)
  show "int (length (attempts_of (snd (granted (fake_throttle now r s))) (thr_key r))) \<le> thr_limit r"
    if "fst (granted (fake_throttle now r s))"
    using throttle_bucket_result(3) [OF p a(2)] a(3) that
    by (simp add: fake_throttle_def own_window_def)
qed

text \<open>The Keryx server.\<close>

definition prepared :: "nat \<Rightarrow> int \<Rightarrow> throttle_request \<Rightarrow> buckets \<Rightarrow> buckets" where
  "prepared mx now r s =
     (let s1 = drop_own_bucket now (thr_key r) s in
      if \<not> om_has s1 (thr_key r) \<and> length s1 \<ge> mx then prune_buckets now s1 else s1)"

lemma keryx_throttle_prepared:
  "keryx_throttle mx now r s =
     (if \<not> om_has (drop_own_bucket now (thr_key r) s) (thr_key r) \<and> length (prepared mx now r s) \<ge> mx
      then (Denied (Some (thr_window r)), prepared mx now r s)
      else throttle_bucket now r (prepared mx now r s))"
  by (auto simp: keryx_throttle_def prepared_def Let_def)

lemma prepared_ok: "buckets_ok W s t \<Longrightarrow> buckets_ok W (prepared mx now r s) t"
  by (simp add: prepared_def Let_def buckets_ok_drop buckets_ok_prune)

lemma prepared_forgets:
  assumes "buckets_ok W s t"
  shows "forgets (W k) now (attempts_of s k) (attempts_of (prepared mx now r s) k)"
  using drop_forgets [OF assms, of k now "thr_key r"]
    prune_forgets [OF buckets_ok_drop [OF assms, of now "thr_key r"], of k now]
  by (auto simp: prepared_def Let_def intro: forgets_trans)

interpretation keryx: sliding_window
  "\<lambda>now r s. granted (keryx_throttle mx now r s)" thr_key thr_limit attempts_of "buckets_ok W" W
  "own_window W"
  for mx W
proof unfold_locales
  fix s t now r k
  assume a: "buckets_ok W s t" "t \<le> now" "own_window W s r"
  note p = prepared_ok [OF a(1), of mx now r]
  show "buckets_ok W (snd (granted (keryx_throttle mx now r s))) now"
    using throttle_bucket_result(1) [OF p a(2)] a(3) buckets_ok_later [OF p a(2)]
    by (simp add: keryx_throttle_prepared own_window_def)
  show "\<exists>B. forgets (W k) now (attempts_of s k) B \<and>
      mset (attempts_of (snd (granted (keryx_throttle mx now r s))) k) =
        mset B + (if fst (granted (keryx_throttle mx now r s)) \<and> thr_key r = k then {#now#} else {#})"
  proof (cases "\<not> om_has (drop_own_bucket now (thr_key r) s) (thr_key r) \<and> length (prepared mx now r s) \<ge> mx")
    case True
    with prepared_forgets [OF a(1), where k = k and now = now and mx = mx and r = r] show ?thesis
      by (intro exI [of _ "attempts_of (prepared mx now r s) k"]) (simp add: keryx_throttle_prepared)
  next
    case False
    have w: "thr_window r = W (thr_key r)" using a(3) by (simp add: own_window_def)
    have "granted (keryx_throttle mx now r s) = granted (throttle_bucket now r (prepared mx now r s))"
      unfolding keryx_throttle_prepared using False by (simp only: if_False)
    with throttle_after [OF p a(2) w prepared_forgets [OF a(1)], where k = k] show ?thesis
      by simp
  qed
  show "int (length (attempts_of (snd (granted (keryx_throttle mx now r s))) (thr_key r))) \<le> thr_limit r"
    if "fst (granted (keryx_throttle mx now r s))"
    using throttle_bucket_result(3) [OF p a(2)] a(3) that
    by (auto simp: keryx_throttle_prepared own_window_def split: if_splits)
qed

subsection \<open>The Redis implementation keeps the contract\<close>

definition zkey_ok :: "int \<Rightarrow> int \<Rightarrow> zkey \<Rightarrow> bool" where
  "zkey_ok w t z \<longleftrightarrow> sorted (map snd (z_entries z)) \<and> (\<forall>e\<in>set (z_entries z). snd e \<le> t) \<and>
     (case z_expires_at z of
        None \<Rightarrow> z_entries z = []
      | Some u \<Rightarrow> \<forall>e\<in>set (z_entries z). snd e + w \<le> u)"

definition zkeys_ok :: "(throttle_key \<Rightarrow> int) \<Rightarrow> zkeys \<Rightarrow> int \<Rightarrow> bool" where
  "zkeys_ok W s t \<longleftrightarrow> (\<forall>k. zkey_ok (W k) t (zkey_of s k))"

definition scores_of :: "zkeys \<Rightarrow> throttle_key \<Rightarrow> int list" where
  "scores_of s k = map snd (z_entries (zkey_of s k))"

definition member_of :: "throttle_request \<times> string \<Rightarrow> string" where
  "member_of q = thr_request_id (fst q) @ '':'' @ snd q"

definition fresh_request :: "(throttle_key \<Rightarrow> int) \<Rightarrow> zkeys \<Rightarrow> throttle_request \<times> string \<Rightarrow> bool" where
  "fresh_request W s q \<longleftrightarrow> own_window W s (fst q) \<and>
     member_of q \<notin> fst ` set (z_entries (zkey_of s (thr_key (fst q))))"

definition backplane_granted ::
  "int \<Rightarrow> throttle_request \<times> string \<Rightarrow> zkeys \<Rightarrow> bool \<times> zkeys" where
  "backplane_granted now q s =
     map_prod (\<lambda>d. d = Some Allowed) (\<lambda>s. s) (backplane_throttle now (fst q) (snd q) s)"

lemma zkeys_okD: "zkeys_ok W s t \<Longrightarrow> zkey_ok (W k) t (zkey_of s k)"
  by (simp only: zkeys_ok_def)

lemma zkeys_ok_nil [simp]: "zkeys_ok W [] t"
  by (simp add: zkeys_ok_def zkey_ok_def zkey_of_def no_zkey_def)

lemma zkey_of_set [simp]: "zkey_of (om_set k z s) k' = (if k' = k then z else zkey_of s k')"
  by (simp add: zkey_of_def)

lemma backplane_granted_unfold:
  "backplane_granted now q s =
     (let r = fst q; (d, z) = redis_throttle now (thr_window r) (thr_limit r) (member_of q)
            (zkey_of s (thr_key r)) in (d = Some Allowed, om_set (thr_key r) z s))"
  by (simp add: backplane_granted_def backplane_throttle_def member_of_def Let_def split: prod.splits)

lemma z_add_fresh: "m \<notin> fst ` set es \<Longrightarrow> z_add m v es = es @ [(m, v)]"
  by (auto simp: image_iff intro: filter_True)

lemma live_subset: "set (z_live now z) \<subseteq> set (z_entries z)"
  by (auto simp: z_live_def split: option.splits if_splits)

lemma live_forgets:
  "zkey_ok w t z \<Longrightarrow> forgets w now (map snd (z_entries z)) (map snd (z_live now z))"
  by (fastforce simp: z_live_def zkey_ok_def split: option.splits intro!: forgets_nil)

lemma redis_throttle_result:
  fixes limit :: int
  assumes "zkey_ok w t z" and "t \<le> now" and "m \<notin> fst ` set (z_entries z)"
  defines "z' \<equiv> snd (redis_throttle now w limit m z)"
  shows "zkey_ok w now z'"
    and "\<exists>B. forgets w now (map snd (z_entries z)) B \<and>
      map snd (z_entries z') =
        B @ (if fst (redis_throttle now w limit m z) = Some Allowed then [now] else [])"
    and "fst (redis_throttle now w limit m z) = Some Allowed \<Longrightarrow> int (length (z_entries z')) \<le> limit"
proof -
  define E where "E = filter (\<lambda>e. \<not> snd e \<le> now - w) (z_live now z)"
  have sub: "set E \<subseteq> set (z_entries z)" using live_subset [of now z] by (auto simp: E_def)
  have srt: "sorted (map snd E)"
    using assms(1) by (auto simp: E_def z_live_def zkey_ok_def sorted_filter split: option.splits)
  have le: "\<forall>e\<in>set E. snd e \<le> now" using sub assms(1,2) by (fastforce simp: zkey_ok_def)
  have fE: "forgets w now (map snd (z_entries z)) (map snd E)"
  proof (rule forgets_trans [OF live_forgets [OF assms(1)]])
    have "map snd E = filter (\<lambda>v. \<not> v \<le> now - w) (map snd (z_live now z))"
      by (simp add: E_def filter_map comp_def)
    then show "forgets w now (map snd (z_live now z)) (map snd E)"
      by (simp only:) (rule forgets_filter, simp)
  qed
  have add: "z_add m now E = E @ [(m, now)]" using sub assms(3) by (intro z_add_fresh) auto
  have res: "redis_throttle now w limit m z =
      (if int (length E) \<ge> limit
       then (case E of [] \<Rightarrow> (None, \<lparr>z_entries = E, z_expires_at = None\<rparr>)
             | _ \<Rightarrow> (Some (Denied (Some (max 1 (Min (snd ` set E) + w - now)))),
                     \<lparr>z_entries = E, z_expires_at = Some (now + w)\<rparr>))
       else (Some Allowed, \<lparr>z_entries = E @ [(m, now)], z_expires_at = Some (now + w)\<rparr>))"
    unfolding redis_throttle_def E_def [symmetric] Let_def add by (rule refl)
  show "zkey_ok w now z'"
    using srt le by (cases E) (auto simp: z'_def res zkey_ok_def sorted_append)
  show "\<exists>B. forgets w now (map snd (z_entries z)) B \<and> map snd (z_entries z') =
      B @ (if fst (redis_throttle now w limit m z) = Some Allowed then [now] else [])"
    using fE by (intro exI [of _ "map snd E"]) (cases E; auto simp: z'_def res)
  show "int (length (z_entries z')) \<le> limit"
    if "fst (redis_throttle now w limit m z) = Some Allowed"
    using that by (cases E) (auto simp: z'_def res split: if_splits)
qed

interpretation redis: sliding_window backplane_granted "\<lambda>q. thr_key (fst q)" "\<lambda>q. thr_limit (fst q)"
  scores_of "zkeys_ok W" W "fresh_request W"
  for W
proof unfold_locales
  fix s t now q k
  assume a: "zkeys_ok W s t" "t \<le> now" "fresh_request W s q"
  let ?k = "thr_key (fst q)"
  have z: "zkey_ok (thr_window (fst q)) t (zkey_of s ?k)"
    and m: "member_of q \<notin> fst ` set (z_entries (zkey_of s ?k))"
    and w: "thr_window (fst q) = W ?k"
    using zkeys_okD [OF a(1), of ?k] a(3) by (simp_all add: fresh_request_def own_window_def)
  let ?d = "redis_throttle now (thr_window (fst q)) (thr_limit (fst q)) (member_of q) (zkey_of s ?k)"
  have st: "backplane_granted now q s = (fst ?d = Some Allowed, om_set ?k (snd ?d) s)"
    by (simp add: backplane_granted_unfold Let_def split: prod.split)
  note r = redis_throttle_result [OF z a(2) m, of "thr_limit (fst q)"]
  have others: "zkey_ok (W k') now (zkey_of s k')" for k'
    using zkeys_okD [OF a(1), of k'] a(2) by (auto simp: zkey_ok_def)
  show "zkeys_ok W (snd (backplane_granted now q s)) now"
    using r(1) others w by (simp add: st zkeys_ok_def)
  show "\<exists>B. forgets (W k) now (scores_of s k) B \<and>
      mset (scores_of (snd (backplane_granted now q s)) k) =
        mset B + (if fst (backplane_granted now q s) \<and> ?k = k then {#now#} else {#})"
  proof (cases "?k = k")
    case True
    from r(2) obtain B where "forgets (W k) now (scores_of s k) B"
      "map snd (z_entries (snd ?d)) = B @ (if fst ?d = Some Allowed then [now] else [])"
      using True w by (auto simp: scores_of_def)
    with True show ?thesis by (intro exI [of _ B]) (simp add: st scores_of_def)
  next
    case False
    then show ?thesis by (intro exI [of _ "scores_of s k"]) (simp add: st scores_of_def)
  qed
  show "int (length (scores_of (snd (backplane_granted now q s)) ?k)) \<le> thr_limit (fst q)"
    if "fst (backplane_granted now q s)"
    using r(3) that by (simp add: st scores_of_def)
qed

text \<open>Requests whose members are pairwise distinct are fresh when their turn comes.\<close>

lemma redis_members:
  "fst ` set (z_entries (snd (redis_throttle now w limit m z))) \<subseteq> insert m (fst ` set (z_entries z))"
proof -
  define E where "E = filter (\<lambda>e. \<not> snd e \<le> now - w) (z_live now z)"
  have sub: "fst ` set E \<subseteq> fst ` set (z_entries z)"
    using live_subset [of now z] by (auto simp: E_def)
  have "set (z_entries (snd (redis_throttle now w limit m z))) \<subseteq> insert (m, now) (set E)"
    unfolding redis_throttle_def E_def [symmetric] Let_def by (auto split: list.split)
  then have "fst ` set (z_entries (snd (redis_throttle now w limit m z))) \<subseteq>
      fst ` insert (m, now) (set E)"
    by (rule image_mono)
  with sub show ?thesis by (simp only: image_insert fst_conv) blast
qed

lemma fresh_run:
  assumes "distinct (map (member_of \<circ> snd) es)"
    and "\<And>q. q \<in> snd ` set es \<Longrightarrow> own_window W s (fst q)"
    and "\<And>q k. q \<in> snd ` set es \<Longrightarrow> member_of q \<notin> fst ` set (z_entries (zkey_of s k))"
  shows "ok_run backplane_granted (fresh_request W) es s"
  using assms
proof (induction es arbitrary: s)
  case (Cons e es)
  obtain now q where e: "e = (now, q)" by (cases e)
  let ?s = "snd (backplane_granted now q s)"
  have st: "zkey_of ?s k = (if k = thr_key (fst q)
      then snd (redis_throttle now (thr_window (fst q)) (thr_limit (fst q)) (member_of q) (zkey_of s k))
      else zkey_of s k)" for k
    by (simp add: backplane_granted_unfold Let_def split: prod.split)
  have "ok_run backplane_granted (fresh_request W) es ?s"
  proof (rule Cons.IH)
    show "distinct (map (member_of \<circ> snd) es)" using Cons.prems(1) by (simp only: list.map distinct.simps)
    show "own_window W ?s (fst q')" if "q' \<in> snd ` set es" for q'
      using Cons.prems(2) [of q'] that by (simp add: own_window_def)
    show "member_of q' \<notin> fst ` set (z_entries (zkey_of ?s k))" if q': "q' \<in> snd ` set es" for q' k
    proof -
      have "member_of q' \<in> member_of ` snd ` set es" using q' by (rule imageI)
      moreover have "member_of q \<notin> member_of ` snd ` set es"
        using Cons.prems(1) by (simp add: e image_image)
      ultimately have "member_of q' \<noteq> member_of q" by metis
      moreover have "member_of q' \<notin> fst ` set (z_entries (zkey_of s k))"
        using Cons.prems(3) [of q' k] q' by simp
      ultimately show ?thesis
        using redis_members [of now "thr_window (fst q)" "thr_limit (fst q)" "member_of q" "zkey_of s k"]
        unfolding st by auto
    qed
  qed
  moreover have "fresh_request W s q"
    using Cons.prems(2) [of q] Cons.prems(3) [of q] by (simp add: e fresh_request_def)
  ultimately show ?case by (simp add: e)
qed simp

subsection \<open>The throttle as a function of its history\<close>

text \<open>
  The abstract throttle remembers every attempt it ever allowed and looks at those inside the
  window. Every implementation decides as it does.
\<close>

type_synonym history = "throttle_key \<Rightarrow> int list"

definition live :: "int \<Rightarrow> int \<Rightarrow> int list \<Rightarrow> int list" where
  "live w now A = filter (\<lambda>v. v > now - w) A"

definition spec_decide :: "int \<Rightarrow> throttle_request \<Rightarrow> int list \<Rightarrow> throttle_decision" where
  "spec_decide now r A =
     (if int (length A) \<ge> thr_limit r
      then Denied (if A = [] then None else Some (max 1 (hd A + thr_window r - now)))
      else Allowed)"

definition spec_throttle :: "int \<Rightarrow> throttle_request \<Rightarrow> history \<Rightarrow> throttle_decision \<times> history" where
  "spec_throttle now r h =
     (let d = spec_decide now r (live (thr_window r) now (h (thr_key r))) in
      (d, if d = Allowed then h(thr_key r := h (thr_key r) @ [now]) else h))"

fun decisions :: "(int \<Rightarrow> 'r \<Rightarrow> 's \<Rightarrow> 'd \<times> 's) \<Rightarrow> (int \<times> 'r) list \<Rightarrow> 's \<Rightarrow> 'd list" where
  "decisions consume [] s = []"
| "decisions consume ((now, r) # es) s =
     fst (consume now r s) # decisions consume es (snd (consume now r s))"

definition same_live :: "(throttle_key \<Rightarrow> int) \<Rightarrow> int \<Rightarrow> history \<Rightarrow> history \<Rightarrow> bool" where
  "same_live W t f h \<longleftrightarrow> (\<forall>k now. t \<le> now \<longrightarrow> live (W k) now (f k) = live (W k) now (h k))"

lemma live_live: "now \<le> now' \<Longrightarrow> live w now' (live w now A) = live w now' A"
  by (auto simp: live_def intro!: filter_cong)

lemma live_Nil [simp]: "live w now [] = []"
  by (simp add: live_def)

lemma attempts_of_set [simp]:
  "attempts_of (om_set k b s) k' = (if k' = k then bk_attempts b else attempts_of s k')"
  by (simp add: attempts_of_def)

lemma live_append [simp]: "live w now (A @ B) = live w now A @ live w now B"
  by (simp add: live_def)

lemma live_forgotten: "(\<And>x. x \<in> set A \<Longrightarrow> x + w \<le> now) \<Longrightarrow> now \<le> now' \<Longrightarrow> live w now' A = []"
  by (fastforce simp: live_def filter_empty_conv)

lemma same_liveD: "same_live W t f h \<Longrightarrow> t \<le> now \<Longrightarrow> live (W k) now (f k) = live (W k) now (h k)"
  by (simp only: same_live_def)

text \<open>
  A step that decides by the live entries and keeps them, adding the time when it allows, is a
  step of the abstract throttle.
\<close>

lemma spec_simulation:
  assumes "same_live W t f h" and "t \<le> now" and "thr_window r = W (thr_key r)"
    and "d = spec_decide now r (live (thr_window r) now (f (thr_key r)))"
    and "\<And>k now'. now \<le> now' \<Longrightarrow> live (W k) now' (f' k) =
          live (W k) now' (f k @ (if k = thr_key r \<and> d = Allowed then [now] else []))"
  shows "d = fst (spec_throttle now r h)" and "same_live W now f' (snd (spec_throttle now r h))"
proof -
  show d: "d = fst (spec_throttle now r h)"
    using assms(3,4) same_liveD [OF assms(1,2)] by (simp add: spec_throttle_def Let_def)
  have h: "snd (spec_throttle now r h) =
      (if d = Allowed then h(thr_key r := h (thr_key r) @ [now]) else h)"
    using d by (simp add: spec_throttle_def Let_def)
  show "same_live W now f' (snd (spec_throttle now r h))"
    unfolding same_live_def
  proof (intro allI impI)
    fix k now' assume "now \<le> now'"
    then have "live (W k) now' (f k) = live (W k) now' (h k)"
      using same_liveD [OF assms(1), of now' k] assms(2) by simp
    with assms(5) [OF \<open>now \<le> now'\<close>, of k]
    show "live (W k) now' (f' k) = live (W k) now' (snd (spec_throttle now r h) k)"
      by (simp add: h)
  qed
qed

lemma throttle_bucket_spec:
  assumes "same_live W t (attempts_of s) h" and "t \<le> now" and "thr_window r = W (thr_key r)"
  shows "fst (throttle_bucket now r s) = fst (spec_throttle now r h)"
    and "same_live W now (attempts_of (snd (throttle_bucket now r s))) (snd (spec_throttle now r h))"
proof -
  let ?L = "live (thr_window r) now (attempts_of s (thr_key r))"
  have res: "throttle_bucket now r s =
      (spec_decide now r ?L, om_set (thr_key r)
        (if spec_decide now r ?L = Allowed
         then \<lparr>bk_attempts = ?L @ [now], bk_expires_at = Some (now + thr_window r)\<rparr>
         else \<lparr>bk_attempts = ?L,
               bk_expires_at = (if ?L = [] then None else Some (last ?L + thr_window r))\<rparr>) s)"
    by (simp add: throttle_bucket_def live_def spec_decide_def Let_def)
  have d: "fst (throttle_bucket now r s) = spec_decide now r ?L" by (simp add: res)
  have st: "live (W k) now' (attempts_of (snd (throttle_bucket now r s)) k) =
      live (W k) now' (attempts_of s k @
        (if k = thr_key r \<and> fst (throttle_bucket now r s) = Allowed then [now] else []))"
    if "now \<le> now'" for k now'
    using assms(3) by (simp add: res live_live [OF that])
  show "fst (throttle_bucket now r s) = fst (spec_throttle now r h)"
    and "same_live W now (attempts_of (snd (throttle_bucket now r s))) (snd (spec_throttle now r h))"
    using spec_simulation [OF assms d st] by blast+
qed

text \<open>What \<open>forgets\<close> drops from a log kept in order is not live.\<close>

lemma prune_live:
  assumes "buckets_ok W s t" and "now \<le> now'"
  shows "live (W k) now' (attempts_of (prune_buckets now s) k) = live (W k) now' (attempts_of s k)"
proof (cases "om_get s k")
  case (Some b)
  have ok: "om_ok s" "bucket_ok (W k) t b" using buckets_okD [OF assms(1)] Some by simp_all
  have "live (W k) now' (bk_attempts b) = []" if "expired now b"
    using that ok(2) assms(2) by (intro live_forgotten [of _ _ now])
      (auto simp: expired_def bucket_ok_def split: option.splits dest!: bspec)
  with Some ok(1) show ?thesis
    by (simp add: attempts_of_def prune_buckets_def om_get_prune live_def)
qed (use buckets_okD(2) [OF assms(1)] in
      \<open>simp add: attempts_of_def prune_buckets_def om_get_prune\<close>)

lemma drop_live:
  assumes "buckets_ok W s t" and "now \<le> now'"
  shows "live (W k) now' (attempts_of (drop_own_bucket now k' s) k) = live (W k) now' (attempts_of s k)"
proof (cases "om_get s k")
  case (Some b)
  have ok: "bucket_ok (W k) t b" using buckets_okD(1) [OF assms(1) Some] .
  have "live (W k) now' (bk_attempts b) = []" if "bk_expires_at b = Some u" "u \<le> now" for u
    using that ok assms(2) by (intro live_forgotten [of _ _ now]) (auto simp: bucket_ok_def dest!: bspec)
  with Some show ?thesis
    by (auto simp: attempts_of_def drop_own_bucket_def live_def split: option.split)
qed (auto simp: attempts_of_def drop_own_bucket_def split: option.split)

lemma same_live_cong:
  "same_live W t f h \<Longrightarrow> t \<le> now \<Longrightarrow>
   (\<And>k now'. now \<le> now' \<Longrightarrow> live (W k) now' (f' k) = live (W k) now' (f k)) \<Longrightarrow> same_live W now f' h"
  unfolding same_live_def
proof (intro allI impI)
  fix k now'
  assume "\<forall>k now. t \<le> now \<longrightarrow> live (W k) now (f k) = live (W k) now (h k)" "t \<le> now" "now \<le> now'"
  then have "live (W k) now' (f k) = live (W k) now' (h k)" by (meson order_trans)
  moreover assume "\<And>k now'. now \<le> now' \<Longrightarrow> live (W k) now' (f' k) = live (W k) now' (f k)"
  ultimately show "live (W k) now' (f' k) = live (W k) now' (h k)"
    using \<open>now \<le> now'\<close> by simp
qed

lemma fake_spec_step:
  assumes "buckets_ok W s t" and "same_live W t (attempts_of s) h" and "t \<le> now"
    and "thr_window r = W (thr_key r)"
  shows "fst (fake_throttle now r s) = fst (spec_throttle now r h)"
    and "same_live W now (attempts_of (snd (fake_throttle now r s))) (snd (spec_throttle now r h))"
  using throttle_bucket_spec [OF same_live_cong [OF assms(2,3) prune_live [OF assms(1)]] order_refl assms(4)]
  by (simp_all add: fake_throttle_def)

lemma keryx_spec_step:
  assumes "buckets_ok W s t" and "same_live W t (attempts_of s) h" and "t \<le> now"
    and "thr_window r = W (thr_key r)"
    and "fst ` set s \<subseteq> K" and "thr_key r \<in> K" and "finite K" and "card K \<le> mx"
  shows "fst (keryx_throttle mx now r s) = fst (spec_throttle now r h)"
    and "same_live W now (attempts_of (snd (keryx_throttle mx now r s))) (snd (spec_throttle now r h))"
    and "fst ` set (snd (keryx_throttle mx now r s)) \<subseteq> K"
proof -
  let ?s = "drop_own_bucket now (thr_key r) s"
  have keys: "fst ` set ?s \<subseteq> K"
    using assms(5) by (auto simp: drop_own_bucket_def om_delete_def split: option.splits)
  have room: "om_has ?s (thr_key r) \<or> length ?s < mx"
  proof (rule disjCI)
    assume full: "\<not> length ?s < mx"
    have "distinct (map fst ?s)"
      using buckets_okD(2) [OF buckets_ok_drop [OF assms(1)]] by (simp add: om_ok_def)
    then have "length ?s = card (fst ` set ?s)" using distinct_card by fastforce
    with full assms(8) have "card K \<le> card (fst ` set ?s)" by linarith
    with keys assms(7) have "fst ` set ?s = K" by (intro card_seteq) auto
    with assms(6) show "om_has ?s (thr_key r)" by (simp add: om_has_def)
  qed
  have eq: "keryx_throttle mx now r s = throttle_bucket now r ?s"
    using room by (auto simp: keryx_throttle_def Let_def)
  show "fst (keryx_throttle mx now r s) = fst (spec_throttle now r h)"
    and "same_live W now (attempts_of (snd (keryx_throttle mx now r s))) (snd (spec_throttle now r h))"
    unfolding eq
    using throttle_bucket_spec [OF same_live_cong [OF assms(2,3) drop_live [OF assms(1)]] order_refl assms(4)]
    by simp_all
  show "fst ` set (snd (keryx_throttle mx now r s)) \<subseteq> K"
    using keys assms(6) unfolding eq by (auto simp: throttle_bucket_def Let_def om_keys_set)
qed

lemma sorted_Min_hd: "sorted xs \<Longrightarrow> xs \<noteq> [] \<Longrightarrow> Min (set xs) = hd xs"
  by (cases xs) (auto simp: min_def intro!: Min_eqI)

lemma redis_spec_step:
  assumes "zkeys_ok W s t" and "same_live W t (scores_of s) h" and "t \<le> now"
    and "fresh_request W s q" and "1 \<le> thr_limit (fst q)"
  shows "fst (backplane_throttle now (fst q) (snd q) s) = Some (fst (spec_throttle now (fst q) h))"
    and "same_live W now (scores_of (snd (backplane_throttle now (fst q) (snd q) s)))
           (snd (spec_throttle now (fst q) h))"
proof -
  let ?k = "thr_key (fst q)" and ?w = "thr_window (fst q)"
  let ?z = "zkey_of s ?k" and ?r = "fst q"
  have ok: "zkey_ok ?w t ?z" and w: "?w = W ?k"
    and m: "member_of q \<notin> fst ` set (z_entries ?z)"
    using zkeys_okD [OF assms(1), of ?k] assms(4) by (simp_all add: fresh_request_def own_window_def)
  define E where "E = filter (\<lambda>e. \<not> snd e \<le> now - ?w) (z_live now ?z)"
  have sub: "set E \<subseteq> set (z_entries ?z)" using live_subset [of now ?z] by (auto simp: E_def)
  have gone: "live ?w now (map snd (z_entries ?z)) = []" if "z_live now ?z = []"
  proof (cases "z_expires_at ?z")
    case (Some u)
    show ?thesis
    proof (cases "u \<le> now")
      case True
      with Some ok show ?thesis
        by (intro live_forgotten [of _ _ now]) (auto simp: zkey_ok_def dest!: bspec)
    qed (use Some that in \<open>simp add: z_live_def\<close>)
  qed (use ok in \<open>simp add: zkey_ok_def\<close>)
  have E: "map snd E = live ?w now (scores_of s ?k)"
  proof (cases "z_live now ?z = []")
    case True
    with gone show ?thesis by (simp add: E_def scores_of_def)
  next
    case False
    then have "z_live now ?z = z_entries ?z" by (auto simp: z_live_def split: option.splits if_splits)
    then show ?thesis by (simp add: E_def scores_of_def live_def filter_map comp_def not_le)
  qed
  have srt: "sorted (map snd E)"
    unfolding E using ok by (auto simp: scores_of_def live_def zkey_ok_def sorted_wrt_filter)
  have add: "z_add (member_of q) now E = E @ [(member_of q, now)]" using sub m by (intro z_add_fresh) auto
  let ?d = "spec_decide now ?r (map snd E)"
  have min: "Min (snd ` set E) = hd (map snd E)" if "E \<noteq> []"
    using sorted_Min_hd [OF srt] that by simp
  have res: "redis_throttle now ?w (thr_limit ?r) (member_of q) ?z =
      (Some ?d, \<lparr>z_entries = (if ?d = Allowed then E @ [(member_of q, now)] else E),
                 z_expires_at = Some (now + ?w)\<rparr>)"
    unfolding redis_throttle_def E_def [symmetric] Let_def add
    using assms(5) min by (cases E) (simp_all add: spec_decide_def)
  have b: "backplane_throttle now ?r (snd q) s = (Some ?d, om_set ?k
      \<lparr>z_entries = (if ?d = Allowed then E @ [(member_of q, now)] else E),
       z_expires_at = Some (now + ?w)\<rparr> s)"
    using res by (simp add: backplane_throttle_def member_of_def)
  have st: "live (W k) now' (scores_of (snd (backplane_throttle now ?r (snd q) s)) k) =
      live (W k) now' (scores_of s k @ (if k = ?k \<and> ?d = Allowed then [now] else []))"
    if "now \<le> now'" for k now'
    using live_live [OF that, of ?w "scores_of s ?k"] E w by (auto simp: b scores_of_def)
  have d: "?d = spec_decide now ?r (live ?w now (scores_of s ?k))" by (simp only: E)
  show "fst (backplane_throttle now ?r (snd q) s) = Some (fst (spec_throttle now ?r h))"
    and "same_live W now (scores_of (snd (backplane_throttle now ?r (snd q) s))) (snd (spec_throttle now ?r h))"
    using spec_simulation [OF assms(2,3) w d st] by (simp_all add: b)
qed

subsection \<open>Runs\<close>

definition windows_ok :: "(throttle_key \<Rightarrow> int) \<Rightarrow> (int \<times> throttle_request) list \<Rightarrow> bool" where
  "windows_ok W es \<longleftrightarrow> (\<forall>e\<in>set es. thr_window (snd e) = W (thr_key (snd e)))"

lemma fake_run_spec:
  assumes "buckets_ok W s t" and "same_live W t (attempts_of s) h" and "sorted (t # map fst es)"
    and "windows_ok W es"
  shows "decisions fake_throttle es s = decisions spec_throttle es h"
  using assms
proof (induction es arbitrary: s h t)
  case (Cons e es)
  obtain now r where e: "e = (now, r)" by (cases e)
  have t: "t \<le> now" and w: "thr_window r = W (thr_key r)" and es: "windows_ok W es"
    and srt: "sorted (now # map fst es)"
    using Cons.prems(3,4) by (simp_all add: e windows_ok_def)
  have "buckets_ok W (snd (fake_throttle now r s)) now"
    using throttle_bucket_result(1) [OF buckets_ok_prune [OF Cons.prems(1)] t w] by (simp add: fake_throttle_def)
  from Cons.IH [OF this fake_spec_step(2) [OF Cons.prems(1,2) t w] srt es]
    fake_spec_step(1) [OF Cons.prems(1,2) t w]
  show ?case by (simp add: e)
qed simp

lemma keryx_run_spec:
  assumes "buckets_ok W s t" and "same_live W t (attempts_of s) h" and "sorted (t # map fst es)"
    and "windows_ok W es" and "fst ` set s \<subseteq> K" and "(thr_key \<circ> snd) ` set es \<subseteq> K"
    and "finite K" and "card K \<le> mx"
  shows "decisions (keryx_throttle mx) es s = decisions spec_throttle es h"
  using assms
proof (induction es arbitrary: s h t)
  case (Cons e es)
  obtain now r where e: "e = (now, r)" by (cases e)
  have t: "t \<le> now" and w: "thr_window r = W (thr_key r)" and es: "windows_ok W es"
    and srt: "sorted (now # map fst es)" and k: "thr_key r \<in> K" "(thr_key \<circ> snd) ` set es \<subseteq> K"
    using Cons.prems(3,4,6) by (simp_all add: e windows_ok_def)
  have "own_window W s r" using w by (simp add: own_window_def)
  from keryx.inv_step [OF Cons.prems(1) t this]
  have "buckets_ok W (snd (keryx_throttle mx now r s)) now" by simp
  note step = keryx_spec_step [OF Cons.prems(1,2) t w Cons.prems(5) k(1) Cons.prems(7,8)]
  from Cons.IH [OF \<open>buckets_ok W (snd (keryx_throttle mx now r s)) now\<close> step(2) srt es step(3) k(2)
      Cons.prems(7,8)] step(1)
  show ?case by (simp add: e)
qed simp

lemma redis_run_spec:
  assumes "zkeys_ok W s t" and "same_live W t (scores_of s) h" and "sorted (t # map fst es)"
    and "ok_run backplane_granted (fresh_request W) es s"
    and "\<And>q. q \<in> snd ` set es \<Longrightarrow> 1 \<le> thr_limit (fst q)"
  shows "decisions (\<lambda>now q. backplane_throttle now (fst q) (snd q)) es s =
    map Some (decisions spec_throttle (map (map_prod (\<lambda>t. t) fst) es) h)"
  using assms
proof (induction es arbitrary: s h t)
  case (Cons e es)
  obtain now q where e: "e = (now, q)" by (cases e)
  have t: "t \<le> now" and srt: "sorted (now # map fst es)" and q: "fresh_request W s q"
    and l: "1 \<le> thr_limit (fst q)" "\<And>q. q \<in> snd ` set es \<Longrightarrow> 1 \<le> thr_limit (fst q)"
    and ok: "ok_run backplane_granted (fresh_request W) es (snd (backplane_granted now q s))"
    using Cons.prems(3-5) by (simp_all add: e)
  have eq: "snd (backplane_granted now q s) = snd (backplane_throttle now (fst q) (snd q) s)"
    by (simp add: backplane_granted_def)
  note step = redis_spec_step [OF Cons.prems(1,2) t q l(1)]
  from Cons.IH [OF redis.inv_step [OF Cons.prems(1) t q, unfolded eq] step(2) srt ok [unfolded eq] l(2)]
    step(1)
  show ?case by (simp add: e)
qed simp

subsection \<open>Properties\<close>

lemma windows_okD: "windows_ok W es \<Longrightarrow> ok_run consume (own_window W) es s"
proof (induction es arbitrary: s)
  case (Cons e es)
  then show ?case by (cases e) (simp add: windows_ok_def own_window_def)
qed simp

text \<open>
  C24. Throttling of the server in the single topology: over any run of requests at non-decreasing
  times, from an empty table, the commands an actor is allowed within any one window of the
  command's length are never more than the command's limit, whatever other buckets were pruned or
  refused for want of room in between.
\<close>

theorem keryx_never_over_limit:
  assumes "sorted (map fst es)" and "windows_ok W es" and "0 \<le> n"
    and "\<And>now r. (now, r) \<in> set es \<Longrightarrow> thr_key r = k \<Longrightarrow> thr_limit r = n"
  shows "int (length (filter (in_window (W k) t)
    (allowed_times (\<lambda>now r s. granted (keryx_throttle mx now r s)) thr_key k es []))) \<le> n"
proof -
  let ?t0 = "case es of [] \<Rightarrow> 0 | e # _ \<Rightarrow> fst e"
  have srt: "sorted (?t0 # map fst es)" using assms(1) by (cases es) auto
  have "int (size (filter_mset (in_window (W k) t) (mset (attempts_of [] k) +
      mset (allowed_times (\<lambda>now r s. granted (keryx_throttle mx now r s)) thr_key k es [])))) \<le> n"
    by (rule keryx.window_limit [OF _ _ srt windows_okD [OF assms(2)]])
       (use assms(3,4) in \<open>auto simp: attempts_of_def\<close>)
  then show ?thesis by (simp add: attempts_of_def flip: mset_filter)
qed

theorem keryx_never_over_limit_witness:
  "int (length (filter (in_window 10 20)
    (allowed_times (\<lambda>now r s. granted (keryx_throttle 5 now r s)) thr_key (''a'', ''c'')
      [(11, \<lparr>thr_key = (''a'', ''c''), thr_request_id = ''1'', thr_limit = 1, thr_window = 10\<rparr>),
       (12, \<lparr>thr_key = (''a'', ''c''), thr_request_id = ''2'', thr_limit = 1, thr_window = 10\<rparr>)] []))) \<le> 1"
  by (rule keryx_never_over_limit [where W = "\<lambda>_. 10"]) (auto simp: windows_ok_def)

text \<open>
  The same limit holds of the Redis script shared by every server, for requests whose set
  members (request id and random part) are pairwise distinct.
\<close>

theorem redis_never_over_limit:
  assumes "sorted (map fst es)" and "\<forall>q\<in>snd ` set es. thr_window (fst q) = W (thr_key (fst q))"
    and "distinct (map (member_of \<circ> snd) es)" and "0 \<le> n"
    and "\<forall>q\<in>snd ` set es. thr_key (fst q) = k \<longrightarrow> thr_limit (fst q) = n"
  shows "int (length (filter (in_window (W k) t)
    (allowed_times backplane_granted (\<lambda>q. thr_key (fst q)) k es []))) \<le> n"
proof -
  let ?t0 = "case es of [] \<Rightarrow> 0 | e # _ \<Rightarrow> fst e"
  have srt: "sorted (?t0 # map fst es)" using assms(1) by (cases es) auto
  have ok: "ok_run backplane_granted (fresh_request W) es []"
    using assms(2,3) by (intro fresh_run) (auto simp: own_window_def zkey_of_def no_zkey_def)
  have "int (size (filter_mset (in_window (W k) t) (mset (scores_of [] k) +
      mset (allowed_times backplane_granted (\<lambda>q. thr_key (fst q)) k es [])))) \<le> n"
    by (rule redis.window_limit [OF _ _ srt ok])
       (use assms(4,5) in \<open>auto simp: scores_of_def zkey_of_def no_zkey_def\<close>)
  then show ?thesis by (simp add: scores_of_def zkey_of_def no_zkey_def flip: mset_filter)
qed

theorem redis_never_over_limit_witness:
  "int (length (filter (in_window 10 20)
    (allowed_times backplane_granted (\<lambda>q. thr_key (fst q)) (''a'', ''c'')
      [(11, \<lparr>thr_key = (''a'', ''c''), thr_request_id = ''1'', thr_limit = 1, thr_window = 10\<rparr>, ''x''),
       (12, \<lparr>thr_key = (''a'', ''c''), thr_request_id = ''2'', thr_limit = 1, thr_window = 10\<rparr>, ''y'')] []))) \<le> 1"
  by (rule redis_never_over_limit [where W = "\<lambda>_. 10"]) (auto simp: member_of_def)



lemma keryx_throttle_room:
  assumes "length s \<le> mx"
  shows "length (snd (keryx_throttle mx now r s)) \<le> mx"
proof -
  let ?s = "drop_own_bucket now (thr_key r) s"
  have d: "length ?s \<le> mx"
    using assms om_length_delete [of "thr_key r" s] by (auto simp: drop_own_bucket_def split: option.split)
  have p: "length (prune_buckets now ?s) \<le> length ?s" unfolding prune_buckets_def by (rule om_length_prune)
  have b: "length (snd (throttle_bucket now r s')) \<le> mx"
    if "om_has s' (thr_key r) \<and> length s' \<le> mx \<or> length s' < mx" for s'
    using that by (auto simp: throttle_bucket_def Let_def om_length_set)
  show ?thesis
    using d p b [of ?s] b [of "prune_buckets now ?s"]
    by (cases "om_has ?s (thr_key r)") (auto simp: keryx_throttle_def Let_def)
qed

text \<open>
  The server's table never holds more buckets than \<open>maxCommandThrottleBuckets\<close>.
\<close>

theorem keryx_table_bounded:
  assumes "length s \<le> mx"
  shows "length (snd (keryx_throttle mx now r s)) \<le> mx"
  using assms by (rule keryx_throttle_room)

theorem keryx_table_bounded_witness:
  "length (snd (keryx_throttle 1 0
     \<lparr>thr_key = (''a'', ''c''), thr_request_id = ''1'', thr_limit = 1, thr_window = 10\<rparr> [])) \<le> 1"
  by (rule keryx_table_bounded) simp

text \<open>A refusal of a key the table holds came from its bucket, which now lists the live attempts.\<close>

lemma keryx_refusal:
  assumes "buckets_ok W s t" and "thr_window r = W (thr_key r)"
    and "keryx_throttle mx now r s = (Denied (Some d), s')" and "om_has s' (thr_key r)"
    and "1 \<le> thr_limit r"
  shows "\<exists>A. A \<noteq> [] \<and> A = live (thr_window r) now (attempts_of s (thr_key r)) \<and>
    thr_limit r \<le> int (length A) \<and> d = max 1 (hd A + thr_window r - now) \<and>
    om_get s' (thr_key r) = Some \<lparr>bk_attempts = A, bk_expires_at = Some (last A + thr_window r)\<rparr>"
proof -
  let ?k = "thr_key r" and ?s = "drop_own_bucket now (thr_key r) s"
  let ?A = "live (thr_window r) now (attempts_of s ?k)"
  let ?p = "prepared mx now r s"
  have "\<not> (\<not> om_has ?s ?k \<and> length ?p \<ge> mx)"
  proof
    assume full: "\<not> om_has ?s ?k \<and> length ?p \<ge> mx"
    with assms(3) have "s' = ?p" by (simp add: keryx_throttle_prepared)
    with full assms(4) show False
      by (auto simp: prepared_def Let_def prune_buckets_def dest: om_has_prune_mono split: if_splits)
  qed
  then have tb: "throttle_bucket now r ?p = (Denied (Some d), s')"
    using assms(3) by (simp add: keryx_throttle_prepared split: if_splits)
  have "live (thr_window r) now (attempts_of ?p ?k) = ?A"
    using drop_live [OF assms(1) order_refl, of ?k now ?k]
      prune_live [OF buckets_ok_drop [OF assms(1)] order_refl, of ?k now now ?k] assms(2)
    by (simp add: prepared_def Let_def)
  with tb assms(5) show ?thesis
    by (auto simp: throttle_bucket_def live_def Let_def split: if_splits)
qed

text \<open>
  The \<open>retryAfterMs\<close> of a refusal is exact: the same request is refused at every earlier
  time, with what is left of the wait, and is allowed when the wait is over. (The answer of a full
  table, which has no bucket for the key, is a whole window instead.)
\<close>

theorem keryx_retry_hint_exact:
  assumes "buckets_ok W s t" and "t \<le> now" and "thr_window r = W (thr_key r)" and "1 \<le> thr_limit r"
    and "length s \<le> mx" and "int (length (attempts_of s (thr_key r))) \<le> thr_limit r"
    and "keryx_throttle mx now r s = (Denied (Some d), s')" and "om_has s' (thr_key r)"
    and "now \<le> u" and "u \<le> now + d"
  shows "fst (keryx_throttle mx u r s') = (if u < now + d then Denied (Some (now + d - u)) else Allowed)"
proof -
  let ?k = "thr_key r" and ?w = "thr_window r"
  from keryx_refusal [OF assms(1,3,7,8,4)] obtain A where
    A: "A \<noteq> []" "A = live ?w now (attempts_of s ?k)" "thr_limit r \<le> int (length A)"
      "d = max 1 (hd A + ?w - now)"
    and s': "om_get s' ?k = Some \<lparr>bk_attempts = A, bk_expires_at = Some (last A + ?w)\<rparr>"
    by blast
  have own: "own_window W s r" using assms(3) by (simp add: own_window_def)
  have ok': "buckets_ok W s' now"
    using keryx.inv_step [OF assms(1,2) own, of mx] assms(7) by simp
  have "hd A \<in> set (live ?w now (attempts_of s ?k))" using A(1,2) by (metis hd_in_set)
  then have hd: "hd A + ?w > now" by (simp add: live_def)
  then have d: "now + d = hd A + ?w" by (simp add: A(4))
  have srt: "sorted A" using buckets_okD(1) [OF ok' s'] by (simp add: bucket_ok_def)
  have at: "attempts_of s' ?k = A" by (simp add: attempts_of_def s')
  have len: "length A = nat (thr_limit r)"
  proof -
    have "length A \<le> length (attempts_of s ?k)" unfolding A(2) live_def by (rule length_filter_le)
    with A(3) assms(6) show ?thesis by linarith
  qed
  have room: "length s' \<le> mx" using keryx_throttle_room [OF assms(5), of now r] assms(7) by simp
  let ?s = "drop_own_bucket u ?k s'"
  have room': "om_has ?s ?k \<or> length ?s < mx"
    using room s' om_get_mem [OF s'] length_filter_less [of _ s' "\<lambda>e. fst e \<noteq> ?k"]
    by (fastforce simp: drop_own_bucket_def om_delete_def om_has_get split: option.split)
  then have "keryx_throttle mx u r s' = throttle_bucket u r ?s"
    by (auto simp: keryx_throttle_def Let_def)
  then have dec: "fst (keryx_throttle mx u r s') = spec_decide u r (live ?w u A)"
    using drop_live [OF ok' order_refl, of ?k u ?k] at assms(3)
    by (simp add: throttle_bucket_def live_def spec_decide_def Let_def)
  have mem: "hd A \<in> set A" using A(1) by simp
  have first: "\<forall>x\<in>set A. hd A \<le> x" using srt A(1) by (cases A) auto
  show ?thesis
  proof (cases "u < now + d")
    case True
    with first d have "live ?w u A = A" by (fastforce simp: live_def intro: filter_True)
    with True d A(1,3) show ?thesis unfolding dec by (simp add: spec_decide_def)
  next
    case False
    with assms(10) d have "\<not> hd A > u - ?w" by simp
    with mem have "length (live ?w u A) < length A"
      unfolding live_def by (intro length_filter_less)
    with len False assms(4) show ?thesis unfolding dec by (simp add: spec_decide_def)
  qed
qed

theorem keryx_retry_hint_exact_witness:
  "fst (keryx_throttle 1 10
     \<lparr>thr_key = (''a'', ''c''), thr_request_id = ''2'', thr_limit = 1, thr_window = 10\<rparr>
     [((''a'', ''c''), \<lparr>bk_attempts = [0], bk_expires_at = Some 10\<rparr>)]) = Allowed"
proof -
  let ?r = "\<lparr>thr_key = (''a'', ''c''), thr_request_id = ''2'', thr_limit = 1, thr_window = 10\<rparr>"
  let ?s = "[((''a'', ''c''), \<lparr>bk_attempts = [0], bk_expires_at = Some 10\<rparr>)]"
  have 1: "buckets_ok (\<lambda>_. 10) ?s 0"
    by (auto simp: buckets_ok_def bucket_ok_def om_ok_def om_get_def split: if_splits)
  have 2: "keryx_throttle 1 4 ?r ?s = (Denied (Some 6), ?s)" by code_simp
  have 3: "om_has ?s (thr_key ?r)" by (simp add: om_has_def)
  from keryx_retry_hint_exact [OF 1 _ _ _ _ _ 2 3, where u = 10]
  show ?thesis by (simp add: attempts_of_def om_get_def)
qed

end
