(* ===== verification/RedisPresence.thy ===== *)
theory RedisPresence
  imports Ledger Protocol "HOL-Library.List_Lexorder" "HOL-Library.Product_Lexorder" "HOL-Library.Char_ord"
begin

text \<open>
  The Redis backplane of the Keryx server (\<open>packages/keryx/src/redis-backplane.ts\<close>): its life
  cycle, the frames its subscribers accept, the keys written once (published messages, consumed
  admission tickets), and the presence registry, which four Lua scripts keep in five keys per
  channel.

  A Redis hash is an insertion-ordered map. The texts the scripts store (the actor, the
  connection entry, the destination) are modelled by the JSON values they encode; the hash of a
  channel key is a parameter of the operations that take a destination.
\<close>

subsection \<open>The keys of one channel\<close>

record presence =
  pr_connections :: "(string, string \<times> json) omap" \<comment> \<open>connection to actor key and member\<close>
  pr_leases :: "(string, int) omap"
  pr_actors :: "(string, int) omap"
  pr_members :: "(string, json) omap"

definition no_presence :: presence where
  "no_presence = \<lparr>pr_connections = [], pr_leases = [], pr_actors = [], pr_members = []\<rparr>"

record registry =
  rg_channels :: "(string, json) omap" \<comment> \<open>channel hash to encoded destination\<close>
  rg_presence :: "string \<Rightarrow> presence"

definition empty_registry :: registry where
  "empty_registry = \<lparr>rg_channels = [], rg_presence = \<lambda>_. no_presence\<rparr>"

definition at_channel :: "string \<Rightarrow> presence \<Rightarrow> registry \<Rightarrow> registry" where
  "at_channel c p r = r\<lparr>rg_presence := (rg_presence r)(c := p)\<rparr>"

subsection \<open>Redis commands\<close>

text \<open>\<open>HINCRBY\<close> and the field's new value.\<close>

definition h_incr_by :: "string \<Rightarrow> int \<Rightarrow> (string, int) omap \<Rightarrow> int \<times> (string, int) omap" where
  "h_incr_by k d h =
     (let n = (case om_get h k of None \<Rightarrow> 0 | Some v \<Rightarrow> v) + d in (n, om_set k n h))"

text \<open>\<open>ZRANGEBYSCORE key -inf now LIMIT 0 limit\<close>: by score, then by member.\<close>

definition z_range_by_score :: "int \<Rightarrow> nat \<Rightarrow> (string, int) omap \<Rightarrow> string list" where
  "z_range_by_score now limit z =
     map fst (take limit (sort_key (\<lambda>e. (snd e, fst e)) (filter (\<lambda>e. snd e \<le> now) z)))"

subsection \<open>The scripts\<close>

definition join_presence_script ::
  "string \<Rightarrow> string \<Rightarrow> json \<Rightarrow> string \<Rightarrow> int \<Rightarrow> json \<Rightarrow> registry \<Rightarrow> (bool \<times> json list) \<times> registry" where
  "join_presence_script connection channel destination actor expires_at member r =
     (let p = rg_presence r channel in
      case om_get (pr_connections p) connection of
        Some existing \<Rightarrow>
          ((False, map snd (pr_members p)),
           at_channel channel (p\<lparr>pr_leases := om_set connection expires_at (pr_leases p)\<rparr>) r)
      | None \<Rightarrow>
          (let r1 = r\<lparr>rg_channels := om_set channel destination (rg_channels r)\<rparr>;
               p1 = p\<lparr>pr_connections := om_set connection (actor, member) (pr_connections p)\<rparr>;
               p2 = p1\<lparr>pr_leases := om_set connection expires_at (pr_leases p1)\<rparr>;
               (count, actors) = h_incr_by actor 1 (pr_actors p2);
               p3 = p2\<lparr>pr_actors := actors\<rparr>;
               p4 = (if count = 1 then p3\<lparr>pr_members := om_set actor member (pr_members p3)\<rparr> else p3) in
           ((count = 1, map snd (pr_members p4)), at_channel channel p4 r1)))"

text \<open>The part of two scripts that takes a connection out: the new count decides \<open>last\<close>.\<close>

definition drop_connection :: "string \<Rightarrow> string \<Rightarrow> presence \<Rightarrow> bool \<times> presence" where
  "drop_connection connection actor p =
     (let p1 = p\<lparr>pr_connections := om_delete connection (pr_connections p)\<rparr>;
          p2 = p1\<lparr>pr_leases := om_delete connection (pr_leases p1)\<rparr>;
          (count, actors) = h_incr_by actor (- 1) (pr_actors p2);
          p3 = p2\<lparr>pr_actors := actors\<rparr> in
      if count \<le> 0
      then (True, p3\<lparr>pr_actors := om_delete actor (pr_actors p3),
                     pr_members := om_delete actor (pr_members p3)\<rparr>)
      else (False, p3))"

definition delete_if_empty :: "string \<Rightarrow> registry \<Rightarrow> registry" where
  "delete_if_empty channel r =
     (if pr_connections (rg_presence r channel) = []
      then at_channel channel no_presence (r\<lparr>rg_channels := om_delete channel (rg_channels r)\<rparr>)
      else r)"

definition leave_presence_script ::
  "string \<Rightarrow> string \<Rightarrow> registry \<Rightarrow> (bool \<times> json option) \<times> registry" where
  "leave_presence_script connection channel r =
     (let p = rg_presence r channel in
      case om_get (pr_connections p) connection of
        None \<Rightarrow> ((False, None), r)
      | Some (actor, member) \<Rightarrow>
          (let (last, p') = drop_connection connection actor p in
           ((last, Some member), delete_if_empty channel (at_channel channel p' r))))"

definition renew_presence_script :: "string \<Rightarrow> string \<Rightarrow> int \<Rightarrow> registry \<Rightarrow> bool \<times> registry" where
  "renew_presence_script connection channel expires_at r =
     (let p = rg_presence r channel in
      if om_has (pr_connections p) connection
      then (True, at_channel channel (p\<lparr>pr_leases := om_set connection expires_at (pr_leases p)\<rparr>) r)
      else (False, r))"

text \<open>One turn of the cleanup script's loop, and the loop.\<close>

definition cleanup_connection :: "string \<Rightarrow> json list \<times> presence \<Rightarrow> json list \<times> presence" where
  "cleanup_connection connection st =
     (let (left, p) = st in
      case om_get (pr_connections p) connection of
        None \<Rightarrow> (left, p\<lparr>pr_leases := om_delete connection (pr_leases p)\<rparr>)
      | Some (actor, member) \<Rightarrow>
          (let (last, p') = drop_connection connection actor p in
           (if last then left @ [member] else left, p')))"

definition cleanup_presence_script :: "int \<Rightarrow> string \<Rightarrow> nat \<Rightarrow> registry \<Rightarrow> json list \<times> registry" where
  "cleanup_presence_script now channel limit r =
     (let p = rg_presence r channel;
          (left, p') = fold cleanup_connection (z_range_by_score now limit (pr_leases p)) ([], p) in
      (left, delete_if_empty channel (at_channel channel p' r)))"

subsection \<open>Frames and encoded values\<close>

datatype backplane_frame =
    Event_frame broadcast_message
  | Presence_frame (frame_type: json) (frame_channel: destination) (frame_member: actor)
      (frame_source: "string option")

definition parse_destination :: "json option \<Rightarrow> string + destination" where
  "parse_destination v = (case v of
     None \<Rightarrow> Inl ''Invalid Keryx presence channel.''
   | Some value \<Rightarrow>
       (case (is_record value, opt_string (jfield value ''name'')) of
          (True, Some name) \<Rightarrow>
            if \<not> text_among (jfield value ''kind'') channel_kinds
            then Inl ''Invalid Keryx presence channel.''
            else Inr \<lparr>dest_name = name, dest_kind = opt_json (jfield value ''kind'')\<rparr>
        | _ \<Rightarrow> Inl ''Invalid Keryx presence channel.''))"

definition parse_encoded_actor :: "json \<Rightarrow> string + actor" where
  "parse_encoded_actor v = parse_actor (Some v)"

definition parse_frame :: "(string \<Rightarrow> bool) \<Rightarrow> json \<Rightarrow> string + backplane_frame" where
  "parse_frame date_ok value =
     (if \<not> is_record value then Inl ''Invalid Keryx Redis frame.''
      else if jfield value ''kind'' = Some (JStr ''event'')
      then map_sum (\<lambda>e. e) Event_frame (parse_published_message date_ok (jfield value ''message''))
      else if jfield value ''kind'' \<noteq> Some (JStr ''presence'') \<or>
        \<not> text_among (jfield value ''type'') [''presence_joined'', ''presence_left'']
      then Inl ''Invalid Keryx Redis frame.''
      else res_bind (parse_destination (jfield value ''channel''))
        (\<lambda>channel. res_bind (parse_actor (jfield value ''member''))
          (\<lambda>member. Inr (Presence_frame (opt_json (jfield value ''type'')) channel member
             (opt_string (jfield value ''sourceConnectionId''))))))"

definition frame_json :: "backplane_frame \<Rightarrow> json" where
  "frame_json f = (case f of
     Event_frame message \<Rightarrow> JObj [(''kind'', JStr ''event''), (''message'', message_json message)]
   | Presence_frame ty channel member source \<Rightarrow>
       JObj ([(''kind'', JStr ''presence''), (''type'', ty), (''channel'', destination_json channel),
              (''member'', actor_json member)] @
             (case source of None \<Rightarrow> [] | Some s \<Rightarrow> [(''sourceConnectionId'', JStr s)])))"

subsection \<open>The operations of the class\<close>

text \<open>\<open>hash\<close> stands for \<open>hashChannel\<close>'s digest of the destination's key.\<close>

definition hash_channel :: "(string \<Rightarrow> string) \<Rightarrow> destination \<Rightarrow> string" where
  "hash_channel hash d = hash (destination_key d)"

definition join_presence ::
  "(string \<Rightarrow> string) \<Rightarrow> string \<Rightarrow> destination \<Rightarrow> string \<Rightarrow> actor \<Rightarrow> int \<Rightarrow> registry \<Rightarrow>
    (string + bool \<times> actor list) \<times> registry" where
  "join_presence hash connection d akey actor expires_at r =
     (let ((first, members), r') = join_presence_script connection (hash_channel hash d)
            (destination_json d) akey expires_at (actor_json actor) r in
      (res_bind (map_res (\<lambda>m. parse_actor (Some m)) members) (\<lambda>ms. Inr (first, ms)), r'))"

definition leave_presence ::
  "(string \<Rightarrow> string) \<Rightarrow> string \<Rightarrow> destination \<Rightarrow> registry \<Rightarrow> (string + bool \<times> actor option) \<times> registry" where
  "leave_presence hash connection d r =
     (let ((last, member), r') = leave_presence_script connection (hash_channel hash d) r in
      (case member of
         None \<Rightarrow> Inr (last, None)
       | Some m \<Rightarrow> res_bind (parse_encoded_actor m) (\<lambda>a. Inr (last, Some a)), r'))"

definition renew_presence ::
  "(string \<Rightarrow> string) \<Rightarrow> string \<Rightarrow> destination \<Rightarrow> int \<Rightarrow> registry \<Rightarrow> registry" where
  "renew_presence hash connection d expires_at r =
     snd (renew_presence_script connection (hash_channel hash d) expires_at r)"

text \<open>
  \<open>cleanupExpired\<close> goes through the channels it read at the start; a text that does not parse
  ends it with the error, the channels before it cleaned.
\<close>

fun cleanup_channels ::
  "int \<Rightarrow> nat \<Rightarrow> (string \<times> json) list \<Rightarrow> registry \<Rightarrow>
    (string + (destination \<times> actor list) list) \<times> registry" where
  "cleanup_channels now limit [] r = (Inr [], r)"
| "cleanup_channels now limit ((channel, encoded) # cs) r =
     (case parse_destination (Some encoded) of
        Inl e \<Rightarrow> (Inl e, r)
      | Inr d \<Rightarrow>
          (let (members, r1) = cleanup_presence_script now channel limit r in
           case (if members = [] then Inr [] else
                   res_bind (map_res parse_encoded_actor members) (\<lambda>ms. Inr [(d, ms)])) of
             Inl e \<Rightarrow> (Inl e, r1)
           | Inr here \<Rightarrow>
               (let (rest, r2) = cleanup_channels now limit cs r1 in
                (res_bind rest (\<lambda>ds. Inr (here @ ds)), r2))))"

definition cleanup_expired ::
  "int \<Rightarrow> nat \<Rightarrow> registry \<Rightarrow> (string + (destination \<times> actor list) list) \<times> registry" where
  "cleanup_expired now limit r = cleanup_channels now limit (rg_channels r) r"

subsection \<open>Life cycle\<close>

record backplane =
  bp_started :: bool
  bp_available :: bool

definition new_backplane :: backplane where
  "new_backplane = \<lparr>bp_started = False, bp_available = False\<rparr>"

definition stop_backplane :: "backplane \<Rightarrow> backplane" where
  "stop_backplane b = b\<lparr>bp_started := False, bp_available := False\<rparr>"

definition mark_unavailable :: "backplane \<Rightarrow> backplane" where
  "mark_unavailable b = (if \<not> bp_available b then b else b\<lparr>bp_available := False\<rparr>)"

text \<open>\<open>outcome\<close> is the result of connecting the three clients and subscribing.\<close>

definition start_backplane :: "string + unit \<Rightarrow> backplane \<Rightarrow> (string + unit) \<times> backplane" where
  "start_backplane outcome b =
     (if bp_started b then (Inl ''Keryx Redis backplane is already started.'', b)
      else (case outcome of
              Inr _ \<Rightarrow> (Inr (), b\<lparr>bp_started := True, bp_available := True\<rparr>)
            | Inl e \<Rightarrow> (Inl e, stop_backplane b)))"

text \<open>The client events the constructor listens to; the flag is the call of \<open>unavailable\<close>.\<close>

datatype client_event = Client_error bool | Client_end | Subscriber_reconnecting

definition on_client_event :: "client_event \<Rightarrow> backplane \<Rightarrow> bool \<times> backplane" where
  "on_client_event ev b =
     (case ev of
        Client_error ready \<Rightarrow> if bp_started b \<and> \<not> ready then (True, mark_unavailable b) else (False, b)
      | Client_end \<Rightarrow> if bp_started b then (True, mark_unavailable b) else (False, b)
      | Subscriber_reconnecting \<Rightarrow> if bp_started b then (True, mark_unavailable b) else (False, b))"

definition guarded :: "backplane \<Rightarrow> 'a \<Rightarrow> string + 'a" where
  "guarded b x = (if \<not> bp_available b then Inl ''Keryx Redis backplane is unavailable.'' else Inr x)"

definition publish_frame :: "backplane \<Rightarrow> backplane_frame \<Rightarrow> string + json" where
  "publish_frame b f = guarded b (frame_json f)"

text \<open>A subscriber ignores a text that is not JSON (\<open>None\<close>) or not a frame.\<close>

definition on_frame :: "(string \<Rightarrow> bool) \<Rightarrow> json option \<Rightarrow> backplane_frame option" where
  "on_frame date_ok raw = (case raw of
     None \<Rightarrow> None
   | Some v \<Rightarrow> (case parse_frame date_ok v of Inl _ \<Rightarrow> None | Inr f \<Rightarrow> Some f))"

subsection \<open>Keys written once\<close>

text \<open>
  \<open>SET key 1 PX ttl NX\<close>: the keys that have not run out, with the time they do. Redis refuses a
  time to live that is not positive.
\<close>

type_synonym expiring_keys = "(string, int) omap"

definition set_nx_px :: "int \<Rightarrow> string \<Rightarrow> int \<Rightarrow> expiring_keys \<Rightarrow> (string + bool) \<times> expiring_keys" where
  "set_nx_px now key ttl s =
     (let live = om_prune (\<lambda>k u. u \<le> now) s in
      if ttl \<le> 0 then (Inl ''ERR invalid expire time in 'set' command'', live)
      else if om_has live key then (Inr False, live)
      else (Inr True, om_set key (now + ttl) live))"

definition consume_admission_ticket_once ::
  "(string \<Rightarrow> string) \<Rightarrow> backplane \<Rightarrow> int \<Rightarrow> string \<Rightarrow> int \<Rightarrow> expiring_keys \<Rightarrow>
    (string + bool) \<times> expiring_keys" where
  "consume_admission_ticket_once hash b now ticket_id retention s =
     (if \<not> bp_available b then (Inl ''Keryx Redis backplane is unavailable.'', s)
      else set_nx_px now (''admission:'' @ hash ticket_id) retention s)"

text \<open>\<open>PUBLISH_EVENT_ONCE\<close>: the frame goes out exactly when the key was not there.\<close>

definition publish_event_once ::
  "(string \<Rightarrow> string) \<Rightarrow> backplane \<Rightarrow> int \<Rightarrow> broadcast_message \<Rightarrow> int \<Rightarrow> expiring_keys \<Rightarrow>
    (string + bool) \<times> json list \<times> expiring_keys" where
  "publish_event_once hash b now message retention s =
     (if \<not> bp_available b then (Inl ''Keryx Redis backplane is unavailable.'', [], s)
      else (let (accepted, s') = set_nx_px now (''messages:'' @ hash (msg_id message)) retention s in
            (accepted,
             (if accepted = Inr True then [frame_json (Event_frame message)] else []), s')))"

definition nx_step :: "int \<times> string \<times> int \<Rightarrow> expiring_keys \<Rightarrow> bool \<times> expiring_keys" where
  "nx_step e s = (case e of (now, key, ttl) \<Rightarrow>
     (fst (set_nx_px now key ttl s) = Inr True, snd (set_nx_px now key ttl s)))"

interpretation nx: once_ledger nx_step fst "\<lambda>e. fst (snd e)" "\<lambda>e. fst e + snd (snd e)"
  "\<lambda>now u. now < u" entry_until om_ok
proof unfold_locales
  fix s :: expiring_keys and k :: string and u and e :: "int \<times> string \<times> int"
  obtain now key ttl where e: "e = (now, key, ttl)" by (cases e)
  assume ok: "om_ok s"
  show "om_ok (snd (nx_step e s))" using ok by (simp add: nx_step_def e set_nx_px_def Let_def)
  show "entry_until (snd (nx_step e s)) (fst (snd e)) (fst e + snd (snd e))" if "fst (nx_step e s)"
    using that by (auto simp: nx_step_def e set_nx_px_def Let_def entry_until_def split: if_splits)
  show "\<not> fst (nx_step e s)" if "entry_until s (fst (snd e)) u" "fst e < u"
    using that ok by (auto simp: nx_step_def e set_nx_px_def Let_def entry_until_def om_has_prune)
  show "entry_until (snd (nx_step e s)) k u" if "entry_until s k u" "fst e < u"
  proof -
    have "entry_until (om_prune (\<lambda>k u. u \<le> now) s) k u"
      using that ok e by (intro entry_until_prune) auto
    moreover from this have "om_has (om_prune (\<lambda>k u. u \<le> now) s) k"
      by (simp add: om_has_get entry_until_def)
    ultimately show ?thesis
      by (auto simp: nx_step_def e set_nx_px_def Let_def intro: entry_until_set_other)
  qed
qed simp

text \<open>The tickets the servers offer to one Redis; each offer has its time, ticket and retention.\<close>

definition ticket_offer ::
  "(string \<Rightarrow> string) \<Rightarrow> int \<times> string \<times> int \<Rightarrow> expiring_keys \<Rightarrow> bool \<times> expiring_keys" where
  "ticket_offer hash e s = (case e of (now, ticket_id, retention) \<Rightarrow>
     map_prod (\<lambda>a. a = Inr True) (\<lambda>s. s)
       (consume_admission_ticket_once hash \<lparr>bp_started = True, bp_available = True\<rparr> now ticket_id retention s))"

lemma ticket_offer_nx:
  "ticket_offer hash e s = nx_step (fst e, ''admission:'' @ hash (fst (snd e)), snd (snd e)) s"
  by (cases e) (simp add: ticket_offer_def consume_admission_ticket_once_def nx_step_def map_prod_def split_beta)

interpretation ticket: once_ledger "ticket_offer hash" fst "\<lambda>e. ''admission:'' @ hash (fst (snd e))"
  "\<lambda>e. fst e + snd (snd e)" "\<lambda>now u. now < u" entry_until om_ok
  for hash
proof unfold_locales
  fix s :: expiring_keys and k :: string and u and e :: "int \<times> string \<times> int"
  let ?e = "(fst e, ''admission:'' @ hash (fst (snd e)), snd (snd e))"
  assume ok: "om_ok s"
  show "om_ok (snd (ticket_offer hash e s))" using nx.ok_step [OF ok] by (simp add: ticket_offer_nx)
  show "entry_until (snd (ticket_offer hash e s)) (''admission:'' @ hash (fst (snd e))) (fst e + snd (snd e))"
    if "fst (ticket_offer hash e s)"
    using nx.step_records [OF ok, of ?e] that by (simp add: ticket_offer_nx)
  show "\<not> fst (ticket_offer hash e s)"
    if "entry_until s (''admission:'' @ hash (fst (snd e))) u" "fst e < u"
    using nx.step_refuses [OF ok, of ?e u] that by (simp add: ticket_offer_nx)
  show "entry_until (snd (ticket_offer hash e s)) k u" if "entry_until s k u" "fst e < u"
    using nx.step_keeps [OF ok that(1), of ?e] that(2) by (simp add: ticket_offer_nx)
qed simp

subsection \<open>The registry's invariant\<close>

text \<open>
  Per channel: the counter of an actor is the number of connections the channel has of it, present
  exactly when that is not zero, as is its entry among the members; the leases are those of the
  connections. A channel is registered exactly while it has a connection.
\<close>

definition actor_count :: "string \<Rightarrow> presence \<Rightarrow> nat" where
  "actor_count k p = length (filter (\<lambda>e. fst (snd e) = k) (pr_connections p))"

definition presence_ok :: "presence \<Rightarrow> bool" where
  "presence_ok p \<longleftrightarrow> om_ok (pr_connections p) \<and> om_ok (pr_leases p) \<and> om_ok (pr_actors p) \<and>
     om_ok (pr_members p) \<and>
     (\<forall>c. om_has (pr_leases p) c \<longleftrightarrow> om_has (pr_connections p) c) \<and>
     (\<forall>k. om_get (pr_actors p) k = (if actor_count k p = 0 then None else Some (int (actor_count k p)))) \<and>
     (\<forall>k. om_has (pr_members p) k \<longleftrightarrow> 0 < actor_count k p)"

definition registry_ok :: "registry \<Rightarrow> bool" where
  "registry_ok r \<longleftrightarrow> om_ok (rg_channels r) \<and>
     (\<forall>c. presence_ok (rg_presence r c) \<and>
       (om_has (rg_channels r) c \<longleftrightarrow> pr_connections (rg_presence r c) \<noteq> []))"

lemma no_presence_ok [simp]: "presence_ok no_presence"
  by (simp add: presence_ok_def no_presence_def actor_count_def)

lemma empty_registry_ok [simp]: "registry_ok empty_registry"
  by (simp add: registry_ok_def empty_registry_def) (simp add: no_presence_def)

lemma registry_okD: "registry_ok r \<Longrightarrow> presence_ok (rg_presence r c)"
  by (simp add: registry_ok_def)

lemma om_split:
  assumes "om_ok m" and "om_get m k = Some v"
  obtains xs ys where "m = xs @ (k, v) # ys" and "om_delete k m = xs @ ys"
proof -
  from om_get_mem [OF assms(2)] obtain xs ys where m: "m = xs @ (k, v) # ys" by (meson split_list)
  with assms(1) have "k \<notin> fst ` set xs" "k \<notin> fst ` set ys" by (auto simp: om_ok_def)
  then have "filter (\<lambda>e. fst e \<noteq> k) xs = xs" "filter (\<lambda>e. fst e \<noteq> k) ys = ys"
    by (auto intro!: filter_True)
  with m have "om_delete k m = xs @ ys" by (simp add: om_delete_def)
  with m show ?thesis by (rule that)
qed

lemma om_get_none_nil: "(\<And>k. om_get m k = None) \<Longrightarrow> m = []"
  by (cases m) (force simp: om_get_def split: if_splits)+

lemma om_delete_none: "\<not> om_has m k \<Longrightarrow> om_delete k m = m"
  by (auto simp: om_delete_def om_has_def intro!: filter_True)

lemma om_length_delete_has: "om_ok m \<Longrightarrow> om_has m k \<Longrightarrow> Suc (length (om_delete k m)) = length m"
  by (auto simp: om_has_get elim!: om_split)

lemma actor_count_mem: "om_get (pr_connections p) c = Some (k, x) \<Longrightarrow> 0 < actor_count k p"
  by (force simp: actor_count_def filter_empty_conv dest!: om_get_mem)

lemma actor_count_delete:
  assumes "om_ok (pr_connections p)" and "om_get (pr_connections p) c = Some (a, x)"
  shows "actor_count k (p\<lparr>pr_connections := om_delete c (pr_connections p), pr_leases := l,
      pr_actors := h, pr_members := ms\<rparr>) = actor_count k p - (if k = a then 1 else 0)"
  using om_split [OF assms] by (fastforce simp: actor_count_def)

lemma drop_connection_result:
  assumes "presence_ok p" and "om_get (pr_connections p) c = Some (a, x)"
  shows "presence_ok (snd (drop_connection c a p))"
    and "fst (drop_connection c a p) \<longleftrightarrow> actor_count a p = 1"
    and "pr_connections (snd (drop_connection c a p)) = om_delete c (pr_connections p)"
    and "length (pr_members (snd (drop_connection c a p))) + (if fst (drop_connection c a p) then 1 else 0) =
      length (pr_members p)"
proof -
  have ok: "om_ok (pr_connections p)" "om_ok (pr_leases p)" "om_ok (pr_actors p)" "om_ok (pr_members p)"
    and l: "\<And>c. om_has (pr_leases p) c \<longleftrightarrow> om_has (pr_connections p) c"
    and n: "\<And>k. om_get (pr_actors p) k = (if actor_count k p = 0 then None else Some (int (actor_count k p)))"
    and ms: "\<And>k. om_has (pr_members p) k \<longleftrightarrow> 0 < actor_count k p"
    using assms(1) by (simp_all add: presence_ok_def)
  have pos: "0 < actor_count a p" using actor_count_mem [OF assms(2)] .
  let ?last = "actor_count a p = 1" and ?h = "om_set a (int (actor_count a p) - 1) (pr_actors p)"
  have res: "drop_connection c a p = (?last,
      p\<lparr>pr_connections := om_delete c (pr_connections p), pr_leases := om_delete c (pr_leases p),
        pr_actors := (if ?last then om_delete a ?h else ?h),
        pr_members := (if ?last then om_delete a (pr_members p) else pr_members p)\<rparr>)"
    using pos by (auto simp: drop_connection_def h_incr_by_def n Let_def)
  show "fst (drop_connection c a p) \<longleftrightarrow> actor_count a p = 1"
    and "pr_connections (snd (drop_connection c a p)) = om_delete c (pr_connections p)"
    by (simp_all add: res)
  show "presence_ok (snd (drop_connection c a p))"
    unfolding res snd_conv presence_ok_def actor_count_delete [OF ok(1) assms(2)]
    using pos by (auto simp: ok l n ms)
  show "length (pr_members (snd (drop_connection c a p))) + (if fst (drop_connection c a p) then 1 else 0) =
      length (pr_members p)"
    using om_length_delete_has [OF ok(4), of a] ms [of a] pos by (simp add: res)
qed

lemma delete_if_empty_ok:
  assumes "om_ok (rg_channels r)" and "\<And>c. presence_ok (rg_presence r c)"
    and "\<And>c. c \<noteq> channel \<Longrightarrow> om_has (rg_channels r) c \<longleftrightarrow> pr_connections (rg_presence r c) \<noteq> []"
    and "om_has (rg_channels r) channel"
  shows "registry_ok (delete_if_empty channel r)"
proof (cases "pr_connections (rg_presence r channel) = []")
  case True
  with assms show ?thesis
    by (auto simp: registry_ok_def delete_if_empty_def at_channel_def) (simp_all add: no_presence_def)
next
  case False
  have "om_has (rg_channels r) c \<longleftrightarrow> pr_connections (rg_presence r c) \<noteq> []" for c
    using assms(3) [of c] assms(4) False by (cases "c = channel") simp_all
  with assms(1,2) False show ?thesis by (simp add: registry_ok_def delete_if_empty_def)
qed

lemma presence_ok_empty: "presence_ok p \<Longrightarrow> pr_connections p = [] \<Longrightarrow> pr_members p = []"
  by (cases "pr_members p") (force simp: presence_ok_def actor_count_def om_has_def)+

lemma delete_if_empty_members:
  "presence_ok (rg_presence r channel) \<Longrightarrow>
    pr_members (rg_presence (delete_if_empty channel r) c) = pr_members (rg_presence r c)"
  using presence_ok_empty by (fastforce simp: delete_if_empty_def at_channel_def no_presence_def)

lemma registry_okI:
  assumes "registry_ok r" and "presence_ok p"
    and "pr_connections p = [] \<longleftrightarrow> pr_connections (rg_presence r c) = []"
  shows "registry_ok (at_channel c p r)"
  using assms by (auto simp: registry_ok_def at_channel_def)

lemma lease_ok:
  assumes "presence_ok p" and "om_has (pr_connections p) c"
  shows "presence_ok (p\<lparr>pr_leases := om_set c e (pr_leases p)\<rparr>)"
  using assms by (auto simp: presence_ok_def actor_count_def)

lemma at_channel_simps [simp]:
  "rg_presence (at_channel c p r) c' = (if c' = c then p else rg_presence r c')"
  "rg_channels (at_channel c p r) = rg_channels r"
  by (simp_all add: at_channel_def)

text \<open>Joining: what a first join answers and changes, and a repeated one.\<close>

lemma join_script_result:
  fixes r :: registry and channel connection actor :: string and d member :: json and expires_at :: int
  assumes "registry_ok r"
  defines "p \<equiv> rg_presence r channel"
  defines "res \<equiv> join_presence_script connection channel d actor expires_at member r"
  shows "registry_ok (snd res)"
    and "fst (fst res) \<longleftrightarrow> \<not> om_has (pr_connections p) connection \<and> actor_count actor p = 0"
    and "length (pr_members (rg_presence (snd res) c)) =
      length (pr_members (rg_presence r c)) + (if c = channel \<and> fst (fst res) then 1 else 0)"
    and "om_get (pr_connections (rg_presence (snd res) channel)) connection =
      Some (case om_get (pr_connections p) connection of None \<Rightarrow> (actor, member) | Some e \<Rightarrow> e)"
    and "om_get (pr_leases (rg_presence (snd res) channel)) connection = Some expires_at"
proof -
  have ok: "presence_ok p" unfolding p_def using assms(1) by (rule registry_okD)
  have "registry_ok (snd res) \<and>
    (fst (fst res) \<longleftrightarrow> \<not> om_has (pr_connections p) connection \<and> actor_count actor p = 0) \<and>
    length (pr_members (rg_presence (snd res) c)) =
      length (pr_members (rg_presence r c)) + (if c = channel \<and> fst (fst res) then 1 else 0) \<and>
    om_get (pr_connections (rg_presence (snd res) channel)) connection =
      Some (case om_get (pr_connections p) connection of None \<Rightarrow> (actor, member) | Some e \<Rightarrow> e) \<and>
    om_get (pr_leases (rg_presence (snd res) channel)) connection = Some expires_at"
  proof (cases "om_get (pr_connections p) connection")
    case (Some e)
    then have has: "om_has (pr_connections p) connection" by (simp add: om_has_get)
    have res: "res = ((False, map snd (pr_members p)),
        at_channel channel (p\<lparr>pr_leases := om_set connection expires_at (pr_leases p)\<rparr>) r)"
      using Some by (simp add: res_def join_presence_script_def p_def Let_def)
    have "registry_ok (snd res)"
      unfolding res snd_conv by (rule registry_okI [OF assms(1) lease_ok [OF ok has]]) (simp add: p_def)
    with has Some show ?thesis by (simp add: res p_def)
  next
    case None
    then have new: "\<not> om_has (pr_connections p) connection" by (simp add: om_has_get)
    let ?n = "actor_count actor p"
    define q where "q = p\<lparr>pr_connections := pr_connections p @ [(connection, actor, member)],
        pr_leases := om_set connection expires_at (pr_leases p),
        pr_actors := om_set actor (int ?n + 1) (pr_actors p),
        pr_members := (if ?n = 0 then om_set actor member (pr_members p) else pr_members p)\<rparr>"
    have n: "\<And>k. om_get (pr_actors p) k = (if actor_count k p = 0 then None else Some (int (actor_count k p)))"
      and ms: "\<And>k. om_has (pr_members p) k \<longleftrightarrow> 0 < actor_count k p"
      and oks: "om_ok (pr_connections p)" "om_ok (pr_leases p)" "om_ok (pr_actors p)" "om_ok (pr_members p)"
        "\<And>c. om_has (pr_leases p) c \<longleftrightarrow> om_has (pr_connections p) c"
      using ok by (simp_all add: presence_ok_def)
    have res: "res = ((?n = 0, map snd (pr_members q)),
        at_channel channel q (r\<lparr>rg_channels := om_set channel d (rg_channels r)\<rparr>))"
      using None new
      by (simp add: res_def join_presence_script_def p_def [symmetric] Let_def h_incr_by_def n q_def om_set_new)
    have cnt: "actor_count k q = actor_count k p + (if k = actor then 1 else 0)" for k
      by (simp add: actor_count_def q_def)
    have conns: "pr_connections q = om_set connection (actor, member) (pr_connections p)"
      by (simp add: q_def om_set_new [OF new])
    have "presence_ok q"
      unfolding presence_ok_def cnt conns using oks by (auto simp: q_def n ms)
    then have ok': "registry_ok (snd res)"
      using assms(1) by (auto simp: res registry_ok_def q_def)
    have len: "length (pr_members q) = length (pr_members p) + (if ?n = 0 then 1 else 0)"
      using ms [of actor] by (simp add: q_def om_length_set)
    have get: "om_get (pr_connections q) connection = Some (actor, member)"
      and lease: "om_get (pr_leases q) connection = Some expires_at"
      by (simp_all add: conns) (simp add: q_def)
    show ?thesis
      using ok' len get lease None new by (auto simp: res p_def)
  qed
  then show "registry_ok (snd res)"
    and "fst (fst res) \<longleftrightarrow> \<not> om_has (pr_connections p) connection \<and> actor_count actor p = 0"
    and "length (pr_members (rg_presence (snd res) c)) =
      length (pr_members (rg_presence r c)) + (if c = channel \<and> fst (fst res) then 1 else 0)"
    and "om_get (pr_connections (rg_presence (snd res) channel)) connection =
      Some (case om_get (pr_connections p) connection of None \<Rightarrow> (actor, member) | Some e \<Rightarrow> e)"
    and "om_get (pr_leases (rg_presence (snd res) channel)) connection = Some expires_at"
    by blast+
qed

lemma leave_script_result:
  fixes r :: registry and channel connection :: string
  assumes "registry_ok r"
  defines "p \<equiv> rg_presence r channel"
  defines "res \<equiv> leave_presence_script connection channel r"
  shows "registry_ok (snd res)"
    and "fst (fst res) \<longleftrightarrow>
      (\<exists>a m. om_get (pr_connections p) connection = Some (a, m) \<and> actor_count a p = 1)"
    and "length (pr_members (rg_presence (snd res) c)) + (if c = channel \<and> fst (fst res) then 1 else 0) =
      length (pr_members (rg_presence r c))"
    and "\<not> om_has (pr_connections (rg_presence (snd res) channel)) connection"
proof -
  have ok: "presence_ok p" unfolding p_def using assms(1) by (rule registry_okD)
  have "registry_ok (snd res) \<and> (fst (fst res) \<longleftrightarrow>
      (\<exists>a m. om_get (pr_connections p) connection = Some (a, m) \<and> actor_count a p = 1)) \<and>
    length (pr_members (rg_presence (snd res) c)) + (if c = channel \<and> fst (fst res) then 1 else 0) =
      length (pr_members (rg_presence r c)) \<and>
    \<not> om_has (pr_connections (rg_presence (snd res) channel)) connection"
  proof (cases "om_get (pr_connections p) connection")
    case None
    then have "res = ((False, None), r)" by (simp add: res_def leave_presence_script_def p_def Let_def)
    with None assms(1) show ?thesis by (simp add: om_has_get p_def)
  next
    case (Some e)
    obtain a m where e: "e = (a, m)" by (cases e)
    note d = drop_connection_result [OF ok Some [unfolded e]]
    let ?q = "snd (drop_connection connection a p)"
    have res: "res = ((fst (drop_connection connection a p), Some m),
        delete_if_empty channel (at_channel channel ?q r))"
      using Some e by (simp add: res_def leave_presence_script_def p_def Let_def split: prod.split)
    have "pr_connections p \<noteq> []" using Some by auto
    then have reg: "om_has (rg_channels r) channel" using assms(1) by (simp add: registry_ok_def p_def)
    have "registry_ok (snd res)"
      unfolding res snd_conv
      by (rule delete_if_empty_ok) (use assms(1) d(1) reg in \<open>auto simp: registry_ok_def\<close>)
    moreover have "\<not> om_has (pr_connections (rg_presence (snd res) channel)) connection"
      by (simp add: res delete_if_empty_def d(3)) (simp add: no_presence_def)
    moreover have "pr_members (rg_presence (snd res) c) =
        (if c = channel then pr_members ?q else pr_members (rg_presence r c))"
      using d(1) by (simp add: res delete_if_empty_members)
    ultimately show ?thesis using d(2,4) Some e by (auto simp: res p_def)
  qed
  then show "registry_ok (snd res)" and "fst (fst res) \<longleftrightarrow>
      (\<exists>a m. om_get (pr_connections p) connection = Some (a, m) \<and> actor_count a p = 1)"
    and "length (pr_members (rg_presence (snd res) c)) + (if c = channel \<and> fst (fst res) then 1 else 0) =
      length (pr_members (rg_presence r c))"
    and "\<not> om_has (pr_connections (rg_presence (snd res) channel)) connection"
    by blast+
qed

lemma renew_script_result:
  assumes "registry_ok r"
  shows "registry_ok (snd (renew_presence_script connection channel expires_at r))"
    and "pr_members (rg_presence (snd (renew_presence_script connection channel expires_at r)) c) =
      pr_members (rg_presence r c)"
    and "pr_connections (rg_presence (snd (renew_presence_script connection channel expires_at r)) c) =
      pr_connections (rg_presence r c)"
proof -
  let ?p = "rg_presence r channel"
  have "registry_ok (at_channel channel (?p\<lparr>pr_leases := om_set connection expires_at (pr_leases ?p)\<rparr>) r)"
    if "om_has (pr_connections ?p) connection"
    by (rule registry_okI [OF assms lease_ok [OF registry_okD [OF assms] that]]) simp
  with assms show "registry_ok (snd (renew_presence_script connection channel expires_at r))"
    by (simp add: renew_presence_script_def Let_def)
qed (simp_all add: renew_presence_script_def Let_def)

text \<open>Cleaning up.\<close>

lemma cleanup_connection_result:
  fixes left :: "json list" and c :: string
  assumes "presence_ok p"
  defines "st \<equiv> cleanup_connection c (left, p)"
  shows "presence_ok (snd st)"
    and "length (fst st) + length (pr_members (snd st)) = length left + length (pr_members p)"
    and "pr_connections (snd st) = om_delete c (pr_connections p)"
proof -
  have "presence_ok (snd st) \<and>
    length (fst st) + length (pr_members (snd st)) = length left + length (pr_members p) \<and>
    pr_connections (snd st) = om_delete c (pr_connections p)"
  proof (cases "om_get (pr_connections p) c")
    case None
    then have "\<not> om_has (pr_connections p) c" by (simp add: om_has_get)
    moreover from this have "\<not> om_has (pr_leases p) c" using assms(1) by (simp add: presence_ok_def)
    moreover have "st = (left, p\<lparr>pr_leases := om_delete c (pr_leases p)\<rparr>)"
      using None by (simp add: st_def cleanup_connection_def)
    ultimately show ?thesis using assms(1) by (simp add: om_delete_none)
  next
    case (Some e)
    obtain a m where e: "e = (a, m)" by (cases e)
    note d = drop_connection_result [OF assms(1) Some [unfolded e]]
    have "st = (if fst (drop_connection c a p) then left @ [m] else left, snd (drop_connection c a p))"
      using Some e by (simp add: st_def cleanup_connection_def Let_def split: prod.split)
    with d(1,3,4) show ?thesis by auto
  qed
  then show "presence_ok (snd st)"
    and "length (fst st) + length (pr_members (snd st)) = length left + length (pr_members p)"
    and "pr_connections (snd st) = om_delete c (pr_connections p)"
    by blast+
qed

lemma cleanup_fold_result:
  assumes "presence_ok p"
  shows "presence_ok (snd (fold cleanup_connection cs (left, p))) \<and>
    length (fst (fold cleanup_connection cs (left, p))) +
      length (pr_members (snd (fold cleanup_connection cs (left, p)))) = length left + length (pr_members p) \<and>
    om_get (pr_connections (snd (fold cleanup_connection cs (left, p)))) c =
      (if c \<in> set cs then None else om_get (pr_connections p) c)"
  using assms
proof (induction cs arbitrary: p left)
  case (Cons c' cs)
  note r = cleanup_connection_result [OF Cons.prems, of c' left]
  obtain left' p' where st: "cleanup_connection c' (left, p) = (left', p')"
    by (cases "cleanup_connection c' (left, p)")
  with r have "presence_ok p'" by simp
  from Cons.IH [OF this, of left'] r st show ?case by auto
qed simp

lemma cleanup_script_result:
  fixes r :: registry and channel :: string and now :: int and limit :: nat
  assumes "registry_ok r"
  defines "p \<equiv> rg_presence r channel"
  defines "res \<equiv> cleanup_presence_script now channel limit r"
  shows "registry_ok (snd res)"
    and "length (pr_members (rg_presence (snd res) c)) + (if c = channel then length (fst res) else 0) =
      length (pr_members (rg_presence r c))"
    and "om_get (pr_connections (rg_presence (snd res) channel)) connection =
      (if connection \<in> set (z_range_by_score now limit (pr_leases p)) then None
       else om_get (pr_connections p) connection)"
proof -
  have ok: "presence_ok p" unfolding p_def using assms(1) by (rule registry_okD)
  define f where "f = fold cleanup_connection (z_range_by_score now limit (pr_leases p)) ([], p)"
  note d = cleanup_fold_result [OF ok, of "z_range_by_score now limit (pr_leases p)" "[]", folded f_def]
  have res: "res = (fst f, delete_if_empty channel (at_channel channel (snd f) r))"
    unfolding res_def cleanup_presence_script_def p_def [symmetric] Let_def f_def [symmetric]
    by (simp add: split_beta)
  have q: "presence_ok (snd f)" and len: "length (fst f) + length (pr_members (snd f)) = length (pr_members p)"
    and get: "\<And>c. om_get (pr_connections (snd f)) c =
      (if c \<in> set (z_range_by_score now limit (pr_leases p)) then None else om_get (pr_connections p) c)"
    using d by auto
  have members: "pr_members (rg_presence (snd res) c) =
      (if c = channel then pr_members (snd f) else pr_members (rg_presence r c))"
    using q by (simp add: res delete_if_empty_members)
  show "length (pr_members (rg_presence (snd res) c)) + (if c = channel then length (fst res) else 0) =
      length (pr_members (rg_presence r c))"
    unfolding members using len by (auto simp: res p_def)
  have "om_get (pr_connections (rg_presence (snd res) channel)) connection =
      om_get (pr_connections (snd f)) connection"
    by (simp add: res delete_if_empty_def no_presence_def)
  with get show "om_get (pr_connections (rg_presence (snd res) channel)) connection =
      (if connection \<in> set (z_range_by_score now limit (pr_leases p)) then None
       else om_get (pr_connections p) connection)"
    by simp
  show "registry_ok (snd res)"
  proof (cases "om_has (rg_channels r) channel")
    case True
    show ?thesis
      unfolding res snd_conv
      by (rule delete_if_empty_ok) (use assms(1) q True in \<open>auto simp: registry_ok_def\<close>)
  next
    case False
    with assms(1) have e: "pr_connections p = []" by (simp add: registry_ok_def p_def)
    have "om_get (pr_connections (snd f)) c = None" for c using get e by simp
    then have "pr_connections (snd f) = []" by (rule om_get_none_nil)
    then have "snd res = at_channel channel no_presence r"
      by (simp add: res delete_if_empty_def om_delete_none [OF False]) (simp add: at_channel_def)
    moreover have "registry_ok (at_channel channel no_presence r)"
      using e by (intro registry_okI [OF assms(1) no_presence_ok]) (simp add: p_def no_presence_def)
    ultimately show ?thesis by simp
  qed
qed

subsection \<open>Runs of the registry\<close>

datatype presence_op =
    Join_op string string json string int json
  | Leave_op string string
  | Renew_op string string int
  | Cleanup_op int string nat

text \<open>
  A step answers its channel with how many members it says joined (a first connection) and left
  (a last one): what the servers announce on the channel.
\<close>

fun presence_step :: "presence_op \<Rightarrow> registry \<Rightarrow> (string \<times> int) \<times> registry" where
  "presence_step (Join_op connection channel d actor expires_at member) r =
     (let (answer, r') = join_presence_script connection channel d actor expires_at member r in
      ((channel, if fst answer then 1 else 0), r'))"
| "presence_step (Leave_op connection channel) r =
     (let (answer, r') = leave_presence_script connection channel r in
      ((channel, if fst answer then - 1 else 0), r'))"
| "presence_step (Renew_op connection channel expires_at) r =
     ((channel, 0), snd (renew_presence_script connection channel expires_at r))"
| "presence_step (Cleanup_op now channel limit) r =
     (let (left, r') = cleanup_presence_script now channel limit r in
      ((channel, - int (length left)), r'))"

fun run_presence :: "presence_op list \<Rightarrow> registry \<Rightarrow> (string \<times> int) list \<times> registry" where
  "run_presence [] r = ([], r)"
| "run_presence (op # ops) r =
     (let (a, r') = presence_step op r; (as, r'') = run_presence ops r' in (a # as, r''))"

definition announced :: "string \<Rightarrow> (string \<times> int) list \<Rightarrow> int" where
  "announced channel as = sum_list (map snd (filter (\<lambda>a. fst a = channel) as))"

definition present_actors :: "presence \<Rightarrow> string set" where
  "present_actors p = (\<lambda>e. fst (snd e)) ` set (pr_connections p)"

lemma presence_step_result:
  assumes "registry_ok r"
  shows "registry_ok (snd (presence_step op r))"
    and "int (length (pr_members (rg_presence (snd (presence_step op r)) c))) =
      int (length (pr_members (rg_presence r c))) +
      (if fst (fst (presence_step op r)) = c then snd (fst (presence_step op r)) else 0)"
proof -
  show "registry_ok (snd (presence_step op r))"
    by (cases op)
       (use assms join_script_result(1) leave_script_result(1) renew_script_result(1) cleanup_script_result(1)
         in \<open>simp_all add: split_beta Let_def\<close>)
  show "int (length (pr_members (rg_presence (snd (presence_step op r)) c))) =
      int (length (pr_members (rg_presence r c))) +
      (if fst (fst (presence_step op r)) = c then snd (fst (presence_step op r)) else 0)"
  proof (cases op)
    case (Join_op connection channel d actor expires_at member)
    with join_script_result(3) [OF assms, of connection channel d actor expires_at member c]
    show ?thesis by (auto simp: split_beta Let_def)
  next
    case (Leave_op connection channel)
    with leave_script_result(3) [OF assms, of connection channel c]
    show ?thesis by (auto simp: split_beta Let_def)
  next
    case (Renew_op connection channel expires_at)
    with renew_script_result(2) [OF assms] show ?thesis by simp
  next
    case (Cleanup_op now channel limit)
    with cleanup_script_result(2) [OF assms, of now channel limit c]
    show ?thesis by (auto simp: split_beta Let_def)
  qed
qed

lemma run_presence_result:
  assumes "registry_ok r"
  shows "registry_ok (snd (run_presence ops r)) \<and>
    int (length (pr_members (rg_presence (snd (run_presence ops r)) c))) =
      int (length (pr_members (rg_presence r c))) + announced c (fst (run_presence ops r))"
  using assms
proof (induction ops arbitrary: r)
  case (Cons op ops)
  from Cons.IH [OF presence_step_result(1) [OF Cons.prems, of op]] presence_step_result(2) [OF Cons.prems, of op c]
  show ?case by (auto simp: split_beta Let_def announced_def)
qed (simp add: announced_def)

lemma members_are_present:
  assumes "presence_ok p"
  shows "fst ` set (pr_members p) = present_actors p" and "length (pr_members p) = card (present_actors p)"
proof -
  have "k \<in> fst ` set (pr_members p) \<longleftrightarrow> k \<in> present_actors p" for k
    using assms by (auto simp: presence_ok_def om_has_def actor_count_def present_actors_def filter_empty_conv image_iff)
  then show keys: "fst ` set (pr_members p) = present_actors p" by blast
  have "distinct (map fst (pr_members p))" using assms by (simp add: presence_ok_def om_ok_def)
  then have "length (pr_members p) = card (fst ` set (pr_members p))" using distinct_card by fastforce
  then show "length (pr_members p) = card (present_actors p)" by (simp add: keys)
qed

abbreviation reached :: "presence_op list \<Rightarrow> registry" where
  "reached ops \<equiv> snd (run_presence ops empty_registry)"

lemma reached_ok: "registry_ok (reached ops)" "presence_ok (rg_presence (reached ops) c)"
  using run_presence_result [OF empty_registry_ok, of ops] by (simp_all add: registry_okD)

subsection \<open>Properties\<close>

text \<open>
  C30. Presence events balance. Whatever connections of whatever servers joined, left, renewed
  or were cleaned up, in any order: on every channel, the members announced as joined less those
  announced as left (by leaving or by cleaning up) are as many as the distinct actors that have a
  connection there. So no departure goes unannounced and none is announced twice.
\<close>

theorem presence_announcements_balance:
  "announced channel (fst (run_presence ops empty_registry)) =
     int (card (present_actors (rg_presence (reached ops) channel)))"
proof -
  have "pr_members (rg_presence empty_registry channel) = []"
    by (simp add: empty_registry_def no_presence_def)
  with run_presence_result [OF empty_registry_ok, of ops channel]
    members_are_present(2) [OF reached_ok(2), of ops channel]
  show ?thesis by simp
qed

text \<open>
  In every state the registry can reach, a join is answered as the first exactly when neither
  the connection nor its actor had a connection on the channel, a leave as the last exactly when
  the connection was there and was the only one of its actor; and the members a join lists are
  keyed by exactly the actors present.
\<close>

theorem presence_first_and_last:
  "(fst (fst (join_presence_script connection channel d actor e member (reached ops))) \<longleftrightarrow>
      \<not> om_has (pr_connections (rg_presence (reached ops) channel)) connection \<and>
      actor \<notin> present_actors (rg_presence (reached ops) channel)) \<and>
   (fst (fst (leave_presence_script connection channel (reached ops))) \<longleftrightarrow>
      (\<exists>a m. filter (\<lambda>x. fst (snd x) = a) (pr_connections (rg_presence (reached ops) channel)) =
        [(connection, a, m)])) \<and>
   fst ` set (pr_members (rg_presence (reached ops) channel)) =
      present_actors (rg_presence (reached ops) channel)"
proof -
  let ?p = "rg_presence (reached ops) channel"
  have ok: "om_ok (pr_connections ?p)" using reached_ok(2) by (simp add: presence_ok_def)
  have zero: "actor_count actor ?p = 0 \<longleftrightarrow> actor \<notin> present_actors ?p"
    by (auto simp: actor_count_def present_actors_def filter_empty_conv)
  have one: "(\<exists>a m. om_get (pr_connections ?p) connection = Some (a, m) \<and> actor_count a ?p = 1) \<longleftrightarrow>
      (\<exists>a m. filter (\<lambda>x. fst (snd x) = a) (pr_connections ?p) = [(connection, a, m)])"
  proof (intro iffI; elim exE conjE)
    fix a m assume a: "om_get (pr_connections ?p) connection = Some (a, m)" "actor_count a ?p = 1"
    then have "(connection, a, m) \<in> set (filter (\<lambda>x. fst (snd x) = a) (pr_connections ?p))"
      by (auto dest: om_get_mem)
    moreover obtain x where "filter (\<lambda>x. fst (snd x) = a) (pr_connections ?p) = [x]"
      using a(2) by (auto simp: actor_count_def length_Suc_conv)
    ultimately have "filter (\<lambda>x. fst (snd x) = a) (pr_connections ?p) = [(connection, a, m)]" by simp
    then show "\<exists>a m. filter (\<lambda>x. fst (snd x) = a) (pr_connections ?p) = [(connection, a, m)]" by blast
  next
    fix a m assume a: "filter (\<lambda>x. fst (snd x) = a) (pr_connections ?p) = [(connection, a, m)]"
    have "(connection, a, m) \<in> set (filter (\<lambda>x. fst (snd x) = a) (pr_connections ?p))" by (simp add: a)
    then have "(connection, a, m) \<in> set (pr_connections ?p)" by simp
    with a om_get_in [OF ok] show "\<exists>a m. om_get (pr_connections ?p) connection = Some (a, m) \<and> actor_count a ?p = 1"
      by (auto simp: actor_count_def)
  qed
  show ?thesis
    using join_script_result(2) [OF reached_ok(1), of connection channel d actor e member ops]
      leave_script_result(2) [OF reached_ok(1), of connection channel ops]
      members_are_present(1) [OF reached_ok(2), of ops channel] zero one
    by simp
qed

text \<open>
  Cleaning up takes out the connections the lease query lists and no others: none whose lease
  is still running is dropped, and with room for all of them, every connection whose lease ran out
  is.
\<close>

theorem presence_cleanup_exact:
  assumes "length (filter (\<lambda>e. snd e \<le> now) (pr_leases (rg_presence (reached ops) channel))) \<le> limit"
    and "om_get (pr_connections (rg_presence (reached ops) channel)) connection = Some entry"
    and "om_get (pr_leases (rg_presence (reached ops) channel)) connection = Some lease"
  shows "om_get (pr_connections (rg_presence
      (snd (cleanup_presence_script now channel limit (reached ops))) channel)) connection =
    (if lease \<le> now then None else Some entry)"
proof -
  let ?p = "rg_presence (reached ops) channel"
  have ok: "om_ok (pr_leases ?p)" using reached_ok(2) by (simp add: presence_ok_def)
  have "set (z_range_by_score now limit (pr_leases ?p)) = fst ` set (filter (\<lambda>e. snd e \<le> now) (pr_leases ?p))"
    using assms(1) by (simp add: z_range_by_score_def)
  moreover have "connection \<in> fst ` set (filter (\<lambda>e. snd e \<le> now) (pr_leases ?p)) \<longleftrightarrow> lease \<le> now"
  proof
    assume "connection \<in> fst ` set (filter (\<lambda>e. snd e \<le> now) (pr_leases ?p))"
    then obtain u where "(connection, u) \<in> set (pr_leases ?p)" "u \<le> now" by auto
    with om_get_in [OF ok] assms(3) show "lease \<le> now" by (metis option.inject)
  next
    assume "lease \<le> now"
    with om_get_mem [OF assms(3)] have "(connection, lease) \<in> set (filter (\<lambda>e. snd e \<le> now) (pr_leases ?p))"
      by simp
    then show "connection \<in> fst ` set (filter (\<lambda>e. snd e \<le> now) (pr_leases ?p))" by (metis fst_conv imageI)
  qed
  ultimately show ?thesis
    using cleanup_script_result(3) [OF reached_ok(1), of now channel limit ops connection] assms(2) by simp
qed

theorem presence_cleanup_exact_witness:
  "om_get (pr_connections (rg_presence (snd (cleanup_presence_script 7 ''h'' 100
     (reached [Join_op ''c'' ''h'' JNull ''user:1'' 5 JNull]))) ''h'')) ''c'' =
   (if (5::int) \<le> 7 then None else Some (''user:1'', JNull))"
proof (rule presence_cleanup_exact)
  show "length (filter (\<lambda>e. snd e \<le> 7) (pr_leases (rg_presence
      (reached [Join_op ''c'' ''h'' JNull ''user:1'' 5 JNull]) ''h''))) \<le> 100" by code_simp
  show "om_get (pr_connections (rg_presence
      (reached [Join_op ''c'' ''h'' JNull ''user:1'' 5 JNull]) ''h'')) ''c'' = Some (''user:1'', JNull)"
    by code_simp
  show "om_get (pr_leases (rg_presence
      (reached [Join_op ''c'' ''h'' JNull ''user:1'' 5 JNull]) ''h'')) ''c'' = Some 5" by code_simp
qed

text \<open>
  In the Redis topology a ticket admits at most one connection across all servers: of any
  offers of tickets to Redis, at non-decreasing times, a ticket taken once is not taken again
  before its retention ends.
\<close>

theorem redis_ticket_taken_once:
  assumes "sorted (map fst es)" and "i < j" and "j < length es"
    and "fst (run_offers (ticket_offer hash) es []) ! i"
    and "fst (snd (es ! j)) = fst (snd (es ! i))"
    and "fst (es ! j) < fst (es ! i) + snd (snd (es ! i))"
  shows "\<not> fst (run_offers (ticket_offer hash) es []) ! j"
  using assms by (intro ticket.taken_once [where i = i]) simp_all

theorem redis_ticket_taken_once_witness:
  "\<not> fst (run_offers (ticket_offer (\<lambda>s. s)) [(0, ''t'', 5), (4, ''t'', 9)] []) ! 1"
proof (rule redis_ticket_taken_once [where i = 0])
  show "fst (run_offers (ticket_offer (\<lambda>s. s)) [(0, ''t'', 5), (4, ''t'', 9)] []) ! 0" by code_simp
qed simp_all

fun frame_ok :: "(string \<Rightarrow> bool) \<Rightarrow> backplane_frame \<Rightarrow> bool" where
  "frame_ok date_ok (Event_frame m) = message_ok date_ok m"
| "frame_ok date_ok (Presence_frame ty d a source) =
     (text_among (Some ty) [''presence_joined'', ''presence_left''] \<and> destination_ok d \<and> actor_ok a)"

lemma parse_actor_json: "actor_ok a \<Longrightarrow> parse_actor (Some (actor_json a)) = Inr a"
  by (cases a; cases "actor_id a") (auto simp: parse_actor_def actor_json_def actor_ok_def opt_json_def)

lemma parse_destination_json: "destination_ok d \<Longrightarrow> parse_destination (Some (destination_json d)) = Inr d"
  by (simp add: parse_destination_def destination_json_def destination_ok_def)

text \<open>
  Servers understand one another: a frame a server puts on the backplane, its message,
  channel and member being ones it accepted, is read back unchanged by every subscriber.
\<close>

theorem backplane_frames_read_back:
  assumes "frame_ok date_ok f"
  shows "on_frame date_ok (Some (frame_json f)) = Some f"
proof (cases f)
  case (Event_frame m)
  with assms parse_message_json show ?thesis by (simp add: on_frame_def parse_frame_def frame_json_def)
next
  case (Presence_frame ty d a source)
  with assms parse_actor_json parse_destination_json show ?thesis
    by (cases source) (simp_all add: on_frame_def parse_frame_def frame_json_def)
qed

theorem backplane_frames_read_back_witness:
  "on_frame (\<lambda>_. True) (Some (frame_json (Presence_frame (JStr ''presence_left'')
     \<lparr>dest_name = ''a'', dest_kind = JStr ''presence''\<rparr> \<lparr>actor_kind = JStr ''user'', actor_id = Some ''1''\<rparr> None))) =
   Some (Presence_frame (JStr ''presence_left'')
     \<lparr>dest_name = ''a'', dest_kind = JStr ''presence''\<rparr> \<lparr>actor_kind = JStr ''user'', actor_id = Some ''1''\<rparr> None)"
  by (rule backplane_frames_read_back) code_simp

end
