(* ===== verification/KeryxServer.thy ===== *)
theory KeryxServer
  imports AdmissionTickets RedisPresence Throttle
begin

text \<open>
  The Keryx server (class \<open>Keryx\<close> of \<open>packages/keryx/src/index.ts\<close>) without its
  connections: how options become a server, its life cycle with the recovery of a lost backplane,
  the admission of a connection by a ticket, the memory of published messages, and the HTTP
  endpoint that takes broadcasts. The connections are in the theory \<open>KeryxHub\<close>.
\<close>

subsection \<open>Options\<close>

datatype topology = Single | Redis

record options =
  op_application_id :: "string option"
  op_port :: "jsnum option"
  op_host :: "string option"
  op_path :: "string option"
  op_key :: "string option"
  op_secret :: "string option"
  op_publish_url :: "string option"
  op_topology :: "topology option"
  op_redis_url :: "string option"
  op_max_payload_bytes :: "jsnum option"
  op_max_publish_payload_bytes :: "jsnum option"
  op_max_pending_frames :: "jsnum option"
  op_max_command_throttle_buckets :: "jsnum option"
  op_admission_ticket_ms :: "jsnum option"
  op_max_consumed_admission_tickets :: "jsnum option"
  op_heartbeat_ms :: "jsnum option"
  op_presence_lease_ms :: "jsnum option"
  op_publish_timeout_ms :: "jsnum option"
  op_message_deduplication_ms :: "jsnum option"
  op_max_deduplicated_messages :: "jsnum option"
  op_max_buffered_bytes :: "jsnum option"

record resolved_options =
  ro_application_id :: string
  ro_port :: jsnum
  ro_host :: string
  ro_path :: string
  ro_key :: string
  ro_secret :: "string option"
  ro_publish_url :: "string option"
  ro_topology :: topology
  ro_redis_url :: "string option"
  ro_max_payload_bytes :: jsnum
  ro_max_publish_payload_bytes :: jsnum
  ro_max_pending_frames :: jsnum
  ro_max_command_throttle_buckets :: jsnum
  ro_admission_ticket_ms :: jsnum
  ro_max_consumed_admission_tickets :: jsnum
  ro_heartbeat_ms :: jsnum
  ro_presence_lease_ms :: jsnum
  ro_publish_timeout_ms :: jsnum
  ro_message_deduplication_ms :: jsnum
  ro_max_deduplicated_messages :: jsnum
  ro_max_buffered_bytes :: jsnum

text \<open>\<open>Number.isSafeInteger(n) && n > 0\<close>, the number then, and \<open>a ?? b\<close>.\<close>

definition positive_integer :: "jsnum \<Rightarrow> bool" where
  "positive_integer n = (case n of
     Inf s \<Rightarrow> False
   | Fin q \<Rightarrow> (case safe_integer (Some q) of None \<Rightarrow> False | Some i \<Rightarrow> i > 0))"

definition integer_of :: "jsnum \<Rightarrow> int" where
  "integer_of n = (case n of Inf s \<Rightarrow> 0 | Fin q \<Rightarrow> \<lfloor>q\<rfloor>)"

definition js_number :: "int \<Rightarrow> jsnum" where
  "js_number i = Fin (of_int i)"

definition or_else :: "'a option \<Rightarrow> 'a \<Rightarrow> 'a" where
  "or_else v d = (case v of None \<Rightarrow> d | Some x \<Rightarrow> x)"

definition bad_number :: "jsnum option \<Rightarrow> bool" where
  "bad_number v = (case v of None \<Rightarrow> False | Some n \<Rightarrow> \<not> positive_integer n)"

definition times_three :: "jsnum \<Rightarrow> jsnum" where
  "times_three n = (case n of Fin q \<Rightarrow> Fin (q * 3) | Inf s \<Rightarrow> Inf s)"

definition resolve_options :: "options \<Rightarrow> string + resolved_options" where
  "resolve_options o' =
     (let path = or_else (op_path o') ''/app'' in
      if \<not> prefix ''/'' path then Inl ''Keryx path must begin with /.''
      else if op_topology o' = Some Redis \<and> truthy_string (op_redis_url o') = None
      then Inl ''Keryx Redis topology requires redisUrl.''
      else if bad_number (op_message_deduplication_ms o')
      then Inl ''Keryx messageDeduplicationMilliseconds must be a positive integer.''
      else if bad_number (op_max_deduplicated_messages o')
      then Inl ''Keryx maxDeduplicatedMessages must be a positive integer.''
      else if bad_number (op_admission_ticket_ms o')
      then Inl ''Keryx admissionTicketMilliseconds must be a positive integer.''
      else if bad_number (op_max_consumed_admission_tickets o')
      then Inl ''Keryx maxConsumedAdmissionTickets must be a positive integer.''
      else if bad_number (op_heartbeat_ms o')
      then Inl ''Keryx heartbeatMilliseconds must be a positive integer.''
      else if bad_number (op_max_command_throttle_buckets o')
      then Inl ''Keryx maxCommandThrottleBuckets must be a positive integer.''
      else Inr \<lparr>
        ro_application_id = or_else (op_application_id o') ''default'',
        ro_port = or_else (op_port o') (js_number 6001),
        ro_host = or_else (op_host o') ''127.0.0.1'',
        ro_path = path,
        ro_key = or_else (op_key o') ''default'',
        ro_secret = truthy_string (op_secret o'),
        ro_publish_url = truthy_string (op_publish_url o'),
        ro_topology = or_else (op_topology o') Single,
        ro_redis_url = truthy_string (op_redis_url o'),
        ro_max_payload_bytes = or_else (op_max_payload_bytes o') (js_number (64 * 1024)),
        ro_max_publish_payload_bytes = or_else (op_max_publish_payload_bytes o') (js_number (256 * 1024)),
        ro_max_pending_frames = or_else (op_max_pending_frames o') (js_number 16),
        ro_max_command_throttle_buckets = or_else (op_max_command_throttle_buckets o') (js_number 50000),
        ro_admission_ticket_ms = or_else (op_admission_ticket_ms o') (js_number 30000),
        ro_max_consumed_admission_tickets =
          or_else (op_max_consumed_admission_tickets o') (js_number 50000),
        ro_heartbeat_ms = or_else (op_heartbeat_ms o') (js_number 30000),
        ro_presence_lease_ms = or_else (op_presence_lease_ms o')
          (times_three (or_else (op_heartbeat_ms o') (js_number 30000))),
        ro_publish_timeout_ms = or_else (op_publish_timeout_ms o') (js_number 10000),
        ro_message_deduplication_ms = or_else (op_message_deduplication_ms o')
          (js_number (24 * 60 * 60 * 1000)),
        ro_max_deduplicated_messages = or_else (op_max_deduplicated_messages o') (js_number 50000),
        ro_max_buffered_bytes = or_else (op_max_buffered_bytes o') (js_number (1024 * 1024))\<rparr>)"

subsection \<open>The server's state\<close>

record roles =
  rl_web :: bool
  rl_worker :: bool
  rl_scheduler :: bool
  rl_requires_remote_publishing :: bool

definition default_roles :: roles where
  "default_roles = \<lparr>rl_web = True, rl_worker = True, rl_scheduler = True,
     rl_requires_remote_publishing = False\<rparr>"

text \<open>
  Where the recovery of a lost backplane stands: not running, between two attempts, or waiting
  for a candidate to start.
\<close>

datatype recovery = No_recovery | Recovery_delay | Recovery_starting

record keryx =
  kx_options :: resolved_options
  kx_authenticator :: "authenticator option"
  kx_tickets :: "tickets option"
  kx_bound :: bool
  kx_roles :: roles
  kx_server :: bool \<comment> \<open>\<open>#server\<close> is set, and listens\<close>
  kx_backplane :: bool \<comment> \<open>\<open>#backplane\<close> is set\<close>
  kx_recovery :: recovery
  kx_draining :: bool
  kx_ready :: bool
  kx_published :: "(string, int) omap"
  kx_consumed :: "(string, int) omap"
  kx_buckets :: buckets
  kx_nonces :: nonces

definition new_keryx :: "ticket_host \<Rightarrow> options \<Rightarrow> string + keryx" where
  "new_keryx h o' =
     res_bind (resolve_options o') (\<lambda>ro.
     res_bind (case ro_secret ro of
         None \<Rightarrow> Inr None
       | Some secret \<Rightarrow> map_sum (\<lambda>e. e) Some (new_authenticator (ro_key ro) secret 60)) (\<lambda>auth.
     res_bind (case ro_secret ro of
         None \<Rightarrow> Inr None
       | Some secret \<Rightarrow> map_sum (\<lambda>e. e) Some
           (new_tickets h (ro_application_id ro) secret (integer_of (ro_admission_ticket_ms ro)))) (\<lambda>tickets.
     Inr \<lparr>kx_options = ro, kx_authenticator = auth, kx_tickets = tickets, kx_bound = False,
          kx_roles = default_roles, kx_server = False, kx_backplane = False, kx_recovery = No_recovery,
          kx_draining = False, kx_ready = False, kx_published = [], kx_consumed = [], kx_buckets = [],
          kx_nonces = []\<rparr>)))"

subsection \<open>Life cycle\<close>

definition select_roles :: "roles \<Rightarrow> keryx \<Rightarrow> (string + unit) \<times> keryx" where
  "select_roles r k =
     (if kx_server k \<or> kx_ready k then (Inl ''Keryx roles must be selected before startup.'', k)
      else (Inr (), k\<lparr>kx_roles := r\<rparr>))"

definition bind_gateway :: "keryx \<Rightarrow> (string + unit) \<times> keryx" where
  "bind_gateway k =
     (if kx_bound k then (Inl ''Keryx is already bound to a Doxa runtime.'', k)
      else if kx_server k then (Inl ''Keryx must be bound before it starts.'', k)
      else (Inr (), k\<lparr>kx_bound := True\<rparr>))"

text \<open>
  \<open>start\<close>, given the abort reason of the signal, the outcome of starting the backplane and that
  of listening. A backplane that does not start is left set, as the code leaves it.
\<close>

definition start_keryx ::
  "string option \<Rightarrow> string + unit \<Rightarrow> string + unit \<Rightarrow> keryx \<Rightarrow> (string + unit) \<times> keryx" where
  "start_keryx aborted backplane_result listen_result k =
     (case aborted of Some reason \<Rightarrow> (Inl reason, k) | None \<Rightarrow>
      if \<not> kx_bound k then (Inl ''The Doxa runtime did not bind Keryx.'', k)
      else if kx_server k \<or> kx_ready k then (Inl ''Keryx is already started.'', k)
      else (let k1 = k\<lparr>kx_draining := False\<rparr> in
        if \<not> rl_web (kx_roles k1)
        then (if rl_requires_remote_publishing (kx_roles k1) \<and>
                 (ro_publish_url (kx_options k1) = None \<or> kx_authenticator k1 = None)
              then (Inl ''Queued broadcasts in a non-web role require DOXA_KERYX_PUBLISH_URL and DOXA_KERYX_SECRET.'', k1)
              else (Inr (), k1\<lparr>kx_ready := True\<rparr>))
        else (let redis = ro_topology (kx_options k1) = Redis;
                  k2 = (if redis then k1\<lparr>kx_backplane := True\<rparr> else k1) in
          case (if redis then backplane_result else Inr ()) of
            Inl e \<Rightarrow> (Inl e, k2)
          | Inr _ \<Rightarrow> (case listen_result of
              Inl e \<Rightarrow> (Inl e, k2\<lparr>kx_backplane := False\<rparr>)
            | Inr _ \<Rightarrow> (Inr (), k2\<lparr>kx_server := True, kx_ready := True\<rparr>)))))"

definition drain_keryx :: "keryx \<Rightarrow> keryx" where
  "drain_keryx k = k\<lparr>kx_draining := True, kx_ready := False\<rparr>"

text \<open>
  \<open>stop\<close> up to its awaits (the flags), and after them: the recovery, if one was running, has
  ended by then, and what it left is dropped.
\<close>

definition stop_begin :: "keryx \<Rightarrow> keryx" where
  "stop_begin k = k\<lparr>kx_draining := True, kx_ready := False\<rparr>"

definition stop_finish :: "keryx \<Rightarrow> keryx" where
  "stop_finish k = k\<lparr>kx_recovery := No_recovery, kx_backplane := False, kx_server := False\<rparr>"

definition dispose_keryx :: "keryx \<Rightarrow> keryx" where
  "dispose_keryx k = k\<lparr>kx_published := [], kx_consumed := [], kx_buckets := []\<rparr>"

text \<open>
  \<open>#backplaneUnavailable\<close>: \<open>None\<close> when there is nothing to do; otherwise every
  connection is closed and a recovery begins.
\<close>

definition backplane_unavailable :: "keryx \<Rightarrow> keryx option" where
  "backplane_unavailable k =
     (if kx_recovery k \<noteq> No_recovery \<or> kx_draining k then None
      else if \<not> kx_backplane k then None
      else Some (k\<lparr>kx_backplane := False, kx_ready := False, kx_recovery := Recovery_delay\<rparr>))"

text \<open>
  \<open>#recoverBackplane\<close>: the end of a delay, where the loop gives up when the server is being
  stopped, and the outcome of starting a candidate.
\<close>

definition recovery_delay_over :: "keryx \<Rightarrow> keryx" where
  "recovery_delay_over k =
     (if kx_recovery k \<noteq> Recovery_delay then k
      else if kx_draining k \<or> \<not> kx_server k then k\<lparr>kx_recovery := No_recovery\<rparr>
      else k\<lparr>kx_recovery := Recovery_starting\<rparr>)"

definition recovery_started :: "string + unit \<Rightarrow> keryx \<Rightarrow> keryx" where
  "recovery_started result k =
     (if kx_recovery k \<noteq> Recovery_starting then k
      else (case result of
        Inr _ \<Rightarrow> k\<lparr>kx_backplane := True, kx_ready := True, kx_recovery := No_recovery\<rparr>
      | Inl _ \<Rightarrow> if \<not> kx_draining k \<and> kx_server k then k\<lparr>kx_recovery := Recovery_delay\<rparr>
                 else k\<lparr>kx_recovery := No_recovery\<rparr>))"

text \<open>The delay before an attempt, which the code then scales by a random factor of 0.75 to 1.25.\<close>

definition recovery_maximum_delay :: "nat \<Rightarrow> int" where
  "recovery_maximum_delay attempt = min 5000 (100 * 2 ^ min attempt 6)"

subsection \<open>Broadcasts\<close>

text \<open>
  \<open>#acceptPublished\<close> in the single topology: forget the ids that ran out, ignore an id still
  remembered, make room by forgetting the oldest, remember the id. The flag is whether the
  message goes to the local subscribers.
\<close>

fun evict_oldest :: "int \<Rightarrow> (string, int) omap \<Rightarrow> (string, int) omap" where
  "evict_oldest mx [] = []"
| "evict_oldest mx ((oldest, u) # m) =
     (if int (length ((oldest, u) # m)) \<ge> mx
      then (if oldest = [] then (oldest, u) # m else evict_oldest mx m)
      else (oldest, u) # m)"

definition accept_published_local ::
  "int \<Rightarrow> int \<Rightarrow> int \<Rightarrow> string \<Rightarrow> (string, int) omap \<Rightarrow> bool \<times> (string, int) omap" where
  "accept_published_local mx retention now message_id m =
     (let m1 = om_prune (\<lambda>i u. u \<le> now) m in
      if or_else (om_get m1 message_id) 0 > now then (False, m1)
      else (True, om_set message_id (now + retention) (evict_oldest mx m1)))"

text \<open>
  \<open>#acceptPublished\<close>, with the keys of the Redis the server uses. It answers with the message
  to deliver to the local subscribers and the frames put on the backplane.
\<close>

definition accept_published ::
  "(string \<Rightarrow> string) \<Rightarrow> backplane \<Rightarrow> int \<Rightarrow> broadcast_message \<Rightarrow> keryx \<Rightarrow> expiring_keys \<Rightarrow>
    (string + broadcast_message option \<times> json list) \<times> keryx \<times> expiring_keys" where
  "accept_published hash b now message k rk =
     (if ro_topology (kx_options k) = Redis
      then (if \<not> kx_backplane k then (Inl ''Keryx Redis backplane is unavailable.'', k, rk)
            else (let (accepted, frames, rk') = publish_event_once hash b now message
                    (integer_of (ro_message_deduplication_ms (kx_options k))) rk in
                  (map_sum (\<lambda>e. e) (\<lambda>_. (None, frames)) accepted, k, rk')))
      else (let (deliver, m) = accept_published_local
                (integer_of (ro_max_deduplicated_messages (kx_options k)))
                (integer_of (ro_message_deduplication_ms (kx_options k))) now (msg_id message) (kx_published k) in
            (Inr (if deliver then Some message else None, []), k\<lparr>kx_published := m\<rparr>, rk)))"

definition publish_path :: "(string \<Rightarrow> string) \<Rightarrow> keryx \<Rightarrow> string" where
  "publish_path encode k = ''/apps/'' @ encode (ro_application_id (kx_options k)) @ ''/events''"

definition ensure_trailing_slash :: "string \<Rightarrow> string" where
  "ensure_trailing_slash v = (if suffix ''/'' v then v else v @ ''/'')"

text \<open>
  \<open>#publishRemotely\<close>: the request it makes, and what the answer of the other server means.
\<close>

definition remote_request ::
  "publish_host \<Rightarrow> ticket_host \<Rightarrow> (string \<Rightarrow> string) \<Rightarrow> int \<Rightarrow> string \<Rightarrow> broadcast_message \<Rightarrow> keryx \<Rightarrow>
    string + string \<times> string \<times> publish_request" where
  "remote_request ph th encode now nonce message k =
     (case (ro_publish_url (kx_options k), kx_authenticator k) of
        (Some url, Some auth) \<Rightarrow>
          (let path = publish_path encode k;
               body = json_stringify th (JObj [(''protocol'', keryx_protocol), (''message'', message_json message)]) in
           Inr (ensure_trailing_slash url, path, headers ph auth now nonce ''POST'' path body))
      | _ \<Rightarrow> Inl ''Remote Keryx publishing requires DOXA_KERYX_PUBLISH_URL and DOXA_KERYX_SECRET.'')"

definition remote_answer :: "string + nat \<Rightarrow> string + unit" where
  "remote_answer response = (case response of
     Inl aborted \<Rightarrow> Inl aborted
   | Inr status \<Rightarrow> if status \<noteq> 202 then Inl ''Keryx publish failed.'' else Inr ())"

text \<open>\<open>publish\<close>: what it does with a message, before the work it waits for.\<close>

datatype publish_route = Accept_locally broadcast_message | Send_remotely broadcast_message

definition publish :: "(string \<Rightarrow> bool) \<Rightarrow> json option \<Rightarrow> keryx \<Rightarrow> string + publish_route" where
  "publish date_ok message k =
     res_bind (parse_published_message date_ok message) (\<lambda>normalized.
       if \<not> kx_ready k \<or> kx_draining k then Inl ''Keryx is not accepting broadcasts.''
       else Inr (if rl_web (kx_roles k) then Accept_locally normalized else Send_remotely normalized))"

subsection \<open>Admission by ticket\<close>

definition keryx_subprotocol :: string where
  "keryx_subprotocol = ''doxa.realtime.v3''"

definition ticket_prefix :: string where
  "ticket_prefix = ''doxa.ticket.''"

text \<open>
  \<open>handleProtocols\<close>: the protocol the server answers with, never one that carries a ticket.
\<close>

definition handle_protocols :: "string list \<Rightarrow> string option" where
  "handle_protocols protocols =
     (if keryx_subprotocol \<in> set protocols then Some keryx_subprotocol
      else find (\<lambda>p. \<not> prefix ticket_prefix p) protocols)"

definition admission_ticket_from_incoming :: "string option \<Rightarrow> auth_error + string option" where
  "admission_ticket_from_incoming header =
     (let tickets = filter (prefix ticket_prefix)
            (map js_trim (split_on (CHR '','') (or_else header []))) in
      case tickets of
        [] \<Rightarrow> Inr None
      | [t] \<Rightarrow> (let ticket = drop (length ticket_prefix) t in
                if ticket = [] then Inl invalid_ticket else Inr (Some ticket))
      | _ \<Rightarrow> Inl invalid_ticket)"

definition issue_connection_ticket ::
  "ticket_host \<Rightarrow> int \<Rightarrow> string \<Rightarrow> string \<Rightarrow> ticket_input \<Rightarrow> keryx \<Rightarrow> string + string \<times> int" where
  "issue_connection_ticket h now uuid iv input k =
     (if \<not> rl_web (kx_roles k) \<or> \<not> kx_ready k \<or> kx_draining k
      then Inl ''Keryx is not accepting connection tickets.''
      else (case kx_tickets k of
        None \<Rightarrow> Inl ''Keryx connection tickets require DOXA_KERYX_SECRET.''
      | Some tk \<Rightarrow> issue h tk now uuid iv input))"

text \<open>\<open>#consumeAdmissionTicket\<close>: the deadline in whole milliseconds, rounded up.\<close>

definition deadline_ms :: "int \<Rightarrow> int" where
  "deadline_ms expires_at = (expires_at + 999) div 1000"

definition consume_ticket_local ::
  "int \<Rightarrow> int \<Rightarrow> admission \<Rightarrow> (string, int) omap \<Rightarrow> bool \<times> (string, int) omap" where
  "consume_ticket_local mx now adm m =
     (let m1 = om_prune (\<lambda>i u. u \<le> now) m in
      if or_else (om_get m1 (adm_ticket_id adm)) 0 > now then (False, m1)
      else if int (length m1) \<ge> mx then (False, m1)
      else (True, om_set (adm_ticket_id adm) (deadline_ms (adm_expires_at adm)) m1))"

definition consume_admission_ticket ::
  "(string \<Rightarrow> string) \<Rightarrow> backplane \<Rightarrow> int \<Rightarrow> admission \<Rightarrow> keryx \<Rightarrow> expiring_keys \<Rightarrow>
    (string + bool) \<times> keryx \<times> expiring_keys" where
  "consume_admission_ticket hash b now adm k rk =
     (if ro_topology (kx_options k) = Redis
      then (if \<not> kx_backplane k then (Inl ''Keryx Redis backplane is unavailable.'', k, rk)
            else (let (r, rk') = consume_admission_ticket_once hash b now (adm_ticket_id adm)
                    (max 1 (deadline_ms (adm_expires_at adm) - now)) rk in (r, k, rk')))
      else (let (taken, m) = consume_ticket_local
                (integer_of (ro_max_consumed_admission_tickets (kx_options k))) now adm (kx_consumed k) in
            (Inr taken, k\<lparr>kx_consumed := m\<rparr>, rk)))"

record conn_admission =
  ca_connection_id :: string
  ca_actor :: actor
  ca_initiator :: "actor option"
  ca_delegation :: "hop list option"
  ca_authentication :: authentication
  ca_tenant :: "string option"
  ca_correlation_id :: string

definition conn_admission_of :: "string \<Rightarrow> admission \<Rightarrow> conn_admission" where
  "conn_admission_of connection_id adm =
     \<lparr>ca_connection_id = connection_id, ca_actor = adm_actor adm, ca_initiator = adm_initiator adm,
      ca_delegation = adm_delegation adm, ca_authentication = adm_authentication adm,
      ca_tenant = adm_tenant adm, ca_correlation_id = adm_correlation_id adm\<rparr>"

definition admit_connection_ticket ::
  "ticket_host \<Rightarrow> (string \<Rightarrow> string) \<Rightarrow> backplane \<Rightarrow> int \<Rightarrow> string \<Rightarrow> string \<Rightarrow> string option \<Rightarrow> keryx \<Rightarrow>
    expiring_keys \<Rightarrow> ((auth_error + string) + conn_admission) \<times> keryx \<times> expiring_keys" where
  "admit_connection_ticket h hash b now connection_id ticket origin k rk =
     (case kx_tickets k of
        None \<Rightarrow> (Inl (Inl (auth_fail ''admission_ticket_unavailable'' 401)), k, rk)
      | Some tk \<Rightarrow>
        (case truthy_string origin of
          None \<Rightarrow> (Inl (Inl (auth_fail ''admission_origin_required'' 401)), k, rk)
        | Some origin \<Rightarrow>
          (case open_ticket h tk now ticket origin of
            Inl e \<Rightarrow> (Inl (Inl e), k, rk)
          | Inr adm \<Rightarrow>
            (let (taken, k', rk') = consume_admission_ticket hash b now adm k rk in
             (case taken of
                Inl e \<Rightarrow> Inl (Inr e)
              | Inr False \<Rightarrow> Inl (Inl (auth_fail ''admission_ticket_replayed'' 409))
              | Inr True \<Rightarrow> Inr (conn_admission_of connection_id adm), k', rk')))))"

subsection \<open>The HTTP endpoint\<close>

text \<open>
  A request: the sizes of the chunks its body arrives in (or the failure to arrive), the text they
  decode to, and the signature headers, read as a \<open>publish_request\<close>.
\<close>

record http_request =
  ht_method :: string
  ht_path :: string
  ht_chunks :: "string + nat list"
  ht_body :: string
  ht_headers :: publish_request

datatype body_result = Body string | Too_large | Body_failed string

fun read_chunks :: "int \<Rightarrow> nat \<Rightarrow> nat list \<Rightarrow> bool" where
  "read_chunks mx n [] = True"
| "read_chunks mx n (c # cs) = (if int (n + c) > mx then False else read_chunks mx (n + c) cs)"

definition read_body :: "int \<Rightarrow> http_request \<Rightarrow> body_result" where
  "read_body mx r = (case ht_chunks r of
     Inl e \<Rightarrow> Body_failed e
   | Inr chunks \<Rightarrow> if read_chunks mx 0 chunks then Body (ht_body r) else Too_large)"

text \<open>The answer: the status, the code of its JSON body, and what was accepted.\<close>

record http_answer =
  an_status :: int
  an_code :: "string option"
  an_deliver :: "broadcast_message option"
  an_frames :: "json list"

definition answer :: "int \<Rightarrow> string \<Rightarrow> http_answer" where
  "answer status code = \<lparr>an_status = status, an_code = Some code, an_deliver = None, an_frames = []\<rparr>"

definition plain_answer :: "int \<Rightarrow> http_answer" where
  "plain_answer status = \<lparr>an_status = status, an_code = None, an_deliver = None, an_frames = []\<rparr>"

text \<open>What follows once the signature is verified.\<close>

definition accept_envelope ::
  "ticket_host \<Rightarrow> (string \<Rightarrow> string) \<Rightarrow> (string \<Rightarrow> bool) \<Rightarrow> backplane \<Rightarrow> int \<Rightarrow> string \<Rightarrow> keryx \<Rightarrow>
    expiring_keys \<Rightarrow> http_answer \<times> keryx \<times> expiring_keys" where
  "accept_envelope th hash date_ok b now body k rk =
     (case json_parse th body of
       None \<Rightarrow> (answer 422 ''publish_payload_invalid'', k, rk)
     | Some envelope \<Rightarrow>
       if envelope = JNull \<or> jfield envelope ''protocol'' \<noteq> Some keryx_protocol
       then (answer 422 ''publish_payload_invalid'', k, rk)
       else (case parse_published_message date_ok (jfield envelope ''message'') of
         Inl e \<Rightarrow> (answer 422 ''publish_payload_invalid'', k, rk)
       | Inr message \<Rightarrow>
         (let (accepted, k2, rk2) = accept_published hash b now message k rk in
          (case accepted of
             Inl e \<Rightarrow> answer 503 ''publish_unavailable''
           | Inr (deliver, frames) \<Rightarrow>
               \<lparr>an_status = 202, an_code = None, an_deliver = deliver, an_frames = frames\<rparr>,
           k2, rk2))))"

definition handle_http ::
  "publish_host \<Rightarrow> ticket_host \<Rightarrow> (string \<Rightarrow> string) \<Rightarrow> (string \<Rightarrow> string) \<Rightarrow> (string \<Rightarrow> bool) \<Rightarrow> backplane \<Rightarrow>
    int \<Rightarrow> http_request \<Rightarrow> keryx \<Rightarrow> expiring_keys \<Rightarrow> http_answer \<times> keryx \<times> expiring_keys" where
  "handle_http ph th encode hash date_ok b now r k rk =
     (if ht_method r = ''GET'' \<and> ht_path r = ''/ready''
      then (plain_answer (if kx_ready k then 204 else 503), k, rk)
      else if ht_method r \<noteq> ''POST'' \<or> ht_path r \<noteq> publish_path encode k then (plain_answer 404, k, rk)
      else if kx_draining k \<or> \<not> kx_ready k then (answer 503 ''keryx_unavailable'', k, rk)
      else (case kx_authenticator k of
        None \<Rightarrow> (answer 503 ''publishing_not_configured'', k, rk)
      | Some auth \<Rightarrow>
        (case read_body (integer_of (ro_max_publish_payload_bytes (kx_options k))) r of
          Too_large \<Rightarrow> (answer 413 ''publish_payload_too_large'', k, rk)
        | Body_failed e \<Rightarrow> (answer 503 ''publish_unavailable'', k, rk)
        | Body body \<Rightarrow>
          (let (verified, nonces) = verify ph auth now
                 ((ht_headers r)\<lparr>req_method := ''POST'', req_path := ht_path r, req_body := body\<rparr>) (kx_nonces k);
               k1 = k\<lparr>kx_nonces := nonces\<rparr> in
           case verified of
             Inl e \<Rightarrow> (answer (auth_status e) (auth_code e), k1, rk)
           | Inr _ \<Rightarrow>
             accept_envelope th hash date_ok b now body k1 rk))))"

subsection \<open>The ledger of consumed tickets\<close>

definition consume_step ::
  "int \<Rightarrow> int \<times> admission \<Rightarrow> (string, int) omap \<Rightarrow> bool \<times> (string, int) omap" where
  "consume_step mx e m = consume_ticket_local mx (fst e) (snd e) m"

lemma or_else_get: "or_else (om_get m k) 0 > now \<longleftrightarrow> (\<exists>u. om_get m k = Some u \<and> u > now) \<or> om_get m k = None \<and> now < 0"
  by (auto simp: or_else_def split: option.split)

interpretation consumed: once_ledger "consume_step mx" fst "\<lambda>e. adm_ticket_id (snd e)"
  "\<lambda>e. deadline_ms (adm_expires_at (snd e))" "\<lambda>now u. now < u" entry_until om_ok
  for mx
proof unfold_locales
  fix s :: "(string, int) omap" and k :: string and u and e :: "int \<times> admission"
  let ?m = "om_prune (\<lambda>i u. u \<le> fst e) s"
  assume ok: "om_ok s"
  show "om_ok (snd (consume_step mx e s))" using ok by (simp add: consume_step_def consume_ticket_local_def Let_def)
  show "entry_until (snd (consume_step mx e s)) (adm_ticket_id (snd e)) (deadline_ms (adm_expires_at (snd e)))"
    if "fst (consume_step mx e s)"
    using that by (auto simp: consume_step_def consume_ticket_local_def Let_def entry_until_def split: if_splits)
  show "\<not> fst (consume_step mx e s)" if "entry_until s (adm_ticket_id (snd e)) u" "fst e < u"
  proof -
    have "entry_until ?m (adm_ticket_id (snd e)) u" using that ok by (intro entry_until_prune) auto
    with that show ?thesis
      by (simp add: consume_step_def consume_ticket_local_def Let_def entry_until_def or_else_def)
  qed
  show "entry_until (snd (consume_step mx e s)) k u" if "entry_until s k u" "fst e < u"
  proof -
    have live: "entry_until ?m k u" using that ok by (intro entry_until_prune) auto
    show ?thesis
    proof (cases "adm_ticket_id (snd e) = k \<and> fst (consume_step mx e s)")
      case True
      with live that(2) show ?thesis
        by (auto simp: consume_step_def consume_ticket_local_def Let_def entry_until_def or_else_def
            split: if_splits)
    next
      case False
      with live show ?thesis
        by (auto simp: consume_step_def consume_ticket_local_def Let_def
            intro: entry_until_set_other split: if_splits)
    qed
  qed
qed simp

subsection \<open>The memory of published messages\<close>

text \<open>
  \<open>remembered m i u n\<close>: the id is remembered until \<open>u\<close>, with at most \<open>n\<close> ids younger than it.
\<close>

definition remembered :: "(string, int) omap \<Rightarrow> string \<Rightarrow> int \<Rightarrow> nat \<Rightarrow> bool" where
  "remembered m i u n \<longleftrightarrow> om_ok m \<and> (\<exists>xs ys. m = xs @ (i, u) # ys \<and> length ys \<le> n)"

lemma rememberedI: "om_ok m \<Longrightarrow> m = xs @ (i, u) # ys \<Longrightarrow> length ys \<le> n \<Longrightarrow> remembered m i u n"
  unfolding remembered_def by blast

lemma rememberedE:
  assumes "remembered m i u n"
  obtains xs ys where "om_ok m" and "m = xs @ (i, u) # ys" and "length ys \<le> n"
  using assms unfolding remembered_def by blast

lemma remembered_get: "remembered m i u n \<Longrightarrow> om_get m i = Some u"
  by (auto simp: remembered_def intro: om_get_in)

lemma remembered_prune:
  assumes "remembered m i u n" and "now < u"
  shows "remembered (om_prune (\<lambda>i u. u \<le> now) m) i u n"
proof -
  from assms(1) obtain xs ys where m: "m = xs @ (i, u) # ys" "length ys \<le> n" and ok: "om_ok m"
    by (auto simp: remembered_def)
  let ?f = "filter (\<lambda>e. \<not> snd e \<le> now)"
  have "om_prune (\<lambda>i u. u \<le> now) m = ?f xs @ (i, u) # ?f ys"
    using assms(2) by (simp add: m(1) om_prune_def)
  moreover have "length (?f ys) \<le> n" using m(2) length_filter_le [of "\<lambda>e. \<not> snd e \<le> now" ys] by linarith
  moreover have "om_ok (om_prune (\<lambda>i u. u \<le> now) m)" using ok by simp
  ultimately show ?thesis unfolding remembered_def by blast
qed

lemma remembered_mono: "remembered m i u n \<Longrightarrow> n \<le> n' \<Longrightarrow> remembered m i u n'"
  by (elim rememberedE) (rule rememberedI, auto)

lemma evict_ok: "om_ok m \<Longrightarrow> om_ok (evict_oldest mx m)"
  by (induction mx m rule: evict_oldest.induct) (auto simp: om_ok_def)

lemma evict_mem: "set (evict_oldest mx m) \<subseteq> set m"
  by (induction mx m rule: evict_oldest.induct) auto

lemma evict_has: "om_has (evict_oldest mx m) k \<Longrightarrow> om_has m k"
  using evict_mem [of mx m] by (auto simp: om_has_def)

lemma evict_keeps:
  "int (length ys) + 1 < mx \<Longrightarrow> \<exists>xs'. evict_oldest mx (xs @ e # ys) = xs' @ e # ys"
proof (induction xs)
  case Nil
  obtain k v where "e = (k, v)" by (cases e)
  with Nil show ?case by (intro exI [of _ "[]"]) simp
next
  case (Cons x xs)
  obtain k v where x: "x = (k, v)" by (cases x)
  from Cons obtain xs' where "evict_oldest mx (xs @ e # ys) = xs' @ e # ys" by blast
  moreover have "\<exists>xs''. (k, v) # xs @ e # ys = xs'' @ e # ys" by (intro exI [of _ "(k, v) # xs"]) simp
  ultimately show ?case by (auto simp: x)
qed

lemma evict_length: "0 < mx \<Longrightarrow> \<not> om_has m [] \<Longrightarrow> int (length (evict_oldest mx m)) < mx"
  by (induction mx m rule: evict_oldest.induct) (auto simp: om_has_def)

lemma remembered_accept:
  assumes "remembered m i u n" and "now < u" and "int n + 1 < mx \<or> j = i"
  shows "remembered (snd (accept_published_local mx ret now j m)) i u (Suc n)"
    and "j = i \<Longrightarrow> \<not> fst (accept_published_local mx ret now j m)"
    and "\<not> fst (accept_published_local mx ret now j m) \<Longrightarrow>
      remembered (snd (accept_published_local mx ret now j m)) i u n"
proof -
  let ?p = "om_prune (\<lambda>i u. u \<le> now) m"
  have p: "remembered ?p i u n" by (rule remembered_prune [OF assms(1,2)])
  show no: "\<not> fst (accept_published_local mx ret now j m)" if "j = i"
    using remembered_get [OF p] that assms(2) by (simp add: accept_published_local_def or_else_def)
  show idle: "remembered (snd (accept_published_local mx ret now j m)) i u n"
    if "\<not> fst (accept_published_local mx ret now j m)"
    using that p by (auto simp: accept_published_local_def Let_def split: if_splits)
  show "remembered (snd (accept_published_local mx ret now j m)) i u (Suc n)"
  proof (cases "fst (accept_published_local mx ret now j m)")
    case False
    from idle [OF this] show ?thesis by (rule remembered_mono) simp
  next
    case True
    with no have ji: "j \<noteq> i" by blast
    with assms(3) have n: "int n + 1 < mx" by blast
    from p obtain xs ys where m: "?p = xs @ (i, u) # ys" "length ys \<le> n" and ok: "om_ok ?p"
      by (auto simp: remembered_def)
    from n m(2) obtain xs' where e: "evict_oldest mx ?p = xs' @ (i, u) # ys"
      using evict_keeps [of ys mx xs "(i, u)"] by (auto simp: m(1))
    have okj: "om_ok (om_set j (now + ret) (evict_oldest mx ?p))" using evict_ok [OF ok] by simp
    have st: "snd (accept_published_local mx ret now j m) = om_set j (now + ret) (evict_oldest mx ?p)"
      using True by (auto simp: accept_published_local_def Let_def split: if_splits)
    show ?thesis
    proof (cases "om_has (evict_oldest mx ?p) j")
      case False
      then have "om_set j (now + ret) (evict_oldest mx ?p) = xs' @ (i, u) # (ys @ [(j, now + ret)])"
        by (simp add: om_set_new e)
      from rememberedI [OF okj this] m(2) show ?thesis unfolding st by simp
    next
      case True
      have "\<exists>xs'' ys''. om_set j v (xs @ (i, u) # ys) = xs'' @ (i, u) # ys'' \<and> length ys'' \<le> Suc (length ys)"
        for v xs
      proof (induction xs)
        case Nil
        have "length (om_set j v ys) \<le> Suc (length ys)" by (simp add: om_length_set)
        then show ?case using ji by (intro exI [of _ "[]"] exI [of _ "om_set j v ys"]) simp
      next
        case (Cons x xs)
        obtain a b where x: "x = (a, b)" by (cases x)
        from Cons obtain xs'' ys'' where "om_set j v (xs @ (i, u) # ys) = xs'' @ (i, u) # ys''"
          "length ys'' \<le> Suc (length ys)" by blast
        then show ?case
          by (cases "j = a") (auto simp: x intro: exI [of _ "(a, b) # xs''"] exI [of _ "(j, v) # xs"] exI [of _ ys])
      qed
      with okj m(2) show ?thesis unfolding st remembered_def e by (metis Suc_le_mono le_trans)
    qed
  qed
qed

definition accept_step ::
  "int \<Rightarrow> int \<Rightarrow> int \<times> string \<Rightarrow> (string, int) omap \<Rightarrow> bool \<times> (string, int) omap" where
  "accept_step mx ret e m = accept_published_local mx ret (fst e) (snd e) m"

lemma remembered_run:
  assumes "remembered m i u n" and "\<And>e. e \<in> set es \<Longrightarrow> fst e < u"
    and "int n + int (length (filter (\<lambda>x. x) (fst (run_offers (accept_step mx ret) es m)))) < mx"
  shows "\<exists>n'. remembered (snd (run_offers (accept_step mx ret) es m)) i u n'"
  using assms
proof (induction es arbitrary: m n)
  case Nil
  then show ?case by auto
next
  case (Cons e es)
  let ?m = "snd (accept_step mx ret e m)"
  have u: "fst e < u" using Cons.prems(2) by simp
  show ?case
  proof (cases "fst (accept_step mx ret e m)")
    case True
    then have n: "int n + 1 < mx \<or> snd e = i" using Cons.prems(3) by simp
    have "remembered ?m i u (Suc n)"
      unfolding accept_step_def using remembered_accept(1) [OF Cons.prems(1) u n] .
    from Cons.IH [OF this] Cons.prems(2,3) True show ?thesis by simp
  next
    case False
    show ?thesis
    proof (cases "int n + 1 < mx \<or> snd e = i")
      case n: True
      have "remembered ?m i u n"
        using remembered_accept(3) [OF Cons.prems(1) u n] False unfolding accept_step_def .
      from Cons.IH [OF this] Cons.prems(2,3) False show ?thesis by simp
    next
      case full: False
      have "remembered (om_prune (\<lambda>i u. u \<le> fst e) m) i u n" by (rule remembered_prune [OF Cons.prems(1) u])
      then have "remembered ?m i u n"
        using False by (auto simp: accept_step_def accept_published_local_def Let_def split: if_splits)
      from Cons.IH [OF this] Cons.prems(2,3) False show ?thesis by simp
    qed
  qed
qed

lemma accepted_remembered:
  assumes "om_ok m" and "fst (accept_published_local mx ret t i m)" and "0 \<le> t"
  shows "remembered (snd (accept_published_local mx ret t i m)) i (t + ret) 0"
proof -
  let ?p = "om_prune (\<lambda>i u. u \<le> t) m"
  have st: "snd (accept_published_local mx ret t i m) = om_set i (t + ret) (evict_oldest mx ?p)"
    and new: "\<not> om_has ?p i"
    using assms by (auto simp: accept_published_local_def Let_def om_has_get om_get_prune or_else_def
        split: if_splits option.splits)
  have "\<not> om_has (evict_oldest mx ?p) i" using new evict_has [of mx ?p i] by blast
  then have "om_set i (t + ret) (evict_oldest mx ?p) = evict_oldest mx ?p @ [(i, t + ret)]"
    by (rule om_set_new)
  moreover have "om_ok (om_set i (t + ret) (evict_oldest mx ?p))" using assms(1) evict_ok by simp
  ultimately show ?thesis unfolding st remembered_def by (metis le_refl list.size(3))
qed

subsection \<open>Runs of the life cycle\<close>

inductive life_step :: "keryx \<Rightarrow> keryx \<Rightarrow> bool" where
  life_roles: "life_step k (snd (select_roles r k))"
| life_bind: "life_step k (snd (bind_gateway k))"
| life_start: "life_step k (snd (start_keryx a b l k))"
| life_drain: "life_step k (drain_keryx k)"
| life_stop_begin: "life_step k (stop_begin k)"
| life_stop_finish: "kx_recovery k = No_recovery \<Longrightarrow> life_step k (stop_finish k)"
| life_dispose: "life_step k (dispose_keryx k)"
| life_lost: "backplane_unavailable k = Some k' \<Longrightarrow> life_step k k'"
| life_delay: "life_step k (recovery_delay_over k)"
| life_recovered: "life_step k (recovery_started r k)"

inductive life :: "keryx \<Rightarrow> keryx \<Rightarrow> bool" for k0 where
  life_init: "life k0 k0"
| life_next: "life k0 k \<Longrightarrow> life_step k k' \<Longrightarrow> life k0 k'"

inductive_cases life_stepE: "life_step k k'"

definition life_ok :: "keryx \<Rightarrow> bool" where
  "life_ok k \<longleftrightarrow>
     (kx_server k \<and> kx_ready k \<and> ro_topology (kx_options k) = Redis \<longrightarrow> kx_backplane k) \<and>
     (kx_backplane k \<longrightarrow> ro_topology (kx_options k) = Redis) \<and>
     (kx_recovery k \<noteq> No_recovery \<longrightarrow> ro_topology (kx_options k) = Redis) \<and>
     (kx_server k \<longrightarrow> rl_web (kx_roles k) \<and> kx_bound k)"

lemmas life_op_defs = select_roles_def bind_gateway_def start_keryx_def drain_keryx_def stop_begin_def
  stop_finish_def dispose_keryx_def backplane_unavailable_def recovery_delay_over_def recovery_started_def

lemma life_op_ok:
  assumes "life_ok k"
  shows "life_ok (snd (select_roles r k))" and "life_ok (snd (bind_gateway k))"
    and "life_ok (drain_keryx k)" and "life_ok (stop_begin k)"
    and "kx_recovery k = No_recovery \<Longrightarrow> life_ok (stop_finish k)" and "life_ok (dispose_keryx k)"
  using assms
  by (simp_all add: life_ok_def select_roles_def bind_gateway_def drain_keryx_def stop_begin_def
      stop_finish_def dispose_keryx_def)

lemma life_recovery_ok:
  assumes "life_ok k"
  shows "backplane_unavailable k = Some k' \<Longrightarrow> life_ok k'" and "life_ok (recovery_delay_over k)"
    and "life_ok (recovery_started res k)"
proof -
  show "life_ok k'" if "backplane_unavailable k = Some k'"
  proof -
    from that have "k' = k\<lparr>kx_backplane := False, kx_ready := False, kx_recovery := Recovery_delay\<rparr>"
      and "kx_backplane k"
      by (simp_all add: backplane_unavailable_def split: if_splits)
    with assms show ?thesis by (simp add: life_ok_def)
  qed
  show "life_ok (recovery_delay_over k)"
    using assms by (simp add: recovery_delay_over_def life_ok_def)
  show "life_ok (recovery_started res k)"
    using assms by (cases res) (simp_all add: recovery_started_def life_ok_def)
qed

lemma life_start_ok:
  assumes "life_ok k"
  shows "life_ok (snd (start_keryx a b l k))"
proof (cases "a = None \<and> kx_bound k \<and> \<not> kx_server k \<and> \<not> kx_ready k")
  case True
  with assms show ?thesis
    by (cases b; cases l; cases "ro_topology (kx_options k)")
       (simp_all add: start_keryx_def life_ok_def Let_def)
next
  case False
  then have "snd (start_keryx a b l k) = k" by (auto simp: start_keryx_def split: option.split)
  with assms show ?thesis by simp
qed

lemma life_step_ok: "life_step k k' \<Longrightarrow> life_ok k \<Longrightarrow> life_ok k'"
  by (erule life_stepE) (simp_all add: life_op_ok life_start_ok life_recovery_ok)

lemma new_keryx_life_ok: "new_keryx h o' = Inr k \<Longrightarrow> life_ok k"
  by (auto simp: new_keryx_def life_ok_def)

lemma life_life_ok: "life k0 k \<Longrightarrow> life_ok k0 \<Longrightarrow> life_ok k"
  by (induction rule: life.induct) (auto dest: life_step_ok)

subsection \<open>Properties\<close>

text \<open>
  C35. In the single topology a ticket admits one connection: of any offers of opened tickets, at
  non-decreasing times, one whose ticket was taken before is refused as long as the taken
  ticket's deadline is in the future (and after it the ticket does not open), whatever else the
  server took or forgot in between.
\<close>

theorem ticket_admits_once:
  assumes "sorted (map fst es)" and "i < j" and "j < length es"
    and "fst (run_offers (consume_step mx) es []) ! i"
    and "adm_ticket_id (snd (es ! j)) = adm_ticket_id (snd (es ! i))"
    and "fst (es ! j) * 1000 < adm_expires_at (snd (es ! i))"
  shows "\<not> fst (run_offers (consume_step mx) es []) ! j"
proof -
  have "fst (es ! j) < deadline_ms (adm_expires_at (snd (es ! i)))"
    using assms(6) unfolding deadline_ms_def by linarith
  with assms(1-5) show ?thesis by (intro consumed.taken_once [where i = i]) simp_all
qed

definition demo_offer :: "int \<Rightarrow> int \<times> admission" where
  "demo_offer t = (t, \<lparr>adm_ticket_id = ''t'', adm_actor = \<lparr>actor_kind = JStr ''user'', actor_id = None\<rparr>,
     adm_initiator = None, adm_delegation = None,
     adm_authentication = \<lparr>au_state = JStr ''authenticated'', au_identity_id = None, au_method = None,
       au_assurance = None, au_authenticated_at = None, au_session_id = None,
       au_impersonation_grant_id = None, au_credential_id = None, au_constraints = None\<rparr>,
     adm_tenant = None, adm_correlation_id = ''c'', adm_expires_at = 5001\<rparr>)"

theorem ticket_admits_once_witness:
  "\<not> fst (run_offers (consume_step 10) [demo_offer 1, demo_offer 5] []) ! 1"
proof (rule ticket_admits_once [where i = 0])
  show "fst (run_offers (consume_step 10) [demo_offer 1, demo_offer 5] []) ! 0" by code_simp
qed (simp_all add: demo_offer_def)

text \<open>
  A duplicate of a broadcast is not delivered twice: once a message id was accepted, the same id
  is turned away until the retention ends, whatever other messages come in between, as long as
  fewer than \<open>maxDeduplicatedMessages\<close> of those were accepted (the eviction forgets the
  oldest first).
\<close>

theorem duplicate_not_delivered:
  assumes "om_ok m" and "fst (accept_published_local mx ret t i m)" and "0 \<le> t"
    and "\<forall>e\<in>set between. fst e < t + ret" and "t' < t + ret"
    and "int (length (filter (\<lambda>x. x) (fst (run_offers (accept_step mx ret) between
           (snd (accept_published_local mx ret t i m)))))) < mx"
  shows "\<not> fst (accept_published_local mx ret t' i
    (snd (run_offers (accept_step mx ret) between (snd (accept_published_local mx ret t i m)))))"
proof -
  from remembered_run [OF accepted_remembered [OF assms(1-3)]] assms(4,6)
  obtain n where "remembered (snd (run_offers (accept_step mx ret) between
      (snd (accept_published_local mx ret t i m)))) i (t + ret) n" by fastforce
  from remembered_get [OF remembered_prune [OF this assms(5)]] assms(5)
  show ?thesis by (simp add: accept_published_local_def or_else_def)
qed

theorem duplicate_not_delivered_witness:
  "\<not> fst (accept_published_local 2 10 4 ''a''
    (snd (run_offers (accept_step 2 10) [(2, ''b'')] (snd (accept_published_local 2 10 1 ''a'' [])))))"
proof (rule duplicate_not_delivered)
  show "fst (accept_published_local 2 10 1 ''a'' [])" by code_simp
  show "int (length (filter (\<lambda>x. x) (fst (run_offers (accept_step 2 10) [(2, ''b'')]
      (snd (accept_published_local 2 10 1 ''a'' [])))))) < 2" by code_simp
qed simp_all

text \<open>
  The memories of the server are bounded: neither the consumed tickets nor the published ids
  ever exceed their configured maximum.
\<close>

theorem server_ledgers_bounded:
  assumes "int (length m) \<le> mx" and "0 < mx" and "\<not> om_has m []"
  shows "int (length (snd (consume_ticket_local mx now adm m))) \<le> mx \<and>
    int (length (snd (accept_published_local mx ret now i m))) \<le> mx"
proof
  have p: "int (length (om_prune (\<lambda>i u. u \<le> now) m)) \<le> mx"
    using assms(1) om_length_prune [of "\<lambda>i u. u \<le> now" m] by linarith
  then show "int (length (snd (consume_ticket_local mx now adm m))) \<le> mx"
    by (auto simp: consume_ticket_local_def Let_def om_length_set)
  have "int (length (evict_oldest mx (om_prune (\<lambda>i u. u \<le> now) m))) < mx"
    using assms(2,3) by (intro evict_length) (auto dest: om_has_prune_mono)
  with p show "int (length (snd (accept_published_local mx ret now i m))) \<le> mx"
    by (auto simp: accept_published_local_def Let_def om_length_set)
qed

theorem server_ledgers_bounded_witness:
  "int (length (snd (consume_ticket_local 1 0 (snd (demo_offer 0)) [(''x'', 5)]))) \<le> 1 \<and>
   int (length (snd (accept_published_local 1 10 0 ''a'' [(''x'', 5)]))) \<le> 1"
  by (rule server_ledgers_bounded) (simp_all add: om_has_def)

text \<open>
  Broadcasts over HTTP are authenticated: whenever the endpoint delivers a message to
  subscribers or puts a frame on the backplane, it answers 202, and the request was a POST to the
  publish path of a server that is ready and not draining, its body was within the limit, its
  signature was verified with a fresh nonce, and its envelope holds a valid message of this
  protocol, the one delivered.
\<close>

theorem http_publish_is_authenticated:
  assumes "handle_http ph th encode hash date_ok b now r k rk = (a, k', rk')"
    and "an_deliver a \<noteq> None \<or> an_frames a \<noteq> []"
  shows "an_status a = 202 \<and> ht_method r = ''POST'' \<and> ht_path r = publish_path encode k \<and>
    kx_ready k \<and> \<not> kx_draining k \<and>
    (\<exists>auth chunks envelope m. kx_authenticator k = Some auth \<and> ht_chunks r = Inr chunks \<and>
      (chunks = [] \<or> int (sum_list chunks) \<le> integer_of (ro_max_publish_payload_bytes (kx_options k))) \<and>
      fst (verify ph auth now
        ((ht_headers r)\<lparr>req_method := ''POST'', req_path := ht_path r, req_body := ht_body r\<rparr>) (kx_nonces k)) = Inr () \<and>
      json_parse th (ht_body r) = Some envelope \<and> jfield envelope ''protocol'' = Some keryx_protocol \<and>
      parse_published_message date_ok (jfield envelope ''message'') = Inr m \<and>
      (an_deliver a = Some m \<or> an_frames a = [frame_json (Event_frame m)]))"
proof -
  let ?mx = "integer_of (ro_max_publish_payload_bytes (kx_options k))"
  let ?req = "(ht_headers r)\<lparr>req_method := ''POST'', req_path := ht_path r, req_body := ht_body r\<rparr>"
  have quiet: "an_deliver (answer s c) = None" "an_frames (answer s c) = []"
    "an_deliver (plain_answer s) = None" "an_frames (plain_answer s) = []" for s c
    by (simp_all add: answer_def plain_answer_def)
  have chunks: "cs = [] \<or> int (n + sum_list cs) \<le> mx" if "read_chunks mx n cs" for mx n cs
    using that by (induction mx n cs rule: read_chunks.induct) (auto split: if_splits simp: add.assoc)
  from assms obtain auth where guards: "ht_method r = ''POST''" "ht_path r = publish_path encode k"
    "kx_ready k" "\<not> kx_draining k" and auth: "kx_authenticator k = Some auth"
    by (auto simp: handle_http_def quiet split: if_splits option.splits)
  have body: "read_body ?mx r = Body (ht_body r)"
    using assms guards auth quiet
    by (cases "ht_chunks r") (auto simp: handle_http_def read_body_def split: if_splits)
  then obtain cs where cs: "ht_chunks r = Inr cs" "read_chunks ?mx 0 cs"
    by (auto simp: read_body_def split: sum.splits if_splits)
  let ?v = "verify ph auth now ?req (kx_nonces k)" and ?k = "\<lambda>n. k\<lparr>kx_nonces := n\<rparr>"
  obtain verified nonces where vn: "?v = (verified, nonces)" by (cases ?v)
  have step: "handle_http ph th encode hash date_ok b now r k rk =
      (case verified of
         Inl e \<Rightarrow> (answer (auth_status e) (auth_code e), ?k nonces, rk)
       | Inr _ \<Rightarrow> accept_envelope th hash date_ok b now (ht_body r) (?k nonces) rk)"
    unfolding handle_http_def using guards auth body vn by (simp add: Let_def)
  from assms quiet obtain u where v: "verified = Inr u" unfolding step by (cases verified) auto
  with assms(1) have env: "accept_envelope th hash date_ok b now (ht_body r) (?k nonces) rk = (a, k', rk')"
    unfolding step by simp
  obtain envelope where e: "json_parse th (ht_body r) = Some envelope"
    using env assms(2) quiet by (cases "json_parse th (ht_body r)") (auto simp: accept_envelope_def)
  have pr: "jfield envelope ''protocol'' = Some keryx_protocol" "envelope \<noteq> JNull"
    using env assms(2) quiet e by (auto simp: accept_envelope_def split: if_splits)
  obtain m where m: "parse_published_message date_ok (jfield envelope ''message'') = Inr m"
    using env assms(2) quiet e pr
    by (cases "parse_published_message date_ok (jfield envelope ''message'')") (auto simp: accept_envelope_def)
  obtain accepted k2 rk2 where acc: "accept_published hash b now m (?k nonces) rk = (accepted, k2, rk2)"
    by (cases "accept_published hash b now m (?k nonces) rk") auto
  obtain deliver frames where d: "accepted = Inr (deliver, frames)"
    and a: "a = \<lparr>an_status = 202, an_code = None, an_deliver = deliver, an_frames = frames\<rparr>"
    using env assms(2) quiet e pr m acc by (cases accepted) (auto simp: accept_envelope_def)
  have what: "an_deliver a = Some m \<or> an_frames a = [frame_json (Event_frame m)]"
    using acc assms(2) unfolding d a
    by (auto simp: accept_published_def publish_event_once_def split_beta Let_def map_sum_def
        split: if_splits sum.splits)
  have req: "ht_method r = ''POST''" by (rule guards)
  have st: "an_status a = 202" by (simp add: a)
  show ?thesis
    using st guards auth cs(1) chunks [OF cs(2)] vn v e pr(1) m what by auto
qed

definition no_options :: options where
  "no_options = \<lparr>op_application_id = None, op_port = None, op_host = None, op_path = None, op_key = Some ''k'',
     op_secret = Some plain_secret, op_publish_url = None, op_topology = None, op_redis_url = None,
     op_max_payload_bytes = None, op_max_publish_payload_bytes = None, op_max_pending_frames = None,
     op_max_command_throttle_buckets = None, op_admission_ticket_ms = None,
     op_max_consumed_admission_tickets = None, op_heartbeat_ms = None, op_presence_lease_ms = None,
     op_publish_timeout_ms = None, op_message_deduplication_ms = None, op_max_deduplicated_messages = None,
     op_max_buffered_bytes = None\<rparr>"

definition demo_message :: broadcast_message where
  "demo_message = \<lparr>msg_id = ''1'', msg_event = ''e'',
     msg_channels = [\<lparr>dest_name = ''a'', dest_kind = JStr ''public''\<rparr>], msg_data = JNull,
     msg_occurred_at = ''now''\<rparr>"

definition demo_envelope :: json where
  "demo_envelope = JObj [(''protocol'', keryx_protocol), (''message'', message_json demo_message)]"

definition demo_server :: keryx where
  "demo_server = snd (start_keryx None (Inr ()) (Inr ())
     (snd (bind_gateway (projr (new_keryx (demo_ticket_host demo_envelope) no_options)))))"

definition demo_post :: http_request where
  "demo_post = \<lparr>ht_method = ''POST'', ht_path = ''/apps/default/events'', ht_chunks = Inr [1], ht_body = ''b'',
     ht_headers = headers plain_host plain_authenticator 60000 ''n1'' ''POST'' ''/apps/default/events'' ''b''\<rparr>"

lemma demo_new:
  "new_keryx (demo_ticket_host demo_envelope) no_options =
    Inr \<lparr>kx_options = projr (resolve_options no_options), kx_authenticator = Some plain_authenticator,
      kx_tickets = Some \<lparr>tk_application_id = ''default'', tk_key = derive_key (demo_ticket_host demo_envelope) plain_secret,
        tk_lifetime_ms = 30000\<rparr>, kx_bound = False,
      kx_roles = default_roles, kx_server = False, kx_backplane = False, kx_recovery = No_recovery,
      kx_draining = False, kx_ready = False, kx_published = [], kx_consumed = [], kx_buckets = [],
      kx_nonces = []\<rparr>"
  by (simp add: new_keryx_def resolve_options_def no_options_def or_else_def truthy_string_def plain_defs
      bad_number_def new_authenticator_def new_tickets_def integer_of_def js_number_def Let_def)

lemma demo_options:
  "ro_topology (projr (resolve_options no_options)) = Single"
  "ro_application_id (projr (resolve_options no_options)) = ''default''"
  "integer_of (ro_max_publish_payload_bytes (projr (resolve_options no_options))) = 262144"
  "integer_of (ro_max_deduplicated_messages (projr (resolve_options no_options))) = 50000"
  "integer_of (ro_message_deduplication_ms (projr (resolve_options no_options))) = 86400000"
  by (simp_all add: resolve_options_def no_options_def or_else_def truthy_string_def
      bad_number_def integer_of_def js_number_def Let_def)

lemma demo_server_state:
  "kx_ready demo_server" "\<not> kx_draining demo_server" "kx_authenticator demo_server = Some plain_authenticator"
  "kx_options demo_server = projr (resolve_options no_options)" "kx_nonces demo_server = []"
  "kx_published demo_server = []" "kx_server demo_server"
  by (simp_all add: demo_server_def demo_new bind_gateway_def start_keryx_def default_roles_def
      demo_options Let_def)

lemma demo_post_accepted:
  "fst (handle_http plain_host (demo_ticket_host demo_envelope) (\<lambda>s. s) (\<lambda>s. s) (\<lambda>_. True) new_backplane 60000
     demo_post demo_server []) =
   \<lparr>an_status = 202, an_code = None, an_deliver = Some demo_message, an_frames = []\<rparr>"
proof -
  have path: "publish_path (\<lambda>s. s) demo_server = ''/apps/default/events''"
    by (simp add: publish_path_def demo_server_state demo_options)
  have body: "read_body 262144 demo_post = Body ''b''" by (simp add: read_body_def demo_post_def)
  have v: "verify plain_host plain_authenticator 60000
      ((ht_headers demo_post)\<lparr>req_method := ''POST'', req_path := ''/apps/default/events'', req_body := ''b''\<rparr>) [] =
    (Inr (), [(''n1'', 120)])"
    by (simp add: demo_post_def verify_def headers_def plain_defs missing_def safe_integer_def
        prune_nonces_def om_prune_def signature_def canonical_request_def newline_def Let_def)
  have msg: "parse_published_message (\<lambda>_. True) (Some (message_json demo_message)) = Inr demo_message"
    by code_simp
  have acc: "fst (accept_envelope (demo_ticket_host demo_envelope) (\<lambda>s. s) (\<lambda>_. True) new_backplane 60000 ''b''
      (demo_server\<lparr>kx_nonces := [(''n1'', 120)]\<rparr>) []) =
      \<lparr>an_status = 202, an_code = None, an_deliver = Some demo_message, an_frames = []\<rparr>"
    by (simp add: accept_envelope_def demo_ticket_host_def demo_envelope_def msg accept_published_def
        demo_server_state demo_options accept_published_local_def or_else_def om_prune_def split_beta Let_def)
  have req: "ht_method demo_post = ''POST''" "ht_path demo_post = ''/apps/default/events''"
    by (simp_all add: demo_post_def)
  show ?thesis
    unfolding handle_http_def using acc
    by (simp add: req path body v demo_server_state demo_options Let_def)
qed

theorem http_publish_is_authenticated_witness:
  "an_status (fst (handle_http plain_host (demo_ticket_host demo_envelope) (\<lambda>s. s) (\<lambda>s. s) (\<lambda>_. True)
     new_backplane 60000 demo_post demo_server [])) = 202 \<and> kx_ready demo_server"
proof -
  obtain a k rk where r: "handle_http plain_host (demo_ticket_host demo_envelope) (\<lambda>s. s) (\<lambda>s. s) (\<lambda>_. True)
     new_backplane 60000 demo_post demo_server [] = (a, k, rk)" by (metis prod_cases3)
  with demo_post_accepted have a: "a = \<lparr>an_status = 202, an_code = None, an_deliver = Some demo_message, an_frames = []\<rparr>"
    by simp
  from http_publish_is_authenticated [OF r] r show ?thesis by (simp add: a)
qed

text \<open>
  Whatever sequence of life-cycle calls and backplane failures a server goes through, a server
  that listens in the Redis topology and says it is ready has a backplane to publish on, and only
  a server with the web role listens.
\<close>

theorem ready_redis_server_has_backplane:
  assumes "new_keryx h o' = Inr k0" and "life k0 k"
    and "kx_server k" and "kx_ready k" and "ro_topology (kx_options k) = Redis"
  shows "kx_backplane k \<and> rl_web (kx_roles k)"
  using life_life_ok [OF assms(2) new_keryx_life_ok [OF assms(1)]] assms(3-5) by (simp add: life_ok_def)

definition redis_options :: options where
  "redis_options = no_options\<lparr>op_topology := Some Redis, op_redis_url := Some ''redis:''\<rparr>"

lemma redis_new:
  "\<exists>k0. new_keryx (demo_ticket_host demo_envelope) redis_options = Inr k0 \<and>
     ro_topology (kx_options k0) = Redis \<and> kx_bound k0 = False \<and> kx_server k0 = False \<and>
     kx_ready k0 = False \<and> kx_roles k0 = default_roles \<and> kx_recovery k0 = No_recovery"
  by (simp add: new_keryx_def resolve_options_def redis_options_def no_options_def or_else_def
      truthy_string_def plain_defs bad_number_def new_authenticator_def new_tickets_def integer_of_def
      js_number_def Let_def)

theorem ready_redis_server_has_backplane_witness:
  "\<exists>k0 k. new_keryx (demo_ticket_host demo_envelope) redis_options = Inr k0 \<and> life k0 k \<and> kx_server k \<and>
     kx_backplane k \<and> rl_web (kx_roles k)"
proof -
  from redis_new obtain k0 where k0: "new_keryx (demo_ticket_host demo_envelope) redis_options = Inr k0"
    "ro_topology (kx_options k0) = Redis" "\<not> kx_bound k0" "\<not> kx_server k0" "\<not> kx_ready k0"
    "kx_roles k0 = default_roles" by blast
  let ?k = "snd (start_keryx None (Inr ()) (Inr ()) (snd (bind_gateway k0)))"
  have "life k0 ?k" by (intro life_next [OF life_next [OF life_init life_bind] life_start])
  moreover have "kx_server ?k" "kx_ready ?k" "ro_topology (kx_options ?k) = Redis"
    using k0 by (simp_all add: bind_gateway_def start_keryx_def default_roles_def Let_def)
  ultimately show ?thesis using ready_redis_server_has_backplane [OF k0(1)] k0(1) by blast
qed

text \<open>
  Stopping while a recovery is connecting leaves the server marked ready: the recovery, which
  does not look at the draining flag after its candidate started, sets it again after
  \<open>stop\<close> cleared it, so the stopped server answers that it is ready and refuses to be started
  again until it is drained once more.
\<close>

theorem stop_during_recovery_leaves_ready:
  assumes "kx_recovery k = Recovery_starting" and "kx_bound k" and "rl_web (kx_roles k)"
  shows "kx_ready (stop_finish (recovery_started (Inr ()) (stop_begin k))) \<and>
    fst (start_keryx None (Inr ()) (Inr ()) (stop_finish (recovery_started (Inr ()) (stop_begin k)))) =
      Inl ''Keryx is already started.'' \<and>
    fst (start_keryx None (Inr ()) (Inr ()) (stop_finish (stop_begin (k\<lparr>kx_recovery := No_recovery\<rparr>)))) = Inr ()"
proof -
  let ?s = "stop_finish (recovery_started (Inr ()) (stop_begin k))"
  have ready: "kx_ready ?s" "kx_bound ?s"
    using assms by (simp_all add: stop_finish_def recovery_started_def stop_begin_def)
  have refused: "fst (start_keryx None (Inr ()) (Inr ()) ?s) = Inl ''Keryx is already started.''"
    using ready by (simp add: start_keryx_def)
  have "fst (start_keryx None (Inr ()) (Inr ()) (stop_finish (stop_begin (k\<lparr>kx_recovery := No_recovery\<rparr>)))) = Inr ()"
    using assms(2,3)
    by (cases "ro_topology (kx_options k)") (simp_all add: start_keryx_def stop_finish_def stop_begin_def Let_def)
  with ready refused show ?thesis by blast
qed

theorem stop_during_recovery_leaves_ready_witness:
  "\<exists>k0 k. new_keryx (demo_ticket_host demo_envelope) redis_options = Inr k0 \<and> life k0 k \<and>
     kx_recovery k = Recovery_starting \<and> kx_ready (stop_finish (recovery_started (Inr ()) (stop_begin k)))"
proof -
  from redis_new obtain k0 where k0: "new_keryx (demo_ticket_host demo_envelope) redis_options = Inr k0"
    "ro_topology (kx_options k0) = Redis" "\<not> kx_bound k0" "\<not> kx_server k0" "\<not> kx_ready k0"
    "kx_roles k0 = default_roles" "kx_recovery k0 = No_recovery" by blast
  let ?k = "snd (start_keryx None (Inr ()) (Inr ()) (snd (bind_gateway k0)))"
  have st: "kx_server ?k" "kx_backplane ?k" "kx_bound ?k" "\<not> kx_draining ?k" "kx_roles ?k = default_roles"
    "kx_recovery ?k = No_recovery"
    using k0 by (simp_all add: bind_gateway_def start_keryx_def default_roles_def Let_def)
  let ?l = "?k\<lparr>kx_backplane := False, kx_ready := False, kx_recovery := Recovery_delay\<rparr>"
  have lost: "backplane_unavailable ?k = Some ?l" using st by (simp add: backplane_unavailable_def)
  let ?d = "recovery_delay_over ?l"
  have "life k0 ?k" by (intro life_next [OF life_next [OF life_init life_bind] life_start])
  then have l: "life k0 ?d" using life_next [OF life_next [OF _ life_lost [OF lost]] life_delay] by blast
  have d: "kx_recovery ?d = Recovery_starting" "kx_bound ?d" "rl_web (kx_roles ?d)"
    using st by (simp_all add: recovery_delay_over_def default_roles_def)
  show ?thesis using stop_during_recovery_leaves_ready [OF d] l d(1) k0(1) by blast
qed

text \<open>
  A connection ticket is never put back on the wire: the subprotocol the server answers a
  handshake with does not carry a ticket, and a handshake that offers the realtime protocol gets
  exactly that one.
\<close>

theorem ticket_not_echoed:
  "(case handle_protocols protocols of None \<Rightarrow> keryx_subprotocol \<notin> set protocols
    | Some p \<Rightarrow> p \<in> set protocols \<and> \<not> prefix ticket_prefix p \<and>
        (keryx_subprotocol \<in> set protocols \<longleftrightarrow> p = keryx_subprotocol))"
  by (auto simp: handle_protocols_def find_Some_iff keryx_subprotocol_def ticket_prefix_def
      dest: nth_mem split: option.split)

end
