(* ===== verification/KeryxHub.thy ===== *)
theory KeryxHub
  imports KeryxServer
begin

text \<open>
  The connections of the Keryx server (class \<open>Keryx\<close> of \<open>packages/keryx/src/index.ts\<close>):
  admission, the queue of inbound frames, subscriptions and presence, delivery of events, the
  heartbeat.

  The methods are asynchronous: each is modelled by the pieces between its awaits of the gateway,
  with the gateway's answer as an argument, and a connection remembers what it waits for. Frames
  of one connection are handled one after the other (\<open>connection.inbound\<close>); disconnects,
  broadcasts and the frames of other connections come in between. The calls of Redis are made
  together with the code around them.
\<close>

subsection \<open>Connections and effects\<close>

datatype 'a outcome = Threw | Gave 'a

text \<open>What the connection's frame in progress waits for.\<close>

datatype stage = Idle | In_command | In_subscribe destination | In_leave destination

record connection =
  cn_admission :: conn_admission
  cn_subscriptions :: "(string, destination) omap"
  cn_alive :: bool
  cn_queued :: nat
  cn_inbound :: "(json option \<times> bool) list" \<comment> \<open>frames queued and not begun: their JSON, binary\<close>
  cn_stage :: stage
  cn_leaving :: "destination list" \<comment> \<open>what \<open>#disconnect\<close> still has to leave\<close>
  cn_open :: bool \<comment> \<open>\<open>socket.readyState === OPEN\<close>\<close>

datatype effect =
    Sent string json
  | Closed string int string
  | Terminated string
  | Pinged string
  | Put_on_backplane backplane_frame
  | Ask_unsubscribe string destination

text \<open>
  \<open>hb_store\<close> holds every connection object by its id, \<open>hb_live\<close> the set
  \<open>#connections\<close> in the order of insertion.
\<close>

record hub =
  hb_topology :: topology
  hb_backplane :: bool
  hb_max_pending :: nat
  hb_lease_ms :: int
  hb_max_buffered :: int
  hb_store :: "(string, connection) omap"
  hb_live :: "string list"
  hb_registry :: registry

definition conn_of :: "hub \<Rightarrow> string \<Rightarrow> connection option" where
  "conn_of h c = om_get (hb_store h) c"

definition put_conn :: "string \<Rightarrow> connection \<Rightarrow> hub \<Rightarrow> hub" where
  "put_conn c x h = h\<lparr>hb_store := om_set c x (hb_store h)\<rparr>"

definition set_stage :: "string \<Rightarrow> stage \<Rightarrow> hub \<Rightarrow> hub" where
  "set_stage c st h = (case conn_of h c of None \<Rightarrow> h | Some x \<Rightarrow> put_conn c (x\<lparr>cn_stage := st\<rparr>) h)"

text \<open>\<open>connection.subscriptions.has(key)\<close> of a connection by id.\<close>

definition subscribed :: "hub \<Rightarrow> string \<Rightarrow> string \<Rightarrow> bool" where
  "subscribed h c key = (case conn_of h c of None \<Rightarrow> False | Some x \<Rightarrow> om_has (cn_subscriptions x) key)"

subsection \<open>Sending\<close>

definition frame_of :: "string \<Rightarrow> (string \<times> json) list \<Rightarrow> json" where
  "frame_of ty parts = JObj ((''protocol'', keryx_protocol) # (''type'', JStr ty) # parts)"

definition send :: "hub \<Rightarrow> string \<Rightarrow> json \<Rightarrow> effect list" where
  "send h c frame = (case conn_of h c of
     None \<Rightarrow> [] | Some x \<Rightarrow> if cn_open x then [Sent c frame] else [])"

definition operation_text :: "keryx_operation \<Rightarrow> string" where
  "operation_text p = (case p of
     Op_connect \<Rightarrow> ''connect'' | Op_subscribe \<Rightarrow> ''subscribe'' | Op_unsubscribe \<Rightarrow> ''unsubscribe''
   | Op_command \<Rightarrow> ''command'' | Op_publish \<Rightarrow> ''publish'' | Op_receive \<Rightarrow> ''receive'')"

definition error_frame :: "keryx_error \<Rightarrow> json" where
  "error_frame e = frame_of ''error'' ([(''code'', JStr (err_code e)), (''message'', JStr (err_message e)),
     (''retryable'', JBool (err_retryable e)), (''fatal'', JBool (err_fatal e)),
     (''operation'', JStr (operation_text (err_operation e)))] @
     (case err_channel e of None \<Rightarrow> [] | Some d \<Rightarrow> [(''channel'', destination_json d)]))"

definition send_error :: "hub \<Rightarrow> string \<Rightarrow> keryx_error \<Rightarrow> effect list" where
  "send_error h c e = send h c (error_frame e)"

text \<open>\<open>socket.close(code, reason)\<close> and \<open>socket.terminate()\<close>.\<close>

definition shut :: "string \<Rightarrow> hub \<Rightarrow> hub" where
  "shut c h = (case conn_of h c of None \<Rightarrow> h | Some x \<Rightarrow> put_conn c (x\<lparr>cn_open := False\<rparr>) h)"

definition close_socket :: "string \<Rightarrow> int \<Rightarrow> string \<Rightarrow> hub \<Rightarrow> effect list \<times> hub" where
  "close_socket c code reason h = ([Closed c code reason], shut c h)"

definition reject :: "string \<Rightarrow> keryx_error \<Rightarrow> hub \<Rightarrow> effect list \<times> hub" where
  "reject c e h =
     (let sent = send_error h c e in
      if err_fatal e then (let (es, h') = close_socket c 4400 (err_code e) h in (sent @ es, h'))
      else (sent, h))"

subsection \<open>Presence among the local connections\<close>

definition has_presence_member :: "hub \<Rightarrow> string \<Rightarrow> actor \<Rightarrow> bool" where
  "has_presence_member h key a =
     list_ex (\<lambda>c. case conn_of h c of
        None \<Rightarrow> False
      | Some x \<Rightarrow> om_has (cn_subscriptions x) key \<and> actor_key (ca_actor (cn_admission x)) = actor_key a)
     (hb_live h)"

definition presence_members_local :: "hub \<Rightarrow> string \<Rightarrow> actor option \<Rightarrow> actor list" where
  "presence_members_local h key joining =
     (let members = fold (\<lambda>c m. case conn_of h c of
            None \<Rightarrow> m
          | Some x \<Rightarrow> if om_has (cn_subscriptions x) key
                      then om_set (actor_key (ca_actor (cn_admission x))) (ca_actor (cn_admission x)) m
                      else m) (hb_live h) [];
          members' = (case joining of None \<Rightarrow> members | Some a \<Rightarrow> om_set (actor_key a) a members) in
      map snd members')"

definition broadcast_presence_local ::
  "hub \<Rightarrow> string option \<Rightarrow> string \<Rightarrow> destination \<Rightarrow> json \<Rightarrow> actor \<Rightarrow> effect list" where
  "broadcast_presence_local h source key d ty member =
     concat (map (\<lambda>c. if Some c \<noteq> source \<and> subscribed h c key
        then send h c (JObj [(''protocol'', keryx_protocol), (''type'', ty),
                (''channel'', destination_json d), (''member'', actor_json member)])
        else []) (hb_live h))"

text \<open>
  \<open>#announcePresence\<close>: locally, or by a frame on the backplane, which throws when the
  backplane is gone. (An empty source id is left out; ids of connections are not empty.)
\<close>

definition announce_presence ::
  "hub \<Rightarrow> string \<Rightarrow> destination \<Rightarrow> actor \<Rightarrow> string option \<Rightarrow> effect list option" where
  "announce_presence h ty d member source =
     (if hb_topology h = Redis
      then (if \<not> hb_backplane h then None
            else Some [Put_on_backplane (Presence_frame (JStr ty) d member (truthy_string source))])
      else Some (broadcast_presence_local h source (destination_key d) d (JStr ty) member))"

text \<open>\<open>#joinPresence\<close>: \<open>None\<close> when it throws.\<close>

definition join_presence_hub ::
  "(string \<Rightarrow> string) \<Rightarrow> int \<Rightarrow> string \<Rightarrow> destination \<Rightarrow> actor \<Rightarrow> hub \<Rightarrow> (bool \<times> actor list) option \<times> hub" where
  "join_presence_hub hash now c d member h =
     (if hb_topology h = Redis
      then (if \<not> hb_backplane h then (None, h)
            else (let (r, reg) = join_presence hash c d (actor_key member) member
                    (now + hb_lease_ms h) (hb_registry h) in
                  (case r of Inl _ \<Rightarrow> None | Inr x \<Rightarrow> Some x, h\<lparr>hb_registry := reg\<rparr>)))
      else (Some (\<not> has_presence_member h (destination_key d) member,
                  presence_members_local h (destination_key d) (Some member)), h))"

text \<open>\<open>#presenceMembers\<close>, the answer to a repeated subscription.\<close>

definition presence_members ::
  "(string \<Rightarrow> string) \<Rightarrow> int \<Rightarrow> string \<Rightarrow> hub \<Rightarrow> actor list option \<times> hub" where
  "presence_members hash now key h =
     (if \<not> hb_backplane h then (Some (presence_members_local h key None), h)
      else (case find (\<lambda>c. subscribed h c key) (hb_live h) of
        None \<Rightarrow> (Some [], h)
      | Some c \<Rightarrow>
        (case conn_of h c of None \<Rightarrow> (Some [], h) | Some x \<Rightarrow>
          (case om_get (cn_subscriptions x) key of None \<Rightarrow> (Some [], h) | Some d \<Rightarrow>
            (let (r, reg) = join_presence hash c d (actor_key (ca_actor (cn_admission x)))
                   (ca_actor (cn_admission x)) (now + hb_lease_ms h) (hb_registry h) in
             (case r of Inl _ \<Rightarrow> None | Inr (first, members) \<Rightarrow> Some members, h\<lparr>hb_registry := reg\<rparr>))))))"

subsection \<open>Validity of a connection\<close>

definition impersonation_expired :: "int \<Rightarrow> connection \<Rightarrow> bool" where
  "impersonation_expired now x =
     list_ex (\<lambda>hp. case hop_expires_at hp of None \<Rightarrow> False | Some t \<Rightarrow> t \<le> now * 1000)
       (or_else (ca_delegation (cn_admission x)) [])"

text \<open>
  \<open>#validateConnection\<close>: the gateway, asked about authenticated connections only, throws or
  gives a value of which only \<open>false\<close> matters.
\<close>

definition validate_connection ::
  "int \<Rightarrow> bool option outcome \<Rightarrow> string \<Rightarrow> hub \<Rightarrow> bool \<times> effect list \<times> hub" where
  "validate_connection now verdict c h =
     (case conn_of h c of None \<Rightarrow> (False, [], h) | Some x \<Rightarrow>
      if impersonation_expired now x
      then (let (es, h') = close_socket c 4401 ''Authentication expired'' h in (False, es, h'))
      else if au_state (ca_authentication (cn_admission x)) = JStr ''authenticated''
      then (case verdict of
              Threw \<Rightarrow> (let (es, h') = close_socket c 1012 ''Authentication validation unavailable'' h in
                        (False, es, h'))
            | Gave v \<Rightarrow> if v = Some False
                then (let (es, h') = close_socket c 4401 ''Authentication revoked'' h in (False, es, h'))
                else (True, [], h))
      else (True, [], h))"

subsection \<open>Delivery of events\<close>

definition event_frame :: "broadcast_message \<Rightarrow> destination \<Rightarrow> json" where
  "event_frame m d = frame_of ''event'' [(''id'', JStr (msg_id m)), (''event'', JStr (msg_event m)),
     (''channel'', destination_json d), (''data'', msg_data m), (''occurredAt'', JStr (msg_occurred_at m))]"

text \<open>
  The channels of a message for one connection, with the texts serialized so far by key (so that
  two channels with equal keys share the first one's text); the loop over the channels stops at a
  connection that is too slow. The flag is whether a send went to an open socket: on one that is
  closing, \<open>ws\<close> drops the text.
\<close>

fun deliver_channels ::
  "int \<Rightarrow> int \<Rightarrow> broadcast_message \<Rightarrow> string \<Rightarrow> destination list \<Rightarrow> hub \<Rightarrow> (string, json) omap \<Rightarrow>
    effect list \<times> hub \<times> (string, json) omap" where
  "deliver_channels mx buffered m c [] h texts = ([], h, texts)"
| "deliver_channels mx buffered m c (d # ds) h texts =
     (let key = destination_key d in
      if \<not> subscribed h c key then deliver_channels mx buffered m c ds h texts
      else if buffered > mx
      then (let (es, h') = close_socket c 4408 ''Subscriber is too slow'' h in (es, h', texts))
      else (let serialized = or_else (om_get texts key) (event_frame m d);
                (es, h', texts') = deliver_channels mx buffered m c ds h (om_set key serialized texts) in
            (send h c serialized @ es, h', texts')))"

definition deliver_to ::
  "int \<Rightarrow> (string \<Rightarrow> int) \<Rightarrow> broadcast_message \<Rightarrow> string \<Rightarrow> effect list \<times> hub \<times> (string, json) omap \<Rightarrow>
    effect list \<times> hub \<times> (string, json) omap" where
  "deliver_to now buffered m c st =
     (let (es, h, texts) = st in
      case conn_of h c of None \<Rightarrow> st | Some x \<Rightarrow>
        if impersonation_expired now x
        then (let (es', h') = close_socket c 4401 ''Authentication expired'' h in (es @ es', h', texts))
        else (let (es', h', texts') =
                deliver_channels (hb_max_buffered h) (buffered c) m c (msg_channels m) h texts in
              (es @ es', h', texts')))"

definition publish_local :: "int \<Rightarrow> (string \<Rightarrow> int) \<Rightarrow> broadcast_message \<Rightarrow> hub \<Rightarrow> effect list \<times> hub" where
  "publish_local now buffered m h =
     (let (es, h', texts) = fold (deliver_to now buffered m) (hb_live h) ([], h, []) in (es, h'))"

definition receive_backplane ::
  "int \<Rightarrow> (string \<Rightarrow> int) \<Rightarrow> backplane_frame \<Rightarrow> hub \<Rightarrow> effect list \<times> hub" where
  "receive_backplane now buffered f h = (case f of
     Event_frame m \<Rightarrow> publish_local now buffered m h
   | Presence_frame ty d member source \<Rightarrow>
       (broadcast_presence_local h source (destination_key d) d ty member, h))"

subsection \<open>Admission\<close>

text \<open>
  A socket whose admission is under way, as \<open>#accept\<close> keeps it: the frames that arrived so far
  and whether it was closed.
\<close>

record pending_socket =
  ps_frames :: "(json option \<times> bool) list"
  ps_closed :: bool
  ps_open :: bool

definition connect_error :: "string \<Rightarrow> string \<Rightarrow> bool \<Rightarrow> keryx_error" where
  "connect_error code message retryable =
     keryx_protocol_error code message Op_connect retryable True"

definition received_pending ::
  "nat \<Rightarrow> string \<Rightarrow> json option \<times> bool \<Rightarrow> pending_socket \<Rightarrow> effect list \<times> pending_socket" where
  "received_pending max_pending c frame ps =
     (if length (ps_frames ps) \<ge> max_pending
      then ((if ps_open ps then [Sent c (error_frame (connect_error ''authentication_buffer_exceeded''
                ''Too many frames arrived before authentication completed.'' True))] else []) @
              [Closed c 4408 ''Authentication buffer exceeded''],
            ps\<lparr>ps_open := False\<rparr>)
      else ([], ps\<lparr>ps_frames := ps_frames ps @ [frame]\<rparr>))"

definition new_connection :: "conn_admission \<Rightarrow> connection" where
  "new_connection adm = \<lparr>cn_admission = adm, cn_subscriptions = [], cn_alive = True, cn_queued = 0,
     cn_inbound = [], cn_stage = Idle, cn_leaving = [], cn_open = True\<rparr>"

definition queue_frame :: "string \<Rightarrow> json option \<times> bool \<Rightarrow> hub \<Rightarrow> effect list \<times> hub" where
  "queue_frame c frame h = (case conn_of h c of None \<Rightarrow> ([], h) | Some x \<Rightarrow>
     if cn_queued x \<ge> hb_max_pending h
     then reject c (keryx_protocol_error ''inbound_queue_exceeded''
            ''Too many realtime frames are pending.'' Op_receive True True) h
     else ([], put_conn c (x\<lparr>cn_queued := cn_queued x + 1, cn_inbound := cn_inbound x @ [frame]\<rparr>) h))"

fun queue_frames :: "string \<Rightarrow> (json option \<times> bool) list \<Rightarrow> hub \<Rightarrow> effect list \<times> hub" where
  "queue_frames c [] h = ([], h)"
| "queue_frames c (f # fs) h =
     (let (es, h1) = queue_frame c f h; (es', h2) = queue_frames c fs h1 in (es @ es', h2))"

text \<open>
  \<open>#accept\<close>: turned away at once when the server is not ready; later, the admission's outcome.
\<close>

definition accept_begin :: "bool \<Rightarrow> bool \<Rightarrow> string \<Rightarrow> effect list" where
  "accept_begin ready draining c =
     (if \<not> ready \<or> draining then [Closed c 1012 ''Keryx is not ready''] else [])"

definition accept_finish ::
  "string \<Rightarrow> conn_admission outcome \<Rightarrow> pending_socket \<Rightarrow> hub \<Rightarrow> effect list \<times> hub" where
  "accept_finish c admission ps h = (case admission of
     Threw \<Rightarrow> ((if ps_open ps then [Sent c (error_frame (connect_error ''authentication_failed''
                  ''Connection admission failed.'' False))] else []) @
                [Closed c 4401 ''Connection admission failed''], h)
   | Gave adm \<Rightarrow>
       if ps_closed ps \<or> \<not> ps_open ps then ([], h)
       else (let h1 = put_conn c (new_connection adm) h;
                 h2 = h1\<lparr>hb_live := hb_live h1 @ [c]\<rparr>;
                 es = send h2 c (frame_of ''connected'' [(''connectionId'', JStr c)]);
                 (es', h3) = queue_frames c (ps_frames ps) h2 in (es @ es', h3)))"

subsection \<open>Frames\<close>

text \<open>The end of a frame's turn (\<open>finally\<close>), and the failure of one (\<open>catch\<close>).\<close>

definition frame_done :: "string \<Rightarrow> hub \<Rightarrow> hub" where
  "frame_done c h = (case conn_of h c of None \<Rightarrow> h
     | Some x \<Rightarrow> put_conn c (x\<lparr>cn_queued := cn_queued x - 1, cn_stage := Idle\<rparr>) h)"

definition frame_failed :: "string \<Rightarrow> hub \<Rightarrow> effect list \<times> hub" where
  "frame_failed c h =
     (let (es, h') = reject c (keryx_protocol_error ''message_failed''
            ''Keryx could not process the frame.'' Op_receive True False) h in (es, frame_done c h'))"

definition finish :: "string \<Rightarrow> effect list \<times> hub \<Rightarrow> effect list \<times> hub" where
  "finish c r = (fst r, frame_done c (snd r))"

definition channel_error :: "string \<Rightarrow> string \<Rightarrow> keryx_operation \<Rightarrow> bool \<Rightarrow> destination \<Rightarrow> keryx_error" where
  "channel_error code message operation retryable d =
     (keryx_protocol_error code message operation retryable False)\<lparr>err_channel := Some d\<rparr>"

text \<open>
  \<open>#receive\<close> from the moment the connection was found valid: what it does until it is done or
  waits for the gateway.
\<close>

definition handle_frame ::
  "(string \<Rightarrow> string) \<Rightarrow> int \<Rightarrow> string \<Rightarrow> json option \<times> bool \<Rightarrow> hub \<Rightarrow> effect list \<times> hub" where
  "handle_frame hash now c frame h =
     (if snd frame
      then finish c (reject c (keryx_protocol_error ''binary_not_supported''
             ''Keryx accepts JSON text frames only.'' Op_receive False True) h)
      else (case parse_client_frame (fst frame) of
        Inl (Protocol_error e) \<Rightarrow> finish c (reject c e h)
      | Inl (Type_error e) \<Rightarrow> finish c (reject c (keryx_protocol_error ''invalid_frame''
             ''Keryx could not parse the frame.'' Op_receive False False) h)
      | Inr (Ping i) \<Rightarrow> finish c (send h c (frame_of ''pong''
             (case truthy_string i of None \<Rightarrow> [] | Some s \<Rightarrow> [(''id'', JStr s)])), h)
      | Inr (Command i name payload) \<Rightarrow> ([], set_stage c In_command h)
      | Inr (Subscribe d) \<Rightarrow>
          (if subscribed h c (destination_key d)
           then (if kind_is d ''presence''
                 then (case presence_members hash now (destination_key d) h of
                         (None, h') \<Rightarrow> frame_failed c h'
                       | (Some members, h') \<Rightarrow>
                           finish c (send h' c (frame_of ''subscribed'' [(''channel'', destination_json d),
                             (''members'', JArr (map actor_json members))]), h'))
                 else finish c (send h c (frame_of ''subscribed'' [(''channel'', destination_json d)]), h))
           else ([], set_stage c (In_subscribe d) h))
      | Inr (Unsubscribe d) \<Rightarrow>
          (case conn_of h c of None \<Rightarrow> ([], h) | Some x \<Rightarrow>
             if om_has (cn_subscriptions x) (destination_key d)
             then ([Ask_unsubscribe c d],
                   put_conn c (x\<lparr>cn_subscriptions := om_delete (destination_key d) (cn_subscriptions x),
                                 cn_stage := In_leave d\<rparr>) h)
             else finish c (send h c (frame_of ''unsubscribed'' [(''channel'', destination_json d)]), h))))"

text \<open>The next queued frame is taken up once the one before is done.\<close>

definition receive ::
  "(string \<Rightarrow> string) \<Rightarrow> int \<Rightarrow> bool option outcome \<Rightarrow> string \<Rightarrow> hub \<Rightarrow> effect list \<times> hub" where
  "receive hash now verdict c h = (case conn_of h c of None \<Rightarrow> ([], h) | Some x \<Rightarrow>
     (case (cn_stage x, cn_inbound x) of
        (Idle, frame # rest) \<Rightarrow>
          (let h1 = put_conn c (x\<lparr>cn_inbound := rest\<rparr>) h;
               (valid, es, h2) = validate_connection now verdict c h1 in
           if \<not> valid then finish c (es, h2)
           else handle_frame hash now c frame h2)
      | _ \<Rightarrow> ([], h)))"

text \<open>The gateway answers a command: with the fields of the acknowledgement.\<close>

definition command_done :: "string \<Rightarrow> (string \<times> json) list outcome \<Rightarrow> hub \<Rightarrow> effect list \<times> hub" where
  "command_done c result h = (case result of
     Threw \<Rightarrow> frame_failed c h
   | Gave parts \<Rightarrow> finish c (send h c (frame_of ''command_ack'' parts), h))"

definition add_subscription :: "string \<Rightarrow> destination \<Rightarrow> hub \<Rightarrow> hub" where
  "add_subscription c d h = (case conn_of h c of None \<Rightarrow> h | Some x \<Rightarrow>
     put_conn c (x\<lparr>cn_subscriptions := om_set (destination_key d) d (cn_subscriptions x)\<rparr>) h)"

definition denied :: "string \<Rightarrow> destination \<Rightarrow> hub \<Rightarrow> effect list \<times> hub" where
  "denied c d h = reject c (channel_error ''subscription_denied''
     ''The subscription was not admitted.'' Op_subscribe False d) h"

text \<open>The gateway answers a subscription: with the member to announce, if any.\<close>

definition subscribe_done ::
  "(string \<Rightarrow> string) \<Rightarrow> int \<Rightarrow> string \<Rightarrow> destination \<Rightarrow> actor option outcome \<Rightarrow> hub \<Rightarrow> effect list \<times> hub" where
  "subscribe_done hash now c d result h = finish c (case result of
     Threw \<Rightarrow> denied c d h
   | Gave member \<Rightarrow>
       (case (kind_is d ''presence'', member) of
          (True, Some a) \<Rightarrow>
            (case join_presence_hub hash now c d a h of
               (None, h1) \<Rightarrow> denied c d h1
             | (Some (first, members), h1) \<Rightarrow>
                 (let h2 = add_subscription c d h1;
                      es = send h2 c (frame_of ''subscribed'' [(''channel'', destination_json d),
                             (''members'', JArr (map actor_json members))]) in
                  if \<not> first then (es, h2)
                  else (case announce_presence h2 ''presence_joined'' d a (Some c) of
                          Some es' \<Rightarrow> (es @ es', h2)
                        | None \<Rightarrow> (let (es', h3) = denied c d h2 in (es @ es', h3)))))
        | _ \<Rightarrow> (let h2 = add_subscription c d h in
                (send h2 c (frame_of ''subscribed'' [(''channel'', destination_json d)]), h2))))"

subsection \<open>Leaving\<close>

text \<open>
  \<open>#leave\<close> after the gateway's \<open>unsubscribe\<close>: \<open>None\<close> when it throws.
\<close>

definition leave_finish ::
  "(string \<Rightarrow> string) \<Rightarrow> string \<Rightarrow> destination \<Rightarrow> bool \<Rightarrow> hub \<Rightarrow> effect list option \<times> hub" where
  "leave_finish hash c d ok h = (case conn_of h c of None \<Rightarrow> (None, h) | Some x \<Rightarrow>
     if \<not> ok then (None, h)
     else if \<not> kind_is d ''presence'' then (Some [], h)
     else if hb_topology h = Redis
     then (if \<not> hb_backplane h then (None, h)
           else (let (r, reg) = leave_presence hash c d (hb_registry h);
                     h1 = h\<lparr>hb_registry := reg\<rparr> in
                 (case r of
                    Inl _ \<Rightarrow> None
                  | Inr (True, Some member) \<Rightarrow> announce_presence h1 ''presence_left'' d member (Some c)
                  | Inr _ \<Rightarrow> Some [], h1)))
     else (let a = ca_actor (cn_admission x) in
           (Some (if has_presence_member h (destination_key d) a then []
                  else broadcast_presence_local h (Some c) (destination_key d) d (JStr ''presence_left'') a), h)))"

definition unsubscribe_done ::
  "(string \<Rightarrow> string) \<Rightarrow> string \<Rightarrow> destination \<Rightarrow> bool \<Rightarrow> hub \<Rightarrow> effect list \<times> hub" where
  "unsubscribe_done hash c d ok h = (case leave_finish hash c d ok h of
     (Some es, h1) \<Rightarrow>
       finish c (es @ send h1 c (frame_of ''unsubscribed'' [(''channel'', destination_json d)]), h1)
   | (None, h1) \<Rightarrow>
       finish c (reject c (channel_error ''unsubscribe_failed''
         ''Keryx could not leave the channel.'' Op_unsubscribe True d) h1))"

text \<open>
  \<open>#disconnect\<close>: out of the live set first, then each subscription it had then is left in
  turn; one that is gone by its turn is skipped, one that fails does not stop the rest.
\<close>

fun next_leave :: "string \<Rightarrow> destination list \<Rightarrow> hub \<Rightarrow> effect list \<times> hub" where
  "next_leave c ds h = (case conn_of h c of None \<Rightarrow> ([], h) | Some x \<Rightarrow>
     (case dropWhile (\<lambda>d. \<not> om_has (cn_subscriptions x) (destination_key d)) ds of
        [] \<Rightarrow> ([], put_conn c (x\<lparr>cn_leaving := []\<rparr>) h)
      | d # rest \<Rightarrow>
          ([Ask_unsubscribe c d],
           put_conn c (x\<lparr>cn_subscriptions := om_delete (destination_key d) (cn_subscriptions x),
                         cn_leaving := d # rest\<rparr>) h)))"

definition disconnect :: "string \<Rightarrow> hub \<Rightarrow> effect list \<times> hub" where
  "disconnect c h =
     (if c \<notin> set (hb_live h) then ([], shut c h)
      else (let h1 = (shut c h)\<lparr>hb_live := removeAll c (hb_live h)\<rparr> in
            case conn_of h1 c of None \<Rightarrow> ([], h1)
            | Some x \<Rightarrow> next_leave c (map snd (cn_subscriptions x)) h1))"

definition disconnect_continue :: "(string \<Rightarrow> string) \<Rightarrow> string \<Rightarrow> bool \<Rightarrow> hub \<Rightarrow> effect list \<times> hub" where
  "disconnect_continue hash c ok h = (case conn_of h c of None \<Rightarrow> ([], h) | Some x \<Rightarrow>
     (case cn_leaving x of
        [] \<Rightarrow> ([], h)
      | d # rest \<Rightarrow>
          (let (es, h1) = leave_finish hash c d ok h; (es', h2) = next_leave c rest h1 in
           (or_else es [] @ es', h2))))"

subsection \<open>Heartbeat and loss of the backplane\<close>

definition renew_all :: "(string \<Rightarrow> string) \<Rightarrow> int \<Rightarrow> string \<Rightarrow> connection \<Rightarrow> hub \<Rightarrow> hub" where
  "renew_all hash now c x h = fold (\<lambda>d h. if kind_is d ''presence''
       then h\<lparr>hb_registry := renew_presence hash c d (now + hb_lease_ms h) (hb_registry h)\<rparr> else h)
     (map snd (cn_subscriptions x)) h"

text \<open>
  One connection of a pulse that was found valid: one that did not answer the last ping is
  terminated; the others are pinged (\<open>ping_ok\<close>: it may throw) and their leases renewed.
\<close>

definition pulse_connection ::
  "(string \<Rightarrow> string) \<Rightarrow> int \<Rightarrow> (string \<Rightarrow> bool) \<Rightarrow> string \<Rightarrow> effect list \<times> hub \<Rightarrow> effect list \<times> hub" where
  "pulse_connection hash now ping_ok c st =
     (let (es, h) = st in case conn_of h c of None \<Rightarrow> st | Some x \<Rightarrow>
        if \<not> cn_alive x then (es @ [Terminated c], shut c h)
        else (let h1 = put_conn c (x\<lparr>cn_alive := False\<rparr>) h in
              if \<not> ping_ok c then (es @ [Terminated c], shut c h1)
              else (es @ [Pinged c], if hb_backplane h1 then renew_all hash now c x h1 else h1)))"

definition pulse_validate ::
  "int \<Rightarrow> (string \<Rightarrow> bool option outcome) \<Rightarrow> string \<Rightarrow> string list \<times> effect list \<times> hub \<Rightarrow>
    string list \<times> effect list \<times> hub" where
  "pulse_validate now verdict c st =
     (let (valid, es, h) = st; (ok, es', h') = validate_connection now (verdict c) c h in
      (if ok then valid @ [c] else valid, es @ es', h'))"

definition pulse_cleanup :: "int \<Rightarrow> hub \<Rightarrow> effect list \<times> bool \<times> hub" where
  "pulse_cleanup now h =
     (if \<not> hb_backplane h then ([], False, h)
      else (let (r, reg) = cleanup_expired now 100 (hb_registry h); h1 = h\<lparr>hb_registry := reg\<rparr> in
        case r of
          Inl _ \<Rightarrow> ([], True, h1)
        | Inr cleaned \<Rightarrow> (concat (map (\<lambda>(d, members). concat (map (\<lambda>m.
            or_else (announce_presence h1 ''presence_left'' d m None) []) members)) cleaned), False, h1)))"

text \<open>
  \<open>#pulse\<close>, with the gateway's verdicts; the flag says that Redis was found unavailable. A pulse
  that finds another one running does nothing.
\<close>

definition pulse ::
  "(string \<Rightarrow> string) \<Rightarrow> int \<Rightarrow> (string \<Rightarrow> bool option outcome) \<Rightarrow> (string \<Rightarrow> bool) \<Rightarrow> bool \<Rightarrow> hub \<Rightarrow>
    effect list \<times> bool \<times> hub" where
  "pulse hash now verdict ping_ok running h =
     (if running then ([], False, h)
      else (let (valid, es, h1) = fold (pulse_validate now verdict) (hb_live h) ([], [], h);
                (es1, h2) = fold (pulse_connection hash now ping_ok) valid (es, h1);
                (es2, lost, h3) = pulse_cleanup now h2 in (es1 @ es2, lost, h3)))"

definition pong :: "string \<Rightarrow> hub \<Rightarrow> hub" where
  "pong c h = (case conn_of h c of None \<Rightarrow> h | Some x \<Rightarrow> put_conn c (x\<lparr>cn_alive := True\<rparr>) h)"

text \<open>The connections' part of \<open>#backplaneUnavailable\<close>.\<close>

definition close_all :: "hub \<Rightarrow> effect list \<times> hub" where
  "close_all h = (map (\<lambda>c. Closed c 1012 ''Keryx backplane unavailable'') (hb_live h),
     fold shut (hb_live h) (h\<lparr>hb_backplane := False\<rparr>))"

subsection \<open>Runs of the hub\<close>

datatype hub_event =
    Accepted string conn_admission pending_socket
  | Frame_arrived string "json option \<times> bool"
  | Turn string int "bool option outcome"
  | Command_answered string "(string \<times> json) list outcome"
  | Subscribe_answered string int "actor option outcome"
  | Unsubscribe_answered string bool
  | Socket_closed string
  | Leave_answered string bool
  | Published int "string \<Rightarrow> int" broadcast_message
  | Frame_from_backplane int "string \<Rightarrow> int" backplane_frame
  | Pulse int "string \<Rightarrow> bool option outcome" "string \<Rightarrow> bool"
  | Pong string
  | Backplane_lost

definition stage_of :: "hub \<Rightarrow> string \<Rightarrow> stage" where
  "stage_of h c = (case conn_of h c of None \<Rightarrow> Idle | Some x \<Rightarrow> cn_stage x)"

text \<open>
  Ids of connections are fresh (\<open>randomUUID\<close>), and the gateway answers what it was asked: an
  event out of turn does nothing.
\<close>

fun hub_step :: "(string \<Rightarrow> string) \<Rightarrow> hub_event \<Rightarrow> hub \<Rightarrow> effect list \<times> hub" where
  "hub_step hash (Accepted c adm ps) h =
     (if conn_of h c \<noteq> None then ([], h) else accept_finish c (Gave adm) ps h)"
| "hub_step hash (Frame_arrived c frame) h = (if c \<in> set (hb_live h) then queue_frame c frame h else ([], h))"
| "hub_step hash (Turn c now verdict) h = receive hash now verdict c h"
| "hub_step hash (Command_answered c result) h =
     (if stage_of h c = In_command then command_done c result h else ([], h))"
| "hub_step hash (Subscribe_answered c now result) h =
     (case stage_of h c of In_subscribe d \<Rightarrow> subscribe_done hash now c d result h | _ \<Rightarrow> ([], h))"
| "hub_step hash (Unsubscribe_answered c ok) h =
     (case stage_of h c of In_leave d \<Rightarrow> unsubscribe_done hash c d ok h | _ \<Rightarrow> ([], h))"
| "hub_step hash (Socket_closed c) h = disconnect c h"
| "hub_step hash (Leave_answered c ok) h = disconnect_continue hash c ok h"
| "hub_step hash (Published now buffered m) h = publish_local now buffered m h"
| "hub_step hash (Frame_from_backplane now buffered f) h = receive_backplane now buffered f h"
| "hub_step hash (Pulse now verdict ping_ok) h =
     (let (es, lost, h') = pulse hash now verdict ping_ok False h in (es, h'))"
| "hub_step hash (Pong c) h = ([], pong c h)"
| "hub_step hash Backplane_lost h = close_all h"

fun run_hub :: "(string \<Rightarrow> string) \<Rightarrow> hub_event list \<Rightarrow> hub \<Rightarrow> effect list \<times> hub" where
  "run_hub hash [] h = ([], h)"
| "run_hub hash (ev # evs) h =
     (let (es, h1) = hub_step hash ev h; (es', h2) = run_hub hash evs h1 in (es @ es', h2))"

definition new_hub :: "topology \<Rightarrow> bool \<Rightarrow> nat \<Rightarrow> int \<Rightarrow> int \<Rightarrow> hub" where
  "new_hub t backplane max_pending lease max_buffered =
     \<lparr>hb_topology = t, hb_backplane = backplane, hb_max_pending = max_pending, hb_lease_ms = lease,
      hb_max_buffered = max_buffered, hb_store = [], hb_live = [], hb_registry = empty_registry\<rparr>"

subsection \<open>What each operation leaves alone\<close>

lemma conn_of_put [simp]: "conn_of (put_conn c x h) c' = (if c' = c then Some x else conn_of h c')"
  by (simp add: conn_of_def put_conn_def)

lemma put_conn_simps [simp]:
  "hb_live (put_conn c x h) = hb_live h" "hb_topology (put_conn c x h) = hb_topology h"
  "hb_max_pending (put_conn c x h) = hb_max_pending h" "hb_max_buffered (put_conn c x h) = hb_max_buffered h"
  "hb_registry (put_conn c x h) = hb_registry h" "hb_backplane (put_conn c x h) = hb_backplane h"
  by (simp_all add: put_conn_def)

lemma conn_of_other [simp]:
  "conn_of (h\<lparr>hb_registry := r\<rparr>) c = conn_of h c" "conn_of (h\<lparr>hb_live := l\<rparr>) c = conn_of h c"
  "conn_of (h\<lparr>hb_backplane := b\<rparr>) c = conn_of h c"
  by (simp_all add: conn_of_def)

text \<open>
  Two states agree up to \<open>f\<close> on every connection: the connections are the same, and each is
  the same in what \<open>f\<close> looks at.
\<close>

definition agree :: "(connection \<Rightarrow> 'a) \<Rightarrow> hub \<Rightarrow> hub \<Rightarrow> bool" where
  "agree f h h' \<longleftrightarrow> hb_max_pending h' = hb_max_pending h \<and>
     (\<forall>c. map_option f (conn_of h' c) = map_option f (conn_of h c))"

lemma agree_refl [simp]: "agree f h h"
  by (simp add: agree_def)

lemma agree_trans: "agree f h h1 \<Longrightarrow> agree f h1 h2 \<Longrightarrow> agree f h h2"
  by (simp add: agree_def)

lemma agree_put: "conn_of h c = Some x \<Longrightarrow> f y = f x \<Longrightarrow> agree f h (put_conn c y h)"
  by (simp add: agree_def)

lemma agree_fold: "(\<And>x h. agree f h (g x h)) \<Longrightarrow> agree f h (fold g xs h)"
  by (induction xs arbitrary: h) (auto intro: agree_trans)

text \<open>Everything but the socket's state, the heartbeat flag: what most operations leave alone.\<close>

definition core :: "connection \<Rightarrow> conn_admission \<times> (string, destination) omap \<times> nat \<times>
    (json option \<times> bool) list \<times> stage \<times> destination list" where
  "core x = (cn_admission x, cn_subscriptions x, cn_queued x, cn_inbound x, cn_stage x, cn_leaving x)"

lemma core_update [simp]:
  "core (x\<lparr>cn_open := b\<rparr>) = core x" "core (x\<lparr>cn_alive := b\<rparr>) = core x"
  by (simp_all add: core_def)

lemma agree_shut [simp]: "agree core h (shut c h)"
  by (auto simp: shut_def intro: agree_put split: option.split)

lemma shut_simps [simp]: "hb_live (shut c h) = hb_live h" "hb_topology (shut c h) = hb_topology h"
  "hb_max_pending (shut c h) = hb_max_pending h" "hb_max_buffered (shut c h) = hb_max_buffered h"
  "hb_backplane (shut c h) = hb_backplane h"
  by (simp_all add: shut_def split: option.split)

lemma agree_close [simp]: "agree core h (snd (close_socket c n r h))"
  by (simp add: close_socket_def)

lemma agree_reject [simp]: "agree core h (snd (reject c e h))"
  by (simp add: reject_def Let_def split_beta)

lemma agree_validate [simp]: "agree core h (snd (snd (validate_connection now v c h)))"
  by (simp add: validate_connection_def Let_def split_beta split: option.split outcome.split)

lemma agree_registry [simp]: "agree f h (h\<lparr>hb_registry := r\<rparr>)"
  by (simp add: agree_def)

lemma agree_deliver_channels [simp]: "agree core h (fst (snd (deliver_channels mx b m c ds h texts)))"
  by (induction mx b m c ds h texts rule: deliver_channels.induct) (simp_all add: Let_def split_beta)

lemma agree_deliver_to: "agree core h (fst (snd (deliver_to now b m c (es, h, texts))))"
  by (simp add: deliver_to_def Let_def split_beta split: option.split)

lemma agree_publish_local [simp]: "agree core h (snd (publish_local now b m h))"
proof -
  have "agree core h (fst (snd (fold (deliver_to now b m) cs (es, h, texts))))" for cs es texts
  proof (induction cs arbitrary: es h texts)
    case (Cons c cs)
    obtain es' h' texts' where d: "deliver_to now b m c (es, h, texts) = (es', h', texts')"
      by (cases "deliver_to now b m c (es, h, texts)")
    with agree_deliver_to [of h now b m c es texts] have "agree core h h'" by simp
    with Cons.IH [of h' es' texts'] d show ?case by (auto intro: agree_trans)
  qed simp
  from this [of "hb_live h" "[]" "[]"] show ?thesis by (simp add: publish_local_def split_beta)
qed

lemma agree_receive_backplane [simp]: "agree core h (snd (receive_backplane now b f h))"
  by (simp add: receive_backplane_def split: backplane_frame.split)

lemma agree_close_all [simp]: "agree core h (snd (close_all h))"
proof -
  have "agree core (h\<lparr>hb_backplane := False\<rparr>) (fold shut (hb_live h) (h\<lparr>hb_backplane := False\<rparr>))"
    by (rule agree_fold) simp
  moreover have "agree core h (h\<lparr>hb_backplane := False\<rparr>)" by (simp add: agree_def)
  ultimately show ?thesis by (auto simp: close_all_def intro: agree_trans)
qed

lemma agree_renew_all [simp]: "agree f h (renew_all hash now c x h)"
  unfolding renew_all_def by (rule agree_fold) simp

lemma agree_pulse_connection: "agree core h (snd (pulse_connection hash now p c (es, h)))"
  by (auto simp: pulse_connection_def Let_def intro: agree_put agree_trans [OF agree_put agree_shut]
      agree_trans [OF agree_put agree_renew_all] split: option.split)

lemma agree_pulse [simp]: "agree core h (snd (snd (pulse hash now v p run h)))"
proof -
  have 1: "agree core h (snd (snd (fold (pulse_validate now v) cs (ok, es, h))))" for cs ok es h
  proof (induction cs arbitrary: ok es h)
    case (Cons c cs)
    obtain ok' es' h' where d: "pulse_validate now v c (ok, es, h) = (ok', es', h')"
      by (cases "pulse_validate now v c (ok, es, h)")
    then have "h' = snd (snd (validate_connection now (v c) c h))"
      by (auto simp: pulse_validate_def split_beta Let_def)
    then have "agree core h h'" by simp
    with Cons.IH [of h' ok' es'] d show ?case by (auto intro: agree_trans)
  qed simp
  have 2: "agree core h (snd (fold (pulse_connection hash now p) cs (es, h)))" for cs es h
  proof (induction cs arbitrary: es h)
    case (Cons c cs)
    obtain es' h' where d: "pulse_connection hash now p c (es, h) = (es', h')"
      by (cases "pulse_connection hash now p c (es, h)")
    with agree_pulse_connection [of h hash now p c es] have "agree core h h'" by simp
    with Cons.IH [of h' es'] d show ?case by (auto intro: agree_trans)
  qed simp
  have 3: "agree core h (snd (snd (pulse_cleanup now h)))" for h
    by (simp add: pulse_cleanup_def Let_def split_beta split: sum.split)
  show ?thesis
  proof (cases run)
    case False
    let ?v = "fold (pulse_validate now v) (hb_live h) ([], [], h)"
    let ?c = "fold (pulse_connection hash now p) (fst ?v) (snd ?v)"
    have "agree core h (snd (snd ?v))" by (rule 1)
    moreover have "agree core (snd (snd ?v)) (snd ?c)" using 2 [of "snd (snd ?v)" "fst ?v" "fst (snd ?v)"] by simp
    moreover have "agree core (snd ?c) (snd (snd (pulse_cleanup now (snd ?c))))" by (rule 3)
    ultimately have "agree core h (snd (snd (pulse_cleanup now (snd ?c))))" by (blast intro: agree_trans)
    with False show ?thesis by (simp add: pulse_def split_beta Let_def)
  qed (simp add: pulse_def)
qed

lemma agree_pong [simp]: "agree core h (pong c h)"
  by (auto simp: pong_def intro: agree_put split: option.split)

lemma agree_subscribed: "agree core h h' \<Longrightarrow> subscribed h' c key = subscribed h c key"
proof -
  assume "agree core h h'"
  then have "map_option core (conn_of h' c) = map_option core (conn_of h c)" by (simp add: agree_def)
  then show ?thesis by (auto simp: subscribed_def core_def split: option.splits)
qed

subsection \<open>The queue of a connection\<close>

text \<open>
  A connection counts the frames it has queued and the one in progress, and never more than the
  limit. While a frame of \<open>c\<close> is being handled, it is still counted but no longer queued.
\<close>

definition conn_ok :: "nat \<Rightarrow> connection \<Rightarrow> bool" where
  "conn_ok mx x \<longleftrightarrow> cn_queued x = length (cn_inbound x) + (if cn_stage x = Idle then 0 else 1) \<and>
     cn_queued x \<le> mx"

definition conn_busy :: "nat \<Rightarrow> connection \<Rightarrow> bool" where
  "conn_busy mx x \<longleftrightarrow> cn_queued x = length (cn_inbound x) + 1 \<and> cn_queued x \<le> mx"

definition hub_ok :: "hub \<Rightarrow> bool" where
  "hub_ok h \<longleftrightarrow> (\<forall>c x. conn_of h c = Some x \<longrightarrow> conn_ok (hb_max_pending h) x)"

definition busy :: "string \<Rightarrow> hub \<Rightarrow> bool" where
  "busy c h \<longleftrightarrow> (\<forall>c' x. conn_of h c' = Some x \<longrightarrow>
     (if c' = c then conn_busy (hb_max_pending h) x else conn_ok (hb_max_pending h) x))"

lemma hub_okD: "hub_ok h \<Longrightarrow> conn_of h c = Some x \<Longrightarrow> conn_ok (hb_max_pending h) x"
  by (simp add: hub_ok_def)

lemma agree_Some:
  assumes "agree core h h'" and "conn_of h' c = Some x'"
  obtains x where "conn_of h c = Some x" and "core x' = core x"
proof (cases "conn_of h c")
  case (Some x)
  with assms have "core x' = core x" by (auto simp: agree_def dest!: spec [of _ c])
  with Some show thesis by (rule that)
qed (use assms in \<open>auto simp: agree_def dest!: spec [of _ c]\<close>)

lemma agree_max: "agree f h h' \<Longrightarrow> hb_max_pending h' = hb_max_pending h"
  by (simp add: agree_def)

lemma conn_ok_core: "core x' = core x \<Longrightarrow> conn_ok mx x' = conn_ok mx x"
  by (simp add: conn_ok_def core_def)

lemma hub_okI: "(\<And>c x. conn_of h c = Some x \<Longrightarrow> conn_ok (hb_max_pending h) x) \<Longrightarrow> hub_ok h"
  by (simp add: hub_ok_def)

lemma hub_ok_agree: "agree core h h' \<Longrightarrow> hub_ok h \<Longrightarrow> hub_ok h'"
proof (rule hub_okI)
  fix c x' assume a: "agree core h h'" "hub_ok h" "conn_of h' c = Some x'"
  from a(1,3) obtain x where x: "conn_of h c = Some x" "core x' = core x" by (rule agree_Some)
  from hub_okD [OF a(2) x(1)] show "conn_ok (hb_max_pending h') x'"
    unfolding conn_ok_core [OF x(2)] agree_max [OF a(1)] .
qed

lemma busy_agree:
  assumes "agree core h h'" and "busy c h"
  shows "busy c h'"
  unfolding busy_def
proof (intro allI impI)
  fix c' x' assume "conn_of h' c' = Some x'"
  with assms(1) obtain x where x: "conn_of h c' = Some x" "core x' = core x" by (rule agree_Some)
  have mx: "hb_max_pending h' = hb_max_pending h" using assms(1) by (simp add: agree_def)
  from x assms(2) have "if c' = c then conn_busy (hb_max_pending h) x else conn_ok (hb_max_pending h) x"
    by (simp add: busy_def)
  with x(2) show "if c' = c then conn_busy (hb_max_pending h') x' else conn_ok (hb_max_pending h') x'"
    by (auto simp: conn_busy_def conn_ok_def core_def mx split: if_splits)
qed

lemma hub_ok_put:
  "hub_ok h \<Longrightarrow> conn_ok (hb_max_pending h) x \<Longrightarrow> hub_ok (put_conn c x h)"
  by (simp add: hub_ok_def)

lemma busy_put: "busy c h \<Longrightarrow> conn_busy (hb_max_pending h) x \<Longrightarrow> busy c (put_conn c x h)"
  by (simp add: busy_def)

lemma busyD: "busy c h \<Longrightarrow> conn_of h c = Some x \<Longrightarrow> conn_busy (hb_max_pending h) x"
  unfolding busy_def by (metis (full_types))

lemma busy_other: "busy c h \<Longrightarrow> conn_of h c' = Some x \<Longrightarrow> c' \<noteq> c \<Longrightarrow> conn_ok (hb_max_pending h) x"
  unfolding busy_def by (metis (full_types))

lemma busy_none: "busy c h \<Longrightarrow> conn_of h c = None \<Longrightarrow> hub_ok h"
  by (rule hub_okI) (metis busy_other option.distinct(1))

lemma busyI:
  "(\<And>x. conn_of h c = Some x \<Longrightarrow> conn_busy (hb_max_pending h) x) \<Longrightarrow>
   (\<And>c' x. conn_of h c' = Some x \<Longrightarrow> c' \<noteq> c \<Longrightarrow> conn_ok (hb_max_pending h) x) \<Longrightarrow> busy c h"
  by (simp add: busy_def)

lemma stage_busy: "hub_ok h \<Longrightarrow> stage_of h c \<noteq> Idle \<Longrightarrow> busy c h"
  by (rule busyI) (auto simp: stage_of_def conn_ok_def conn_busy_def dest: hub_okD)

lemma busy_put_ok:
  "busy c h \<Longrightarrow> conn_ok (hb_max_pending h) x \<Longrightarrow> hub_ok (put_conn c x h)"
  by (rule hub_okI) (auto split: if_splits dest: busy_other)

lemma frame_done_ok: "busy c h \<Longrightarrow> hub_ok (frame_done c h)"
proof (cases "conn_of h c")
  case (Some x)
  assume b: "busy c h"
  from busyD [OF b Some] have "conn_ok (hb_max_pending h) (x\<lparr>cn_queued := cn_queued x - 1, cn_stage := Idle\<rparr>)"
    by (simp add: conn_busy_def conn_ok_def)
  with b Some show ?thesis by (simp add: frame_done_def busy_put_ok)
next
  case None
  moreover assume "busy c h"
  ultimately show ?thesis by (simp add: frame_done_def busy_none)
qed

lemma finish_ok: "busy c (snd r) \<Longrightarrow> hub_ok (snd (finish c r))"
  by (simp add: finish_def frame_done_ok)

lemma frame_failed_ok: "busy c h \<Longrightarrow> hub_ok (snd (frame_failed c h))"
  unfolding frame_failed_def by (auto simp: split_beta Let_def intro!: frame_done_ok busy_agree [OF agree_reject])

lemma set_stage_ok: "busy c h \<Longrightarrow> st \<noteq> Idle \<Longrightarrow> hub_ok (set_stage c st h)"
proof (cases "conn_of h c")
  case (Some x)
  assume b: "busy c h" and st: "st \<noteq> Idle"
  from busyD [OF b Some] st have "conn_ok (hb_max_pending h) (x\<lparr>cn_stage := st\<rparr>)"
    by (simp add: conn_busy_def conn_ok_def)
  with b Some show ?thesis by (simp add: set_stage_def busy_put_ok)
next
  case None
  moreover assume "busy c h"
  ultimately show ?thesis by (simp add: set_stage_def busy_none)
qed

lemma presence_members_agree [simp]: "agree f h (snd (presence_members hash now key h))"
  by (simp add: presence_members_def Let_def split_beta split: option.split sum.split)

lemma join_presence_hub_agree [simp]: "agree f h (snd (join_presence_hub hash now c d a h))"
  by (simp add: join_presence_hub_def Let_def split_beta split: sum.split)

lemma leave_finish_agree [simp]: "agree f h (snd (leave_finish hash c d ok h))"
  by (simp add: leave_finish_def Let_def split_beta split: option.split sum.split)

lemma add_subscription_busy: "busy c h \<Longrightarrow> busy c (add_subscription c d h)"
  by (auto simp: add_subscription_def conn_busy_def dest!: busyD intro!: busy_put split: option.split)

lemma handle_frame_ok:
  assumes b: "busy c h"
  shows "hub_ok (snd (handle_frame hash now c frame h))"
proof -
  have rej: "hub_ok (snd (finish c (reject c e h)))" for e
    by (rule finish_ok) (rule busy_agree [OF agree_reject b])
  have plain: "hub_ok (snd (finish c (es, h)))" for es by (rule finish_ok) (simp add: b)
  show ?thesis
  proof (cases "snd frame")
    case True
    with rej show ?thesis by (simp add: handle_frame_def)
  next
    case text_frame: False
    show ?thesis
    proof (cases "parse_client_frame (fst frame)")
      case (Inl e)
      with text_frame rej show ?thesis by (cases e) (simp_all add: handle_frame_def)
    next
      case (Inr f)
      show ?thesis
      proof (cases f)
        case (Subscribe d)
        obtain ms h' where p: "presence_members hash now (destination_key d) h = (ms, h')"
          by (cases "presence_members hash now (destination_key d) h")
        then have "busy c h'" using busy_agree [OF presence_members_agree b] by (metis snd_conv)
        then have "hub_ok (snd (frame_failed c h'))" "\<And>es. hub_ok (snd (finish c (es, h')))"
          by (auto intro: frame_failed_ok finish_ok)
        with Inr Subscribe text_frame p plain set_stage_ok [OF b] show ?thesis
          by (cases ms) (auto simp: handle_frame_def)
      next
        case (Unsubscribe d)
        show ?thesis
        proof (cases "conn_of h c")
          case None
          then have "hub_ok h" by (rule busy_none [OF b])
          with None Inr Unsubscribe text_frame show ?thesis by (simp add: handle_frame_def)
        next
          case (Some x)
          have "hub_ok (put_conn c (x\<lparr>cn_subscriptions := m, cn_stage := In_leave d\<rparr>) h)" for m
            using busyD [OF b Some] by (intro busy_put_ok [OF b]) (simp add: conn_busy_def conn_ok_def)
          with Some Inr Unsubscribe text_frame plain show ?thesis by (simp add: handle_frame_def)
        qed
      qed (use Inr text_frame plain set_stage_ok [OF b] in \<open>simp_all add: handle_frame_def\<close>)
    qed
  qed
qed

lemma queue_frame_ok: "hub_ok h \<Longrightarrow> hub_ok (snd (queue_frame c frame h))"
proof (cases "conn_of h c")
  case (Some x)
  assume ok: "hub_ok h"
  show ?thesis
  proof (cases "cn_queued x \<ge> hb_max_pending h")
    case True
    with ok Some show ?thesis by (auto simp: queue_frame_def intro: hub_ok_agree [OF agree_reject])
  next
    case False
    with hub_okD [OF ok Some]
    have "conn_ok (hb_max_pending h) (x\<lparr>cn_queued := cn_queued x + 1, cn_inbound := cn_inbound x @ [frame]\<rparr>)"
      by (simp add: conn_ok_def)
    with ok Some False show ?thesis by (simp add: queue_frame_def hub_ok_put)
  qed
qed (simp add: queue_frame_def)

lemma queue_frames_ok: "hub_ok h \<Longrightarrow> hub_ok (snd (queue_frames c fs h))"
  by (induction fs arbitrary: h) (simp_all add: split_beta Let_def queue_frame_ok)

lemma accept_finish_ok: "hub_ok h \<Longrightarrow> hub_ok (snd (accept_finish c adm ps h))"
proof -
  assume ok: "hub_ok h"
  have "conn_ok n (new_connection a)" for n a by (simp add: conn_ok_def new_connection_def)
  then have "hub_ok ((put_conn c (new_connection a) h)\<lparr>hb_live := l\<rparr>)" for a l
    using hub_ok_put [OF ok, of "new_connection a" c] by (simp add: hub_ok_def)
  with ok show ?thesis
    by (auto simp: accept_finish_def Let_def split_beta intro: queue_frames_ok split: outcome.split)
qed

lemma receive_ok: "hub_ok h \<Longrightarrow> hub_ok (snd (receive hash now v c h))"
proof (cases "conn_of h c")
  case (Some x)
  assume ok: "hub_ok h"
  show ?thesis
  proof (cases "cn_stage x = Idle \<and> cn_inbound x \<noteq> []")
    case True
    then obtain frame rest where i: "cn_stage x = Idle" "cn_inbound x = frame # rest"
      by (cases "cn_inbound x") auto
    let ?h = "put_conn c (x\<lparr>cn_inbound := rest\<rparr>) h"
    have "conn_busy (hb_max_pending h) (x\<lparr>cn_inbound := rest\<rparr>)"
      using hub_okD [OF ok Some] i by (simp add: conn_ok_def conn_busy_def)
    then have b: "busy c ?h" using ok by (intro busyI) (auto dest: hub_okD)
    obtain valid es h2 where val: "validate_connection now v c ?h = (valid, es, h2)"
      by (cases "validate_connection now v c ?h")
    then have "busy c h2" using busy_agree [OF agree_validate b] by (metis snd_conv)
    then have "hub_ok (snd (finish c (es, h2)))" "hub_ok (snd (handle_frame hash now c frame h2))"
      by (auto intro: finish_ok handle_frame_ok)
    with Some i val show ?thesis by (simp add: receive_def)
  next
    case False
    then have "receive hash now v c h = ([], h)"
      using Some by (cases "cn_stage x"; cases "cn_inbound x") (auto simp: receive_def)
    with ok show ?thesis by simp
  qed
qed (simp add: receive_def)

lemma subscribe_done_ok:
  assumes b: "busy c h"
  shows "hub_ok (snd (subscribe_done hash now c d r h))"
proof -
  have rej: "busy c (snd (denied c d h'))" if "busy c h'" for h'
    unfolding denied_def by (rule busy_agree [OF agree_reject that])
  show ?thesis
  proof (cases r)
    case Threw
    with rej [OF b] show ?thesis by (simp add: subscribe_done_def finish_ok)
  next
    case (Gave m)
    show ?thesis
    proof (cases "kind_is d ''presence'' \<and> m \<noteq> None")
      case True
      then obtain a where m: "m = Some a" by auto
      obtain j h1 where j: "join_presence_hub hash now c d a h = (j, h1)"
        by (cases "join_presence_hub hash now c d a h")
      then have b1: "busy c h1" using busy_agree [OF join_presence_hub_agree b] by (metis snd_conv)
      note b2 = add_subscription_busy [OF b1, of d]
      show ?thesis
      proof (cases j)
        case None
        with Gave m True j rej [OF b1] show ?thesis by (simp add: subscribe_done_def finish_ok)
      next
        case (Some fm)
        have "busy c (snd (if \<not> fst fm then (es, add_subscription c d h1)
            else case announce_presence (add_subscription c d h1) ''presence_joined'' d a (Some c) of
              Some es' \<Rightarrow> (es @ es', add_subscription c d h1)
            | None \<Rightarrow> (let (es', h3) = denied c d (add_subscription c d h1) in (es @ es', h3))))" for es
          using b2 rej [OF b2] by (simp add: split_beta Let_def split: option.split)
        with Some Gave m True j show ?thesis
          by (cases fm) (simp add: subscribe_done_def finish_ok Let_def)
      qed
    next
      case False
      then have "subscribe_done hash now c d r h = finish c (let h2 = add_subscription c d h in
          (send h2 c (frame_of ''subscribed'' [(''channel'', destination_json d)]), h2))"
        using Gave by (auto simp: subscribe_done_def split: option.split bool.split)
      with add_subscription_busy [OF b] show ?thesis by (simp add: finish_ok Let_def)
    qed
  qed
qed

lemma unsubscribe_done_ok:
  assumes b: "busy c h"
  shows "hub_ok (snd (unsubscribe_done hash c d ok h))"
proof -
  obtain es h1 where l: "leave_finish hash c d ok h = (es, h1)" by (cases "leave_finish hash c d ok h")
  then have b1: "busy c h1" using busy_agree [OF leave_finish_agree b] by (metis snd_conv)
  have "busy c (snd (reject c e h1))" for e by (rule busy_agree [OF agree_reject b1])
  with b1 l show ?thesis by (cases es) (simp_all add: unsubscribe_done_def finish_ok)
qed

lemma next_leave_ok:
  assumes ok: "hub_ok h"
  shows "hub_ok (snd (next_leave c ds h))"
proof (cases "conn_of h c")
  case (Some x)
  have "conn_ok (hb_max_pending h) (x\<lparr>cn_leaving := l\<rparr>)"
    "conn_ok (hb_max_pending h) (x\<lparr>cn_subscriptions := m, cn_leaving := l\<rparr>)" for l m
    using hub_okD [OF ok Some] by (simp_all add: conn_ok_def)
  with ok Some show ?thesis by (auto intro: hub_ok_put split: list.split)
qed (use ok in simp)

lemma disconnect_ok: "hub_ok h \<Longrightarrow> hub_ok (snd (disconnect c h))"
proof -
  assume ok: "hub_ok h"
  then have s: "hub_ok (shut c h)" by (rule hub_ok_agree [OF agree_shut])
  then have "hub_ok ((shut c h)\<lparr>hb_live := l\<rparr>)" for l by (simp add: hub_ok_def)
  with s show ?thesis by (auto simp: disconnect_def Let_def intro: next_leave_ok simp del: next_leave.simps split: option.split)
qed

lemma disconnect_continue_ok: "hub_ok h \<Longrightarrow> hub_ok (snd (disconnect_continue hash c ok h))"
  by (auto simp: disconnect_continue_def Let_def split_beta simp del: next_leave.simps
      intro!: next_leave_ok hub_ok_agree [OF leave_finish_agree] split: option.split list.split)

lemma hub_step_ok:
  assumes ok: "hub_ok h"
  shows "hub_ok (snd (hub_step hash ev h))"
proof (cases ev)
  case (Command_answered c r)
  have "hub_ok (snd (command_done c r h))" if "busy c h"
    using that by (cases r) (simp_all add: command_done_def frame_failed_ok finish_ok)
  with stage_busy [OF ok, of c] ok Command_answered show ?thesis by simp
next
  case (Subscribe_answered c now r)
  with stage_busy [OF ok, of c] ok subscribe_done_ok show ?thesis by (auto split: stage.split)
next
  case (Unsubscribe_answered c u)
  with stage_busy [OF ok, of c] ok unsubscribe_done_ok show ?thesis by (auto split: stage.split)
next
  case (Pulse now v p)
  with hub_ok_agree [OF agree_pulse ok] show ?thesis by (simp add: split_beta)
qed (use ok in \<open>simp_all add: accept_finish_ok queue_frame_ok receive_ok disconnect_ok
      disconnect_continue_ok hub_ok_agree [OF agree_publish_local] hub_ok_agree [OF agree_receive_backplane]
      hub_ok_agree [OF agree_pong] hub_ok_agree [OF agree_close_all]\<close>)

lemma run_hub_ok: "hub_ok h \<Longrightarrow> hub_ok (snd (run_hub hash evs h))"
proof (induction evs arbitrary: h)
  case (Cons ev evs)
  from Cons.IH [OF hub_step_ok [OF Cons.prems]] show ?case by (simp add: split_beta Let_def)
qed simp

lemma new_hub_ok [simp]: "hub_ok (new_hub t b n l m)"
  by (simp add: hub_ok_def new_hub_def conn_of_def)

subsection \<open>Subscriptions come from the gateway\<close>

definition sub_le :: "hub \<Rightarrow> hub \<Rightarrow> bool" where
  "sub_le h h' \<longleftrightarrow> hb_max_pending h' = hb_max_pending h \<and>
     (\<forall>c k. subscribed h' c k \<longrightarrow> subscribed h c k)"

lemma sub_le_refl [simp]: "sub_le h h"
  by (simp add: sub_le_def)

lemma sub_le_trans: "sub_le h h1 \<Longrightarrow> sub_le h1 h2 \<Longrightarrow> sub_le h h2"
  by (simp add: sub_le_def)

lemma sub_le_agree: "agree core h h' \<Longrightarrow> sub_le h h'"
  by (simp add: sub_le_def agree_subscribed) (simp add: agree_def)

lemma subscribed_put [simp]:
  "subscribed (put_conn c x h) c' k = (if c' = c then om_has (cn_subscriptions x) k else subscribed h c' k)"
  by (simp add: subscribed_def)

lemma subscribed_other [simp]: "subscribed (h\<lparr>hb_live := l\<rparr>) c k = subscribed h c k"
  by (simp add: subscribed_def)

lemma sub_le_put:
  "conn_of h c = Some x \<Longrightarrow> (\<And>k. om_has (cn_subscriptions y) k \<Longrightarrow> om_has (cn_subscriptions x) k) \<Longrightarrow>
    sub_le h (put_conn c y h)"
  by (auto simp: sub_le_def subscribed_def)

lemma sub_le_frame_done [simp]: "sub_le h (frame_done c h)"
  by (auto simp: frame_done_def intro: sub_le_put split: option.split)

lemma sub_le_set_stage [simp]: "sub_le h (set_stage c st h)"
  by (auto simp: set_stage_def intro: sub_le_put split: option.split)

lemma sub_le_finish: "sub_le h (snd r) \<Longrightarrow> sub_le h (snd (finish c r))"
  by (auto simp: finish_def intro: sub_le_trans)

lemma sub_le_reject [simp]: "sub_le h (snd (reject c e h))"
  by (rule sub_le_agree) simp

lemma sub_le_frame_failed [simp]: "sub_le h (snd (frame_failed c h))"
  by (simp add: frame_failed_def split_beta Let_def sub_le_trans [OF sub_le_reject sub_le_frame_done])

lemma sub_le_members [simp]: "sub_le h (snd (presence_members hash now key h))"
  by (rule sub_le_agree) simp

lemma sub_le_leave_finish [simp]: "sub_le h (snd (leave_finish hash c d ok h))"
  by (rule sub_le_agree) simp

lemma sub_le_handle_frame [simp]: "sub_le h (snd (handle_frame hash now c frame h))"
proof (cases "snd frame")
  case True
  then show ?thesis by (auto simp: handle_frame_def intro: sub_le_finish)
next
  case text_frame: False
  show ?thesis
  proof (cases "parse_client_frame (fst frame)")
    case (Inl e)
    with text_frame show ?thesis by (cases e) (auto simp: handle_frame_def intro: sub_le_finish)
  next
    case (Inr f)
    show ?thesis
    proof (cases f)
      case (Subscribe d)
      obtain ms h' where p: "presence_members hash now (destination_key d) h = (ms, h')"
        by (cases "presence_members hash now (destination_key d) h")
      then have "sub_le h h'" using sub_le_members by (metis snd_conv)
      then have "sub_le h (snd (frame_failed c h'))" "\<And>es. sub_le h (snd (finish c (es, h')))"
        by (auto intro: sub_le_trans sub_le_finish)
      with Inr Subscribe text_frame p show ?thesis
        by (cases ms) (auto simp: handle_frame_def intro: sub_le_finish)
    next
      case (Unsubscribe d)
      with Inr text_frame show ?thesis
        by (auto simp: handle_frame_def intro!: sub_le_put sub_le_finish split: option.split)
    qed (use Inr text_frame in \<open>auto simp: handle_frame_def intro: sub_le_finish\<close>)
  qed
qed

lemma sub_le_validate [simp]: "sub_le h (snd (snd (validate_connection now v c h)))"
  by (rule sub_le_agree) simp

lemma sub_le_receive [simp]: "sub_le h (snd (receive hash now v c h))"
proof (cases "conn_of h c")
  case (Some x)
  show ?thesis
  proof (cases "cn_stage x = Idle \<and> cn_inbound x \<noteq> []")
    case True
    then obtain frame rest where i: "cn_stage x = Idle" "cn_inbound x = frame # rest"
      by (cases "cn_inbound x") auto
    let ?h = "put_conn c (x\<lparr>cn_inbound := rest\<rparr>) h"
    have 1: "sub_le h ?h" by (rule sub_le_put [OF Some]) simp
    obtain valid es h2 where val: "validate_connection now v c ?h = (valid, es, h2)"
      by (cases "validate_connection now v c ?h")
    then have "sub_le ?h h2" using sub_le_validate by (metis snd_conv)
    with 1 have 2: "sub_le h h2" by (rule sub_le_trans)
    then have "sub_le h (snd (finish c (es, h2)))" "sub_le h (snd (handle_frame hash now c frame h2))"
      by (auto intro: sub_le_finish sub_le_trans)
    with Some i val show ?thesis by (simp add: receive_def)
  next
    case False
    then have "receive hash now v c h = ([], h)"
      using Some by (cases "cn_stage x"; cases "cn_inbound x") (auto simp: receive_def)
    then show ?thesis by simp
  qed
qed (simp add: receive_def)

lemma sub_le_next_leave [simp]: "sub_le h (snd (next_leave c ds h))"
  by (auto intro!: sub_le_put split: option.split list.split)

lemma sub_le_queue_frame [simp]: "sub_le h (snd (queue_frame c f h))"
  by (auto simp: queue_frame_def intro!: sub_le_put split: option.split)

lemma sub_le_queue_frames [simp]: "sub_le h (snd (queue_frames c fs h))"
proof (induction fs arbitrary: h)
  case (Cons f fs)
  from sub_le_trans [OF sub_le_queue_frame Cons.IH] show ?case by (simp add: split_beta Let_def)
qed simp

lemma sub_le_accept: "conn_of h c = None \<Longrightarrow> sub_le h (snd (accept_finish c adm ps h))"
proof -
  have "sub_le h ((put_conn c (new_connection a) h)\<lparr>hb_live := l\<rparr>)" if "conn_of h c = None" for a l
    using that by (simp add: sub_le_def new_connection_def)
  moreover assume "conn_of h c = None"
  ultimately show ?thesis
    by (simp add: accept_finish_def Let_def split_beta sub_le_trans [OF _ sub_le_queue_frames] split: outcome.split)
qed

lemma sub_le_disconnect [simp]: "sub_le h (snd (disconnect c h))"
proof -
  have s: "sub_le h (shut c h)" by (rule sub_le_agree) simp
  moreover from this have "sub_le h ((shut c h)\<lparr>hb_live := l\<rparr>)" for l by (simp add: sub_le_def)
  ultimately show ?thesis
    by (simp add: disconnect_def Let_def sub_le_trans [OF _ sub_le_next_leave] del: next_leave.simps
        split: option.split)
qed

lemma sub_le_disconnect_continue [simp]: "sub_le h (snd (disconnect_continue hash c ok h))"
  by (auto simp: disconnect_continue_def Let_def split_beta simp del: next_leave.simps
      intro: sub_le_trans [OF sub_le_leave_finish sub_le_next_leave] split: option.split list.split)

lemma subscribe_done_subscribed:
  assumes "subscribed (snd (subscribe_done hash now c d r h)) c' k"
  shows "subscribed h c' k \<or> (c' = c \<and> k = destination_key d \<and> r \<noteq> Threw)"
proof -
  have add: "subscribed h' c' k \<or> (c' = c \<and> k = destination_key d)"
    if "subscribed (add_subscription c d h') c' k" for h'
    using that by (auto simp: add_subscription_def split: option.splits if_splits) (auto simp: subscribed_def)
  have den: "sub_le h' (snd (denied c d h'))" for h' by (simp add: denied_def)
  have fin: "subscribed (snd x) c' k" if "subscribed (snd (finish c x)) c' k" for x
    using sub_le_finish [of "snd x" x c] that by (simp add: sub_le_def)
  show ?thesis
  proof (cases r)
    case Threw
    with assms have "subscribed (snd (finish c (denied c d h))) c' k" by (simp add: subscribe_done_def)
    from fin [OF this] den [of h] show ?thesis by (simp add: sub_le_def)
  next
    case (Gave m)
    show ?thesis
    proof (cases "kind_is d ''presence'' \<and> m \<noteq> None")
      case True
      then obtain a where m: "m = Some a" by auto
      obtain j h1 where j: "join_presence_hub hash now c d a h = (j, h1)"
        by (cases "join_presence_hub hash now c d a h")
      have "sub_le h h1" using sub_le_agree [OF join_presence_hub_agree] j by (metis snd_conv)
      then have h1: "subscribed h1 c' k \<Longrightarrow> subscribed h c' k" by (simp add: sub_le_def)
      show ?thesis
      proof (cases j)
        case None
        with assms Gave m True j have "subscribed (snd (finish c (denied c d h1))) c' k"
          by (simp add: subscribe_done_def)
        from fin [OF this] den [of h1] have "subscribed h1 c' k" by (simp add: sub_le_def)
        with h1 show ?thesis by blast
      next
        case (Some fm)
        obtain es h3 where e: "snd (subscribe_done hash now c d r h) = snd (finish c (es, h3))"
          "h3 = add_subscription c d h1 \<or> h3 = snd (denied c d (add_subscription c d h1))"
          using Some Gave m True j
          by (cases fm) (auto simp: subscribe_done_def finish_def Let_def split_beta split: option.split)
        from assms e(1) have "subscribed (snd (finish c (es, h3))) c' k" by simp
        from fin [OF this] have "subscribed h3 c' k" by simp
        with e(2) den [of "add_subscription c d h1"] have "subscribed (add_subscription c d h1) c' k"
          unfolding sub_le_def by metis
        from add [OF this] h1 Gave show ?thesis by auto
      qed
    next
      case False
      then have "subscribe_done hash now c d r h = finish c (send (add_subscription c d h) c
          (frame_of ''subscribed'' [(''channel'', destination_json d)]), add_subscription c d h)"
        using Gave by (auto simp: subscribe_done_def Let_def split: option.split bool.split)
      with assms have "subscribed (snd (finish c (send (add_subscription c d h) c
          (frame_of ''subscribed'' [(''channel'', destination_json d)]), add_subscription c d h))) c' k"
        by simp
      from fin [OF this] have "subscribed (add_subscription c d h) c' k" by simp
      from add [OF this] Gave show ?thesis by auto
    qed
  qed
qed

text \<open>The subscriptions the gateway granted in a run.\<close>

fun grants :: "(string \<Rightarrow> string) \<Rightarrow> hub_event list \<Rightarrow> hub \<Rightarrow> (string \<times> string) list" where
  "grants hash [] h = []"
| "grants hash (ev # evs) h =
     (case ev of
        Subscribe_answered c now (Gave member) \<Rightarrow>
          (case stage_of h c of In_subscribe d \<Rightarrow> [(c, destination_key d)] | _ \<Rightarrow> [])
      | _ \<Rightarrow> []) @ grants hash evs (snd (hub_step hash ev h))"

lemma hub_step_subscribed:
  assumes "subscribed (snd (hub_step hash ev h)) c k"
  shows "subscribed h c k \<or> (c, k) \<in> set (grants hash [ev] h)"
proof (cases ev)
  case (Accepted c' adm ps)
  with assms sub_le_accept [of h c' "Gave adm" ps] show ?thesis by (auto simp: sub_le_def split: if_splits)
next
  case (Frame_arrived c' f)
  with assms sub_le_queue_frame [of h c' f] show ?thesis by (auto simp: sub_le_def split: if_splits)
next
  case (Turn c' now v)
  with assms sub_le_receive [of h hash now v c'] show ?thesis by (auto simp: sub_le_def)
next
  case (Command_answered c' r)
  have "sub_le h (snd (command_done c' r h))" by (cases r) (simp_all add: command_done_def sub_le_finish)
  with assms Command_answered show ?thesis by (auto simp: sub_le_def split: if_splits)
next
  case (Subscribe_answered c' now r)
  show ?thesis
  proof (cases "stage_of h c'")
    case (In_subscribe d)
    with assms Subscribe_answered have "subscribed (snd (subscribe_done hash now c' d r h)) c k" by simp
    from subscribe_done_subscribed [OF this] In_subscribe Subscribe_answered show ?thesis
      by (cases r) auto
  qed (use assms Subscribe_answered in auto)
next
  case (Unsubscribe_answered c' ok)
  have "sub_le h (snd (unsubscribe_done hash c' d ok h))" for d
  proof -
    obtain es h1 where l: "leave_finish hash c' d ok h = (es, h1)" by (cases "leave_finish hash c' d ok h")
    then have "sub_le h h1" using sub_le_leave_finish by (metis snd_conv)
    with l show ?thesis
      by (cases es) (auto simp: unsubscribe_done_def intro!: sub_le_finish intro: sub_le_trans)
  qed
  with assms Unsubscribe_answered show ?thesis by (auto simp: sub_le_def split: stage.splits)
next
  case (Socket_closed c')
  with assms sub_le_disconnect [of h c'] show ?thesis by (auto simp: sub_le_def)
next
  case (Leave_answered c' ok)
  with assms sub_le_disconnect_continue [of h hash c' ok] show ?thesis by (auto simp: sub_le_def)
next
  case (Pulse now v p)
  with assms agree_subscribed [OF agree_pulse] show ?thesis by (auto simp: split_beta)
qed (use assms in \<open>simp_all add: agree_subscribed [OF agree_publish_local] agree_subscribed [OF agree_pong]
    agree_subscribed [OF agree_receive_backplane] agree_subscribed [OF agree_close_all]\<close>)

lemma run_hub_subscribed:
  "subscribed (snd (run_hub hash evs h)) c k \<Longrightarrow> subscribed h c k \<or> (c, k) \<in> set (grants hash evs h)"
proof (induction evs arbitrary: h)
  case (Cons ev evs)
  from Cons.prems have "subscribed (snd (run_hub hash evs (snd (hub_step hash ev h)))) c k"
    by (simp add: split_beta Let_def)
  from Cons.IH [OF this] hub_step_subscribed [of hash ev h c k] show ?case by auto
qed simp

lemma finish_max [simp]: "hb_max_pending (snd (finish c r)) = hb_max_pending (snd r)"
  using sub_le_frame_done [of "snd r" c] by (simp add: finish_def sub_le_def)

lemma add_subscription_max [simp]: "hb_max_pending (add_subscription c d h) = hb_max_pending h"
  by (simp add: add_subscription_def split: option.split)

lemma denied_max [simp]: "hb_max_pending (snd (denied c d h)) = hb_max_pending h"
  unfolding denied_def by (rule agree_max [OF agree_reject])

lemma join_max [simp]: "hb_max_pending (snd (join_presence_hub hash now c d a h)) = hb_max_pending h"
  by (rule agree_max [OF join_presence_hub_agree])

lemma subscribe_done_max [simp]:
  "hb_max_pending (snd (subscribe_done hash now c d r h)) = hb_max_pending h"
proof (cases r)
  case (Gave m)
  obtain j h1 where j: "join_presence_hub hash now c d (the m) h = (j, h1)"
    by (cases "join_presence_hub hash now c d (the m) h")
  then have "hb_max_pending h1 = hb_max_pending h" using join_max by (metis snd_conv)
  with Gave j show ?thesis
    by (cases j; cases m; cases "kind_is d ''presence''")
       (auto simp: subscribe_done_def Let_def split_beta split: option.split)
qed (simp add: subscribe_done_def)

lemma sub_le_max: "sub_le h h' \<Longrightarrow> hb_max_pending h' = hb_max_pending h"
  by (simp add: sub_le_def)

lemma hub_step_max: "hb_max_pending (snd (hub_step hash ev h)) = hb_max_pending h"
proof (cases ev)
  case (Command_answered c r)
  then show ?thesis
    by (cases r) (simp_all add: command_done_def sub_le_max [OF sub_le_frame_failed])
next
  case (Unsubscribe_answered c ok)
  have "hb_max_pending (snd (unsubscribe_done hash c d ok h)) = hb_max_pending h" for d
  proof -
    obtain es h1 where l: "leave_finish hash c d ok h = (es, h1)" by (cases "leave_finish hash c d ok h")
    then have "hb_max_pending h1 = hb_max_pending h"
      using sub_le_max [OF sub_le_leave_finish] by (metis snd_conv)
    with l show ?thesis by (cases es) (simp_all add: unsubscribe_done_def sub_le_max [OF sub_le_reject])
  qed
  with Unsubscribe_answered show ?thesis by (auto split: stage.split)
next
  case (Pulse now v p)
  with agree_max [OF agree_pulse] show ?thesis by (simp add: split_beta)
qed (simp_all add: sub_le_max [OF sub_le_accept] sub_le_max [OF sub_le_queue_frame]
    sub_le_max [OF sub_le_receive] sub_le_max [OF sub_le_disconnect] sub_le_max [OF sub_le_disconnect_continue]
    agree_max [OF agree_publish_local] agree_max [OF agree_receive_backplane] agree_max [OF agree_pong]
    agree_max [OF agree_close_all] split: stage.split)

lemma run_hub_max: "hb_max_pending (snd (run_hub hash evs h)) = hb_max_pending h"
  by (induction evs arbitrary: h) (simp_all add: split_beta Let_def hub_step_max)

subsection \<open>Delivery\<close>

text \<open>Every text in the table is that of one of the message's channels with that key.\<close>

definition texts_ok :: "broadcast_message \<Rightarrow> (string, json) omap \<Rightarrow> bool" where
  "texts_ok m texts \<longleftrightarrow> (\<forall>k j. om_get texts k = Some j \<longrightarrow>
     (\<exists>d\<in>set (msg_channels m). destination_key d = k \<and> j = event_frame m d))"

definition is_event_for :: "broadcast_message \<Rightarrow> string \<Rightarrow> json \<Rightarrow> bool" where
  "is_event_for m key j \<longleftrightarrow> (\<exists>d\<in>set (msg_channels m). destination_key d = key \<and> j = event_frame m d)"

lemma texts_text:
  assumes "texts_ok m texts" and "d \<in> set (msg_channels m)"
  shows "is_event_for m (destination_key d) (or_else (om_get texts (destination_key d)) (event_frame m d))"
    and "texts_ok m (om_set (destination_key d) (or_else (om_get texts (destination_key d)) (event_frame m d)) texts)"
proof -
  show 1: "is_event_for m (destination_key d) (or_else (om_get texts (destination_key d)) (event_frame m d))"
    using assms by (auto simp: texts_ok_def is_event_for_def or_else_def split: option.split)
  then show "texts_ok m (om_set (destination_key d) (or_else (om_get texts (destination_key d)) (event_frame m d)) texts)"
    using assms(1) by (auto simp: texts_ok_def is_event_for_def)
qed

lemma send_mem: "e \<in> set (send h c f) \<longleftrightarrow> e = Sent c f \<and> (\<exists>x. conn_of h c = Some x \<and> cn_open x)"
  by (cases "conn_of h c") (auto simp: send_def)

lemma deliver_channels_sound:
  "texts_ok m texts \<Longrightarrow> set ds \<subseteq> set (msg_channels m) \<Longrightarrow>
    texts_ok m (snd (snd (deliver_channels mx b m c ds h texts))) \<and>
    (\<forall>c' f. Sent c' f \<in> set (fst (deliver_channels mx b m c ds h texts)) \<longrightarrow>
      c' = c \<and> (\<exists>k. subscribed h c k \<and> is_event_for m k f))"
proof (induction ds arbitrary: texts)
  case (Cons d ds)
  let ?k = "destination_key d"
  let ?t = "or_else (om_get texts ?k) (event_frame m d)"
  have d: "d \<in> set (msg_channels m)" using Cons.prems(2) by simp
  note t = texts_text [OF Cons.prems(1) d]
  have rest: "set ds \<subseteq> set (msg_channels m)" using Cons.prems(2) by simp
  consider "\<not> subscribed h c ?k" | "subscribed h c ?k" "b > mx" | "subscribed h c ?k" "\<not> b > mx" by blast
  then show ?case
  proof cases
    case 1
    with Cons.IH [OF Cons.prems(1) rest] show ?thesis by simp
  next
    case 2
    with Cons.prems(1) show ?thesis by (simp add: close_socket_def)
  next
    case 3
    then have eq: "deliver_channels mx b m c (d # ds) h texts =
        (send h c ?t @ fst (deliver_channels mx b m c ds h (om_set ?k ?t texts)),
         snd (deliver_channels mx b m c ds h (om_set ?k ?t texts)))"
      by (simp add: Let_def split_beta)
    show ?thesis
      unfolding eq using Cons.IH [OF t(2) rest] t(1) 3(1) by (auto simp: send_mem)
  qed
qed simp

text \<open>
  What the loop over the connections keeps: every text sent so far is an event of the message, to
  a connection of the live set that is subscribed and whose impersonation has not expired.
\<close>

definition deliveries_ok :: "int \<Rightarrow> broadcast_message \<Rightarrow> hub \<Rightarrow> effect list \<Rightarrow> bool" where
  "deliveries_ok now m h0 es \<longleftrightarrow> (\<forall>c f. Sent c f \<in> set es \<longrightarrow>
     c \<in> set (hb_live h0) \<and> (\<exists>k. subscribed h0 c k \<and> is_event_for m k f) \<and>
     (\<exists>x. conn_of h0 c = Some x \<and> \<not> impersonation_expired now x))"

lemma expired_core: "core x = core y \<Longrightarrow> impersonation_expired now x = impersonation_expired now y"
  by (simp add: impersonation_expired_def core_def)

lemma publish_local_sound:
  "set cs \<subseteq> set (hb_live h0) \<Longrightarrow> agree core h0 h \<Longrightarrow> texts_ok m texts \<Longrightarrow> deliveries_ok now m h0 es \<Longrightarrow>
    deliveries_ok now m h0 (fst (fold (deliver_to now b m) cs (es, h, texts)))"
proof (induction cs arbitrary: es h texts)
  case (Cons c cs)
  obtain es' h' texts' where d: "deliver_to now b m c (es, h, texts) = (es', h', texts')"
    by (cases "deliver_to now b m c (es, h, texts)")
  have ag: "agree core h0 h'"
    using agree_trans [OF Cons.prems(2) agree_deliver_to [of h now b m c es texts]] d by simp
  note s = deliver_channels_sound [OF Cons.prems(3) order_refl, of "hb_max_buffered h" "b c" c h]
  have "texts_ok m texts' \<and> deliveries_ok now m h0 es'"
  proof (cases "conn_of h c")
    case None
    with d Cons.prems show ?thesis by (simp add: deliver_to_def)
  next
    case (Some x)
    show ?thesis
    proof (cases "impersonation_expired now x")
      case True
      with Some d Cons.prems show ?thesis
        by (auto simp: deliver_to_def close_socket_def deliveries_ok_def)
    next
      case False
      from agree_Some [OF Cons.prems(2) Some] obtain x0 where x0: "conn_of h0 c = Some x0" "core x = core x0" .
      have ne: "\<not> impersonation_expired now x0" using False expired_core [OF x0(2)] by simp
      have eq: "texts' = snd (snd (deliver_channels (hb_max_buffered h) (b c) m c (msg_channels m) h texts))"
        "es' = es @ fst (deliver_channels (hb_max_buffered h) (b c) m c (msg_channels m) h texts)"
        using d Some False by (auto simp: deliver_to_def Let_def split_beta)
      have live: "c \<in> set (hb_live h0)" using Cons.prems(1) by simp
      have "deliveries_ok now m h0
          (fst (deliver_channels (hb_max_buffered h) (b c) m c (msg_channels m) h texts))"
        unfolding deliveries_ok_def
      proof (intro allI impI)
        fix c' f assume "Sent c' f \<in> set (fst (deliver_channels (hb_max_buffered h) (b c) m c (msg_channels m) h texts))"
        with s have "c' = c" "\<exists>k. subscribed h c k \<and> is_event_for m k f" by auto
        with live x0(1) ne show "c' \<in> set (hb_live h0) \<and> (\<exists>k. subscribed h0 c' k \<and> is_event_for m k f) \<and>
            (\<exists>x. conn_of h0 c' = Some x \<and> \<not> impersonation_expired now x)"
          by (simp add: agree_subscribed [OF Cons.prems(2)])
      qed
      with s Cons.prems(4) show ?thesis unfolding eq by (auto simp: deliveries_ok_def)
    qed
  qed
  with Cons.IH [OF _ ag] Cons.prems(1) d show ?case by simp
qed simp

text \<open>And what a connection that can take an event gets.\<close>

lemma deliver_channels_complete:
  assumes "conn_of h c = Some x" and "cn_open x" and "\<not> b > mx"
  shows "texts_ok m texts \<Longrightarrow> set ds \<subseteq> set (msg_channels m) \<Longrightarrow> d \<in> set ds \<Longrightarrow>
    subscribed h c (destination_key d) \<Longrightarrow>
    \<exists>f. Sent c f \<in> set (fst (deliver_channels mx b m c ds h texts)) \<and> is_event_for m (destination_key d) f"
proof (induction ds arbitrary: texts)
  case (Cons e ds)
  let ?k = "destination_key e"
  let ?t = "or_else (om_get texts ?k) (event_frame m e)"
  have e: "e \<in> set (msg_channels m)" and rest: "set ds \<subseteq> set (msg_channels m)"
    using Cons.prems(2) by simp_all
  note t = texts_text [OF Cons.prems(1) e]
  show ?case
  proof (cases "subscribed h c ?k")
    case False
    with Cons.prems(3,4) have "d \<in> set ds" by auto
    from Cons.IH [OF Cons.prems(1) rest this Cons.prems(4)] False show ?thesis by simp
  next
    case True
    then have eq: "fst (deliver_channels mx b m c (e # ds) h texts) =
        send h c ?t @ fst (deliver_channels mx b m c ds h (om_set ?k ?t texts))"
      using assms(3) by (simp add: Let_def split_beta)
    show ?thesis
    proof (cases "d = e")
      case True
      with t(1) assms(1,2) show ?thesis unfolding eq by (auto simp: send_mem)
    next
      case False
      with Cons.prems(3) have "d \<in> set ds" by simp
      from Cons.IH [OF t(2) rest this Cons.prems(4)] show ?thesis unfolding eq by auto
    qed
  qed
qed simp

lemma shut_other: "c' \<noteq> c \<Longrightarrow> conn_of (shut c' h) c = conn_of h c"
  by (simp add: shut_def split: option.split)

lemma deliver_channels_other:
  "c' \<noteq> c \<Longrightarrow> conn_of (fst (snd (deliver_channels mx b m c' ds h texts))) c = conn_of h c"
  by (induction ds arbitrary: texts) (simp_all add: Let_def split_beta close_socket_def shut_other)

lemma deliver_to_prefix:
  "\<exists>es'. fst (deliver_to now b m c (es, h, texts)) = es @ es'"
  by (auto simp: deliver_to_def Let_def split_beta split: option.split)

lemma deliver_fold_prefix:
  "\<exists>es'. fst (fold (deliver_to now b m) cs (es, h, texts)) = es @ es'"
proof (induction cs arbitrary: es h texts)
  case (Cons c cs)
  obtain es1 h1 texts1 where d: "deliver_to now b m c (es, h, texts) = (es1, h1, texts1)"
    by (cases "deliver_to now b m c (es, h, texts)")
  with deliver_to_prefix [of now b m c es h texts] obtain es' where "es1 = es @ es'" by auto
  with Cons.IH [of es1 h1 texts1] d show ?case by auto
qed simp

lemma deliver_to_texts: "texts_ok m texts \<Longrightarrow> texts_ok m (snd (snd (deliver_to now b m c (es, h, texts))))"
  using deliver_channels_sound [of m texts "msg_channels m"]
  by (auto simp: deliver_to_def Let_def split_beta split: option.split)

lemma deliver_to_other:
  "c' \<noteq> c \<Longrightarrow> conn_of (fst (snd (deliver_to now b m c' (es, h, texts)))) c = conn_of h c"
  by (simp add: deliver_to_def Let_def split_beta close_socket_def shut_other deliver_channels_other
      split: option.split)

lemma deliver_to_buffered [simp]:
  "hb_max_buffered (fst (snd (deliver_to now b m c (es, h, texts)))) = hb_max_buffered h"
proof -
  have "hb_max_buffered (fst (snd (deliver_channels mx n m c ds h texts))) = hb_max_buffered h" for mx n ds texts
    by (induction ds arbitrary: texts) (simp_all add: Let_def split_beta close_socket_def)
  then show ?thesis
    by (simp add: deliver_to_def Let_def split_beta close_socket_def split: option.split)
qed

lemma publish_local_complete:
  assumes "c \<in> set cs" and "conn_of h c = Some x" and "cn_open x" and "\<not> impersonation_expired now x"
    and "\<not> b c > hb_max_buffered h" and "d \<in> set (msg_channels m)"
    and "subscribed h c (destination_key d)" and "texts_ok m texts"
  shows "\<exists>f. Sent c f \<in> set (fst (fold (deliver_to now b m) cs (es, h, texts))) \<and>
    is_event_for m (destination_key d) f"
  using assms
proof (induction cs arbitrary: es h texts)
  case (Cons c' cs)
  obtain es1 h1 texts1 where d: "deliver_to now b m c' (es, h, texts) = (es1, h1, texts1)"
    by (cases "deliver_to now b m c' (es, h, texts)")
  show ?case
  proof (cases "c' = c")
    case True
    have "es1 = es @ fst (deliver_channels (hb_max_buffered h) (b c) m c (msg_channels m) h texts)"
      using d Cons.prems(2,4) True by (auto simp: deliver_to_def Let_def split_beta)
    with deliver_channels_complete [OF Cons.prems(2,3,5,8) order_refl Cons.prems(6,7)]
    obtain f where "Sent c f \<in> set es1" "is_event_for m (destination_key d) f" by auto
    with deliver_fold_prefix [of now b m cs es1 h1 texts1] d show ?thesis by auto
  next
    case False
    from deliver_to_other [OF this, of now b m es h texts] d have other: "conn_of h1 c = conn_of h c" by simp
    from deliver_to_texts [OF Cons.prems(8), of now b c' es h] d have tx: "texts_ok m texts1" by simp
    have bf: "hb_max_buffered h1 = hb_max_buffered h"
      using deliver_to_buffered [of now b m c' es h texts] d by simp
    have sub: "subscribed h1 c (destination_key d)"
      using Cons.prems(7) by (simp add: subscribed_def other)
    from False Cons.prems(1) have "c \<in> set cs" by simp
    from Cons.IH [OF this _ Cons.prems(3,4) _ Cons.prems(6) sub tx, of es1] Cons.prems(2,5) other bf d
    show ?thesis by simp
  qed
qed simp

subsection \<open>Properties\<close>


definition demo_room :: destination where
  "demo_room = \<lparr>dest_name = ''room'', dest_kind = JStr ''presence''\<rparr>"

definition demo_actor :: "string \<Rightarrow> actor" where
  "demo_actor i = \<lparr>actor_kind = JStr ''user'', actor_id = Some i\<rparr>"

definition demo_admission :: "string \<Rightarrow> string \<Rightarrow> conn_admission" where
  "demo_admission c i = \<lparr>ca_connection_id = c, ca_actor = demo_actor i, ca_initiator = None,
     ca_delegation = None, ca_authentication = adm_authentication (snd (demo_offer 0)), ca_tenant = None,
     ca_correlation_id = ''r''\<rparr>"

definition demo_socket :: pending_socket where
  "demo_socket = \<lparr>ps_frames = [], ps_closed = False, ps_open = True\<rparr>"

definition demo_subscribe :: "json option \<times> bool" where
  "demo_subscribe = (Some (JObj [(''protocol'', keryx_protocol), (''type'', JStr ''subscribe''),
     (''channel'', destination_json demo_room)]), False)"

definition demo_hub :: hub where
  "demo_hub = new_hub Single False 16 90000 1048576"

definition joins_room :: "string \<Rightarrow> string \<Rightarrow> hub_event list" where
  "joins_room c i = [Accepted c (demo_admission c i) demo_socket, Frame_arrived c demo_subscribe,
     Turn c 1 (Gave None), Subscribe_answered c 1 (Gave (Some (demo_actor i)))]"

definition room_hub :: hub where
  "room_hub = snd (run_hub (\<lambda>s. s) (joins_room ''o'' ''1'') demo_hub)"

definition room_message :: broadcast_message where
  "room_message = \<lparr>msg_id = ''1'', msg_event = ''e'', msg_channels = [demo_room], msg_data = JNull,
     msg_occurred_at = ''now''\<rparr>"


text \<open>
  C2. Nothing subscribes without the gateway: after any run of a server's hub (connections
  accepted, frames, answers, disconnects, broadcasts and pulses in any order), each subscription
  any connection holds, live or gone, was granted by the gateway to that connection, for that very
  channel, in that run.
\<close>

theorem only_granted_subscriptions:
  "{(c, k). subscribed (snd (run_hub hash evs (new_hub t b n l m))) c k} \<subseteq>
     set (grants hash evs (new_hub t b n l m))"
proof -
  have "\<not> subscribed (new_hub t b n l m) c k" for c k
    by (simp add: subscribed_def conn_of_def new_hub_def)
  with run_hub_subscribed show ?thesis by blast
qed

text \<open>
  A client cannot make the server queue without bound: in every reachable state each connection
  counts exactly its queued frames and the one in progress, at most one is in progress, and the
  count is within \<open>maxPendingFrames\<close>.
\<close>

theorem inbound_queue_bounded:
  assumes "conn_of (snd (run_hub hash evs (new_hub t b n l m))) c = Some x"
  shows "cn_queued x = length (cn_inbound x) + (if cn_stage x = Idle then 0 else 1) \<and> cn_queued x \<le> n"
  using hub_okD [OF run_hub_ok [OF new_hub_ok] assms] run_hub_max [of hash evs "new_hub t b n l m"]
  by (simp add: conn_ok_def new_hub_def)

theorem inbound_queue_bounded_witness:
  "case conn_of (snd (run_hub (\<lambda>s. s) (joins_room ''o'' ''1'') (new_hub Single False 16 90000 1048576))) ''o'' of
     None \<Rightarrow> False | Some x \<Rightarrow> cn_queued x \<le> 16"
proof -
  have "conn_of (snd (run_hub (\<lambda>s. s) (joins_room ''o'' ''1'') (new_hub Single False 16 90000 1048576))) ''o'' \<noteq> None"
    by code_simp
  then obtain x where x:
    "conn_of (snd (run_hub (\<lambda>s. s) (joins_room ''o'' ''1'') (new_hub Single False 16 90000 1048576))) ''o'' = Some x"
    by blast
  with inbound_queue_bounded [OF x] show ?thesis by simp
qed

text \<open>The actors with a live connection on a channel, by key.\<close>

definition room_actors :: "hub \<Rightarrow> string \<Rightarrow> string set" where
  "room_actors h key = {actor_key (ca_actor (cn_admission x)) |c x.
     c \<in> set (hb_live h) \<and> conn_of h c = Some x \<and> om_has (cn_subscriptions x) key}"

definition roster_step :: "hub \<Rightarrow> string \<Rightarrow> string \<Rightarrow> (string, actor) omap \<Rightarrow> (string, actor) omap" where
  "roster_step h key c m = (case conn_of h c of
     None \<Rightarrow> m
   | Some x \<Rightarrow> if om_has (cn_subscriptions x) key
               then om_set (actor_key (ca_actor (cn_admission x))) (ca_actor (cn_admission x)) m
               else m)"

definition roster_ok :: "(string, actor) omap \<Rightarrow> bool" where
  "roster_ok m \<longleftrightarrow> om_ok m \<and> (\<forall>k a. (k, a) \<in> set m \<longrightarrow> k = actor_key a)"

lemma roster_set: "roster_ok m \<Longrightarrow> roster_ok (om_set (actor_key a) a m)"
proof -
  assume ok: "roster_ok m"
  have "k = actor_key b" if "(k, b) \<in> set (om_set (actor_key a) a m)" for k b
    using that om_get_in [of "om_set (actor_key a) a m" k b] ok om_get_mem [of m k b]
    by (auto simp: roster_ok_def split: if_splits)
  with ok show ?thesis by (simp add: roster_ok_def)
qed

lemma roster_fold:
  assumes "roster_ok m"
  shows "roster_ok (fold (roster_step h key) cs m)"
    and "fst ` set (fold (roster_step h key) cs m) = fst ` set m \<union>
      {actor_key (ca_actor (cn_admission x)) |c x. c \<in> set cs \<and> conn_of h c = Some x \<and> om_has (cn_subscriptions x) key}"
  using assms
proof (induction cs arbitrary: m)
  case (Cons c cs)
  {
    case 1
    with Cons.IH(1) show ?case by (simp add: roster_step_def roster_set split: option.split)
  next
    case 2
    then have ok: "roster_ok (roster_step h key c m)" by (simp add: roster_step_def roster_set split: option.split)
    have keys: "fst ` set (roster_step h key c m) = fst ` set m \<union>
        {actor_key (ca_actor (cn_admission x)) |x. conn_of h c = Some x \<and> om_has (cn_subscriptions x) key}"
      by (auto simp: roster_step_def om_keys_set split: option.split)
    show ?case
      unfolding fold.simps comp_def Cons.IH(2) [OF ok] keys by auto
  }
qed simp_all

text \<open>
  The roster a subscriber of a presence channel is told names each actor once, and exactly the
  actors that have a live connection on the channel, with the one who joins.
\<close>

theorem roster_exact:
  "distinct (map actor_key (presence_members_local h key joining)) \<and>
   set (map actor_key (presence_members_local h key joining)) =
     room_actors h key \<union> (case joining of None \<Rightarrow> {} | Some a \<Rightarrow> {actor_key a})"
proof -
  let ?m = "fold (roster_step h key) (hb_live h) []"
  let ?n = "case joining of None \<Rightarrow> ?m | Some a \<Rightarrow> om_set (actor_key a) a ?m"
  have empty: "roster_ok []" by (simp add: roster_ok_def)
  have ok: "roster_ok ?m" by (rule roster_fold(1) [OF empty])
  have keys: "fst ` set ?m = room_actors h key" using roster_fold(2) [OF empty, of h key "hb_live h"]
    by (simp add: room_actors_def)
  have ok': "roster_ok ?n" using ok by (simp add: roster_set split: option.split)
  have keys': "fst ` set ?n = room_actors h key \<union> (case joining of None \<Rightarrow> {} | Some a \<Rightarrow> {actor_key a})"
    using keys by (auto simp: om_keys_set split: option.split)
  have "map actor_key (map snd ?n) = map fst ?n" using ok' by (auto simp: roster_ok_def)
  moreover have "presence_members_local h key joining = map snd ?n"
    unfolding presence_members_local_def roster_step_def [abs_def] Let_def by (rule refl)
  ultimately have "map actor_key (presence_members_local h key joining) = map fst ?n" by simp
  with ok' keys' show ?thesis by (simp add: roster_ok_def om_ok_def)
qed

definition ghost_run :: "hub_event list" where
  "ghost_run = joins_room ''o'' ''1'' @ take 3 (joins_room ''g'' ''2'') @
     [Socket_closed ''g'', Subscribe_answered ''g'' 2 (Gave (Some (demo_actor ''2'')))]"

definition joined_frame :: "string \<Rightarrow> json" where
  "joined_frame i = JObj [(''protocol'', keryx_protocol), (''type'', JStr ''presence_joined''),
     (''channel'', destination_json demo_room), (''member'', actor_json (demo_actor i))]"

text \<open>
  A connection can be announced after it is gone: when the gateway admits a subscription to a
  presence channel while the connection's socket closes, the others are told that the member
  joined, although no live connection of it remains, and the disconnect, which is over by then,
  never tells them that it left.
\<close>

theorem departed_member_announced:
  "let (es, h) = run_hub (\<lambda>s. s) ghost_run demo_hub in
     last es = Sent ''o'' (joined_frame ''2'') \<and> hb_live h = [''o''] \<and>
     presence_members_local h ''presence:room'' None = [demo_actor ''1''] \<and>
     fst (run_hub (\<lambda>s. s) [Socket_closed ''g'', Leave_answered ''g'' True] h) = []"
  by code_simp

text \<open>
  A presence channel can be watched unseen: a destination whose kind reads as \<open>presence\<close>
  without being that string (as \<open>["presence"]\<close>, which the frame parser lets through) is
  subscribed under the key of the presence channel, so that its events are delivered, yet nobody is
  told that a member joined, whatever member the gateway names.
\<close>

theorem unseen_presence_subscription:
  assumes "js_text (dest_kind d) = Some ''presence''" and "dest_kind d \<noteq> JStr ''presence''"
    and "conn_of h c = Some x"
  shows "fst (subscribe_done hash now c d (Gave member) h) =
      (if cn_open x then [Sent c (frame_of ''subscribed'' [(''channel'', destination_json d)])] else []) \<and>
    subscribed (snd (subscribe_done hash now c d (Gave member) h)) c (''presence:'' @ dest_name d)"
proof -
  have k: "\<not> kind_is d ''presence''" using assms(2) by (simp add: kind_is_def)
  have key: "destination_key d = ''presence:'' @ dest_name d"
    using assms(1) by (simp add: destination_key_def text_of_def)
  have eq: "subscribe_done hash now c d (Gave member) h = finish c (send (add_subscription c d h) c
      (frame_of ''subscribed'' [(''channel'', destination_json d)]), add_subscription c d h)"
    using k by (simp add: subscribe_done_def Let_def split: option.split bool.split)
  show ?thesis
    unfolding eq using assms(3)
    by (simp add: finish_def frame_done_def add_subscription_def send_def key)
qed

theorem unseen_presence_subscription_witness:
  "\<not> subscribed (snd (run_hub (\<lambda>s. s) (take 1 (joins_room ''o'' ''1'')) demo_hub)) ''o'' ''presence:room'' \<and>
   (\<exists>d. normalize_destination (Some (JObj [(''kind'', JArr [JStr ''presence'']), (''name'', JStr ''room'')])) = Inr d \<and>
     subscribed (snd (subscribe_done (\<lambda>s. s) 1 ''o'' d (Gave None)
       (snd (run_hub (\<lambda>s. s) (take 1 (joins_room ''o'' ''1'')) demo_hub)))) ''o'' ''presence:room'')"
proof -
  let ?h = "snd (run_hub (\<lambda>s. s) (take 1 (joins_room ''o'' ''1'')) demo_hub)"
  let ?d = "\<lparr>dest_name = ''room'', dest_kind = JArr [JStr ''presence'']\<rparr>"
  have 1: "normalize_destination (Some (JObj [(''kind'', JArr [JStr ''presence'']), (''name'', JStr ''room'')])) = Inr ?d"
    by code_simp
  have 0: "\<not> subscribed ?h ''o'' ''presence:room''" by code_simp
  have "conn_of ?h ''o'' \<noteq> None" by code_simp
  then obtain x where "conn_of ?h ''o'' = Some x" by blast
  from unseen_presence_subscription [OF _ _ this, of ?d "\<lambda>s. s" 1 None] 0 1 show ?thesis
    by (intro conjI exI [of _ ?d]) simp_all
qed

end
