(* ===== verification/RealtimeClient.thy ===== *)
theory RealtimeClient
  imports Protocol "HOL-Library.Multiset"
begin

text \<open>
  The browser client of the realtime protocol (\<open>packages/realtime/src/index.ts\<close>): connecting
  with and without an admission ticket, reconnecting, subscriptions with their listeners, commands
  with their acknowledgements, and the frames the client accepts.

  Every method is an action on the client's state that gives the effects it has, in order: texts
  sent, sockets opened and closed, commands resolved, listeners called. Sockets are numbered; what
  the transport does to one (opening, messages, errors, closing) and the timers that fire are
  events. Listeners of the application are called and do not call back into the client here.
\<close>

subsection \<open>The client's state\<close>

datatype connection_state =
  Idle_state | Connecting | Transport_open | Authenticated | Reconnecting | Disconnected

datatype subscription_state = Pending | Subscribing | Subscribed | Failed | Leaving | Left

record realtime_error =
  re_scope :: string
  re_code :: string
  re_message :: string
  re_retryable :: bool
  re_fatal :: bool
  re_operation :: "json option"
  re_channel :: "destination option"

type_synonym listener = nat

record subscription =
  sb_name :: string
  sb_kind :: string
  sb_state :: subscription_state
  sb_last_error :: "realtime_error option"
  sb_listeners :: "(string, listener list) omap"
  sb_here :: "listener list"
  sb_joining :: "listener list"
  sb_leaving :: "listener list"

record client_options =
  co_url :: string
  co_protocols :: "string list option"
  co_authorization :: bool \<comment> \<open>an authorization endpoint is configured\<close>
  co_reconnect :: bool
  co_minimum_ms :: int
  co_maximum_ms :: int

datatype command_result =
    Acknowledged string
  | Rejected string string string "jsnum option" \<comment> \<open>id, code, message, retryAfterMs\<close>

datatype client_effect =
    Opened nat "string list option"
  | Sent_text nat json
  | Close_requested nat int string
  | Authorization_requested int
  | Resolved string command_result
  | Called listener "json option"
  | Thrown string
  | State_changed connection_state
  | Subscription_changed string subscription_state
  | Error_emitted realtime_error
  | Subscription_error string realtime_error
  | Reconnect_scheduled int

record realtime =
  rt_options :: client_options
  rt_subscriptions :: "(string, subscription) omap"
  rt_subscription_timers :: "(string, string) omap" \<comment> \<open>key to the operation timed\<close>
  rt_pending :: "(string, unit) omap" \<comment> \<open>commands not yet settled, each with its timer\<close>
  rt_socket :: "nat option"
  rt_ready :: "nat \<Rightarrow> nat" \<comment> \<open>\<open>readyState\<close> of each socket made so far\<close>
  rt_next_socket :: nat
  rt_attempt :: nat
  rt_reconnect_timer :: bool
  rt_connection_timer :: "nat option" \<comment> \<open>the socket it was started for\<close>
  rt_authorization_pending :: bool
  rt_sequence :: int
  rt_explicitly_disconnected :: bool
  rt_terminal_failure :: bool
  rt_state :: connection_state
  rt_last_error :: "realtime_error option"

definition new_realtime :: "client_options \<Rightarrow> realtime" where
  "new_realtime o' = \<lparr>rt_options = o', rt_subscriptions = [], rt_subscription_timers = [], rt_pending = [],
     rt_socket = None, rt_ready = (\<lambda>_. 3), rt_next_socket = 0, rt_attempt = 0, rt_reconnect_timer = False,
     rt_connection_timer = None, rt_authorization_pending = False, rt_sequence = 0,
     rt_explicitly_disconnected = False, rt_terminal_failure = False, rt_state = Idle_state,
     rt_last_error = None\<rparr>"

subsection \<open>Actions\<close>

type_synonym act = "realtime \<Rightarrow> client_effect list \<times> realtime"

fun run_acts :: "act list \<Rightarrow> act" where
  "run_acts [] s = ([], s)"
| "run_acts (a # as) s = (let (es, s1) = a s; (es', s2) = run_acts as s1 in (es @ es', s2))"

definition set_rt :: "(realtime \<Rightarrow> realtime) \<Rightarrow> act" where
  "set_rt f s = ([], f s)"

definition emit :: "client_effect list \<Rightarrow> act" where
  "emit es s = (es, s)"

definition transition :: "connection_state \<Rightarrow> act" where
  "transition st s = (if rt_state s = st then ([], s) else ([State_changed st], s\<lparr>rt_state := st\<rparr>))"

definition emit_connection_error :: "realtime_error \<Rightarrow> act" where
  "emit_connection_error e s = ([Error_emitted e], s\<lparr>rt_last_error := Some e\<rparr>)"

definition connection_error :: "string \<Rightarrow> string \<Rightarrow> bool \<Rightarrow> bool \<Rightarrow> string \<Rightarrow> act" where
  "connection_error code message retryable fatal operation =
     emit_connection_error \<lparr>re_scope = ''connection'', re_code = code, re_message = message,
       re_retryable = retryable, re_fatal = fatal, re_operation = Some (JStr operation), re_channel = None\<rparr>"

text \<open>\<open>socket.close(code, reason)\<close>.\<close>

definition close_rt_socket :: "nat \<Rightarrow> int \<Rightarrow> string \<Rightarrow> act" where
  "close_rt_socket n code reason s =
     ([Close_requested n code reason], s\<lparr>rt_ready := (rt_ready s)(n := max 2 (rt_ready s n))\<rparr>)"

definition close_current :: "int \<Rightarrow> string \<Rightarrow> act" where
  "close_current code reason s = (case rt_socket s of
     None \<Rightarrow> ([], s) | Some n \<Rightarrow> close_rt_socket n code reason s)"

definition protocol_error :: "string \<Rightarrow> string \<Rightarrow> bool \<Rightarrow> act" where
  "protocol_error code message fatal = run_acts
     [emit_connection_error \<lparr>re_scope = ''protocol'', re_code = code, re_message = message,
        re_retryable = (\<not> fatal), re_fatal = fatal, re_operation = Some (JStr ''receive''), re_channel = None\<rparr>,
      (\<lambda>s. if fatal then run_acts [set_rt (\<lambda>s. s\<lparr>rt_terminal_failure := True\<rparr>), close_current 4400 code] s
           else ([], s))]"

text \<open>
  \<open>#send\<close>: nothing unless the socket is open; \<open>throws\<close> is the message of a send that throws.
\<close>

definition send_rt :: "string option \<Rightarrow> json \<Rightarrow> act" where
  "send_rt throws frame s = (case rt_socket s of
     None \<Rightarrow> ([], s)
   | Some n \<Rightarrow>
       if rt_ready s n \<noteq> 1 then ([], s)
       else (case throws of
               None \<Rightarrow> ([Sent_text n frame], s)
             | Some message \<Rightarrow> run_acts
                 [connection_error ''send_failed'' message True False ''receive'',
                  close_rt_socket n 4400 ''Send failed''] s))"

subsection \<open>Timers\<close>

definition clear_connection_timeout :: act where
  "clear_connection_timeout = set_rt (\<lambda>s. s\<lparr>rt_connection_timer := None\<rparr>)"

definition start_connection_timeout :: "nat \<Rightarrow> act" where
  "start_connection_timeout n = run_acts
     [clear_connection_timeout, set_rt (\<lambda>s. s\<lparr>rt_connection_timer := Some n\<rparr>)]"

definition clear_subscription_timer :: "string \<Rightarrow> act" where
  "clear_subscription_timer key = set_rt (\<lambda>s. s\<lparr>rt_subscription_timers := om_delete key (rt_subscription_timers s)\<rparr>)"

definition clear_subscription_timers :: act where
  "clear_subscription_timers = set_rt (\<lambda>s. s\<lparr>rt_subscription_timers := []\<rparr>)"

definition start_subscription_timeout :: "string \<Rightarrow> string \<Rightarrow> act" where
  "start_subscription_timeout key operation = run_acts
     [clear_subscription_timer key,
      set_rt (\<lambda>s. s\<lparr>rt_subscription_timers := om_set key operation (rt_subscription_timers s)\<rparr>)]"

text \<open>
  \<open>#scheduleReconnect\<close>: the delay is given by its base before the random factor of 0.75 to 1.25.
\<close>

definition reconnect_base :: "realtime \<Rightarrow> int" where
  "reconnect_base s = min (co_maximum_ms (rt_options s)) (co_minimum_ms (rt_options s) * 2 ^ rt_attempt s)"

definition schedule_reconnect :: act where
  "schedule_reconnect s =
     (if rt_reconnect_timer s \<or> rt_explicitly_disconnected s \<or> rt_terminal_failure s \<or>
         \<not> co_reconnect (rt_options s)
      then ([], s)
      else run_acts [transition Reconnecting,
             (\<lambda>s. ([Reconnect_scheduled (reconnect_base s)],
                   s\<lparr>rt_attempt := rt_attempt s + 1, rt_reconnect_timer := True\<rparr>))] s)"

subsection \<open>Subscriptions\<close>

definition put_sub :: "string \<Rightarrow> subscription \<Rightarrow> realtime \<Rightarrow> realtime" where
  "put_sub key b s = s\<lparr>rt_subscriptions := om_set key b (rt_subscriptions s)\<rparr>"

text \<open>\<open>Subscription.transition\<close>, \<open>fail\<close> and \<open>reset\<close> on the subscription with a key.\<close>

definition sub_transition :: "string \<Rightarrow> subscription_state \<Rightarrow> act" where
  "sub_transition key st s = (case om_get (rt_subscriptions s) key of
     None \<Rightarrow> ([], s)
   | Some b \<Rightarrow> if sb_state b = st then ([], s)
               else ([Subscription_changed key st], put_sub key (b\<lparr>sb_state := st\<rparr>) s))"

definition sub_set_error :: "string \<Rightarrow> realtime_error option \<Rightarrow> act" where
  "sub_set_error key e s = (case om_get (rt_subscriptions s) key of
     None \<Rightarrow> ([], s) | Some b \<Rightarrow> ([], put_sub key (b\<lparr>sb_last_error := e\<rparr>) s))"

definition sub_fail :: "string \<Rightarrow> realtime_error \<Rightarrow> act" where
  "sub_fail key e s = (case om_get (rt_subscriptions s) key of
     None \<Rightarrow> ([], s)
   | Some b \<Rightarrow> run_acts [sub_set_error key (Some e), sub_transition key Failed,
                emit [Subscription_error key e]] s)"

definition sub_reset :: "string \<Rightarrow> act" where
  "sub_reset key = run_acts [sub_set_error key None, sub_transition key Pending]"

definition sub_destination :: "subscription \<Rightarrow> destination" where
  "sub_destination b = \<lparr>dest_name = sb_name b, dest_kind = JStr (sb_kind b)\<rparr>"

definition channel_frame :: "string \<Rightarrow> subscription \<Rightarrow> json" where
  "channel_frame ty b = JObj [(''protocol'', keryx_protocol), (''type'', JStr ty),
     (''channel'', destination_json (sub_destination b))]"

definition subscribe_rt :: "string option \<Rightarrow> string \<Rightarrow> act" where
  "subscribe_rt throws key s = (case om_get (rt_subscriptions s) key of
     None \<Rightarrow> ([], s)
   | Some b \<Rightarrow>
       if sb_state b = Leaving \<or> sb_state b = Left then ([], s)
       else run_acts [sub_transition key Subscribing, send_rt throws (channel_frame ''subscribe'' b),
              start_subscription_timeout key ''subscribe''] s)"

subsection \<open>Connecting\<close>

definition ticket_subprotocol_prefix :: string where
  "ticket_subprotocol_prefix = ''doxa.ticket.''"

definition realtime_subprotocol :: string where
  "realtime_subprotocol = ''doxa.realtime.v3''"

definition protocols_with_ticket :: "string list option \<Rightarrow> string \<Rightarrow> string + string list" where
  "protocols_with_ticket configured ticket =
     (let requested = (case configured of None \<Rightarrow> [] | Some ps \<Rightarrow> ps) in
      if list_ex (prefix ticket_subprotocol_prefix) requested
      then Inl ''Realtime protocols may not supply a Keryx admission ticket.''
      else Inr (realtime_subprotocol # filter (\<lambda>p. p \<noteq> realtime_subprotocol) requested @
                [ticket_subprotocol_prefix @ ticket]))"

text \<open>
  \<open>#openSocket\<close>; \<open>factory\<close> is the message of a factory that throws. A ticket of length zero
  counts as none.
\<close>

definition open_socket :: "string option \<Rightarrow> int \<Rightarrow> string option \<Rightarrow> act" where
  "open_socket factory sequence ticket s =
     (if sequence \<noteq> rt_sequence s \<or> rt_explicitly_disconnected s then ([], s)
      else (case (if ticket = None \<or> ticket = Some [] then Inr (co_protocols (rt_options s))
                  else map_sum (\<lambda>e. e) Some (protocols_with_ticket (co_protocols (rt_options s)) (the ticket))) of
        Inl message \<Rightarrow> run_acts [connection_error ''connection_failed'' message True False ''connect'',
          schedule_reconnect] s
      | Inr protocols \<Rightarrow>
         (case factory of
            Some message \<Rightarrow> run_acts [connection_error ''connection_failed'' message True False ''connect'',
              schedule_reconnect] s
          | None \<Rightarrow> (let n = rt_next_socket s in run_acts
              [emit [Opened n protocols],
               set_rt (\<lambda>s. s\<lparr>rt_socket := Some n, rt_next_socket := n + 1, rt_ready := (rt_ready s)(n := 0)\<rparr>),
               start_connection_timeout n] s))))"

definition connect :: "string option \<Rightarrow> act" where
  "connect factory s =
     (if (case rt_socket s of None \<Rightarrow> False | Some n \<Rightarrow> rt_ready s n < 2) \<or> rt_authorization_pending s
      then ([], s)
      else run_acts
        [set_rt (\<lambda>s. s\<lparr>rt_explicitly_disconnected := False, rt_terminal_failure := False\<rparr>),
         (\<lambda>s. transition (if rt_attempt s = 0 then Connecting else Reconnecting) s),
         set_rt (\<lambda>s. s\<lparr>rt_sequence := rt_sequence s + 1\<rparr>),
         (\<lambda>s. if co_authorization (rt_options s)
              then ([Authorization_requested (rt_sequence s)], s\<lparr>rt_authorization_pending := True\<rparr>)
              else open_socket factory (rt_sequence s) None s)] s)"

definition settle_pending_commands :: "string \<Rightarrow> string \<Rightarrow> act" where
  "settle_pending_commands code message s =
     (map (\<lambda>e. Resolved (fst e) (Rejected (fst e) code message None)) (rt_pending s), s\<lparr>rt_pending := []\<rparr>)"

definition disconnect_client :: act where
  "disconnect_client = run_acts
     [set_rt (\<lambda>s. s\<lparr>rt_sequence := rt_sequence s + 1, rt_authorization_pending := False,
         rt_explicitly_disconnected := True, rt_terminal_failure := False, rt_reconnect_timer := False\<rparr>),
      clear_connection_timeout, clear_subscription_timers,
      settle_pending_commands ''command_disconnected'' ''The realtime client disconnected.'',
      close_current 1000 ''Client disconnect'',
      set_rt (\<lambda>s. s\<lparr>rt_socket := None\<rparr>),
      (\<lambda>s. run_acts (map (\<lambda>e s. case om_get (rt_subscriptions s) (fst e) of
           None \<Rightarrow> ([], s)
         | Some b \<Rightarrow> if sb_state b \<noteq> Left then sub_reset (fst e) s else ([], s)) (rt_subscriptions s)) s),
      transition Disconnected]"

text \<open>What a transport does to the current socket; one that was replaced is ignored.\<close>

definition socket_opened :: "nat \<Rightarrow> act" where
  "socket_opened n s =
     (let s1 = s\<lparr>rt_ready := (rt_ready s)(n := max 1 (rt_ready s n))\<rparr> in
      if rt_socket s1 \<noteq> Some n then ([], s1) else transition Transport_open s1)"

definition socket_errored :: "nat \<Rightarrow> act" where
  "socket_errored n s =
     (if rt_socket s \<noteq> Some n then ([], s)
      else connection_error ''transport_error'' ''The realtime transport reported an error.'' True False ''connect'' s)"

definition socket_closed :: "nat \<Rightarrow> int \<Rightarrow> string \<Rightarrow> act" where
  "socket_closed n code reason s =
     (let s1 = s\<lparr>rt_ready := (rt_ready s)(n := 3)\<rparr> in
      if rt_socket s1 \<noteq> Some n then ([], s1)
      else run_acts
        [set_rt (\<lambda>s. s\<lparr>rt_socket := None\<rparr>),
         clear_connection_timeout, clear_subscription_timers,
         settle_pending_commands ''command_disconnected'' ''The realtime connection closed.'',
         (\<lambda>s. run_acts (map (\<lambda>e s. case om_get (rt_subscriptions s) (fst e) of
              None \<Rightarrow> ([], s)
            | Some b \<Rightarrow> if sb_state b \<notin> {Leaving, Left} then sub_reset (fst e) s else ([], s))
            (rt_subscriptions s)) s),
         (\<lambda>s. if code = 4401 \<or> code = 4403
              then run_acts [set_rt (\<lambda>s. s\<lparr>rt_terminal_failure := True\<rparr>),
                     connection_error ''authentication_failed''
                       (if reason = [] then ''Realtime authentication failed.'' else reason) False True ''connect''] s
              else ([], s)),
         transition Disconnected,
         (\<lambda>s. if \<not> rt_explicitly_disconnected s \<and> \<not> rt_terminal_failure s then schedule_reconnect s else ([], s))] s1)"

definition connection_timeout :: act where
  "connection_timeout s = (case rt_connection_timer s of
     None \<Rightarrow> ([], s)
   | Some n \<Rightarrow>
       if rt_socket s \<noteq> Some n \<or> rt_state s = Authenticated then ([], s)
       else run_acts
         [connection_error ''connection_timeout''
            ''Keryx did not authenticate the connection before the deadline.'' True False ''connect'',
          close_rt_socket n 4408 ''Connection timeout''] s)"

definition reconnect_timer_fires :: "string option \<Rightarrow> act" where
  "reconnect_timer_fires factory s =
     (if \<not> rt_reconnect_timer s then ([], s)
      else connect factory (s\<lparr>rt_reconnect_timer := False\<rparr>))"

subsection \<open>Admission\<close>

text \<open>
  What the authorization endpoint came back with: no \<open>fetch\<close> at hand, a request that failed, or
  a response with its \<open>ok\<close> flag, status and parsed body (\<open>None\<close> where the body is not JSON).
\<close>

datatype authorization_outcome =
    Fetch_missing
  | Fetch_failed string
  | Responded bool int "json option"

record authorization_failure =
  af_code :: string
  af_message :: string
  af_retryable :: bool
  af_fatal :: bool

definition ticket_char :: "char \<Rightarrow> bool" where
  "ticket_char c \<longleftrightarrow> is_alnum c \<or> c \<in> {CHR ''.'', CHR ''_'', CHR ''~'', CHR ''-''}"

definition ticket_of_document :: "json \<Rightarrow> json option" where
  "ticket_of_document document =
     (if is_record document
      then (case jfield document ''data'' of
              None \<Rightarrow> None | Some d \<Rightarrow> if is_record d then jfield d ''ticket'' else None)
      else None)"

definition request_connection_ticket ::
  "(int \<Rightarrow> string) \<Rightarrow> authorization_outcome \<Rightarrow> authorization_failure + string" where
  "request_connection_ticket show_status outcome = (case outcome of
     Fetch_missing \<Rightarrow> Inl \<lparr>af_code = ''authorization_unavailable'',
       af_message = ''No Fetch implementation is available for realtime authorization.'',
       af_retryable = False, af_fatal = True\<rparr>
   | Fetch_failed message \<Rightarrow> Inl \<lparr>af_code = ''authorization_failed'', af_message = message,
       af_retryable = True, af_fatal = False\<rparr>
   | Responded ok status document \<Rightarrow>
       if \<not> ok then
         (let retryable = (status = 408 \<or> status = 429 \<or> 500 \<le> status) in
          Inl \<lparr>af_code = (if status = 401 \<or> status = 403 then ''authorization_denied''
                           else ''authorization_failed''),
               af_message = ''Realtime authorization failed with HTTP '' @ show_status status @ ''.'',
               af_retryable = retryable, af_fatal = (\<not> retryable)\<rparr>)
       else (case document of
         None \<Rightarrow> Inl \<lparr>af_code = ''authorization_invalid'',
           af_message = ''Realtime authorization returned malformed JSON.'',
           af_retryable = False, af_fatal = True\<rparr>
       | Some body \<Rightarrow>
         (case opt_string (ticket_of_document body) of
            Some ticket \<Rightarrow>
              if length ticket = 0 \<or> length ticket > 8192 \<or> \<not> list_all ticket_char ticket
              then Inl \<lparr>af_code = ''authorization_invalid'',
                af_message = ''Realtime authorization returned an invalid connection ticket.'',
                af_retryable = False, af_fatal = True\<rparr>
              else Inr ticket
          | None \<Rightarrow> Inl \<lparr>af_code = ''authorization_invalid'',
              af_message = ''Realtime authorization returned an invalid connection ticket.'',
              af_retryable = False, af_fatal = True\<rparr>)))"

text \<open>\<open>#authorizeAndOpen(sequence)\<close>, from the moment its request has come back.\<close>

definition authorize_and_open ::
  "(int \<Rightarrow> string) \<Rightarrow> string option \<Rightarrow> int \<Rightarrow> authorization_outcome \<Rightarrow> act" where
  "authorize_and_open show_status factory sequence outcome = run_acts
     [(\<lambda>s. case request_connection_ticket show_status outcome of
         Inr ticket \<Rightarrow> open_socket factory sequence (Some ticket) s
       | Inl failure \<Rightarrow>
           if sequence \<noteq> rt_sequence s \<or> rt_explicitly_disconnected s then ([], s)
           else run_acts
             [set_rt (\<lambda>s. s\<lparr>rt_terminal_failure := af_fatal failure\<rparr>),
              connection_error (af_code failure) (af_message failure) (af_retryable failure)
                (af_fatal failure) ''connect'',
              transition Disconnected,
              (\<lambda>s. if af_retryable failure then schedule_reconnect s else ([], s))] s),
      (\<lambda>s. if sequence = rt_sequence s then ([], s\<lparr>rt_authorization_pending := False\<rparr>) else ([], s))]"

subsection \<open>Commands\<close>

definition command_frame :: "string \<Rightarrow> string \<Rightarrow> json \<Rightarrow> json" where
  "command_frame ident name payload = JObj [(''protocol'', keryx_protocol), (''type'', JStr ''command''),
     (''id'', JStr ident), (''command'', JStr name), (''payload'', payload)]"

text \<open>\<open>assertJson\<close> of the client: the check of the server with its own messages.\<close>

definition assert_client_json :: "json option \<Rightarrow> string + json" where
  "assert_client_json payload = (case payload of
     None \<Rightarrow> Inl ''Realtime command payload must be JSON.''
   | Some v \<Rightarrow> (case assert_json 0 v of
       Inr _ \<Rightarrow> Inr v
     | Inl message \<Rightarrow> Inl (if message = ''Published data is nested too deeply.''
         then ''Realtime command payload is nested too deeply.''
         else ''Realtime command payload must be JSON.'')))"

definition command_rt :: "string option \<Rightarrow> string \<Rightarrow> string \<Rightarrow> json option \<Rightarrow> act" where
  "command_rt throws ident name payload s =
     (if \<not> command_name_ok name then ([Thrown ''Invalid realtime command name.''], s)
      else (case assert_client_json payload of
        Inl message \<Rightarrow> ([Thrown message], s)
      | Inr v \<Rightarrow>
         if rt_state s \<noteq> Authenticated then
           ([Resolved ident (Rejected ident ''command_not_connected'' ''Realtime is not authenticated.'' None)], s)
         else run_acts
           [set_rt (\<lambda>s. s\<lparr>rt_pending := om_set ident () (rt_pending s)\<rparr>),
            send_rt throws (command_frame ident name v)] s))"

definition command_timeout :: "string \<Rightarrow> act" where
  "command_timeout ident s =
     (if \<not> om_has (rt_pending s) ident then ([], s)
      else ([Resolved ident (Rejected ident ''command_ack_timeout''
              ''Keryx did not acknowledge the command before the deadline.'' None)],
            s\<lparr>rt_pending := om_delete ident (rt_pending s)\<rparr>))"

definition opt_number :: "json option \<Rightarrow> jsnum option" where
  "opt_number v = (case v of Some (JNum n) \<Rightarrow> Some n | _ \<Rightarrow> None)"

definition invalid_ack :: act where
  "invalid_ack = protocol_error ''invalid_command_ack'' ''Keryx sent an invalid command acknowledgement.'' False"

definition command_error_of :: "json \<Rightarrow> (string \<times> string \<times> jsnum option) option" where
  "command_error_of frame = (case jfield frame ''error'' of
     None \<Rightarrow> None
   | Some e \<Rightarrow>
      if \<not> is_record e then None
      else (case opt_string (jfield e ''code'') of
         None \<Rightarrow> None
       | Some code \<Rightarrow> (case opt_string (jfield e ''message'') of
           None \<Rightarrow> None
         | Some message \<Rightarrow> Some (code, message, opt_number (jfield e ''retryAfterMs'')))))"

definition receive_command_ack :: "json \<Rightarrow> act" where
  "receive_command_ack frame s =
     (case opt_string (jfield frame ''id'') of
        None \<Rightarrow> invalid_ack s
      | Some ident \<Rightarrow>
        (case jfield frame ''ok'' of
           Some (JBool ok) \<Rightarrow>
             if \<not> om_has (rt_pending s) ident then ([], s)
             else (let s1 = s\<lparr>rt_pending := om_delete ident (rt_pending s)\<rparr> in
               if ok then ([Resolved ident (Acknowledged ident)], s1)
               else (case command_error_of frame of
                 None \<Rightarrow> run_acts [invalid_ack, emit [Resolved ident
                   (Rejected ident ''command_failed'' ''Keryx rejected the command.'' None)]] s1
               | Some (code, message, retry) \<Rightarrow>
                   ([Resolved ident (Rejected ident code message retry)], s1)))
         | _ \<Rightarrow> invalid_ack s))"

subsection \<open>Channels and listeners\<close>

definition new_subscription :: "string \<Rightarrow> string \<Rightarrow> subscription" where
  "new_subscription name kind = \<lparr>sb_name = name, sb_kind = kind, sb_state = Pending, sb_last_error = None,
     sb_listeners = [], sb_here = [], sb_joining = [], sb_leaving = []\<rparr>"

definition subscription_key :: "string \<Rightarrow> string \<Rightarrow> string" where
  "subscription_key kind name = kind @ '':'' @ name"

text \<open>
  \<open>#channel\<close> behind \<open>channel\<close>, \<open>private\<close> and \<open>presence\<close>, which give the kind. The name is
  matched with \<open>/^[A-Za-z0-9][A-Za-z0-9_.:-]{0,199}$/\<close>.
\<close>

definition client_channel_name_ok :: "string \<Rightarrow> bool" where
  "client_channel_name_ok = name_pattern is_alnum channel_char 0 199"

definition channel_rt :: "string option \<Rightarrow> string option \<Rightarrow> string \<Rightarrow> string \<Rightarrow> act" where
  "channel_rt factory throws name kind s =
     (if \<not> client_channel_name_ok name then ([Thrown ''Invalid realtime channel name.''], s)
      else (let key = subscription_key kind name in
        case om_get (rt_subscriptions s) key of
          Some existing \<Rightarrow> ([], s)
        | None \<Rightarrow> run_acts
           [set_rt (put_sub key (new_subscription name kind)),
            connect factory,
            (\<lambda>s. if rt_state s = Authenticated then subscribe_rt throws key s else ([], s))] s))"

definition leave_one :: "string option \<Rightarrow> string \<Rightarrow> act" where
  "leave_one throws key s = (case om_get (rt_subscriptions s) key of
     None \<Rightarrow> ([], s)
   | Some b \<Rightarrow> run_acts
       [clear_subscription_timer key,
        (\<lambda>s. if rt_state s \<noteq> Authenticated
             then run_acts [sub_transition key Left,
                    set_rt (\<lambda>s. s\<lparr>rt_subscriptions := om_delete key (rt_subscriptions s)\<rparr>)] s
             else run_acts [sub_transition key Leaving, send_rt throws (channel_frame ''unsubscribe'' b),
                    start_subscription_timeout key ''unsubscribe''] s)] s)"

definition leave_rt :: "string option \<Rightarrow> string \<Rightarrow> string option \<Rightarrow> act" where
  "leave_rt throws name kind s = run_acts
     (map (\<lambda>e. leave_one throws (fst e))
        (filter (\<lambda>e. sb_name (snd e) = name \<and> (case kind of None \<Rightarrow> True | Some k \<Rightarrow> sb_kind (snd e) = k))
           (rt_subscriptions s))) s"

text \<open>Adding to a \<open>Set\<close> of listeners, and the operations of a subscription that is still held.\<close>

definition add_listener :: "listener \<Rightarrow> listener list \<Rightarrow> listener list" where
  "add_listener l ls = (if l \<in> set ls then ls else ls @ [l])"

definition update_sub :: "string \<Rightarrow> (subscription \<Rightarrow> subscription) \<Rightarrow> act" where
  "update_sub key f s = (case om_get (rt_subscriptions s) key of
     None \<Rightarrow> ([], s) | Some b \<Rightarrow> ([], put_sub key (f b) s))"

definition listen :: "string \<Rightarrow> string \<Rightarrow> listener \<Rightarrow> act" where
  "listen key event l = update_sub key (\<lambda>b. b\<lparr>sb_listeners := om_set event
     (add_listener l (case om_get (sb_listeners b) event of None \<Rightarrow> [] | Some ls \<Rightarrow> ls)) (sb_listeners b)\<rparr>)"

definition listen_here :: "string \<Rightarrow> listener \<Rightarrow> act" where
  "listen_here key l = update_sub key (\<lambda>b. b\<lparr>sb_here := add_listener l (sb_here b)\<rparr>)"

definition listen_joining :: "string \<Rightarrow> listener \<Rightarrow> act" where
  "listen_joining key l = update_sub key (\<lambda>b. b\<lparr>sb_joining := add_listener l (sb_joining b)\<rparr>)"

definition listen_leaving :: "string \<Rightarrow> listener \<Rightarrow> act" where
  "listen_leaving key l = update_sub key (\<lambda>b. b\<lparr>sb_leaving := add_listener l (sb_leaving b)\<rparr>)"

definition remove_listener :: "string \<Rightarrow> listener option \<Rightarrow> subscription \<Rightarrow> subscription" where
  "remove_listener event l b = (case l of
     None \<Rightarrow> b\<lparr>sb_listeners := om_delete event (sb_listeners b)\<rparr>
   | Some l \<Rightarrow> (case om_get (sb_listeners b) event of
       None \<Rightarrow> b
     | Some ls \<Rightarrow> b\<lparr>sb_listeners := om_set event (filter (\<lambda>l'. l' \<noteq> l) ls) (sb_listeners b)\<rparr>))"

definition unheard :: "subscription \<Rightarrow> bool" where
  "unheard b \<longleftrightarrow> list_all (\<lambda>e. snd e = []) (sb_listeners b) \<and> sb_here b = [] \<and> sb_joining b = [] \<and> sb_leaving b = []"

definition stop_listening :: "string option \<Rightarrow> string \<Rightarrow> string \<Rightarrow> listener option \<Rightarrow> act" where
  "stop_listening throws key event l s = (case om_get (rt_subscriptions s) key of
     None \<Rightarrow> ([], s)
   | Some b \<Rightarrow> run_acts
       [update_sub key (remove_listener event l),
        (\<lambda>s. if unheard (remove_listener event l b)
             then leave_rt throws (sb_name b) (Some (sb_kind b)) s else ([], s))] s)"

definition dispatch :: "string \<Rightarrow> string \<Rightarrow> json option \<Rightarrow> act" where
  "dispatch key event data s = (case om_get (rt_subscriptions s) key of
     None \<Rightarrow> ([], s)
   | Some b \<Rightarrow> (map (\<lambda>l. Called l data)
       (case om_get (sb_listeners b) event of None \<Rightarrow> [] | Some ls \<Rightarrow> ls), s))"

definition is_member :: "json option \<Rightarrow> bool" where
  "is_member v = (case v of
     Some (JObj kvs) \<Rightarrow> is_string (jfield (JObj kvs) ''kind'') \<and>
       (jfield (JObj kvs) ''id'' = None \<or> is_string (jfield (JObj kvs) ''id''))
   | _ \<Rightarrow> False)"

definition presence_event :: "string \<Rightarrow> string \<Rightarrow> json option \<Rightarrow> act" where
  "presence_event key ty v s = (case om_get (rt_subscriptions s) key of
     None \<Rightarrow> ([], s)
   | Some b \<Rightarrow>
      (if ty = ''subscribed'' \<and> opt_array v \<noteq> None then map (\<lambda>l. Called l v) (sb_here b)
       else if ty = ''presence_joined'' \<and> is_member v then map (\<lambda>l. Called l v) (sb_joining b)
       else if ty = ''presence_left'' \<and> is_member v then map (\<lambda>l. Called l v) (sb_leaving b)
       else [], s))"

definition subscription_timeout :: "string \<Rightarrow> act" where
  "subscription_timeout key s = (case om_get (rt_subscription_timers s) key of
     None \<Rightarrow> ([], s)
   | Some operation \<Rightarrow> (case om_get (rt_subscriptions s) key of
       None \<Rightarrow> clear_subscription_timer key s
     | Some b \<Rightarrow> run_acts
        [clear_subscription_timer key,
         sub_fail key \<lparr>re_scope = ''subscription'', re_code = operation @ ''_timeout'',
           re_message = ''Keryx did not acknowledge '' @ operation @ '' before the deadline.'',
           re_retryable = True, re_fatal = False, re_operation = Some (JStr operation),
           re_channel = Some (sub_destination b)\<rparr>] s))"

subsection \<open>Frames\<close>

definition is_channel :: "json option \<Rightarrow> bool" where
  "is_channel v = (case v of
     Some (JObj kvs) \<Rightarrow> is_string (jfield (JObj kvs) ''name'') \<and>
       text_among (jfield (JObj kvs) ''kind'') channel_kinds
   | _ \<Rightarrow> False)"

definition channel_of :: "json option \<Rightarrow> destination" where
  "channel_of v = (case v of
     None \<Rightarrow> \<lparr>dest_name = [], dest_kind = JNull\<rparr>
   | Some c \<Rightarrow> \<lparr>dest_name = (case opt_string (jfield c ''name'') of None \<Rightarrow> [] | Some n \<Rightarrow> n),
               dest_kind = opt_json (jfield c ''kind'')\<rparr>)"

definition is_event_frame :: "json \<Rightarrow> bool" where
  "is_event_frame frame \<longleftrightarrow> is_string (jfield frame ''id'') \<and> is_string (jfield frame ''event'') \<and>
     is_channel (jfield frame ''channel'') \<and> is_string (jfield frame ''occurredAt'')"

definition realtime_operations :: "string list" where
  "realtime_operations = [''connect'', ''subscribe'', ''unsubscribe'', ''command'', ''receive'']"

definition frame_error :: "json \<Rightarrow> realtime_error" where
  "frame_error frame = \<lparr>
     re_scope = (if is_channel (jfield frame ''channel'') then ''subscription'' else ''connection''),
     re_code = (case opt_string (jfield frame ''code'') of None \<Rightarrow> ''keryx_error'' | Some c \<Rightarrow> c),
     re_message = (case opt_string (jfield frame ''message'') of
        None \<Rightarrow> ''Keryx rejected the realtime operation.'' | Some m \<Rightarrow> m),
     re_retryable = (jfield frame ''retryable'' = Some (JBool True)),
     re_fatal = (jfield frame ''fatal'' = Some (JBool True)),
     re_operation = (if text_among (jfield frame ''operation'') realtime_operations
        then jfield frame ''operation'' else None),
     re_channel = (if is_channel (jfield frame ''channel'')
        then Some (channel_of (jfield frame ''channel'')) else None)\<rparr>"

definition receive_error :: "json \<Rightarrow> act" where
  "receive_error frame =
     (let e = frame_error frame in run_acts
       [(case re_channel e of
           Some c \<Rightarrow> run_acts [clear_subscription_timer (destination_key c), sub_fail (destination_key c) e]
         | None \<Rightarrow> emit_connection_error e),
        (\<lambda>s. if re_fatal e
             then run_acts [set_rt (\<lambda>s. s\<lparr>rt_terminal_failure := True\<rparr>), close_current 4403 (re_code e)] s
             else ([], s))])"

text \<open>The frames about one channel the client holds.\<close>

definition receive_channel :: "string \<Rightarrow> string \<Rightarrow> json \<Rightarrow> act" where
  "receive_channel ty key frame =
     (if ty = ''subscribed'' then run_acts [clear_subscription_timer key, sub_transition key Subscribed,
        presence_event key ''subscribed'' (jfield frame ''members'')]
      else if ty = ''unsubscribed'' then run_acts [clear_subscription_timer key, sub_transition key Left,
        set_rt (\<lambda>s. s\<lparr>rt_subscriptions := om_delete key (rt_subscriptions s)\<rparr>)]
      else if ty = ''presence_joined'' then presence_event key ''presence_joined'' (jfield frame ''member'')
      else if ty = ''presence_left'' then presence_event key ''presence_left'' (jfield frame ''member'')
      else protocol_error ''unsupported_frame'' (''Unsupported Keryx frame '' @ ty @ ''.'') False)"

definition receive_connected :: "string option \<Rightarrow> json \<Rightarrow> act" where
  "receive_connected throws frame s =
     (if \<not> is_string (jfield frame ''connectionId'')
      then protocol_error ''invalid_connected'' ''Keryx sent an invalid connected frame.'' True s
      else run_acts
        [clear_connection_timeout, set_rt (\<lambda>s. s\<lparr>rt_attempt := 0, rt_last_error := None\<rparr>),
         transition Authenticated,
         (\<lambda>s. run_acts (map (\<lambda>e. subscribe_rt throws (fst e)) (rt_subscriptions s)) s)] s)"

definition receive_rt :: "string option \<Rightarrow> json option \<Rightarrow> act" where
  "receive_rt throws parsed s = (case parsed of
     None \<Rightarrow> protocol_error ''invalid_json'' ''Keryx sent malformed JSON.'' True s
   | Some frame \<Rightarrow>
     if frame = JNull then ([Thrown ''Cannot read properties of null''], s)
     else (case opt_string (jfield frame ''type'') of
       None \<Rightarrow> protocol_error ''unsupported_protocol'' ''Expected Keryx protocol 3.'' True s
     | Some ty \<Rightarrow>
       if jfield frame ''protocol'' \<noteq> Some keryx_protocol
       then protocol_error ''unsupported_protocol'' ''Expected Keryx protocol 3.'' True s
       else if ty = ''connected'' then receive_connected throws frame s
       else if ty = ''error'' then receive_error frame s
       else if ty = ''event'' \<and> is_event_frame frame
       then dispatch (destination_key (channel_of (jfield frame ''channel'')))
              (the (opt_string (jfield frame ''event''))) (jfield frame ''data'') s
       else if ty = ''command_ack'' then receive_command_ack frame s
       else if ty = ''pong'' then ([], s)
       else if \<not> is_channel (jfield frame ''channel'')
       then protocol_error ''invalid_frame'' ''Keryx sent an invalid channel frame.'' False s
       else (let key = destination_key (channel_of (jfield frame ''channel'')) in
         if om_get (rt_subscriptions s) key = None then ([], s) else receive_channel ty key frame s)))"

subsection \<open>Runs\<close>

text \<open>
  What may happen to a client: calls of the application, the transport, timers, and an
  authorization that comes back. Texts of failures, parsed frames and fresh command ids are the
  environment's.
\<close>

datatype client_event =
    Ev_connect "string option"
  | Ev_disconnect
  | Ev_channel "string option" "string option" string string
  | Ev_leave "string option" string "string option"
  | Ev_listen string string listener
  | Ev_here string listener
  | Ev_joining string listener
  | Ev_leaving string listener
  | Ev_stop_listening "string option" string string "listener option"
  | Ev_command "string option" string string "json option"
  | Ev_authorized "string option" int authorization_outcome
  | Ev_opened nat
  | Ev_message nat "string option" "json option"
  | Ev_errored nat
  | Ev_closed nat int string
  | Ev_reconnect_timer "string option"
  | Ev_connection_timeout
  | Ev_subscription_timeout string
  | Ev_command_timeout string

fun client_step :: "(int \<Rightarrow> string) \<Rightarrow> client_event \<Rightarrow> act" where
  "client_step show_status (Ev_connect factory) = connect factory"
| "client_step show_status Ev_disconnect = disconnect_client"
| "client_step show_status (Ev_channel factory throws name kind) = channel_rt factory throws name kind"
| "client_step show_status (Ev_leave throws name kind) = leave_rt throws name kind"
| "client_step show_status (Ev_listen key event l) = listen key event l"
| "client_step show_status (Ev_here key l) = listen_here key l"
| "client_step show_status (Ev_joining key l) = listen_joining key l"
| "client_step show_status (Ev_leaving key l) = listen_leaving key l"
| "client_step show_status (Ev_stop_listening throws key event l) = stop_listening throws key event l"
| "client_step show_status (Ev_command throws ident name payload) = command_rt throws ident name payload"
| "client_step show_status (Ev_authorized factory sequence outcome) =
     authorize_and_open show_status factory sequence outcome"
| "client_step show_status (Ev_opened n) = socket_opened n"
| "client_step show_status (Ev_message n throws parsed) =
     (\<lambda>s. if rt_socket s = Some n then receive_rt throws parsed s else ([], s))"
| "client_step show_status (Ev_errored n) = socket_errored n"
| "client_step show_status (Ev_closed n code reason) = socket_closed n code reason"
| "client_step show_status (Ev_reconnect_timer factory) = reconnect_timer_fires factory"
| "client_step show_status Ev_connection_timeout = connection_timeout"
| "client_step show_status (Ev_subscription_timeout key) = subscription_timeout key"
| "client_step show_status (Ev_command_timeout ident) = command_timeout ident"

definition client_run :: "(int \<Rightarrow> string) \<Rightarrow> client_event list \<Rightarrow> act" where
  "client_run show_status evs = run_acts (map (client_step show_status) evs)"

subsection \<open>What the operations leave alone\<close>

text \<open>
  The link of a client: what decides whether it has, gets or waits for a connection, and its
  commands in flight. Most operations are \<open>inner\<close>: they keep the link, resolve no command, open,
  authorize and schedule nothing, send nothing without a socket, do not take back a terminal
  failure and do not authenticate.
\<close>

definition link :: "realtime \<Rightarrow> client_options \<times> (string, unit) omap \<times> nat option \<times> nat \<times> bool \<times> bool \<times> int \<times> bool" where
  "link s = (rt_options s, rt_pending s, rt_socket s, rt_next_socket s, rt_reconnect_timer s,
     rt_authorization_pending s, rt_sequence s, rt_explicitly_disconnected s)"

fun calm :: "client_effect \<Rightarrow> bool" where
  "calm (Opened n ps) = False"
| "calm (Authorization_requested n) = False"
| "calm (Resolved i r) = False"
| "calm (Reconnect_scheduled d) = False"
| "calm e = True"

definition sends :: "client_effect \<Rightarrow> bool" where
  "sends e \<longleftrightarrow> (case e of Sent_text n j \<Rightarrow> True | _ \<Rightarrow> False)"

definition linked_at :: "realtime \<Rightarrow> client_effect list \<times> realtime \<Rightarrow> bool" where
  "linked_at s r \<longleftrightarrow> link (snd r) = link s \<and> list_all calm (fst r) \<and>
     (rt_socket s = None \<longrightarrow> list_all (\<lambda>e. \<not> sends e) (fst r)) \<and>
     (rt_terminal_failure s \<longrightarrow> rt_terminal_failure (snd r))"

definition inner_at :: "realtime \<Rightarrow> client_effect list \<times> realtime \<Rightarrow> bool" where
  "inner_at s r \<longleftrightarrow> linked_at s r \<and> (rt_state (snd r) = Authenticated \<longrightarrow> rt_state s = Authenticated)"

definition linked :: "act \<Rightarrow> bool" where
  "linked a \<longleftrightarrow> (\<forall>s. linked_at s (a s))"

definition inner :: "act \<Rightarrow> bool" where
  "inner a \<longleftrightarrow> (\<forall>s. inner_at s (a s))"

lemma link_socket: "link s = link s' \<Longrightarrow> rt_socket s = rt_socket s'"
  by (simp add: link_def)

named_theorems inner_acts \<open>operations that keep the link\<close>

lemmas inner_defs = inner_def inner_at_def linked_def linked_at_def sends_def

lemma inner_linked: "inner a \<Longrightarrow> linked a"
  by (simp add: inner_def inner_at_def linked_def)

lemma run_acts_simps [simp]:
  "snd (run_acts [] s) = s" "fst (run_acts [] s) = []"
  "snd (run_acts (a # as) s) = snd (run_acts as (snd (a s)))"
  "fst (run_acts (a # as) s) = fst (a s) @ fst (run_acts as (snd (a s)))"
  by (simp_all add: Let_def split_beta)

lemmas [simp del] = run_acts.simps

lemma run_acts_append: "run_acts (as @ bs) s =
  (fst (run_acts as s) @ fst (run_acts bs (snd (run_acts as s))), snd (run_acts bs (snd (run_acts as s))))"
  by (induction as arbitrary: s) (simp_all add: run_acts.simps Let_def split_beta)

lemma linked_at_trans:
  assumes "linked_at s r" and "linked_at (snd r) r'"
  shows "linked_at s (fst r @ fst r', snd r')"
  using assms link_socket [of "snd r" s] by (simp add: linked_at_def)

lemma inner_at_trans: "inner_at s r \<Longrightarrow> inner_at (snd r) r' \<Longrightarrow> inner_at s (fst r @ fst r', snd r')"
  using linked_at_trans by (simp add: inner_at_def)

lemma run_acts_Cons: "run_acts (a # as) s =
  (fst (a s) @ fst (run_acts as (snd (a s))), snd (run_acts as (snd (a s))))"
  by (simp add: run_acts.simps Let_def split_beta)

lemma linked_run_list: "linked a \<Longrightarrow> linked (run_acts as) \<Longrightarrow> linked (run_acts (a # as))"
  unfolding linked_def run_acts_Cons by (blast intro: linked_at_trans)

lemma inner_run_list [inner_acts]:
  "inner (run_acts [])" "inner a \<Longrightarrow> inner (run_acts as) \<Longrightarrow> inner (run_acts (a # as))"
proof -
  show "inner (run_acts [])" by (simp add: inner_defs)
  show "inner a \<Longrightarrow> inner (run_acts as) \<Longrightarrow> inner (run_acts (a # as))"
    unfolding inner_def run_acts_Cons by (blast intro: inner_at_trans)
qed

lemma inner_stay [inner_acts]: "inner (\<lambda>s. ([], s))" "inner (Pair [])"
  by (simp_all add: inner_defs)

lemma inner_cond [inner_acts]:
  "inner a \<Longrightarrow> inner b \<Longrightarrow> inner (\<lambda>s. if c s then a s else b s)"
  "inner a \<Longrightarrow> (\<And>x. inner (g x)) \<Longrightarrow> inner (\<lambda>s. case o' s of None \<Rightarrow> a s | Some x \<Rightarrow> g x s)"
  by (simp_all add: inner_def split: option.split)

lemma inner_map [inner_acts]: "(\<And>x. inner (f x)) \<Longrightarrow> inner (run_acts (map f xs))"
  by (induction xs) (auto intro: inner_acts)

lemma inner_pointwise: "(\<And>s. \<exists>b. inner b \<and> a s = b s) \<Longrightarrow> inner a"
  unfolding inner_def by metis

lemma linked_transition: "linked (transition st)"
  by (simp add: linked_def linked_at_def link_def transition_def sends_def)

lemma inner_transition [inner_acts]:
  "inner (transition Connecting)" "inner (transition Transport_open)" "inner (transition Reconnecting)"
  "inner (transition Disconnected)"
  using linked_transition by (simp_all add: inner_def inner_at_def linked_def) (simp_all add: transition_def)

lemma inner_base [inner_acts]:
  "inner (emit_connection_error e)" "inner clear_connection_timeout"
  "inner (clear_subscription_timer key)" "inner clear_subscription_timers"
  "inner (close_rt_socket n code reason)" "inner (sub_transition key sst)" "inner (sub_set_error key e')"
  "inner (update_sub key f)" "inner (dispatch key ev d)" "inner (presence_event key ty v)"
  by (auto simp: inner_defs link_def emit_connection_error_def clear_connection_timeout_def
      set_rt_def clear_subscription_timer_def clear_subscription_timers_def close_rt_socket_def
      sub_transition_def sub_set_error_def put_sub_def update_sub_def dispatch_def presence_event_def
      list_all_iff split: option.split)

lemma inner_set [inner_acts]:
  "inner (set_rt (\<lambda>s. s\<lparr>rt_terminal_failure := True\<rparr>))"
  "inner (set_rt (\<lambda>s. s\<lparr>rt_connection_timer := ct\<rparr>))"
  "inner (set_rt (\<lambda>s. s\<lparr>rt_attempt := 0, rt_last_error := None\<rparr>))"
  "inner (set_rt (\<lambda>s. s\<lparr>rt_subscription_timers := om_set key op' (rt_subscription_timers s)\<rparr>))"
  "inner (set_rt (\<lambda>s. s\<lparr>rt_subscriptions := om_delete key (rt_subscriptions s)\<rparr>))"
  "inner (set_rt (put_sub key b))"
  by (simp_all add: inner_defs link_def set_rt_def put_sub_def)

lemma inner_emit [inner_acts]: "inner (emit [Subscription_error key e])"
  by (simp add: inner_defs emit_def)

lemma inner_errors [inner_acts]:
  "inner (connection_error code message retryable fatal operation)"
  "inner (close_current n reason)"
  "inner (protocol_error code message fatal)" "inner (send_rt throws frame)"
proof -
  show 1: "inner (connection_error code message retryable fatal operation)"
    for code message retryable fatal operation
    unfolding connection_error_def by (intro inner_acts)
  show 2: "inner (close_current n reason)" for n reason
    unfolding close_current_def [abs_def] by (intro inner_acts)
  show "inner (protocol_error code message fatal)"
    unfolding protocol_error_def by (cases fatal) (auto intro!: inner_acts 2)
  show "inner (send_rt throws frame)"
  proof (rule inner_pointwise)
    fix s
    have failing: "inner (run_acts [connection_error ''send_failed'' m True False ''receive'',
       close_rt_socket n 4400 ''Send failed''])" for m n
      by (intro inner_acts 1)
    show "\<exists>b. inner b \<and> send_rt throws frame s = b s"
    proof (cases "\<exists>n. rt_socket s = Some n \<and> rt_ready s n = 1 \<and> throws = None")
      case True
      then obtain n where "rt_socket s = Some n" and "send_rt throws frame s = ([Sent_text n frame], s)"
        by (auto simp: send_rt_def)
      then show ?thesis
        by (intro exI [of _ "\<lambda>s'. if s' = s then ([Sent_text n frame], s) else ([], s')"])
           (auto simp: inner_defs)
    next
      case False
      then show ?thesis
        using failing inner_stay(1)
        by (cases "rt_socket s"; cases throws) (auto simp: send_rt_def split: if_splits)
    qed
  qed
qed

lemma inner_timers [inner_acts]:
  "inner (start_connection_timeout n)" "inner (start_subscription_timeout key operation)"
  unfolding start_connection_timeout_def start_subscription_timeout_def by (intro inner_acts)+

lemma inner_subs [inner_acts]: "inner (sub_fail key e)" "inner (sub_reset key)"
  unfolding sub_fail_def [abs_def] sub_reset_def by (intro inner_acts; simp)+

lemma inner_subscribe [inner_acts]: "inner (subscribe_rt throws key)"
  unfolding subscribe_rt_def [abs_def] by (intro inner_acts inner_errors)

lemma inner_listen [inner_acts]:
  "inner (listen key event l)" "inner (listen_here key l)" "inner (listen_joining key l)"
  "inner (listen_leaving key l)"
  unfolding listen_def listen_here_def listen_joining_def listen_leaving_def by (intro inner_acts)+

lemma inner_leave_one [inner_acts]: "inner (leave_one throws key)"
  unfolding leave_one_def [abs_def] by (intro inner_acts inner_errors)

lemma inner_leave [inner_acts]: "inner (leave_rt throws name kind)"
proof (rule inner_pointwise)
  fix s
  show "\<exists>b. inner b \<and> leave_rt throws name kind s = b s"
    unfolding leave_rt_def by (intro exI conjI; (rule refl)?) (intro inner_acts)
qed

lemma inner_stop_listening [inner_acts]: "inner (stop_listening throws key event l)"
  unfolding stop_listening_def [abs_def] by (intro inner_acts)

lemma inner_subscription_timeout [inner_acts]: "inner (subscription_timeout key)"
  unfolding subscription_timeout_def [abs_def] by (intro inner_acts)

lemma inner_receive_parts [inner_acts]:
  "inner invalid_ack" "inner (receive_channel ty key frame)"
  unfolding invalid_ack_def receive_channel_def by (auto intro!: inner_acts inner_errors)

lemma inner_receive_error [inner_acts]: "inner (receive_error frame)"
proof -
  have "inner (case re_channel e of
           Some c \<Rightarrow> run_acts [clear_subscription_timer (destination_key c), sub_fail (destination_key c) e]
         | None \<Rightarrow> emit_connection_error e)" for e
    by (auto split: option.split intro!: inner_acts)
  moreover have "inner (\<lambda>s. if b then run_acts [set_rt (\<lambda>s. s\<lparr>rt_terminal_failure := True\<rparr>),
      close_current 4403 c] s else ([], s))" for b c
    by (intro inner_acts inner_errors)
  ultimately show ?thesis
    unfolding receive_error_def Let_def by (intro inner_acts)
qed

lemma linked_receive_connected: "linked (receive_connected throws frame)"
proof -
  have subscribe: "inner (\<lambda>s. run_acts (map (\<lambda>e. subscribe_rt throws (fst e)) (rt_subscriptions s)) s)"
  proof (rule inner_pointwise)
    fix s
    show "\<exists>b. inner b \<and> run_acts (map (\<lambda>e. subscribe_rt throws (fst e)) (rt_subscriptions s)) s = b s"
      by (intro exI conjI; (rule refl)?) (intro inner_acts)
  qed
  have "linked (run_acts [clear_connection_timeout, set_rt (\<lambda>s. s\<lparr>rt_attempt := 0, rt_last_error := None\<rparr>),
     transition Authenticated,
     (\<lambda>s. run_acts (map (\<lambda>e. subscribe_rt throws (fst e)) (rt_subscriptions s)) s)])"
    by (intro linked_run_list linked_transition inner_linked [OF subscribe] inner_linked [OF inner_run_list(1)]
        inner_base inner_set inner_linked)
  moreover have "linked (protocol_error ''invalid_connected'' ''Keryx sent an invalid connected frame.'' True)"
    by (intro inner_linked inner_errors)
  ultimately show ?thesis
    unfolding receive_connected_def linked_def by simp
qed

lemma inner_socket [inner_acts]:
  "inner (socket_opened n)" "inner (socket_errored n)" "inner connection_timeout"
proof -
  show "inner (socket_opened n)"
    by (auto simp: inner_defs socket_opened_def transition_def link_def Let_def)
  show "inner (socket_errored n)"
    unfolding socket_errored_def [abs_def] by (intro inner_acts inner_errors)
  show "inner connection_timeout"
    unfolding connection_timeout_def [abs_def] by (intro inner_acts inner_errors)
qed

subsection \<open>Commands in flight\<close>

fun settled_by :: "client_effect \<Rightarrow> string list" where
  "settled_by (Resolved i r) = [i]"
| "settled_by e = []"

definition settled :: "client_effect list \<Rightarrow> string list" where
  "settled es = concat (map settled_by es)"

lemma settled_simps [simp]:
  "settled [] = []" "settled (e # es) = settled_by e @ settled es"
  "settled (es @ es') = settled es @ settled es'"
  by (simp_all add: settled_def)

lemma calm_settled: "list_all calm es \<Longrightarrow> settled es = []"
proof (induction es)
  case (Cons e es)
  then show ?case by (cases e) simp_all
qed simp

text \<open>The ids of the commands a run issues: those whose name and payload are taken.\<close>

fun issued_by :: "client_event \<Rightarrow> string list" where
  "issued_by (Ev_command throws ident name payload) =
     (if command_name_ok name \<and> \<not> isl (assert_client_json payload) then [ident] else [])"
| "issued_by ev = []"

definition issued :: "client_event list \<Rightarrow> string list" where
  "issued evs = concat (map issued_by evs)"

lemma issued_simps [simp]: "issued [] = []" "issued (ev # evs) = issued_by ev @ issued evs"
  by (simp_all add: issued_def)

text \<open>An action is balanced when it settles exactly what leaves the table of pending commands.\<close>

definition pending_ids :: "realtime \<Rightarrow> string multiset" where
  "pending_ids s = mset (map fst (rt_pending s))"

definition balanced :: "act \<Rightarrow> bool" where
  "balanced a \<longleftrightarrow> (\<forall>s. om_ok (rt_pending s) \<longrightarrow> om_ok (rt_pending (snd (a s))) \<and>
     mset (settled (fst (a s))) + pending_ids (snd (a s)) = pending_ids s)"

named_theorems balanced_acts \<open>operations that settle what they take out\<close>

lemma balancedI:
  "(\<And>s. rt_pending (snd (a s)) = rt_pending s) \<Longrightarrow> (\<And>s. settled (fst (a s)) = []) \<Longrightarrow> balanced a"
  by (simp add: balanced_def pending_ids_def)

lemma linked_balanced: "linked a \<Longrightarrow> balanced a"
  by (rule balancedI) (auto simp: linked_def linked_at_def link_def calm_settled)

lemma inner_balanced [balanced_acts]: "inner a \<Longrightarrow> balanced a"
  by (simp add: inner_linked linked_balanced)

lemma balanced_run_list [balanced_acts]:
  assumes "balanced a" and "balanced (run_acts as)"
  shows "balanced (run_acts (a # as))"
  unfolding balanced_def
proof (intro allI impI)
  fix s :: realtime
  assume ok: "om_ok (rt_pending s)"
  with assms(1) have a: "om_ok (rt_pending (snd (a s)))"
    "mset (settled (fst (a s))) + pending_ids (snd (a s)) = pending_ids s"
    by (simp_all add: balanced_def)
  then have "om_ok (rt_pending (snd (run_acts as (snd (a s)))))"
    "mset (settled (fst (run_acts as (snd (a s))))) + pending_ids (snd (run_acts as (snd (a s)))) =
       pending_ids (snd (a s))"
    using assms(2) by (simp_all add: balanced_def)
  with a(2) show "om_ok (rt_pending (snd (run_acts (a # as) s))) \<and>
     mset (settled (fst (run_acts (a # as) s))) + pending_ids (snd (run_acts (a # as) s)) = pending_ids s"
    by (simp add: ac_simps)
qed

lemma balanced_cond [balanced_acts]:
  "balanced a \<Longrightarrow> balanced b \<Longrightarrow> balanced (\<lambda>s. if c s then a s else b s)"
  by (simp add: balanced_def)

lemma balanced_pointwise: "(\<And>s. \<exists>b. balanced b \<and> a s = b s) \<Longrightarrow> balanced a"
  unfolding balanced_def by metis

lemma schedule_reconnect_facts [simp]:
  "rt_options (snd (schedule_reconnect s)) = rt_options s"
  "rt_pending (snd (schedule_reconnect s)) = rt_pending s"
  "rt_socket (snd (schedule_reconnect s)) = rt_socket s"
  "rt_authorization_pending (snd (schedule_reconnect s)) = rt_authorization_pending s"
  "rt_sequence (snd (schedule_reconnect s)) = rt_sequence s"
  "rt_explicitly_disconnected (snd (schedule_reconnect s)) = rt_explicitly_disconnected s"
  "rt_terminal_failure (snd (schedule_reconnect s)) = rt_terminal_failure s"
  "settled (fst (schedule_reconnect s)) = []"
  "rt_reconnect_timer (snd (schedule_reconnect s)) \<longleftrightarrow> rt_reconnect_timer s \<or>
     (\<not> rt_explicitly_disconnected s \<and> \<not> rt_terminal_failure s \<and> co_reconnect (rt_options s))"
  "rt_state s \<noteq> Authenticated \<Longrightarrow> rt_state (snd (schedule_reconnect s)) \<noteq> Authenticated"
  by (simp_all add: schedule_reconnect_def transition_def)

lemma schedule_reconnect_balanced [balanced_acts]: "balanced schedule_reconnect"
  by (rule balancedI) simp_all

lemmas connection_error_defs = connection_error_def emit_connection_error_def

lemma open_socket_facts [simp]:
  "rt_options (snd (open_socket factory sequence ticket s)) = rt_options s"
  "rt_pending (snd (open_socket factory sequence ticket s)) = rt_pending s"
  "rt_authorization_pending (snd (open_socket factory sequence ticket s)) = rt_authorization_pending s"
  "rt_sequence (snd (open_socket factory sequence ticket s)) = rt_sequence s"
  "rt_explicitly_disconnected (snd (open_socket factory sequence ticket s)) = rt_explicitly_disconnected s"
  "rt_terminal_failure (snd (open_socket factory sequence ticket s)) = rt_terminal_failure s"
  "settled (fst (open_socket factory sequence ticket s)) = []"
  "rt_state s \<noteq> Authenticated \<Longrightarrow> rt_state (snd (open_socket factory sequence ticket s)) \<noteq> Authenticated"
  "\<exists>n. rt_socket s = Some n \<Longrightarrow> \<exists>n. rt_socket (snd (open_socket factory sequence ticket s)) = Some n"
  "rt_reconnect_timer s \<Longrightarrow> rt_reconnect_timer (snd (open_socket factory sequence ticket s))"
  by (auto simp: open_socket_def connection_error_defs set_rt_def emit_def start_connection_timeout_def
      clear_connection_timeout_def Let_def split: sum.split option.split)

lemma open_socket_progress:
  assumes "sequence = rt_sequence s" and "\<not> rt_explicitly_disconnected s" and "\<not> rt_terminal_failure s"
    and "co_reconnect (rt_options s)" and "\<not> rt_reconnect_timer (snd (open_socket factory sequence ticket s))"
  shows "\<exists>n. rt_socket (snd (open_socket factory sequence ticket s)) = Some n"
  using assms
  by (auto simp: open_socket_def connection_error_defs set_rt_def emit_def start_connection_timeout_def
      clear_connection_timeout_def Let_def split: sum.split option.split)

lemma connect_facts [simp]:
  "rt_options (snd (connect factory s)) = rt_options s"
  "rt_pending (snd (connect factory s)) = rt_pending s"
  "settled (fst (connect factory s)) = []"
  "rt_state s \<noteq> Authenticated \<Longrightarrow> rt_state (snd (connect factory s)) \<noteq> Authenticated"
  "\<exists>n. rt_socket s = Some n \<Longrightarrow> \<exists>n. rt_socket (snd (connect factory s)) = Some n"
  by (simp_all add: connect_def set_rt_def transition_def)

lemma connect_progress:
  assumes "co_reconnect (rt_options s)"
  shows "rt_socket (snd (connect factory s)) \<noteq> None \<or> rt_authorization_pending (snd (connect factory s)) \<or>
     rt_reconnect_timer (snd (connect factory s))"
proof (cases "(case rt_socket s of None \<Rightarrow> False | Some n \<Rightarrow> rt_ready s n < 2) \<or> rt_authorization_pending s")
  case True
  then show ?thesis by (auto simp: connect_def split: option.splits)
next
  case False
  then show ?thesis
    using assms by (auto simp: connect_def set_rt_def transition_def open_socket_progress)
qed

lemma connect_balanced [balanced_acts]: "balanced (connect factory)"
  by (rule balancedI) simp_all

lemma settled_map_Resolved: "settled (map (\<lambda>e. Resolved (fst e) (g e)) m) = map fst m"
  by (induction m) simp_all

lemma settle_pending_commands_balanced [balanced_acts]: "balanced (settle_pending_commands code message)"
  by (simp add: balanced_def settle_pending_commands_def pending_ids_def settled_map_Resolved)

lemma balanced_stay [balanced_acts]: "balanced (\<lambda>s. ([], s))"
  by (intro balanced_acts inner_acts)

lemma balanced_nil [balanced_acts]: "balanced (run_acts [])"
  by (intro balanced_acts inner_acts)

text \<open>The loops over the subscriptions in \<open>disconnect\<close> and when a socket closes.\<close>

lemma inner_reset_where [inner_acts]:
  "inner (\<lambda>s. run_acts (map (\<lambda>e s. case om_get (rt_subscriptions s) (fst e) of
      None \<Rightarrow> ([], s)
    | Some b \<Rightarrow> if p (sb_state b) then sub_reset (fst e) s else ([], s)) (rt_subscriptions s)) s)"
proof (rule inner_pointwise)
  fix s
  show "\<exists>b. inner b \<and> run_acts (map (\<lambda>e s. case om_get (rt_subscriptions s) (fst e) of
      None \<Rightarrow> ([], s)
    | Some b \<Rightarrow> if p (sb_state b) then sub_reset (fst e) s else ([], s)) (rt_subscriptions s)) s = b s"
    by (intro exI conjI; (rule refl)?) (intro inner_acts)
qed

lemma balanced_set [balanced_acts]:
  "balanced (set_rt (\<lambda>s. s\<lparr>rt_sequence := rt_sequence s + 1, rt_authorization_pending := False,
     rt_explicitly_disconnected := True, rt_terminal_failure := False, rt_reconnect_timer := False\<rparr>))"
  "balanced (set_rt (\<lambda>s. s\<lparr>rt_socket := None\<rparr>))"
  "balanced (set_rt (\<lambda>s. s\<lparr>rt_terminal_failure := tf\<rparr>))"
  by (simp_all add: balanced_def set_rt_def pending_ids_def)

lemma disconnect_balanced [balanced_acts]: "balanced disconnect_client"
  unfolding disconnect_client_def
  by (intro balanced_acts) (intro inner_acts inner_errors)+

lemma socket_closed_balanced [balanced_acts]: "balanced (socket_closed n code reason)"
proof -
  have ready: "balanced (\<lambda>s. a (s\<lparr>rt_ready := f s\<rparr>))" if "balanced a" for a f
    using that by (simp add: balanced_def pending_ids_def)
  have "inner (\<lambda>s. if code = 4401 \<or> code = 4403
              then run_acts [set_rt (\<lambda>s. s\<lparr>rt_terminal_failure := True\<rparr>),
                     connection_error ''authentication_failed''
                       (if reason = [] then ''Realtime authentication failed.'' else reason) False True ''connect''] s
              else ([], s))"
    by (intro inner_acts inner_errors)
  then show ?thesis
    unfolding socket_closed_def [abs_def] Let_def
    by (intro ready [of "\<lambda>s. if c s then d s else e s" for c d e] balanced_acts)
       (auto intro!: inner_acts)
qed

lemma reconnect_timer_balanced [balanced_acts]: "balanced (reconnect_timer_fires factory)"
  by (rule balancedI) (simp_all add: reconnect_timer_fires_def)

lemma authorize_balanced [balanced_acts]: "balanced (authorize_and_open show_status factory sequence outcome)"
  by (rule balancedI)
     (simp_all add: authorize_and_open_def connection_error_defs set_rt_def transition_def split: sum.split)

lemma subscribe_after: "inner (\<lambda>s. if rt_state s = Authenticated then subscribe_rt throws key s else ([], s))"
  by (intro inner_acts)

lemma channel_balanced [balanced_acts]: "balanced (channel_rt factory throws name kind)"
proof (rule balanced_pointwise)
  fix s
  have emitted: "balanced (\<lambda>s. ([Thrown m], s))" for m
    by (rule balancedI) simp_all
  have opened: "balanced (run_acts [set_rt (put_sub key (new_subscription name kind)), connect factory,
      (\<lambda>s. if rt_state s = Authenticated then subscribe_rt throws key s else ([], s))])" for key
    by (intro balanced_acts inner_acts subscribe_after)
  show "\<exists>b. balanced b \<and> channel_rt factory throws name kind s = b s"
    using emitted opened balanced_stay by (auto simp: channel_rt_def Let_def split: option.split)
qed

lemma pending_take_out:
  fixes m :: "(string, unit) omap"
  assumes "om_ok m" and "om_has m ident"
  shows "add_mset ident (image_mset fst (mset (om_delete ident m))) = image_mset fst (mset m)"
  using assms
proof (induction m)
  case (Cons e m)
  show ?case
  proof (cases "fst e = ident")
    case True
    with Cons.prems have "ident \<notin> fst ` set m" by (auto simp: om_ok_def)
    then have "om_delete ident m = m" by (auto simp: om_delete_def filter_id_conv)
    with True show ?thesis by (simp add: om_delete_def)
  next
    case False
    with Cons.prems have "om_ok m" and "om_has m ident" by (auto simp: om_ok_def om_has_def)
    from Cons.IH [OF this] False show ?thesis by (simp add: om_delete_def)
  qed
qed simp

lemma command_timeout_balanced [balanced_acts]: "balanced (command_timeout ident)"
  by (simp add: balanced_def command_timeout_def pending_ids_def pending_take_out)

lemma pending_put_in:
  fixes m :: "(string, unit) omap"
  shows "\<not> om_has m ident \<Longrightarrow>
    image_mset fst (mset (om_set ident u m)) = add_mset ident (image_mset fst (mset m))"
  by (induction ident u m rule: om_set.induct) (auto simp: om_has_def)

lemma invalid_ack_facts [simp]:
  "rt_pending (snd (invalid_ack s)) = rt_pending s" "settled (fst (invalid_ack s)) = []"
  using inner_receive_parts(1) by (simp_all add: inner_defs link_def calm_settled)

lemma command_ack_balanced [balanced_acts]: "balanced (receive_command_ack frame)"
  by (auto simp: balanced_def receive_command_ack_def pending_ids_def pending_take_out Let_def emit_def
      split: option.split json.split)

lemma receive_rt_cases:
  obtains (ack) f where "receive_rt throws parsed = receive_command_ack f"
  | (connected) f where "receive_rt throws parsed = receive_connected throws f"
  | (inner) "inner (receive_rt throws parsed)"
proof (cases parsed)
  case None
  then have "receive_rt throws parsed = protocol_error ''invalid_json'' ''Keryx sent malformed JSON.'' True"
    by (simp add: receive_rt_def fun_eq_iff)
  then show ?thesis by (simp add: inner_errors inner)
next
  case (Some frame)
  have rest: "inner (\<lambda>s. if om_get (rt_subscriptions s) key = None then ([], s) else receive_channel ty key frame s)"
    for key ty
    by (intro inner_acts)
  have thrown: "inner (\<lambda>s. ([Thrown m], s))" for m
    by (simp add: inner_defs)
  consider "frame = JNull" | "frame \<noteq> JNull" "opt_string (jfield frame ''type'') = None"
    | ty where "frame \<noteq> JNull" "opt_string (jfield frame ''type'') = Some ty" by blast
  then show ?thesis
  proof cases
    case 1
    with Some thrown show ?thesis by (intro inner) (simp add: receive_rt_def [abs_def])
  next
    case 2
    with Some show ?thesis by (intro inner) (simp add: receive_rt_def [abs_def] inner_errors eta_contract_eq)
  next
    case 3
    show ?thesis
    proof (cases "jfield frame ''protocol'' = Some keryx_protocol \<and> ty \<in> {''connected'', ''command_ack''}")
      case True
      with 3 Some show ?thesis
        using ack [of frame] connected [of frame] by (auto simp: receive_rt_def fun_eq_iff)
    next
      case False
      then consider "jfield frame ''protocol'' \<noteq> Some keryx_protocol"
        | "jfield frame ''protocol'' = Some keryx_protocol" "ty \<noteq> ''connected''" "ty \<noteq> ''command_ack''"
        by blast
      then have "inner (receive_rt throws parsed)"
      proof cases
        case 1
        with 3 Some show ?thesis
          using inner_errors(3) by (simp add: receive_rt_def [abs_def] eta_contract_eq)
      next
        case 2
        with 3 Some show ?thesis
          by (simp add: receive_rt_def [abs_def] Let_def cong: if_cong)
             (intro inner_acts inner_errors)
      qed
      then show ?thesis by (rule inner)
    qed
  qed
qed

lemma receive_rt_balanced [balanced_acts]: "balanced (receive_rt throws parsed)"
  by (rule receive_rt_cases [of throws parsed])
     (simp_all add: command_ack_balanced linked_balanced linked_receive_connected inner_balanced)

lemma step_balanced:
  assumes "\<And>throws ident name payload. ev \<noteq> Ev_command throws ident name payload"
  shows "balanced (client_step show_status ev)"
proof -
  have message: "balanced (\<lambda>s. if rt_socket s = Some n then receive_rt throws parsed s else ([], s))"
    for n throws parsed
    by (intro balanced_acts balanced_stay)
  from assms show ?thesis
    by (cases ev) (auto simp: message eta_contract_eq inner_listen intro: balanced_acts
        intro!: inner_balanced [OF inner_leave] inner_balanced [OF inner_stop_listening]
          inner_balanced [OF inner_socket(1)] inner_balanced [OF inner_socket(2)]
          inner_balanced [OF inner_socket(3)] inner_balanced [OF inner_subscription_timeout])
qed

lemma step_accounts:
  assumes ok: "om_ok (rt_pending s)" and fresh: "\<forall>i\<in>set (issued_by ev). \<not> om_has (rt_pending s) i"
  shows "om_ok (rt_pending (snd (client_step show_status ev s)))"
    and "mset (settled (fst (client_step show_status ev s))) + pending_ids (snd (client_step show_status ev s)) =
      pending_ids s + mset (issued_by ev)"
proof -
  have "om_ok (rt_pending (snd (client_step show_status ev s))) \<and>
    mset (settled (fst (client_step show_status ev s))) + pending_ids (snd (client_step show_status ev s)) =
      pending_ids s + mset (issued_by ev)"
  proof (cases "\<exists>throws ident name payload. ev = Ev_command throws ident name payload")
    case False
    then have "balanced (client_step show_status ev)" by (intro step_balanced) blast
    moreover from False have "issued_by ev = []" by (cases ev) auto
    ultimately show ?thesis using ok by (simp add: balanced_def)
  next
    case True
    then obtain throws ident name payload where ev: "ev = Ev_command throws ident name payload" by blast
    have sent: "rt_pending (snd (send_rt throws f s')) = rt_pending s'" "settled (fst (send_rt throws f s')) = []"
      for f s'
      using inner_errors(4) by (simp_all add: inner_defs link_def calm_settled)
    show ?thesis
      using ok fresh
      by (auto simp: ev command_rt_def sent pending_ids_def set_rt_def pending_put_in split: sum.splits)
  qed
  then show "om_ok (rt_pending (snd (client_step show_status ev s)))"
    and "mset (settled (fst (client_step show_status ev s))) + pending_ids (snd (client_step show_status ev s)) =
      pending_ids s + mset (issued_by ev)"
    by simp_all
qed

lemma client_run_simps [simp]:
  "snd (client_run show_status [] s) = s" "fst (client_run show_status [] s) = []"
  "snd (client_run show_status (ev # evs) s) = snd (client_run show_status evs (snd (client_step show_status ev s)))"
  "fst (client_run show_status (ev # evs) s) = fst (client_step show_status ev s) @
     fst (client_run show_status evs (snd (client_step show_status ev s)))"
  by (simp_all add: client_run_def)

lemma pending_ids_has: "om_has (rt_pending s) i \<longleftrightarrow> i \<in># pending_ids s"
  by (auto simp: pending_ids_def om_has_def)

lemma run_accounts:
  assumes "om_ok (rt_pending s)" and "distinct (issued evs)" and "\<forall>i\<in>set (issued evs). i \<notin># pending_ids s"
  shows "mset (settled (fst (client_run show_status evs s))) + pending_ids (snd (client_run show_status evs s)) =
     pending_ids s + mset (issued evs)"
  using assms
proof (induction evs arbitrary: s)
  case (Cons ev evs)
  let ?s = "snd (client_step show_status ev s)"
  from Cons.prems have "\<forall>i\<in>set (issued_by ev). \<not> om_has (rt_pending s) i" by (simp add: pending_ids_has)
  note step = step_accounts [OF Cons.prems(1) this, of show_status]
  have "i \<notin># pending_ids ?s" if "i \<in> set (issued evs)" for i
  proof
    assume "i \<in># pending_ids ?s"
    then have "i \<in># mset (settled (fst (client_step show_status ev s))) + pending_ids ?s" by simp
    then have "i \<in># pending_ids s + mset (issued_by ev)" by (simp only: step(2))
    with Cons.prems that show False by auto
  qed
  with Cons.prems step(1) have "mset (settled (fst (client_run show_status evs ?s))) +
      pending_ids (snd (client_run show_status evs ?s)) = pending_ids ?s + mset (issued evs)"
    by (intro Cons.IH) auto
  with step(2) show ?case by (simp add: ac_simps)
qed simp

subsection \<open>With and without a connection\<close>

definition idle_quiet :: "realtime \<Rightarrow> bool" where
  "idle_quiet s \<longleftrightarrow> (rt_socket s = None \<longrightarrow> rt_pending s = [] \<and> rt_state s \<noteq> Authenticated)"

definition retrying :: "realtime \<Rightarrow> bool" where
  "retrying s \<longleftrightarrow>
     (co_reconnect (rt_options s) \<and> rt_sequence s \<noteq> 0 \<and> \<not> rt_explicitly_disconnected s \<and> \<not> rt_terminal_failure s \<longrightarrow>
      rt_socket s \<noteq> None \<or> rt_authorization_pending s \<or> rt_reconnect_timer s)"

definition client_inv :: "realtime \<Rightarrow> bool" where
  "client_inv s \<longleftrightarrow> idle_quiet s \<and> retrying s"

definition preserving :: "act \<Rightarrow> bool" where
  "preserving a \<longleftrightarrow> (\<forall>s. client_inv s \<longrightarrow> client_inv (snd (a s)))"

lemmas client_inv_defs = client_inv_def idle_quiet_def retrying_def

lemma linked_inv:
  assumes "linked_at s r" and "rt_socket s \<noteq> None \<or> (rt_state (snd r) = Authenticated \<longrightarrow> rt_state s = Authenticated)"
    and "client_inv s"
  shows "client_inv (snd r)"
  using assms by (auto simp: linked_at_def link_def client_inv_defs)

lemma inner_preserving: "inner a \<Longrightarrow> preserving a"
  unfolding preserving_def inner_def inner_at_def by (blast intro: linked_inv)

lemma connect_None: "rt_socket (snd (connect factory s)) = None \<Longrightarrow> rt_socket s = None"
  using connect_facts(5) [of s factory] by (cases "rt_socket s") auto

lemma open_socket_None:
  "rt_socket (snd (open_socket factory sequence ticket s)) = None \<Longrightarrow> rt_socket s = None"
  using open_socket_facts(9) [of s factory sequence ticket] by (cases "rt_socket s") auto

lemma connect_preserving: "preserving (connect factory)"
  unfolding preserving_def
proof (intro allI impI)
  fix s
  assume inv: "client_inv s"
  have "idle_quiet (snd (connect factory s))"
    using inv connect_None [of factory s] by (auto simp: client_inv_def idle_quiet_def)
  moreover have "retrying (snd (connect factory s))"
    using connect_progress [of s factory] by (simp add: retrying_def)
  ultimately show "client_inv (snd (connect factory s))" by (simp add: client_inv_def)
qed

lemma disconnect_result:
  "rt_socket (snd (disconnect_client s)) = None" "rt_pending (snd (disconnect_client s)) = []"
  "rt_state (snd (disconnect_client s)) = Disconnected" "rt_explicitly_disconnected (snd (disconnect_client s))"
  "\<not> rt_reconnect_timer (snd (disconnect_client s))" "\<not> rt_authorization_pending (snd (disconnect_client s))"
proof -
  define s1 where "s1 = snd (set_rt (\<lambda>s. s\<lparr>rt_sequence := rt_sequence s + 1, rt_authorization_pending := False,
     rt_explicitly_disconnected := True, rt_terminal_failure := False, rt_reconnect_timer := False\<rparr>) s)"
  define s2 where "s2 = snd (run_acts [clear_connection_timeout, clear_subscription_timers] s1)"
  define s3 where "s3 = snd (settle_pending_commands ''command_disconnected'' ''The realtime client disconnected.'' s2)"
  define s4 where "s4 = snd (close_current 1000 ''Client disconnect'' s3)"
  define s5 where "s5 = s4\<lparr>rt_socket := None\<rparr>"
  define s6 where "s6 = snd ((\<lambda>s. run_acts (map (\<lambda>e s. case om_get (rt_subscriptions s) (fst e) of
           None \<Rightarrow> ([], s)
         | Some b \<Rightarrow> if sb_state b \<noteq> Left then sub_reset (fst e) s else ([], s)) (rt_subscriptions s)) s) s5)"
  have result: "snd (disconnect_client s) = snd (transition Disconnected s6)"
    by (simp add: disconnect_client_def s6_def s5_def s4_def s3_def s2_def s1_def set_rt_def)
  have l: "link (snd (a t)) = link t" if "inner a" for a t
    using that by (simp add: inner_defs)
  have l6: "link s6 = link s5"
    unfolding s6_def by (rule l) (rule inner_reset_where)
  have l4: "link s4 = link s3" unfolding s4_def by (rule l) (rule inner_errors)
  have l2: "link s2 = link s1" unfolding s2_def by (rule l) (intro inner_acts)
  have lt: "link (snd (transition Disconnected s6)) = link s6" by (rule l) (rule inner_transition)
  show "rt_state (snd (disconnect_client s)) = Disconnected"
    by (simp add: result transition_def)
  show "rt_socket (snd (disconnect_client s)) = None" "rt_pending (snd (disconnect_client s)) = []"
    "rt_explicitly_disconnected (snd (disconnect_client s))"
    "\<not> rt_reconnect_timer (snd (disconnect_client s))" "\<not> rt_authorization_pending (snd (disconnect_client s))"
    using lt l6 l4 l2 unfolding result
    by (auto simp: link_def s5_def s3_def s1_def set_rt_def settle_pending_commands_def)
qed

lemma disconnect_preserving: "preserving disconnect_client"
  by (simp add: preserving_def client_inv_defs disconnect_result)

lemma request_failure: "request_connection_ticket show_status outcome = Inl failure \<Longrightarrow>
  af_retryable failure \<longleftrightarrow> \<not> af_fatal failure"
  by (auto simp: request_connection_ticket_def Let_def split: authorization_outcome.splits option.splits if_splits)

lemma authorize_preserving: "preserving (authorize_and_open show_status factory sequence outcome)"
  unfolding preserving_def
proof (intro allI impI)
  fix s
  assume inv: "client_inv s"
  let ?r = "snd (authorize_and_open show_status factory sequence outcome s)"
  show "client_inv ?r"
  proof (cases "request_connection_ticket show_status outcome")
    case (Inr ticket)
    let ?o = "snd (open_socket factory sequence (Some ticket) s)"
    have r: "?r = (if sequence = rt_sequence s then ?o\<lparr>rt_authorization_pending := False\<rparr> else ?o)"
      by (simp add: authorize_and_open_def Inr)
    have "idle_quiet ?o"
      using inv open_socket_None [of factory sequence "Some ticket" s]
      by (auto simp: client_inv_def idle_quiet_def)
    moreover have "retrying ?o"
      using inv open_socket_None [of factory sequence "Some ticket" s]
        open_socket_facts(10) [of s factory sequence "Some ticket"]
      by (auto simp: client_inv_def retrying_def)
    moreover have "retrying (?o\<lparr>rt_authorization_pending := False\<rparr>)" if "sequence = rt_sequence s"
      using open_socket_progress [OF that] by (auto simp: retrying_def)
    ultimately show ?thesis by (auto simp: r client_inv_def idle_quiet_def)
  next
    case (Inl failure)
    note retry = request_failure [OF Inl]
    show ?thesis
    proof (cases "sequence \<noteq> rt_sequence s \<or> rt_explicitly_disconnected s")
      case True
      with inv show ?thesis by (auto simp: authorize_and_open_def Inl client_inv_defs)
    next
      case False
      with inv retry show ?thesis
        by (auto simp: authorize_and_open_def Inl client_inv_defs set_rt_def connection_error_defs transition_def)
    qed
  qed
qed

lemma socket_closed_result:
  assumes "rt_socket s = Some n"
  obtains s6 where "rt_socket s6 = None" "rt_pending s6 = []" "rt_state s6 = Disconnected"
    "rt_options s6 = rt_options s" "rt_explicitly_disconnected s6 = rt_explicitly_disconnected s"
    "rt_terminal_failure s6 \<longleftrightarrow> rt_terminal_failure s \<or> code = 4401 \<or> code = 4403"
    "snd (socket_closed n code reason s) =
       (if \<not> rt_explicitly_disconnected s6 \<and> \<not> rt_terminal_failure s6 then snd (schedule_reconnect s6) else s6)"
proof -
  define s1 where "s1 = s\<lparr>rt_ready := (rt_ready s)(n := 3), rt_socket := None\<rparr>"
  define s2 where "s2 = snd (run_acts [clear_connection_timeout, clear_subscription_timers] s1)"
  define s3 where "s3 = snd (settle_pending_commands ''command_disconnected'' ''The realtime connection closed.'' s2)"
  define s4 where "s4 = snd ((\<lambda>s. run_acts (map (\<lambda>e s. case om_get (rt_subscriptions s) (fst e) of
      None \<Rightarrow> ([], s)
    | Some b \<Rightarrow> if sb_state b \<notin> {Leaving, Left} then sub_reset (fst e) s else ([], s)) (rt_subscriptions s)) s) s3)"
  define s5 where "s5 = (if code = 4401 \<or> code = 4403
     then snd (run_acts [set_rt (\<lambda>s. s\<lparr>rt_terminal_failure := True\<rparr>),
            connection_error ''authentication_failed''
              (if reason = [] then ''Realtime authentication failed.'' else reason) False True ''connect''] s4)
     else s4)"
  define s6 where "s6 = snd (transition Disconnected s5)"
  have result: "snd (socket_closed n code reason s) =
       (if \<not> rt_explicitly_disconnected s6 \<and> \<not> rt_terminal_failure s6 then snd (schedule_reconnect s6) else s6)"
    using assms
    by (simp add: socket_closed_def Let_def s6_def s5_def s4_def s3_def s2_def s1_def set_rt_def)
  have l2: "link s2 = link s1" "rt_terminal_failure s2 = rt_terminal_failure s1"
    by (simp_all add: s2_def clear_connection_timeout_def clear_subscription_timers_def set_rt_def link_def)
  have l4: "link s4 = link s3"
    using inner_reset_where [of "\<lambda>st. st \<notin> {Leaving, Left}"] unfolding s4_def by (simp only: inner_defs)
  have terminal: "rt_terminal_failure (snd (run_acts (map (\<lambda>e s. case om_get (rt_subscriptions s) (fst e) of
      None \<Rightarrow> ([], s)
    | Some b \<Rightarrow> if sb_state b \<notin> {Leaving, Left} then sub_reset (fst e) s else ([], s)) es) t)) =
    rt_terminal_failure t" for es t
    by (induction es arbitrary: t)
       (auto simp: sub_reset_def sub_set_error_def sub_transition_def put_sub_def split: option.split)
  have l5: "link s5 = link s4" "rt_terminal_failure s5 \<longleftrightarrow> rt_terminal_failure s4 \<or> code = 4401 \<or> code = 4403"
    by (simp_all add: s5_def set_rt_def connection_error_defs link_def)
  have l6: "link s6 = link s5" "rt_terminal_failure s6 = rt_terminal_failure s5" "rt_state s6 = Disconnected"
    by (simp_all add: s6_def transition_def link_def)
  have l3: "link s3 = link (s2\<lparr>rt_pending := []\<rparr>)" "rt_terminal_failure s3 = rt_terminal_failure s2"
    by (simp_all add: s3_def settle_pending_commands_def)
  have "rt_terminal_failure s6 \<longleftrightarrow> rt_terminal_failure s \<or> code = 4401 \<or> code = 4403"
    using l2 l3 l5 l6 by (simp add: s4_def terminal) (simp add: s1_def)
  with l2 l3 l4 l5 l6 result show ?thesis
    by (intro that [of s6]) (simp_all add: link_def s1_def)
qed

lemma socket_closed_preserving: "preserving (socket_closed n code reason)"
  unfolding preserving_def
proof (intro allI impI)
  fix s
  assume inv: "client_inv s"
  show "client_inv (snd (socket_closed n code reason s))"
  proof (cases "rt_socket s = Some n")
    case False
    with inv show ?thesis by (simp add: socket_closed_def Let_def client_inv_defs)
  next
    case True
    show ?thesis
      by (rule socket_closed_result [OF True, of code reason]) (auto simp: client_inv_defs)
  qed
qed

lemma reconnect_timer_preserving: "preserving (reconnect_timer_fires factory)"
  unfolding preserving_def
proof (intro allI impI)
  fix s
  assume inv: "client_inv s"
  let ?s = "s\<lparr>rt_reconnect_timer := False\<rparr>"
  have "idle_quiet ?s" using inv by (simp add: client_inv_defs)
  then have "idle_quiet (snd (connect factory ?s))"
    using connect_None [of factory ?s] by (auto simp: idle_quiet_def)
  moreover have "retrying (snd (connect factory ?s))"
    using connect_progress [of ?s factory] by (simp add: retrying_def)
  ultimately show "client_inv (snd (reconnect_timer_fires factory s))"
    using inv by (simp add: reconnect_timer_fires_def client_inv_def)
qed

lemma preserving_run_list: "preserving a \<Longrightarrow> preserving (run_acts as) \<Longrightarrow> preserving (run_acts (a # as))"
  by (simp add: preserving_def)

lemma preserving_pointwise: "(\<And>s. \<exists>b. preserving b \<and> a s = b s) \<Longrightarrow> preserving a"
  unfolding preserving_def by metis

lemma channel_preserving: "preserving (channel_rt factory throws name kind)"
proof (rule preserving_pointwise)
  fix s
  have emitted: "preserving (\<lambda>s. (es, s))" for es
    by (simp add: preserving_def)
  have opened: "preserving (run_acts [set_rt (put_sub key (new_subscription name kind)), connect factory,
      (\<lambda>s. if rt_state s = Authenticated then subscribe_rt throws key s else ([], s))])" for key
    by (intro preserving_run_list connect_preserving inner_preserving inner_acts subscribe_after)
  show "\<exists>b. preserving b \<and> channel_rt factory throws name kind s = b s"
    using emitted opened by (auto simp: channel_rt_def Let_def split: option.split)
qed

lemma command_preserving: "preserving (command_rt throws ident name payload)"
proof -
  have "client_inv (snd (send_rt throws f t))" if "client_inv t" for f t
    using inner_preserving [OF inner_errors(4)] that by (simp add: preserving_def)
  moreover have "client_inv (s\<lparr>rt_pending := m\<rparr>)" if "client_inv s" "rt_state s = Authenticated" for s m
    using that by (auto simp: client_inv_defs)
  ultimately show ?thesis
    by (auto simp: preserving_def command_rt_def set_rt_def split: sum.split)
qed

lemma take_out_preserving: "client_inv s \<Longrightarrow> client_inv (s\<lparr>rt_pending := om_delete i (rt_pending s)\<rparr>)"
  by (auto simp: client_inv_defs om_delete_def)

lemma command_timeout_preserving: "preserving (command_timeout ident)"
  by (simp add: preserving_def command_timeout_def take_out_preserving)

lemma command_ack_preserving: "preserving (receive_command_ack frame)"
proof -
  have "client_inv (snd (invalid_ack t))" if "client_inv t" for t
    using inner_preserving [OF inner_receive_parts(1)] that by (simp add: preserving_def)
  then show ?thesis
    by (auto simp: preserving_def receive_command_ack_def Let_def emit_def take_out_preserving
        split: option.split json.split)
qed

lemma message_preserving:
  "preserving (\<lambda>s. if rt_socket s = Some n then receive_rt throws parsed s else ([], s))"
  unfolding preserving_def
proof (intro allI impI)
  fix s
  assume inv: "client_inv s"
  show "client_inv (snd (if rt_socket s = Some n then receive_rt throws parsed s else ([], s)))"
  proof (cases "rt_socket s = Some n")
    case True
    have "client_inv (snd (receive_connected throws f s))" for f
      using linked_receive_connected [of throws f] inv True by (intro linked_inv [of s]) (auto simp: linked_def)
    with True inv show ?thesis
      using command_ack_preserving inner_preserving
      by (cases rule: receive_rt_cases [of throws parsed]) (auto simp: preserving_def)
  qed (use inv in simp)
qed

lemma step_preserving: "preserving (client_step show_status ev)"
  by (cases ev)
     (simp_all add: connect_preserving disconnect_preserving channel_preserving command_preserving
       authorize_preserving message_preserving socket_closed_preserving reconnect_timer_preserving
       command_timeout_preserving eta_contract_eq inner_preserving inner_leave inner_listen
       inner_stop_listening inner_socket inner_subscription_timeout)

lemma run_preserving: "client_inv s \<Longrightarrow> client_inv (snd (client_run show_status evs s))"
  by (induction evs arbitrary: s) (use step_preserving in \<open>auto simp: preserving_def\<close>)

lemma new_realtime_inv: "client_inv (new_realtime o')"
  by (simp add: client_inv_defs new_realtime_def)

subsection \<open>Properties\<close>

text \<open>
  C18. Every command settles exactly once. In any run of a client, whatever the application, the
  server, the transport and the timers do, and in whatever order: the commands that were issued
  under distinct ids are the ones settled (acknowledged, rejected, timed out or given up with the
  connection) together with the ones still pending, each counted once; and without a connection none
  is pending, so all have settled.
\<close>

theorem commands_settle_once:
  assumes "distinct (issued evs)"
  shows "mset (settled (fst (client_run show_status evs (new_realtime o')))) +
      pending_ids (snd (client_run show_status evs (new_realtime o'))) = mset (issued evs) \<and>
    (rt_socket (snd (client_run show_status evs (new_realtime o'))) = None \<longrightarrow>
      mset (settled (fst (client_run show_status evs (new_realtime o')))) = mset (issued evs))"
proof -
  let ?r = "client_run show_status evs (new_realtime o')"
  have "pending_ids (new_realtime o') = {#}" "om_ok (rt_pending (new_realtime o'))"
    by (simp_all add: new_realtime_def pending_ids_def)
  with assms have accounts: "mset (settled (fst ?r)) + pending_ids (snd ?r) = mset (issued evs)"
    using run_accounts [of "new_realtime o'" evs show_status] by simp
  have "client_inv (snd ?r)" by (intro run_preserving new_realtime_inv)
  then have "rt_socket (snd ?r) = None \<longrightarrow> pending_ids (snd ?r) = {#}"
    by (simp add: client_inv_def idle_quiet_def pending_ids_def)
  with accounts show ?thesis by auto
qed

definition sample_options :: client_options where
  "sample_options = \<lparr>co_url = ''wss://x'', co_protocols = None, co_authorization = False, co_reconnect = True,
     co_minimum_ms = 250, co_maximum_ms = 10000\<rparr>"

definition sample_connected :: json where
  "sample_connected = JObj [(''protocol'', keryx_protocol), (''type'', JStr ''connected''), (''connectionId'', JStr ''c'')]"

definition sample_ack :: "string \<Rightarrow> json" where
  "sample_ack i = JObj [(''protocol'', keryx_protocol), (''type'', JStr ''command_ack''), (''id'', JStr i),
     (''ok'', JBool True)]"

definition sample_run :: "client_event list" where
  "sample_run = [Ev_connect None, Ev_opened 0, Ev_message 0 None (Some sample_connected),
     Ev_command None ''a'' ''orders.ship'' (Some JNull), Ev_command None ''b'' ''orders.ship'' (Some JNull),
     Ev_message 0 None (Some (sample_ack ''b'')), Ev_closed 0 1006 []]"

lemma sample_run_settled: "settled (fst (client_run (\<lambda>_. []) sample_run (new_realtime sample_options))) = [''b'', ''a'']"
  by code_simp

theorem commands_settle_once_witness:
  "mset [''b'', ''a''] = mset (issued sample_run)"
proof -
  have "rt_socket (snd (client_run (\<lambda>_. []) sample_run (new_realtime sample_options))) = None" by code_simp
  moreover have "distinct (issued sample_run)" by code_simp
  ultimately show ?thesis
    using commands_settle_once [of sample_run "\<lambda>_. []" sample_options] by (simp add: sample_run_settled)
qed

lemma connect_opens:
  "rt_socket (snd (connect None s)) \<noteq> None \<or> rt_authorization_pending (snd (connect None s))"
  by (auto simp: connect_def set_rt_def transition_def open_socket_def emit_def start_connection_timeout_def
      clear_connection_timeout_def Let_def split: option.splits)

text \<open>
  C33. A client that should be connected is never stuck. In every state a run of a client that
  reconnects can reach, once it was told to connect and unless it was told to disconnect or failed
  for good, it holds a socket, waits for an authorization, or has a reconnect timer running; and
  such a timer, when the transport can be made, brings a socket or an authorization request.
\<close>

theorem client_never_stuck:
  fixes o' evs show_status
  defines "s \<equiv> snd (client_run show_status evs (new_realtime o'))"
  assumes "co_reconnect (rt_options s)" and "rt_sequence s \<noteq> 0"
    and "\<not> rt_explicitly_disconnected s" and "\<not> rt_terminal_failure s"
  shows "(rt_socket s \<noteq> None \<or> rt_authorization_pending s \<or> rt_reconnect_timer s) \<and>
    (rt_reconnect_timer s \<longrightarrow>
       rt_socket (snd (client_step show_status (Ev_reconnect_timer None) s)) \<noteq> None \<or>
       rt_authorization_pending (snd (client_step show_status (Ev_reconnect_timer None) s)))"
proof
  have "client_inv s" unfolding s_def by (intro run_preserving new_realtime_inv)
  with assms(2-) show "rt_socket s \<noteq> None \<or> rt_authorization_pending s \<or> rt_reconnect_timer s"
    by (simp add: client_inv_def retrying_def)
  show "rt_reconnect_timer s \<longrightarrow>
       rt_socket (snd (client_step show_status (Ev_reconnect_timer None) s)) \<noteq> None \<or>
       rt_authorization_pending (snd (client_step show_status (Ev_reconnect_timer None) s))"
    using connect_opens by (simp add: reconnect_timer_fires_def)
qed

theorem client_never_stuck_witness:
  "rt_reconnect_timer (snd (client_run (\<lambda>_. []) sample_run (new_realtime sample_options))) \<and>
   rt_socket (snd (client_step (\<lambda>_. []) (Ev_reconnect_timer None)
     (snd (client_run (\<lambda>_. []) sample_run (new_realtime sample_options))))) \<noteq> None"
proof -
  let ?s = "snd (client_run (\<lambda>_. []) sample_run (new_realtime sample_options))"
  have "co_reconnect (rt_options ?s)" "rt_sequence ?s \<noteq> 0" "\<not> rt_explicitly_disconnected ?s"
    "\<not> rt_terminal_failure ?s" by code_simp+
  from client_never_stuck [OF this] have
    "rt_socket ?s \<noteq> None \<or> rt_authorization_pending ?s \<or> rt_reconnect_timer ?s"
    "rt_reconnect_timer ?s \<longrightarrow> rt_socket (snd (client_step (\<lambda>_. []) (Ev_reconnect_timer None) ?s)) \<noteq> None \<or>
       rt_authorization_pending (snd (client_step (\<lambda>_. []) (Ev_reconnect_timer None) ?s))" by blast+
  moreover have "rt_socket ?s = None" "\<not> rt_authorization_pending ?s" by code_simp+
  moreover have "\<not> rt_authorization_pending (snd (client_step (\<lambda>_. []) (Ev_reconnect_timer None) ?s))" by code_simp
  ultimately show ?thesis by blast
qed

text \<open>What a disconnected client must not do by itself.\<close>

fun silent :: "client_effect \<Rightarrow> bool" where
  "silent (Opened n ps) = False"
| "silent (Authorization_requested n) = False"
| "silent (Reconnect_scheduled d) = False"
| "silent (Sent_text n j) = False"
| "silent e = True"

fun may_connect :: "client_event \<Rightarrow> bool" where
  "may_connect (Ev_connect factory) = True"
| "may_connect (Ev_channel factory throws name kind) = True"
| "may_connect ev = False"

definition switched_off :: "realtime \<Rightarrow> bool" where
  "switched_off s \<longleftrightarrow> rt_socket s = None \<and> rt_explicitly_disconnected s \<and> \<not> rt_reconnect_timer s \<and>
     rt_pending s = [] \<and> rt_state s \<noteq> Authenticated"

definition stays_off :: "act \<Rightarrow> bool" where
  "stays_off a \<longleftrightarrow> (\<forall>s. switched_off s \<longrightarrow> switched_off (snd (a s)) \<and> list_all silent (fst (a s)))"

lemma calm_silent: "list_all calm es \<Longrightarrow> list_all (\<lambda>e. \<not> sends e) es \<Longrightarrow> list_all silent es"
proof (induction es)
  case (Cons e es)
  then show ?case by (cases e) (simp_all add: sends_def)
qed simp

lemma inner_stays_off: "inner a \<Longrightarrow> stays_off a"
  by (auto simp: inner_def inner_at_def linked_at_def link_def stays_off_def switched_off_def
      intro!: calm_silent)

lemma disconnect_stays_off: "stays_off disconnect_client"
proof -
  have run: "stays_off (run_acts (a # as))" if "stays_off a" "stays_off (run_acts as)" for a as
    using that by (simp add: stays_off_def)
  have sets: "stays_off (set_rt (\<lambda>s. s\<lparr>rt_sequence := rt_sequence s + 1, rt_authorization_pending := False,
       rt_explicitly_disconnected := True, rt_terminal_failure := False, rt_reconnect_timer := False\<rparr>))"
    "stays_off (set_rt (\<lambda>s. s\<lparr>rt_socket := None\<rparr>))"
    "stays_off (settle_pending_commands code message)" for code message
    by (simp_all add: stays_off_def switched_off_def set_rt_def settle_pending_commands_def)
  show ?thesis
    unfolding disconnect_client_def
    by (intro run sets) (intro inner_stays_off inner_acts inner_errors)+
qed

lemma switched_off_receives_nothing:
  "switched_off s \<Longrightarrow> socket_closed n code reason s = ([], s\<lparr>rt_ready := (rt_ready s)(n := 3)\<rparr>)"
  by (simp add: switched_off_def socket_closed_def Let_def)

lemma step_stays_off: "\<not> may_connect ev \<Longrightarrow> stays_off (client_step show_status ev)"
proof (cases ev)
  case (Ev_command throws ident name payload)
  then show ?thesis
    by (auto simp: stays_off_def command_rt_def switched_off_def split: sum.split)
next
  case (Ev_authorized factory sequence outcome)
  then show ?thesis
    by (auto simp: stays_off_def switched_off_def authorize_and_open_def open_socket_def split: sum.split)
next
  case (Ev_closed n code reason)
  then show ?thesis
    by (simp add: stays_off_def switched_off_receives_nothing) (simp add: switched_off_def)
next
  case (Ev_message n throws parsed)
  then show ?thesis by (simp add: stays_off_def switched_off_def)
next
  case (Ev_reconnect_timer factory)
  then show ?thesis by (simp add: stays_off_def switched_off_def reconnect_timer_fires_def)
next
  case (Ev_command_timeout ident)
  then show ?thesis by (simp add: stays_off_def switched_off_def command_timeout_def)
qed (simp_all add: disconnect_stays_off inner_stays_off inner_listen inner_leave inner_stop_listening
    inner_socket inner_subscription_timeout)

text \<open>
  A disconnected client stays disconnected. After \<open>disconnect()\<close>, in whatever state it was
  called, until the application connects or asks for a channel: whatever answers, messages, closings
  and timers were still under way, nothing is sent, no socket is opened, no authorization
  requested and no reconnect scheduled, and there is no socket.
\<close>

theorem disconnected_stays_quiet:
  assumes "\<forall>ev\<in>set evs. \<not> may_connect ev"
  shows "list_all silent (fst (client_run show_status evs (snd (disconnect_client s)))) \<and>
    rt_socket (snd (client_run show_status evs (snd (disconnect_client s)))) = None"
proof -
  have "switched_off (snd (disconnect_client s))"
    by (simp add: switched_off_def disconnect_result)
  then have "switched_off (snd (client_run show_status evs (snd (disconnect_client s)))) \<and>
      list_all silent (fst (client_run show_status evs (snd (disconnect_client s))))"
    using assms
  proof (induction evs arbitrary: s rule: rev_induct)
    case (snoc ev evs)
    then show ?case
      using step_stays_off [of ev show_status] by (simp add: client_run_def run_acts_append stays_off_def)
  qed simp
  then show ?thesis by (simp add: switched_off_def)
qed

theorem disconnected_stays_quiet_witness:
  "rt_socket (snd (client_run (\<lambda>_. []) [Ev_message 0 None (Some sample_connected), Ev_closed 0 1006 [], Ev_reconnect_timer None]
     (snd (disconnect_client (snd (client_run (\<lambda>_. []) sample_run (new_realtime sample_options))))))) = None"
  by (rule disconnected_stays_quiet [THEN conjunct2]) simp

subsection \<open>What goes wrong\<close>

definition sample_channel_frame :: "string \<Rightarrow> json" where
  "sample_channel_frame ty = JObj [(''protocol'', keryx_protocol), (''type'', JStr ty),
     (''channel'', JObj [(''name'', JStr ''news''), (''kind'', JStr ''public'')]), (''members'', JArr [])]"

definition joined_run :: "client_event list" where
  "joined_run = [Ev_connect None, Ev_opened 0, Ev_message 0 None (Some sample_connected),
     Ev_channel None None ''news'' ''public'', Ev_message 0 None (Some (sample_channel_frame ''subscribed''))]"

definition dropped_run :: "client_event list" where
  "dropped_run = joined_run @ [Ev_leave None ''news'' None, Ev_closed 0 1006 [], Ev_reconnect_timer None,
     Ev_opened 1, Ev_message 1 None (Some sample_connected)]"

text \<open>
  Leaving a channel as the connection drops loses the channel for good. The subscription is
  kept as \<open>leaving\<close> over the reconnect, where its timer is gone: once the client is connected
  again nothing is sent for it, and asking for the channel gives back the dead subscription without
  subscribing, although no server knows of it.
\<close>

theorem left_channel_is_lost:
  "(let s = snd (client_run (\<lambda>_. []) dropped_run (new_realtime sample_options)) in
    map_option sb_state (om_get (rt_subscriptions s) ''public:news'') = Some Leaving \<and>
    rt_state s = Authenticated \<and> rt_subscription_timers s = [] \<and>
    filter (\<lambda>e. case e of Sent_text n j \<Rightarrow> n = 1 | _ \<Rightarrow> False)
      (fst (client_run (\<lambda>_. []) dropped_run (new_realtime sample_options))) = [] \<and>
    fst (client_run (\<lambda>_. []) [Ev_channel None None ''news'' ''public''] s) = [])"
  by code_simp

definition reopened_run :: "client_event list" where
  "reopened_run = joined_run @ [Ev_leave None ''news'' None, Ev_disconnect, Ev_connect None, Ev_opened 1,
     Ev_message 1 None (Some sample_connected)]"

text \<open>
  With \<open>disconnect()\<close> in place of the drop the same subscription is reset to \<open>pending\<close>, and the
  next connection subscribes to the channel that was left.
\<close>

lemma left_channel_comes_back:
  "filter (\<lambda>e. case e of Sent_text n j \<Rightarrow> n = 1 | _ \<Rightarrow> False)
     (fst (client_run (\<lambda>_. []) reopened_run (new_realtime sample_options))) =
   [Sent_text 1 (channel_frame ''subscribe'' (new_subscription ''news'' ''public''))]"
  by code_simp

definition refused_run :: "client_event list" where
  "refused_run = [Ev_connect None, Ev_closed 0 1006 [], Ev_connect None, Ev_opened 1, Ev_closed 1 4401 []]"

text \<open>
  A terminal failure does not stop a reconnect timer that was already running: \<open>connect()\<close> leaves
  the timer of an earlier drop in place, and when it fires after the server has refused the client
  for good, it takes the failure back and connects again.
\<close>

lemma stale_timer_reconnects:
  "(let s = snd (client_run (\<lambda>_. []) refused_run (new_realtime sample_options)) in
    rt_terminal_failure s \<and> rt_reconnect_timer s \<and>
    \<not> rt_terminal_failure (snd (client_run (\<lambda>_. []) [Ev_reconnect_timer None] s)) \<and>
    rt_socket (snd (client_run (\<lambda>_. []) [Ev_reconnect_timer None] s)) = Some 2)"
  by code_simp

end
