(* ===== verification/ClientServer.thy ===== *)
theory ClientServer
  imports KeryxServer RealtimeClient
begin

text \<open>
  The two ends of the protocol together: what the client of \<open>packages/realtime\<close> puts on the wire
  is what the server of \<open>packages/keryx\<close> takes, with the same meaning.
\<close>

lemma client_channel_name_ok_iff: "client_channel_name_ok name \<longleftrightarrow> channel_name_ok name"
  by (cases name) (auto simp: client_channel_name_ok_def channel_name_ok_def)

lemma assert_client_json_Inr: "assert_client_json payload = Inr v \<longleftrightarrow> payload = Some v \<and> assert_json 0 v = Inr ()"
  by (auto simp: assert_client_json_def split: option.split sum.split)

lemma channel_frame_parses:
  assumes "channel_name_ok (sb_name b)" and "sb_kind b \<in> set channel_kinds"
  shows "parse_client_frame (Some (channel_frame ''subscribe'' b)) = Inr (Subscribe (sub_destination b))"
    and "parse_client_frame (Some (channel_frame ''unsubscribe'' b)) = Inr (Unsubscribe (sub_destination b))"
proof -
  have "normalize_destination (Some (destination_json (sub_destination b))) = Inr (sub_destination b)"
    using assms by (simp add: destination_ok_def sub_destination_def)
  then show "parse_client_frame (Some (channel_frame ''subscribe'' b)) = Inr (Subscribe (sub_destination b))"
    and "parse_client_frame (Some (channel_frame ''unsubscribe'' b)) = Inr (Unsubscribe (sub_destination b))"
    by (simp_all add: parse_client_frame_def channel_frame_def parse_channel_frame_def)
qed

lemma command_frame_parses:
  assumes "command_name_ok name" and "assert_client_json payload = Inr v"
    and "ident \<noteq> []" and "length ident \<le> 200"
  shows "parse_client_frame (Some (command_frame ident name v)) = Inr (Command ident name v)"
  using assms
  by (simp add: parse_client_frame_def command_frame_def parse_command_def assert_json_opt_def assert_client_json_Inr)

text \<open>
  The server understands its client. A channel the client accepts and a command it accepts are
  sent as frames the server takes for that subscription, unsubscription or command, with the
  payload unchanged; and both ends file the channel under the same key.
\<close>

theorem client_frames_accepted:
  assumes "client_channel_name_ok name" and "kind \<in> set channel_kinds"
    and "command_name_ok command" and "assert_client_json payload = Inr v"
    and "ident \<noteq> []" and "length ident \<le> 200"
  shows "parse_client_frame (Some (channel_frame ''subscribe'' (new_subscription name kind))) =
      Inr (Subscribe \<lparr>dest_name = name, dest_kind = JStr kind\<rparr>) \<and>
    parse_client_frame (Some (channel_frame ''unsubscribe'' (new_subscription name kind))) =
      Inr (Unsubscribe \<lparr>dest_name = name, dest_kind = JStr kind\<rparr>) \<and>
    destination_key \<lparr>dest_name = name, dest_kind = JStr kind\<rparr> = subscription_key kind name \<and>
    parse_client_frame (Some (command_frame ident command v)) = Inr (Command ident command v)"
  using channel_frame_parses [of "new_subscription name kind"] command_frame_parses [OF assms(3-6)] assms(1,2)
  by (simp add: client_channel_name_ok_iff new_subscription_def sub_destination_def destination_key_def
      text_of_def subscription_key_def)

theorem client_frames_accepted_witness:
  "parse_client_frame (Some (command_frame ''42'' ''orders.ship'' (JArr [JNull]))) =
     Inr (Command ''42'' ''orders.ship'' (JArr [JNull]))"
  by (rule client_frames_accepted [of "''news''" "''public''" "''orders.ship''" "Some (JArr [JNull])", THEN conjunct2,
      THEN conjunct2, THEN conjunct2]) code_simp+

subsection \<open>The handshake\<close>

text \<open>
  A browser sends the protocols it was given as one header, separated by a comma and a space;
  they are tokens, without commas or surrounding space.
\<close>

definition protocol_header :: "string list \<Rightarrow> string" where
  "protocol_header ps = join '', '' ps"

definition token :: "string \<Rightarrow> bool" where
  "token p \<longleftrightarrow> list_all (\<lambda>c. c \<noteq> CHR '','' \<and> \<not> is_space c) p"

lemma token_trim [simp]: "token p \<Longrightarrow> js_trim p = p"
  by (intro js_trim_none) (auto simp: token_def list_all_iff)

lemma js_trim_space [simp]: "js_trim (CHR '' '' # s) = js_trim s"
  by (simp add: js_trim_def is_space_def)

lemma header_splits:
  "list_all token (p # ps) \<Longrightarrow> map js_trim (split_on (CHR '','') (protocol_header (p # ps))) = p # ps"
proof (induction ps arbitrary: p)
  case Nil
  then have "CHR '','' \<notin> set p" by (auto simp: token_def list_all_iff)
  with Nil show ?case by (simp add: protocol_header_def split_on_no_sep)
next
  case (Cons q ps)
  have p: "CHR '','' \<notin> set p" using Cons.prems by (auto simp: token_def list_all_iff)
  define rest where "rest = protocol_header (q # ps)"
  have "map js_trim (split_on (CHR '','') rest) = q # ps"
    unfolding rest_def using Cons.prems by (intro Cons.IH) simp
  then obtain r rs where rest: "split_on (CHR '','') rest = r # rs" "js_trim r = q" "map js_trim rs = ps"
    by (auto simp: map_eq_Cons_conv)
  have "split_on (CHR '','') (protocol_header (p # q # ps)) = p # split_on (CHR '','') (CHR '' '' # rest)"
    using split_on_append [OF p, of "CHR '' '' # rest"] by (simp add: protocol_header_def rest_def)
  also have "split_on (CHR '','') (CHR '' '' # rest) = (CHR '' '' # r) # rs"
    using rest(1) by simp
  finally show ?case using rest(2,3) Cons.prems by simp
qed

lemma ticket_char_token: "list_all ticket_char ticket \<Longrightarrow> token (ticket_prefix @ ticket)"
  by (auto simp: token_def list_all_iff ticket_char_def ticket_prefix_def is_space_def char_class_defs)

text \<open>
  A client is admitted with the ticket it was given. The protocols the client offers for a
  ticket its authorization endpoint returned, sent as a browser sends them, make the server read that
  very ticket and answer with the realtime protocol, whatever other protocols the application
  configured (tokens, none of them a ticket: those the client refuses).
\<close>

theorem ticket_reaches_server:
  assumes "request_connection_ticket show_status outcome = Inr ticket"
    and "protocols_with_ticket configured ticket = Inr ps"
    and "list_all token (case configured of None \<Rightarrow> [] | Some qs \<Rightarrow> qs)"
  shows "admission_ticket_from_incoming (Some (protocol_header ps)) = Inr (Some ticket) \<and>
    handle_protocols ps = Some keryx_subprotocol"
proof
  define qs where "qs = (case configured of None \<Rightarrow> [] | Some qs \<Rightarrow> qs)"
  have ticket: "list_all ticket_char ticket" "ticket \<noteq> []"
    using assms(1) by (auto simp: request_connection_ticket_def Let_def
        split: authorization_outcome.splits option.splits if_splits)
  have qs: "\<not> list_ex (prefix ticket_prefix) qs"
    and ps: "ps = keryx_subprotocol # filter (\<lambda>p. p \<noteq> keryx_subprotocol) qs @ [ticket_prefix @ ticket]"
    using assms(2)
    by (auto simp: protocols_with_ticket_def Let_def qs_def ticket_subprotocol_prefix_def ticket_prefix_def
        realtime_subprotocol_def keryx_subprotocol_def split: if_splits)
  have "token keryx_subprotocol" by code_simp
  with ps assms(3) ticket_char_token [OF ticket(1)] have "list_all token ps"
    by (auto simp: qs_def list_all_iff)
  then have header: "map js_trim (split_on (CHR '','') (protocol_header ps)) = ps"
    using header_splits ps by simp
  have "filter (prefix ticket_prefix) (filter (\<lambda>p. p \<noteq> keryx_subprotocol) qs) = []"
    using qs by (auto simp: filter_empty_conv list_ex_iff)
  moreover have "\<not> prefix ticket_prefix keryx_subprotocol" by code_simp
  ultimately have "filter (prefix ticket_prefix) ps = [ticket_prefix @ ticket]"
    by (simp add: ps)
  then show "admission_ticket_from_incoming (Some (protocol_header ps)) = Inr (Some ticket)"
    using ticket(2) by (simp add: admission_ticket_from_incoming_def or_else_def header)
  show "handle_protocols ps = Some keryx_subprotocol"
    by (simp add: handle_protocols_def ps)
qed

definition sample_answer :: authorization_outcome where
  "sample_answer = Responded True 200 (Some (JObj [(''data'', JObj [(''ticket'', JStr ''v1.a.b.c'')])]))"

theorem ticket_reaches_server_witness:
  "admission_ticket_from_incoming
     (Some (protocol_header [''doxa.realtime.v3'', ''chat'', ''doxa.ticket.v1.a.b.c''])) = Inr (Some ''v1.a.b.c'')"
  by (rule ticket_reaches_server [of "\<lambda>_. []" sample_answer "''v1.a.b.c''" "Some [''chat'']", THEN conjunct1])
     code_simp+

end
