(* ===== verification/ProviderGraph.thy ===== *)
theory ProviderGraph
  imports PublishAuth
begin

text \<open>
  The compiler's checks of the dependency graph of an application
  (\<open>packages/compiler/src/manifest-validation.ts\<close>): unique identities, no dependency cycle among
  providers, no singleton that reaches an execution-scoped provider, no nested use of the action
  bus and no mutable infrastructure behind a query, and the advisories about folders.

  The recursive closures of the source are functions that thread the sets the closures share. An
  exception is \<open>Inl\<close> of its message.
\<close>

subsection \<open>Manifest entries\<close>

datatype provider_scope = Singleton | Execution | Transient

datatype capability =
  Authentication | Transactions | Queues | Mail | Sms | Broadcasting | Cache_capability | Other_capability string

definition capability_name :: "capability \<Rightarrow> string" where
  "capability_name c = (case c of
     Authentication \<Rightarrow> ''authentication'' | Transactions \<Rightarrow> ''transactions'' | Queues \<Rightarrow> ''queues''
   | Mail \<Rightarrow> ''mail'' | Sms \<Rightarrow> ''sms'' | Broadcasting \<Rightarrow> ''broadcasting''
   | Cache_capability \<Rightarrow> ''cache'' | Other_capability s \<Rightarrow> s)"

text \<open>
  A dependency may have no target, and one whose target is the empty string counts as having none:
  \<open>targets\<close> lists the targets the checks follow.
\<close>

record provider_entry =
  pv_id :: string
  pv_scope :: provider_scope
  pv_capabilities :: "capability list"
  pv_dependencies :: "string option list"

record root_entry =
  ro_id :: string
  ro_is_query :: bool
  ro_dependencies :: "string option list"

fun targets :: "string option list \<Rightarrow> string list" where
  "targets [] = []"
| "targets (None # ds) = targets ds"
| "targets (Some t # ds) = (if t = [] then targets ds else t # targets ds)"

type_synonym graph = "(string, provider_entry) omap"

definition by_id :: "provider_entry list \<Rightarrow> graph" where
  "by_id ps = fold (\<lambda>p. om_set (pv_id p) p) ps []"

subsection \<open>Unique identities\<close>

fun assert_unique_from :: "string list \<Rightarrow> ('a \<Rightarrow> string) \<Rightarrow> string \<Rightarrow> 'a list \<Rightarrow> string + unit" where
  "assert_unique_from seen identity label [] = Inr ()"
| "assert_unique_from seen identity label (x # xs) =
     (if identity x \<in> set seen then Inl (''Duplicate '' @ label @ '': '' @ identity x)
      else assert_unique_from (identity x # seen) identity label xs)"

definition assert_unique :: "'a list \<Rightarrow> ('a \<Rightarrow> string) \<Rightarrow> string \<Rightarrow> string + unit" where
  "assert_unique xs identity label = assert_unique_from [] identity label xs"

subsection \<open>Cycles\<close>

text \<open>
  \<open>visit(id, path)\<close> of \<open>assertAcyclicProviderGraph\<close>. The ids being visited are those of the path:
  each visit adds its id to both and takes it out when it returns. A cycle is given as its path.
\<close>

function (sequential) cycle_visit :: "graph \<Rightarrow> string list \<Rightarrow> string list \<Rightarrow> string \<Rightarrow> string list + string list"
  and cycle_visit_all :: "graph \<Rightarrow> string list \<Rightarrow> string list \<Rightarrow> string list \<Rightarrow> string list + string list" where
  "cycle_visit g path visited i =
     (if i \<in> set path then Inl (path @ [i])
      else if i \<in> set visited then Inr visited
      else (case om_get g i of
              None \<Rightarrow> Inr visited
            | Some p \<Rightarrow> (case cycle_visit_all g (path @ [i]) visited (targets (pv_dependencies p)) of
                Inl cycle \<Rightarrow> Inl cycle
              | Inr visited' \<Rightarrow> Inr (i # visited'))))"
| "cycle_visit_all g path visited [] = Inr visited"
| "cycle_visit_all g path visited (t # ts) =
     (if om_has g t
      then (case cycle_visit g path visited t of
              Inl cycle \<Rightarrow> Inl cycle | Inr visited' \<Rightarrow> cycle_visit_all g path visited' ts)
      else cycle_visit_all g path visited ts)"
  by pat_completeness auto

definition unvisited :: "graph \<Rightarrow> string list \<Rightarrow> nat" where
  "unvisited g path = card (fst ` set g - set path)"

lemma unvisited_less: "om_get g i = Some p \<Longrightarrow> i \<notin> set path \<Longrightarrow> unvisited g (path @ [i]) < unvisited g path"
proof -
  assume "om_get g i = Some p" and i: "i \<notin> set path"
  then have "i \<in> fst ` set g" by (auto dest: om_get_mem intro: rev_image_eqI)
  with i have "fst ` set g - set (path @ [i]) \<subset> fst ` set g - set path" by auto
  then show ?thesis unfolding unvisited_def by (intro psubset_card_mono) auto
qed

lemma unvisited_less_Cons: "om_get g i = Some p \<Longrightarrow> i \<notin> set path \<Longrightarrow> unvisited g (i # path) < unvisited g path"
  using unvisited_less [of g i p path] by (simp add: unvisited_def)

termination cycle_visit
  by (relation "measures [\<lambda>x. case x of Inl (g, path, v, i) \<Rightarrow> unvisited g path | Inr (g, path, v, ts) \<Rightarrow> unvisited g path,
      \<lambda>x. case x of Inl (g, path, v, i) \<Rightarrow> 0 | Inr (g, path, v, ts) \<Rightarrow> Suc (length ts)]")
     (auto intro: unvisited_less)

declare cycle_visit.simps [simp del]

fun acyclic_from :: "graph \<Rightarrow> string list \<Rightarrow> provider_entry list \<Rightarrow> string list + string list" where
  "acyclic_from g visited [] = Inr visited"
| "acyclic_from g visited (p # ps) = (case cycle_visit g [] visited (pv_id p) of
     Inl cycle \<Rightarrow> Inl cycle | Inr visited' \<Rightarrow> acyclic_from g visited' ps)"

definition assert_acyclic_provider_graph :: "provider_entry list \<Rightarrow> string + unit" where
  "assert_acyclic_provider_graph ps = (case acyclic_from (by_id ps) [] ps of
     Inl cycle \<Rightarrow> Inl (''Dependency cycle: '' @ join '' -> '' cycle) | Inr visited \<Rightarrow> Inr ())"

subsection \<open>Walking what a component reaches\<close>

text \<open>
  The other two checks walk everything a target reaches, once, with a set of visited ids: \<open>pre\<close>
  looks at a target before that set, \<open>here\<close> at the provider it names; each may throw. The path is
  the one the messages show.
\<close>

function (sequential) walk :: "(string list \<Rightarrow> string \<Rightarrow> 'e option) \<Rightarrow> (string list \<Rightarrow> string \<Rightarrow> provider_entry \<Rightarrow> 'e option) \<Rightarrow>
    graph \<Rightarrow> string list \<Rightarrow> string list \<Rightarrow> string \<Rightarrow> 'e + string list"
  and walk_all :: "(string list \<Rightarrow> string \<Rightarrow> 'e option) \<Rightarrow> (string list \<Rightarrow> string \<Rightarrow> provider_entry \<Rightarrow> 'e option) \<Rightarrow>
    graph \<Rightarrow> string list \<Rightarrow> string list \<Rightarrow> string list \<Rightarrow> 'e + string list" where
  "walk pre here g visited path i = (case pre path i of
     Some e \<Rightarrow> Inl e
   | None \<Rightarrow>
      if i \<in> set visited then Inr visited
      else (case om_get g i of
              None \<Rightarrow> Inr (i # visited)
            | Some p \<Rightarrow> (case here path i p of
                Some e \<Rightarrow> Inl e
              | None \<Rightarrow> walk_all pre here g (i # visited) (path @ [i]) (targets (pv_dependencies p)))))"
| "walk_all pre here g visited path [] = Inr visited"
| "walk_all pre here g visited path (t # ts) = (case walk pre here g visited path t of
     Inl e \<Rightarrow> Inl e | Inr visited' \<Rightarrow> walk_all pre here g visited' path ts)"
  by pat_completeness auto

lemma walk_grows:
  "walk_walk_all_dom (Inl (pre, here, g, visited, path, i)) \<Longrightarrow>
     walk pre here g visited path i = Inr v \<Longrightarrow> set visited \<subseteq> set v"
  "walk_walk_all_dom (Inr (pre, here, g, visited, path, ts)) \<Longrightarrow>
     walk_all pre here g visited path ts = Inr v \<Longrightarrow> set visited \<subseteq> set v"
proof (induction arbitrary: v and v rule: walk_walk_all.pinduct)
  case (1 pre here g visited path i)
  then show ?case
    by (auto simp: walk.psimps split: option.splits if_splits)
next
  case (3 pre here g visited path t ts)
  then show ?case
    by (auto simp: walk_all.psimps split: sum.splits)
qed (simp add: walk_all.psimps)

lemma unvisited_mono: "set visited \<subseteq> set v \<Longrightarrow> unvisited g v \<le> unvisited g visited"
  unfolding unvisited_def by (intro card_mono) auto

termination walk
proof (relation "measures [\<lambda>x. case x of Inl (pre, here, g, v, path, i) \<Rightarrow> unvisited g v
      | Inr (pre, here, g, v, path, ts) \<Rightarrow> unvisited g v,
      \<lambda>x. case x of Inl (pre, here, g, v, path, i) \<Rightarrow> 0 | Inr (pre, here, g, v, path, ts) \<Rightarrow> Suc (length ts)]")
qed (auto simp: le_less dest!: walk_grows(1) unvisited_mono intro: unvisited_less_Cons)

declare walk.simps [simp del]

subsection \<open>Scopes\<close>

definition reaches_execution_scope :: "graph \<Rightarrow> string \<Rightarrow> bool" where
  "reaches_execution_scope g i =
     isl (walk (\<lambda>path i. None) (\<lambda>path i p. if pv_scope p = Execution then Some () else None) g [] [] i)"

definition scope_violation :: "graph \<Rightarrow> provider_entry \<Rightarrow> string option" where
  "scope_violation g p =
     (if pv_scope p \<noteq> Singleton then None else find (reaches_execution_scope g) (targets (pv_dependencies p)))"

fun scope_safety_from :: "graph \<Rightarrow> provider_entry list \<Rightarrow> string + unit" where
  "scope_safety_from g [] = Inr ()"
| "scope_safety_from g (p # ps) = (case scope_violation g p of
     Some t \<Rightarrow> Inl (''[DOXA-COMPILER-SCOPE-001] Singleton '' @ pv_id p @ '' cannot depend on execution-scoped '' @ t @
       ''. See Gnosis guide concept.providers-provides.'')
   | None \<Rightarrow> scope_safety_from g ps)"

definition assert_scope_safety :: "provider_entry list \<Rightarrow> string + unit" where
  "assert_scope_safety ps = scope_safety_from (by_id ps) ps"

subsection \<open>What operations may reach\<close>

definition action_bus :: string where
  "action_bus = ''doxa:action-bus''"

definition forbidden_read_only :: "capability list" where
  "forbidden_read_only = [Authentication, Transactions, Queues, Mail, Sms, Broadcasting]"

definition nested_dispatch_error :: "string \<Rightarrow> string list \<Rightarrow> string \<Rightarrow> string" where
  "nested_dispatch_error r0 path i = ''[DOXA-COMPILER-ARCH-001] '' @ r0 @ '' reaches ActionBus through '' @
     join '' -> '' (path @ [i]) @ ''. Nested Action dispatch from Actions, Queries, Jobs, and RealtimeCommands is prohibited. Move reusable behavior into an ordinary service and let a durable top-level Action or Job own mutations. See Gnosis guide diagnostic.nested-action-dispatch.''"

definition mutable_error :: "string \<Rightarrow> bool \<Rightarrow> capability \<Rightarrow> string list \<Rightarrow> string \<Rightarrow> string" where
  "mutable_error r0 realtime c path i = ''[DOXA-COMPILER-ARCH-002] '' @ r0 @ '' reaches mutable '' @
     capability_name c @ '' infrastructure through '' @ join '' -> '' (path @ [i]) @ ''. '' @
     (if realtime then ''RealtimeCommands'' else ''Queries'') @ '' may use read-only application services, cache, and observability, but cannot reach transaction, queue, communication, authentication, or raw broadcasting providers. See Gnosis guide diagnostic.realtime-command-infrastructure.''"

definition bus_pre :: "string \<Rightarrow> string list \<Rightarrow> string \<Rightarrow> string option" where
  "bus_pre r0 path i = (if i = action_bus then Some (nested_dispatch_error r0 path i) else None)"

definition bus_here :: "string \<Rightarrow> bool \<Rightarrow> bool \<Rightarrow> string list \<Rightarrow> string \<Rightarrow> provider_entry \<Rightarrow> string option" where
  "bus_here r0 read_only realtime path i p =
     (if read_only
      then map_option (\<lambda>c. mutable_error r0 realtime c path i)
             (find (\<lambda>c. c \<in> set forbidden_read_only) (pv_capabilities p))
      else None)"

definition check_root :: "graph \<Rightarrow> string list \<Rightarrow> string list \<Rightarrow> root_entry \<Rightarrow> string + unit" where
  "check_root g read_only_ids realtime_ids r =
     map_sum (\<lambda>e. e) (\<lambda>_. ())
       (walk_all (bus_pre (ro_id r)) (bus_here (ro_id r) (ro_id r \<in> set read_only_ids) (ro_id r \<in> set realtime_ids))
          g [] [ro_id r] (targets (ro_dependencies r)))"

fun check_roots :: "graph \<Rightarrow> string list \<Rightarrow> string list \<Rightarrow> root_entry list \<Rightarrow> string + unit" where
  "check_roots g read_only_ids realtime_ids [] = Inr ()"
| "check_roots g read_only_ids realtime_ids (r # rs) =
     res_bind (check_root g read_only_ids realtime_ids r) (\<lambda>_. check_roots g read_only_ids realtime_ids rs)"

definition assert_no_nested_action_bus ::
  "provider_entry list \<Rightarrow> root_entry list \<Rightarrow> root_entry list \<Rightarrow> root_entry list \<Rightarrow> string + unit" where
  "assert_no_nested_action_bus ps operations jobs realtime =
     check_roots (by_id ps) (map ro_id (filter ro_is_query operations) @ map ro_id realtime) (map ro_id realtime)
       (operations @ jobs @ realtime)"

subsection \<open>Walks find exactly what is reachable\<close>

definition edges :: "graph \<Rightarrow> (string \<times> string) set" where
  "edges g = {(a, b). \<exists>p. om_get g a = Some p \<and> b \<in> set (targets (pv_dependencies p))}"

lemma edges_Image: "om_get g i = Some p \<Longrightarrow> edges g `` {i} = set (targets (pv_dependencies p))"
  "om_get g i = None \<Longrightarrow> edges g `` {i} = {}"
  by (auto simp: edges_def)

lemma walk_closed_aux:
  "(\<And>path i. (pre path i = None \<and> (\<forall>p. om_get g i = Some p \<longrightarrow> here path i p = None)) \<longleftrightarrow> fine i) \<Longrightarrow>
     walk pre here g visited path i = Inr v \<Longrightarrow>
     set visited \<subseteq> set v \<and> i \<in> set v \<and> (\<forall>x\<in>set v - set visited. fine x \<and> edges g `` {x} \<subseteq> set v)"
  "(\<And>path i. (pre path i = None \<and> (\<forall>p. om_get g i = Some p \<longrightarrow> here path i p = None)) \<longleftrightarrow> fine i) \<Longrightarrow>
     walk_all pre here g visited path ts = Inr v \<Longrightarrow>
     set visited \<subseteq> set v \<and> set ts \<subseteq> set v \<and> (\<forall>x\<in>set v - set visited. fine x \<and> edges g `` {x} \<subseteq> set v)"
proof (induction pre here g visited path i and pre here g visited path ts arbitrary: v and v rule: walk_walk_all.induct)
  case (1 pre here g visited path i)
  from "1.prems"(2) have pre: "pre path i = None"
    by (auto simp: walk.simps split: option.splits)
  show ?case
  proof (cases "i \<in> set visited")
    case True
    with "1.prems"(2) pre show ?thesis by (auto simp: walk.simps)
  next
    case new: False
    show ?thesis
    proof (cases "om_get g i")
      case None
      with "1.prems"(2) pre new have "v = i # visited" by (simp add: walk.simps)
      with "1.prems"(1) [of path i] pre None show ?thesis by (auto simp: edges_def)
    next
      case (Some p)
      with "1.prems"(2) pre new have here: "here path i p = None"
        and rest: "walk_all pre here g (i # visited) (path @ [i]) (targets (pv_dependencies p)) = Inr v"
        by (auto simp: walk.simps split: option.splits)
      have "fine i" using "1.prems"(1) [of path i] pre Some here by simp
      moreover from "1.IH" [OF pre new Some here "1.prems"(1) rest] have
        v: "set (i # visited) \<subseteq> set v" "set (targets (pv_dependencies p)) \<subseteq> set v"
          "\<forall>x\<in>set v - set (i # visited). fine x \<and> edges g `` {x} \<subseteq> set v" by auto
      moreover have "edges g `` {i} \<subseteq> set v" using v(2) edges_Image(1) [OF Some] by simp
      moreover have "\<forall>x\<in>set v - set visited. x = i \<or> x \<in> set v - set (i # visited)" by auto
      ultimately show ?thesis by (metis insert_subset list.simps(15))
    qed
  qed
next
  case (3 pre here g visited path t ts)
  from "3.prems"(2) obtain v1 where t: "walk pre here g visited path t = Inr v1"
    and rest: "walk_all pre here g v1 path ts = Inr v"
    by (auto split: sum.splits)
  note first = "3.IH"(1) [OF "3.prems"(1) t] and others = "3.IH"(2) [OF t "3.prems"(1) rest]
  have "fine x \<and> edges g `` {x} \<subseteq> set v" if "x \<in> set v - set visited" for x
    using that first others by (cases "x \<in> set v1") (blast+)
  with first others show ?case by auto
qed simp

lemma walk_throws_aux:
  "(\<And>path i. (pre path i = None \<and> (\<forall>p. om_get g i = Some p \<longrightarrow> here path i p = None)) \<longleftrightarrow> fine i) \<Longrightarrow>
     walk pre here g visited path i = Inl e \<Longrightarrow> \<exists>x. (i, x) \<in> (edges g)\<^sup>* \<and> \<not> fine x"
  "(\<And>path i. (pre path i = None \<and> (\<forall>p. om_get g i = Some p \<longrightarrow> here path i p = None)) \<longleftrightarrow> fine i) \<Longrightarrow>
     walk_all pre here g visited path ts = Inl e \<Longrightarrow> \<exists>t\<in>set ts. \<exists>x. (t, x) \<in> (edges g)\<^sup>* \<and> \<not> fine x"
proof (induction pre here g visited path i and pre here g visited path ts rule: walk_walk_all.induct)
  case (1 pre here g visited path i)
  show ?case
  proof (cases "fine i")
    case False
    then show ?thesis by blast
  next
    case True
    with "1.prems"(1) [of path i] have pre: "pre path i = None"
      and here: "\<And>p. om_get g i = Some p \<Longrightarrow> here path i p = None" by simp_all
    from "1.prems"(2) pre here obtain p where new: "i \<notin> set visited" and p: "om_get g i = Some p"
      and rest: "walk_all pre here g (i # visited) (path @ [i]) (targets (pv_dependencies p)) = Inl e"
      by (auto simp: walk.simps split: option.splits if_splits)
    from "1.IH" [OF pre new p here [OF p] "1.prems"(1) rest] obtain t x
      where "t \<in> set (targets (pv_dependencies p))" "(t, x) \<in> (edges g)\<^sup>*" "\<not> fine x" by blast
    moreover from this(1) p have "(i, t) \<in> edges g" by (auto simp: edges_def)
    ultimately show ?thesis by (blast intro: converse_rtrancl_into_rtrancl)
  qed
next
  case (3 pre here g visited path t ts)
  show ?case
  proof (cases "walk pre here g visited path t")
    case (Inl e')
    with "3.prems" "3.IH"(1) show ?thesis by fastforce
  next
    case (Inr v1)
    with "3.prems"(2) have "walk_all pre here g v1 path ts = Inl e" by simp
    from "3.IH"(2) [OF Inr "3.prems"(1) this] show ?thesis by auto
  qed
qed simp

text \<open>
  What a check that walks from targets relies on: its two tests do not depend on the path. Then it
  throws exactly when something that is not fine can be reached.
\<close>

locale closure_walk =
  fixes pre :: "string list \<Rightarrow> string \<Rightarrow> 'e option"
    and here :: "string list \<Rightarrow> string \<Rightarrow> provider_entry \<Rightarrow> 'e option"
    and g :: graph
    and fine :: "string \<Rightarrow> bool"
  assumes pre_here: "(pre path i = None \<and> (\<forall>p. om_get g i = Some p \<longrightarrow> here path i p = None)) \<longleftrightarrow> fine i"
begin

lemma walk_all_iff:
  "isl (walk_all pre here g [] path ts) \<longleftrightarrow> (\<exists>t\<in>set ts. \<exists>x. (t, x) \<in> (edges g)\<^sup>* \<and> \<not> fine x)"
proof (cases "walk_all pre here g [] path ts")
  case (Inl e)
  with walk_throws_aux(2) [OF pre_here Inl] show ?thesis by simp
next
  case (Inr v)
  have v: "set ts \<subseteq> set v" "\<forall>x\<in>set v. fine x \<and> edges g `` {x} \<subseteq> set v"
    using walk_closed_aux(2) [OF pre_here Inr] by simp_all
  have "x \<in> set v" if "(t, x) \<in> (edges g)\<^sup>*" "t \<in> set v" for t x
    using that by (induction rule: rtrancl_induct) (use v in auto)
  with v Inr show ?thesis by auto
qed

lemma walk_iff: "isl (walk pre here g [] path i) \<longleftrightarrow> (\<exists>x. (i, x) \<in> (edges g)\<^sup>* \<and> \<not> fine x)"
proof -
  have "isl (walk_all pre here g [] path [i]) = isl (walk pre here g [] path i)"
    by (simp split: sum.split)
  then show ?thesis using walk_all_iff [of path "[i]"] by simp
qed

end

definition is_execution :: "graph \<Rightarrow> string \<Rightarrow> bool" where
  "is_execution g i = (case om_get g i of None \<Rightarrow> False | Some p \<Rightarrow> pv_scope p = Execution)"

definition is_mutable :: "graph \<Rightarrow> string \<Rightarrow> bool" where
  "is_mutable g i = (case om_get g i of None \<Rightarrow> False
     | Some p \<Rightarrow> list_ex (\<lambda>c. c \<in> set forbidden_read_only) (pv_capabilities p))"

interpretation scopes: closure_walk "\<lambda>path i. None" "\<lambda>path i p. if pv_scope p = Execution then Some () else None"
  g "\<lambda>i. \<not> is_execution g i" for g
  by unfold_locales (auto simp: is_execution_def split: option.splits)

interpretation bus: closure_walk "bus_pre r" "bus_here r read_only realtime" g
  "\<lambda>i. i \<noteq> action_bus \<and> \<not> (read_only \<and> is_mutable g i)" for r read_only realtime g
  by unfold_locales
     (auto simp: bus_pre_def bus_here_def is_mutable_def find_None_iff list_ex_iff split: option.splits)

subsection \<open>Unique identities and the graph\<close>

lemma assert_unique_from_iff:
  "assert_unique_from seen identity label xs = Inr () \<longleftrightarrow>
     distinct (map identity xs) \<and> identity ` set xs \<inter> set seen = {}"
  by (induction xs arbitrary: seen) auto

lemma assert_unique_iff: "assert_unique xs identity label = Inr () \<longleftrightarrow> distinct (map identity xs)"
  by (simp add: assert_unique_def assert_unique_from_iff)

definition depends :: "provider_entry list \<Rightarrow> (string \<times> string) set" where
  "depends ps = {(a, b). \<exists>p\<in>set ps. pv_id p = a \<and> b \<in> set (targets (pv_dependencies p))}"

lemma fold_om_set_get:
  "om_get (fold (\<lambda>p. om_set (pv_id p) p) ps m) i =
     (case find (\<lambda>p. pv_id p = i) (rev ps) of None \<Rightarrow> om_get m i | Some p \<Rightarrow> Some p)"
  by (induction ps arbitrary: m rule: rev_induct) (auto split: option.split)

lemma by_id_get: "om_get (by_id ps) i = find (\<lambda>p. pv_id p = i) (rev ps)"
  by (simp add: by_id_def fold_om_set_get split: option.split)

lemma by_id_unique:
  assumes "distinct (map pv_id ps)"
  shows "om_get (by_id ps) i = Some p \<longleftrightarrow> p \<in> set ps \<and> pv_id p = i"
proof
  assume "om_get (by_id ps) i = Some p"
  then show "p \<in> set ps \<and> pv_id p = i"
    unfolding by_id_get find_Some_iff by (metis nth_mem set_rev)
next
  assume p: "p \<in> set ps \<and> pv_id p = i"
  then obtain q where q: "find (\<lambda>p. pv_id p = i) (rev ps) = Some q"
    by (cases "find (\<lambda>p. pv_id p = i) (rev ps)") (auto simp: find_None_iff)
  then have "q \<in> set ps" "pv_id q = i" unfolding find_Some_iff by (metis nth_mem set_rev)+
  with p assms have "q = p" by (metis distinct_map inj_onD)
  with q show "om_get (by_id ps) i = Some p" by (simp add: by_id_get)
qed

lemma edges_by_id: "distinct (map pv_id ps) \<Longrightarrow> edges (by_id ps) = depends ps"
  by (auto simp: edges_def depends_def by_id_unique)

lemma om_has_by_id: "om_has (by_id ps) i \<longleftrightarrow> i \<in> pv_id ` set ps"
  by (auto simp: om_has_get by_id_get find_None_iff)

subsection \<open>Cycles\<close>

text \<open>The visited ids, last first: each points only to known ids visited before it.\<close>

fun visited_in_order :: "graph \<Rightarrow> string list \<Rightarrow> bool" where
  "visited_in_order g [] = True"
| "visited_in_order g (x # v) \<longleftrightarrow>
     x \<notin> set v \<and> (\<forall>y\<in>edges g `` {x}. om_has g y \<longrightarrow> y \<in> set v) \<and> visited_in_order g v"

lemma cycle_visit_order:
  "cycle_visit g path visited i = Inr v \<Longrightarrow> visited_in_order g visited \<Longrightarrow> set path \<inter> set visited = {} \<Longrightarrow>
     visited_in_order g v \<and> set visited \<subseteq> set v \<and> set path \<inter> set v = {} \<and> (om_has g i \<longrightarrow> i \<in> set v)"
  "cycle_visit_all g path visited ts = Inr v \<Longrightarrow> visited_in_order g visited \<Longrightarrow> set path \<inter> set visited = {} \<Longrightarrow>
     visited_in_order g v \<and> set visited \<subseteq> set v \<and> set path \<inter> set v = {} \<and> (\<forall>t\<in>set ts. om_has g t \<longrightarrow> t \<in> set v)"
proof (induction g path visited i and g path visited ts arbitrary: v and v rule: cycle_visit_cycle_visit_all.induct)
  case (1 g path visited i)
  from "1.prems"(1) have path: "i \<notin> set path" by (auto simp: cycle_visit.simps split: if_splits)
  show ?case
  proof (cases "i \<in> set visited \<or> om_get g i = None")
    case True
    with "1.prems" path show ?thesis by (auto simp: cycle_visit.simps om_has_get split: if_splits)
  next
    case False
    then obtain p where new: "i \<notin> set visited" and p: "om_get g i = Some p" by auto
    with "1.prems"(1) path obtain v' where v: "v = i # v'"
      and rest: "cycle_visit_all g (path @ [i]) visited (targets (pv_dependencies p)) = Inr v'"
      by (auto simp: cycle_visit.simps split: sum.splits)
    from "1.IH" [OF path new p rest] "1.prems"(2,3) new
    have "visited_in_order g v'" "set visited \<subseteq> set v'" "set (path @ [i]) \<inter> set v' = {}"
      "\<forall>t\<in>set (targets (pv_dependencies p)). om_has g t \<longrightarrow> t \<in> set v'" by auto
    with v path edges_Image(1) [OF p] show ?thesis by auto
  qed
next
  case (3 g path visited t ts)
  show ?case
  proof (cases "om_has g t")
    case False
    with "3.prems" "3.IH"(3) show ?thesis by auto
  next
    case True
    with "3.prems"(1) obtain v1 where t: "cycle_visit g path visited t = Inr v1"
      and rest: "cycle_visit_all g path v1 ts = Inr v" by (auto split: sum.splits)
    from "3.IH"(1) [OF True t "3.prems"(2,3)] "3.IH"(2) [OF True t rest] True show ?thesis by auto
  qed
qed simp

lemma visited_acyclic:
  assumes "visited_in_order g v" and "x \<in> set v" and "\<And>a b. (a, b) \<in> E \<Longrightarrow> (a, b) \<in> edges g \<and> om_has g b"
  shows "(x, x) \<notin> E\<^sup>+"
  using assms(1,2)
proof (induction v)
  case (Cons a v)
  have closed: "z \<in> set u" if "(y, z) \<in> E\<^sup>+" "y \<in> set u" "visited_in_order g u" for u y z
  proof -
    have step: "c \<in> set u" if "(b, c) \<in> E" "b \<in> set u" for b c
      using \<open>visited_in_order g u\<close> that by (induction u) (auto dest: assms(3))
    from that(1,2) show ?thesis by (induction rule: trancl_induct) (auto intro: step)
  qed
  show ?case
  proof (cases "x = a")
    case False
    with Cons show ?thesis by auto
  next
    case True
    show ?thesis
    proof
      assume "(x, x) \<in> E\<^sup>+"
      then obtain y where y: "(x, y) \<in> E" "(y, x) \<in> E\<^sup>*" by (auto dest: tranclD)
      with True Cons.prems(1) have "y \<in> set v" by (auto dest: assms(3))
      moreover from y(2) have "y = x \<or> (y, x) \<in> E\<^sup>+" by (auto dest: rtranclD)
      ultimately have "x \<in> set v" using closed [of y x v] Cons.prems(1) by auto
      with True Cons.prems(1) show False by simp
    qed
  qed
qed simp

lemma cycle_visit_error:
  "cycle_visit g path visited i = Inl c \<Longrightarrow> successively (\<lambda>a b. (a, b) \<in> edges g) (path @ [i]) \<Longrightarrow>
     successively (\<lambda>a b. (a, b) \<in> edges g) c \<and> c \<noteq> [] \<and> last c \<in> set (butlast c)"
  "cycle_visit_all g path visited ts = Inl c \<Longrightarrow>
     (\<forall>t\<in>set ts. successively (\<lambda>a b. (a, b) \<in> edges g) (path @ [t])) \<Longrightarrow>
     successively (\<lambda>a b. (a, b) \<in> edges g) c \<and> c \<noteq> [] \<and> last c \<in> set (butlast c)"
proof (induction g path visited i and g path visited ts rule: cycle_visit_cycle_visit_all.induct)
  case (1 g path visited i)
  show ?case
  proof (cases "i \<in> set path")
    case True
    with "1.prems" show ?thesis by (auto simp: cycle_visit.simps)
  next
    case False
    with "1.prems"(1) obtain p where new: "i \<notin> set visited" and p: "om_get g i = Some p"
      and rest: "cycle_visit_all g (path @ [i]) visited (targets (pv_dependencies p)) = Inl c"
      by (auto simp: cycle_visit.simps split: if_splits option.splits sum.splits)
    have "\<forall>t\<in>set (targets (pv_dependencies p)). successively (\<lambda>a b. (a, b) \<in> edges g) ((path @ [i]) @ [t])"
      using "1.prems"(2) p by (auto simp: successively_append_iff edges_def)
    from "1.IH" [OF False new p rest this] show ?thesis .
  qed
next
  case (3 g path visited t ts)
  then show ?case by (auto split: if_splits sum.splits)
qed simp

lemma successively_trancl:
  "successively (\<lambda>a b. (a, b) \<in> E) (xs @ [i]) \<Longrightarrow> x \<in> set xs \<Longrightarrow> (x, i) \<in> E\<^sup>+"
proof (induction xs arbitrary: x)
  case (Cons y xs)
  show ?case
  proof (cases "x \<in> set xs")
    case True
    with Cons show ?thesis by (auto simp: successively_Cons)
  next
    case False
    with Cons.prems have "x = y" by simp
    show ?thesis
    proof (cases xs)
      case Nil
      with Cons.prems \<open>x = y\<close> show ?thesis by auto
    next
      case (Cons z zs)
      with Cons.prems have "(y, z) \<in> E" "successively (\<lambda>a b. (a, b) \<in> E) (xs @ [i])" by auto
      with Cons.IH [of z] Cons have "(z, i) \<in> E\<^sup>+" by simp
      with \<open>(y, z) \<in> E\<close> \<open>x = y\<close> show ?thesis by (auto intro: trancl_into_trancl2)
    qed
  qed
qed simp

lemma acyclic_from_order:
  "acyclic_from g visited ps = Inr v \<Longrightarrow> visited_in_order g visited \<Longrightarrow>
     visited_in_order g v \<and> set visited \<subseteq> set v \<and> (\<forall>p\<in>set ps. om_has g (pv_id p) \<longrightarrow> pv_id p \<in> set v)"
proof (induction ps arbitrary: visited)
  case (Cons p ps)
  then obtain v1 where p: "cycle_visit g [] visited (pv_id p) = Inr v1" and rest: "acyclic_from g v1 ps = Inr v"
    by (auto split: sum.splits)
  from cycle_visit_order(1) [OF p Cons.prems(2)] Cons.IH [OF rest] show ?case by auto
qed simp

lemma acyclic_from_error:
  "acyclic_from g visited ps = Inl c \<Longrightarrow>
     successively (\<lambda>a b. (a, b) \<in> edges g) c \<and> c \<noteq> [] \<and> last c \<in> set (butlast c)"
proof (induction ps arbitrary: visited)
  case (Cons p ps)
  then show ?case
    using cycle_visit_error(1) [of g "[]" visited "pv_id p" c] by (auto split: sum.splits)
qed simp

subsection \<open>Properties\<close>

text \<open>Both directions of the check, for the property and for the runtime that relies on it.\<close>

lemma cycle_check:
  assumes "assert_unique ps pv_id label = Inr ()"
  shows "(assert_acyclic_provider_graph ps = Inr () \<longleftrightarrow> acyclic (depends ps)) \<and>
    (\<forall>message. assert_acyclic_provider_graph ps = Inl message \<longrightarrow>
      (\<exists>c. message = ''Dependency cycle: '' @ join '' -> '' c \<and>
         successively (\<lambda>a b. (a, b) \<in> depends ps) c \<and> c \<noteq> [] \<and> last c \<in> set (butlast c)))"
proof -
  let ?g = "by_id ps"
  from assms have "distinct (map pv_id ps)" by (simp add: assert_unique_iff)
  note edges = edges_by_id [OF this]
  show ?thesis
  proof (cases "acyclic_from ?g [] ps")
    case (Inl c)
    from acyclic_from_error [OF this] have c: "successively (\<lambda>a b. (a, b) \<in> depends ps) c" "c \<noteq> []" "last c \<in> set (butlast c)"
      by (simp_all add: edges)
    have "(last c, last c) \<in> (depends ps)\<^sup>+"
      using successively_trancl [of "depends ps" "butlast c" "last c" "last c"] c by simp
    then have "\<not> acyclic (depends ps)" by (auto simp: acyclic_def)
    with Inl c show ?thesis by (auto simp: assert_acyclic_provider_graph_def)
  next
    case (Inr v)
    from acyclic_from_order [OF this] have v: "visited_in_order ?g v" "\<forall>p\<in>set ps. pv_id p \<in> set v"
      by (auto simp: om_has_by_id)
    let ?K = "{(a, b). (a, b) \<in> depends ps \<and> om_has ?g b}"
    have known: "om_has ?g a" if "(a, b) \<in> depends ps" for a b
      using that by (auto simp: depends_def om_has_by_id)
    have "acyclic (depends ps)"
    proof (rule ccontr)
      assume "\<not> acyclic (depends ps)"
      then obtain x where x: "(x, x) \<in> (depends ps)\<^sup>+" by (auto simp: acyclic_def)
      have into: "(y, z) \<in> ?K\<^sup>+" if "(y, z) \<in> (depends ps)\<^sup>+" "om_has ?g z" for y z
        using that
      proof (induction rule: trancl_induct)
        case (step z w)
        then have "om_has ?g z" using known by blast
        with step have "(y, z) \<in> ?K\<^sup>+" and "(z, w) \<in> ?K" by auto
        then show ?case by (rule trancl_into_trancl)
      qed auto
      from x have "om_has ?g x" by (auto dest!: tranclD intro: known)
      with into x have "(x, x) \<in> ?K\<^sup>+" by blast
      moreover from \<open>om_has ?g x\<close> v(2) have "x \<in> set v" by (auto simp: om_has_by_id)
      ultimately show False
        using visited_acyclic [OF v(1), of x ?K] by (auto simp: edges)
    qed
    with Inr show ?thesis by (simp add: assert_acyclic_provider_graph_def)
  qed
qed

lemma acyclic_check_exact:
  "assert_unique ps pv_id label = Inr () \<Longrightarrow> assert_acyclic_provider_graph ps = Inr () \<longleftrightarrow> acyclic (depends ps)"
  by (rule cycle_check [THEN conjunct1])

text \<open>
  C25. The cycle check is exact. On providers with unique ids, \<open>assertAcyclicProviderGraph\<close> accepts
  exactly the graphs without a dependency cycle; and when it rejects, the message shows a path along
  dependencies that ends at an id already on it.
\<close>

theorem provider_cycles_found:
  assumes "assert_unique ps pv_id label = Inr ()"
  shows "(assert_acyclic_provider_graph ps = Inr () \<longleftrightarrow> acyclic (depends ps)) \<and>
    (\<forall>message. assert_acyclic_provider_graph ps = Inl message \<longrightarrow>
      (\<exists>c. message = ''Dependency cycle: '' @ join '' -> '' c \<and>
         successively (\<lambda>a b. (a, b) \<in> depends ps) c \<and> c \<noteq> [] \<and> last c \<in> set (butlast c)))"
  using assms by (rule cycle_check)

definition service :: "string \<Rightarrow> provider_scope \<Rightarrow> string list \<Rightarrow> provider_entry" where
  "service i scope ts = \<lparr>pv_id = i, pv_scope = scope, pv_capabilities = [], pv_dependencies = map Some ts\<rparr>"

theorem provider_cycles_found_witness:
  "\<not> acyclic (depends [service ''a'' Singleton [''b''], service ''b'' Singleton [''a'']])"
proof -
  have "assert_acyclic_provider_graph [service ''a'' Singleton [''b''], service ''b'' Singleton [''a'']] \<noteq> Inr ()"
    by code_simp
  moreover have "assert_unique [service ''a'' Singleton [''b''], service ''b'' Singleton [''a'']] pv_id ''provider ID'' = Inr ()"
    by code_simp
  ultimately show ?thesis using provider_cycles_found by blast
qed

text \<open>
  Scope safety is exact: \<open>assertScopeSafety\<close> accepts exactly when no singleton has a dependency
  from which, over any number of dependencies, an execution-scoped provider is reached.
\<close>

theorem scope_safety_exact:
  "assert_scope_safety ps = Inr () \<longleftrightarrow>
     (\<nexists>p t x. p \<in> set ps \<and> pv_scope p = Singleton \<and> t \<in> set (targets (pv_dependencies p)) \<and>
        (t, x) \<in> (edges (by_id ps))\<^sup>* \<and> is_execution (by_id ps) x)"
proof -
  have "scope_violation g p = None \<longleftrightarrow>
      (\<nexists>t x. pv_scope p = Singleton \<and> t \<in> set (targets (pv_dependencies p)) \<and> (t, x) \<in> (edges g)\<^sup>* \<and> is_execution g x)"
    for g p
    by (auto simp: scope_violation_def find_None_iff reaches_execution_scope_def scopes.walk_iff)
  moreover have "scope_safety_from g qs = Inr () \<longleftrightarrow> (\<forall>p\<in>set qs. scope_violation g p = None)" for g qs
    by (induction qs) (auto split: option.splits)
  ultimately show ?thesis unfolding assert_scope_safety_def by blast
qed

text \<open>
  Nested dispatch is refused exactly when it is possible. The architecture check accepts exactly
  when no operation, job or realtime command reaches the action bus over its dependencies, and no
  query or realtime command (as told by its id) reaches a provider with a mutable capability.
\<close>

theorem nested_dispatch_exact:
  "assert_no_nested_action_bus ps operations jobs realtime = Inr () \<longleftrightarrow>
     (\<nexists>r t x. r \<in> set (operations @ jobs @ realtime) \<and> t \<in> set (targets (ro_dependencies r)) \<and>
        (t, x) \<in> (edges (by_id ps))\<^sup>* \<and>
        (x = action_bus \<or>
         ro_id r \<in> set (map ro_id (filter ro_is_query operations) @ map ro_id realtime) \<and> is_mutable (by_id ps) x))"
proof -
  have root: "check_root g q c r = Inr () \<longleftrightarrow>
      (\<nexists>t x. t \<in> set (targets (ro_dependencies r)) \<and> (t, x) \<in> (edges g)\<^sup>* \<and>
        (x = action_bus \<or> ro_id r \<in> set q \<and> is_mutable g x))" for g q c r
  proof -
    have "check_root g q c r = Inr () \<longleftrightarrow> \<not> isl (walk_all (bus_pre (ro_id r))
        (bus_here (ro_id r) (ro_id r \<in> set q) (ro_id r \<in> set c)) g [] [ro_id r] (targets (ro_dependencies r)))"
      by (simp add: check_root_def map_sum_def split: sum.split)
    then show ?thesis unfolding bus.walk_all_iff by blast
  qed
  have roots: "check_roots g q c rs = Inr () \<longleftrightarrow> (\<forall>r\<in>set rs. check_root g q c r = Inr ())" for g q c rs
    by (induction rs) auto
  show ?thesis unfolding assert_no_nested_action_bus_def roots root by blast
qed

end
