(* ===== verification/Advisories.thy ===== *)
theory Advisories
  imports AdmissionTickets
begin

text \<open>
  The architecture advisories of the compiler (the second half of
  \<open>packages/compiler/src/manifest-validation.ts\<close>): which components lie under a folder or carry a
  name that contradicts the role they were compiled as.
\<close>

datatype component_kind =
    Action | Cli_command | Realtime_command | Configuration | Event_kind | Job_kind | Listener_kind
  | Model_kind | Observer_kind | Permission_source | Policy_kind | Provider_kind | Query_kind | Route_kind
  | Schedule_kind | Service_kind | Signal_kind | Signal_handler

definition kind_name :: "component_kind \<Rightarrow> string" where
  "kind_name k = (case k of
     Action \<Rightarrow> ''action'' | Cli_command \<Rightarrow> ''command'' | Realtime_command \<Rightarrow> ''realtime-command''
   | Configuration \<Rightarrow> ''configuration'' | Event_kind \<Rightarrow> ''event'' | Job_kind \<Rightarrow> ''job''
   | Listener_kind \<Rightarrow> ''listener'' | Model_kind \<Rightarrow> ''model'' | Observer_kind \<Rightarrow> ''observer''
   | Permission_source \<Rightarrow> ''permission-source'' | Policy_kind \<Rightarrow> ''policy'' | Provider_kind \<Rightarrow> ''provider''
   | Query_kind \<Rightarrow> ''query'' | Route_kind \<Rightarrow> ''route'' | Schedule_kind \<Rightarrow> ''schedule''
   | Service_kind \<Rightarrow> ''service'' | Signal_kind \<Rightarrow> ''signal'' | Signal_handler \<Rightarrow> ''signal-handler'')"

definition canonical_folder :: "component_kind \<Rightarrow> string" where
  "canonical_folder k = (case k of
     Action \<Rightarrow> ''actions'' | Cli_command \<Rightarrow> ''commands'' | Realtime_command \<Rightarrow> ''realtime-commands''
   | Configuration \<Rightarrow> ''config'' | Event_kind \<Rightarrow> ''events'' | Job_kind \<Rightarrow> ''jobs''
   | Listener_kind \<Rightarrow> ''listeners'' | Model_kind \<Rightarrow> ''models'' | Observer_kind \<Rightarrow> ''observers''
   | Permission_source \<Rightarrow> ''permission-sources'' | Policy_kind \<Rightarrow> ''policies'' | Provider_kind \<Rightarrow> ''providers''
   | Query_kind \<Rightarrow> ''queries'' | Route_kind \<Rightarrow> ''http'' | Schedule_kind \<Rightarrow> ''schedules''
   | Service_kind \<Rightarrow> ''services'' | Signal_kind \<Rightarrow> ''signals'' | Signal_handler \<Rightarrow> ''signal-handlers'')"

definition canonical_role_folders :: "string list" where
  "canonical_role_folders = [''actions'', ''commands'', ''realtime-commands'', ''config'', ''events'', ''http'',
     ''jobs'', ''listeners'', ''models'', ''observers'', ''permission-sources'', ''policies'', ''providers'',
     ''queries'', ''schedules'', ''services'', ''signals'', ''signal-handlers'']"

record component =
  cm_id :: string
  cm_name :: string
  cm_file :: string

text \<open>The lists of a manifest that hold components; providers come with their role.\<close>

record manifest_components =
  mc_actions :: "component list"
  mc_commands :: "component list"
  mc_realtime_commands :: "component list"
  mc_configurations :: "component list"
  mc_events :: "component list"
  mc_jobs :: "component list"
  mc_listeners :: "component list"
  mc_models :: "component list"
  mc_observers :: "component list"
  mc_permission_source :: "component option"
  mc_policies :: "component list"
  mc_providers :: "(string \<times> component) list"
  mc_queries :: "component list"
  mc_routes :: "component list"
  mc_schedules :: "component list"
  mc_signals :: "component list"
  mc_signal_handlers :: "component list"

definition with_role :: "string \<Rightarrow> (string \<times> component) list \<Rightarrow> component list" where
  "with_role role ps = map snd (filter (\<lambda>p. fst p = role) ps)"

definition component_entries :: "manifest_components \<Rightarrow> (component_kind \<times> component) list" where
  "component_entries m = concat (map (\<lambda>(kind, es). map (\<lambda>e. (kind, e)) es)
     [(Action, mc_actions m), (Cli_command, mc_commands m), (Realtime_command, mc_realtime_commands m),
      (Configuration, mc_configurations m), (Event_kind, mc_events m), (Job_kind, mc_jobs m),
      (Listener_kind, mc_listeners m), (Model_kind, mc_models m), (Observer_kind, mc_observers m),
      (Permission_source, (case mc_permission_source m of None \<Rightarrow> [] | Some e \<Rightarrow> [e])),
      (Policy_kind, mc_policies m), (Provider_kind, with_role ''provider'' (mc_providers m)),
      (Query_kind, mc_queries m), (Route_kind, mc_routes m), (Schedule_kind, mc_schedules m),
      (Service_kind, with_role ''service'' (mc_providers m)), (Signal_kind, mc_signals m),
      (Signal_handler, mc_signal_handlers m)])"

text \<open>
  \<open>nearestRoleFolder\<close>. Among one-byte code units \<open>toLowerCase\<close> moves the capitals of ASCII and
  Latin-1. The role folders count from the second segment after the last \<open>features\<close> on.
\<close>

definition lower_char :: "char \<Rightarrow> char" where
  "lower_char c = (let n = (of_char c :: nat) in
     if 65 \<le> n \<and> n \<le> 90 \<or> 192 \<le> n \<and> n \<le> 222 \<and> n \<noteq> 215 then char_of (n + 32) else c)"

definition slash_char :: "char \<Rightarrow> char" where
  "slash_char c = (if c = char_of (92 :: nat) then CHR ''/'' else c)"

fun last_index_of :: "'a \<Rightarrow> 'a list \<Rightarrow> nat option" where
  "last_index_of x [] = None"
| "last_index_of x (y # ys) = (case last_index_of x ys of
     Some i \<Rightarrow> Some (Suc i) | None \<Rightarrow> if x = y then Some 0 else None)"

definition nearest_role_folder :: "string \<Rightarrow> string option" where
  "nearest_role_folder file =
     (let segments = split_on (CHR ''/'') (map lower_char (map slash_char file));
          first_role = (case last_index_of ''features'' segments of Some i \<Rightarrow> i + 2 | None \<Rightarrow> 0)
      in find (\<lambda>s. s \<in> set canonical_role_folders) (rev (drop first_role segments)))"

datatype advisory_code = Structure_001 | Structure_002 | Structure_003 | Structure_004 | Structure_005

record advisory =
  ad_code :: advisory_code
  ad_component :: string
  ad_guide :: string
  ad_message :: string
  ad_file :: string

definition ends_with :: "string \<Rightarrow> string \<Rightarrow> bool" where
  "ends_with ending s \<longleftrightarrow> prefix (rev ending) (rev s)"

definition component_advisories :: "component_kind \<Rightarrow> component \<Rightarrow> advisory list" where
  "component_advisories kind e =
     (let add = (\<lambda>code guide message. \<lparr>ad_code = code, ad_component = cm_id e, ad_guide = guide,
            ad_message = cm_name e @ message, ad_file = cm_file e\<rparr>);
          role_folder = nearest_role_folder (cm_file e);
          expected = canonical_folder kind;
          conflicting = (if role_folder = Some expected then None else role_folder);
          reported = (kind = Service_kind \<and> conflicting = Some ''providers'' \<or>
            kind = Provider_kind \<and> conflicting = Some ''services'')
      in (if kind = Service_kind \<and> role_folder = Some ''providers''
          then [add Structure_001 ''diagnostic.provider-service-location''
            '' is an ordinary service under a providers folder. Move it to services so its path communicates its compiled role; folders do not change runtime behavior.''] else [])
       @ (if kind = Provider_kind \<and> role_folder = Some ''services''
          then [add Structure_002 ''diagnostic.provider-service-location''
            '' is an infrastructure provider under a services folder. Move it to providers so its path communicates its compiled role; folders do not change runtime behavior.''] else [])
       @ (if kind = Service_kind \<and> ends_with ''Provider'' (cm_name e)
          then [add Structure_003 ''diagnostic.provider-service-location''
            '' is compiled as an ordinary service but its name implies singleton infrastructure.''] else [])
       @ (if kind = Provider_kind \<and> ends_with ''Service'' (cm_name e)
          then [add Structure_004 ''diagnostic.provider-service-location''
            '' is compiled as singleton infrastructure but its name implies an ordinary service.''] else [])
       @ (case conflicting of
            Some folder \<Rightarrow> if reported then [] else
              [add Structure_005 ''diagnostic.canonical-folder''
                ('' is compiled as '' @ kind_name kind @ '' but is under the canonical '' @ folder @
                 '' folder. Move it to '' @ expected @ '' so its path communicates its role; folders do not change runtime behavior.'')]
          | None \<Rightarrow> []))"

text \<open>
  \<open>architectureAdvisories\<close>: a stable sort by component and code, with the host's order on texts as
  the argument \<open>le\<close> (\<open>localeCompare\<close> is not positive).
\<close>

fun insert_sorted :: "('a \<Rightarrow> 'a \<Rightarrow> bool) \<Rightarrow> 'a \<Rightarrow> 'a list \<Rightarrow> 'a list" where
  "insert_sorted le x [] = [x]"
| "insert_sorted le x (y # ys) = (if le x y then x # y # ys else y # insert_sorted le x ys)"

definition stable_sort :: "('a \<Rightarrow> 'a \<Rightarrow> bool) \<Rightarrow> 'a list \<Rightarrow> 'a list" where
  "stable_sort le xs = foldr (insert_sorted le) xs []"

definition code_number :: "advisory_code \<Rightarrow> nat" where
  "code_number c = (case c of Structure_001 \<Rightarrow> 1 | Structure_002 \<Rightarrow> 2 | Structure_003 \<Rightarrow> 3
     | Structure_004 \<Rightarrow> 4 | Structure_005 \<Rightarrow> 5)"

definition advisory_le :: "(string \<Rightarrow> string \<Rightarrow> bool) \<Rightarrow> advisory \<Rightarrow> advisory \<Rightarrow> bool" where
  "advisory_le le a b \<longleftrightarrow>
     (if le (ad_component a) (ad_component b) \<and> le (ad_component b) (ad_component a)
      then code_number (ad_code a) \<le> code_number (ad_code b)
      else le (ad_component a) (ad_component b))"

definition architecture_advisories :: "(string \<Rightarrow> string \<Rightarrow> bool) \<Rightarrow> manifest_components \<Rightarrow> advisory list" where
  "architecture_advisories le m = stable_sort (advisory_le le)
     (concat (map (\<lambda>(kind, e). component_advisories kind e) (component_entries m)))"

subsection \<open>What is reported\<close>

lemma nearest_role_folder_canonical: "nearest_role_folder file = Some f \<Longrightarrow> f \<in> set canonical_role_folders"
  by (auto simp: nearest_role_folder_def Let_def find_Some_iff)

definition misplaced :: "component_kind \<Rightarrow> component \<Rightarrow> bool" where
  "misplaced kind e \<longleftrightarrow> (case nearest_role_folder (cm_file e) of
     None \<Rightarrow> False | Some f \<Rightarrow> f \<noteq> canonical_folder kind)"

definition misnamed :: "component_kind \<Rightarrow> component \<Rightarrow> bool" where
  "misnamed kind e \<longleftrightarrow> kind = Service_kind \<and> ends_with ''Provider'' (cm_name e) \<or>
     kind = Provider_kind \<and> ends_with ''Service'' (cm_name e)"

lemma component_advisories_codes:
  "length (filter (\<lambda>a. ad_code a \<in> {Structure_001, Structure_002, Structure_005}) (component_advisories kind e)) =
     (if misplaced kind e then 1 else 0)"
  "length (filter (\<lambda>a. ad_code a \<in> {Structure_003, Structure_004}) (component_advisories kind e)) =
     (if misnamed kind e then 1 else 0)"
  by (cases kind; cases "nearest_role_folder (cm_file e)";
      simp add: component_advisories_def Let_def misplaced_def misnamed_def canonical_folder_def)+

lemma mset_insert_sorted [simp]: "set (insert_sorted le x ys) = insert x (set ys)"
  by (induction ys) auto

lemma set_stable_sort [simp]: "set (stable_sort le xs) = set xs"
  by (induction xs) (simp_all add: stable_sort_def)

text \<open>The entries of a manifest are those of its lists, each under its kind.\<close>

lemma set_with_role: "e \<in> set (with_role role ps) \<longleftrightarrow> (role, e) \<in> set ps"
  by (force simp: with_role_def)

lemma component_entries_cover:
  "(Service_kind, e) \<in> set (component_entries m) \<longleftrightarrow> (''service'', e) \<in> set (mc_providers m)"
  "(Provider_kind, e) \<in> set (component_entries m) \<longleftrightarrow> (''provider'', e) \<in> set (mc_providers m)"
  by (auto simp: component_entries_def set_with_role image_iff)

text \<open>
  A misplaced component is reported exactly once for its place and a misnamed one exactly once for
  its name; nothing else is reported.
\<close>

lemma advisories_report:
  "(\<exists>a\<in>set (architecture_advisories le m). ad_component a = i) \<longleftrightarrow>
     (\<exists>kind e. (kind, e) \<in> set (component_entries m) \<and> cm_id e = i \<and> (misplaced kind e \<or> misnamed kind e))"
proof -
  have shape: "\<forall>a\<in>set (component_advisories kind e). ad_component a = cm_id e" for kind e
    by (auto simp: component_advisories_def Let_def split: option.splits if_splits)
  have some: "component_advisories kind e \<noteq> [] \<longleftrightarrow> misplaced kind e \<or> misnamed kind e" for kind e
    by (cases kind; cases "nearest_role_folder (cm_file e)";
        simp add: component_advisories_def Let_def misplaced_def misnamed_def canonical_folder_def)
  have one: "(\<exists>a\<in>set (component_advisories kind e). ad_component a = i) \<longleftrightarrow>
      cm_id e = i \<and> (misplaced kind e \<or> misnamed kind e)" for kind e
    using shape [of kind e] some [of kind e] by (cases "component_advisories kind e") auto
  have "(\<exists>a\<in>set (architecture_advisories le m). ad_component a = i) \<longleftrightarrow>
      (\<exists>x\<in>set (component_entries m). \<exists>a\<in>set (component_advisories (fst x) (snd x)). ad_component a = i)"
    unfolding architecture_advisories_def set_stable_sort by (auto simp: split_beta)
  then show ?thesis unfolding one by (auto simp del: split_paired_Ex) force+
qed

end
