(* ===== verification/Lifecycle.thy ===== *)
theory Lifecycle
  imports Prelude
begin

text \<open>
  The lifecycle of the application runtime: \<open>packages/runtime/src/lifecycle.ts\<close>, with the loops of
  \<open>runtime.ts\<close> that start the participants and shut them down.

  Time is the host's clock in milliseconds. What a lifecycle method does is the environment's: it
  settles after some time, with or without a reason to fail, or never; a timer may fire late. A
  phase takes the clock from its beginning to its end, so every function here returns the time.
\<close>

subsection \<open>Participants and their methods\<close>

datatype phase = Start | Drain | Stop | Dispose

record participant =
  pt_id :: string
  pt_lifecycle :: "phase list" \<comment> \<open>the phases its manifest declares\<close>
  pt_callable :: "phase list" \<comment> \<open>the phases its instance has a method for\<close>

type_synonym reason = string

text \<open>A method that settles has run for \<open>Settles d\<close> milliseconds; the lateness is that of the timer.\<close>

datatype behaviour = Settles int "reason option" | Never

record environment =
  en_behaviour :: "participant \<Rightarrow> phase \<Rightarrow> behaviour"
  en_late :: "participant \<Rightarrow> phase \<Rightarrow> int"

type_synonym settlement = "(int \<times> reason option) option" \<comment> \<open>when, and with which failure\<close>

datatype lifecycle_error =
    Integrity_error string
  | Method_failed reason
  | Timeout_error string phase int int settlement \<comment> \<open>participant, phase, started at, elapsed\<close>
  | Cleanup_timeout int "(string \<times> phase) list" \<comment> \<open>deadline, unsettled phases\<close>

definition phase_name :: "phase \<Rightarrow> string" where
  "phase_name ph = (case ph of Start \<Rightarrow> ''start'' | Drain \<Rightarrow> ''drain'' | Stop \<Rightarrow> ''stop'' | Dispose \<Rightarrow> ''dispose'')"

definition declares :: "participant \<Rightarrow> phase \<Rightarrow> bool" where
  "declares p ph \<longleftrightarrow> ph \<in> set (pt_lifecycle p)"

text \<open>
  \<open>invokeLifecycle\<close>: the failure, if any, and the time it ends. A method that outlives its timeout
  goes on; what it will come to is kept with the error.
\<close>

definition invoke_lifecycle :: "environment \<Rightarrow> participant \<Rightarrow> phase \<Rightarrow> int \<Rightarrow> int \<Rightarrow> lifecycle_error option \<times> int" where
  "invoke_lifecycle env p ph timeout now =
     (if ph \<notin> set (pt_callable p)
      then (Some (Integrity_error (pt_id p @ '' declares '' @ phase_name ph @ '' but has no callable method.'')), now)
      else (let ends = now + timeout + en_late env p ph in
        case en_behaviour env p ph of
          Settles d r \<Rightarrow>
            if now + d \<le> ends then (map_option Method_failed r, now + d)
            else (Some (Timeout_error (pt_id p) ph now (ends - now) (Some (now + d, r))), ends)
        | Never \<Rightarrow> (Some (Timeout_error (pt_id p) ph now (ends - now) None), ends)))"

fun invoke_phase :: "environment \<Rightarrow> phase \<Rightarrow> int \<Rightarrow> participant list \<Rightarrow> int \<Rightarrow> lifecycle_error list \<Rightarrow>
    lifecycle_error list \<times> int" where
  "invoke_phase env ph timeout [] now errors = (errors, now)"
| "invoke_phase env ph timeout (p # ps) now errors =
     (if \<not> declares p ph then invoke_phase env ph timeout ps now errors
      else (let (e, now') = invoke_lifecycle env p ph timeout now in
        invoke_phase env ph timeout ps now' (errors @ (case e of None \<Rightarrow> [] | Some e \<Rightarrow> [e]))))"

subsection \<open>Unwinding a startup\<close>

record deadlines =
  dl_start :: int
  dl_drain :: int
  dl_stop :: int
  dl_dispose :: int
  dl_cleanup :: int

definition remaining_cleanup_phases :: "participant list \<Rightarrow> (phase \<times> int) list \<Rightarrow> nat \<Rightarrow> nat \<Rightarrow> (string \<times> phase) list" where
  "remaining_cleanup_phases ps phases i k = concat (map (\<lambda>j.
     map (\<lambda>p. (pt_id p, fst (phases ! j)))
       (filter (\<lambda>p. declares p (fst (phases ! j))) (drop (if j = i then k else 0) ps))) [i..<length phases])"

definition pending_cleanup_phases :: "participant list \<Rightarrow> participant \<Rightarrow> (string \<times> phase) list" where
  "pending_cleanup_phases started pending =
     (pt_id pending, Start) # remaining_cleanup_phases (rev started) [(Stop, 0), (Dispose, 0)] 0 0"

definition settle_within_cleanup_budget :: "settlement \<Rightarrow> int \<Rightarrow> int \<Rightarrow> reason option option \<times> int" where
  "settle_within_cleanup_budget settlement deadline now =
     (if deadline - now \<le> 0 then (None, now)
      else (case settlement of
              None \<Rightarrow> (None, deadline)
            | Some (t, r) \<Rightarrow> if t \<le> deadline then (Some r, max now t) else (None, deadline)))"

text \<open>
  The two nested loops of \<open>unwindStartup\<close> from phase \<open>i\<close> and participant \<open>k\<close> on. Beside the errors
  and the time it gives the calls made, each with the timeout it was given, for the properties.
\<close>

function unwind_from :: "environment \<Rightarrow> int \<Rightarrow> participant list \<Rightarrow> (phase \<times> int) list \<Rightarrow> nat \<Rightarrow> nat \<Rightarrow>
    lifecycle_error list \<Rightarrow> int \<Rightarrow> lifecycle_error list \<times> ((string \<times> phase) \<times> int) list \<times> int" where
  "unwind_from env deadline ps phases i k errors now =
     (if i \<ge> length phases then (errors, [], now)
      else if k \<ge> length ps then unwind_from env deadline ps phases (Suc i) 0 errors now
      else (let (ph, timeout) = phases ! i; p = ps ! k in
        if \<not> declares p ph then unwind_from env deadline ps phases i (Suc k) errors now
        else (let remaining = deadline - now in
          if remaining \<le> 0
          then (errors @ [Cleanup_timeout deadline (remaining_cleanup_phases ps phases i k)], [], now)
          else (case invoke_lifecycle env p ph (min timeout remaining) now of
            (None, now') \<Rightarrow>
              (let (es, calls, end) = unwind_from env deadline ps phases i (Suc k) errors now'
               in (es, ((pt_id p, ph), min timeout remaining) # calls, end))
          | (Some e, now') \<Rightarrow>
              if now' \<ge> deadline
              then (errors @ [e, Cleanup_timeout deadline (remaining_cleanup_phases ps phases i k)],
                    [((pt_id p, ph), min timeout remaining)], now')
              else (let (es, calls, end) = unwind_from env deadline ps phases i (Suc k) (errors @ [e]) now'
                    in (es, ((pt_id p, ph), min timeout remaining) # calls, end))))))"
  by pat_completeness auto
termination
  by (relation "measures [\<lambda>(env, deadline, ps, phases, i, k, errors, now). length phases - i,
      \<lambda>(env, deadline, ps, phases, i, k, errors, now). length ps - k]") auto

declare unwind_from.simps [simp del]

definition cleanup_phases :: "deadlines \<Rightarrow> (phase \<times> int) list" where
  "cleanup_phases d = [(Stop, dl_stop d), (Dispose, dl_dispose d)]"

text \<open>
  \<open>unwindStartup\<close>; \<open>pending\<close> is the participant whose start timed out, with the settlement kept for
  its error.
\<close>

definition unwind_startup :: "environment \<Rightarrow> deadlines \<Rightarrow> participant list \<Rightarrow> (participant \<times> settlement) option \<Rightarrow> int \<Rightarrow>
    lifecycle_error list \<times> ((string \<times> phase) \<times> int) list \<times> int" where
  "unwind_startup env d started pending now =
     (let deadline = now + dl_cleanup d in
      case pending of
        None \<Rightarrow> unwind_from env deadline (rev started) (cleanup_phases d) 0 0 [] now
      | Some (p, settlement) \<Rightarrow>
         (case settle_within_cleanup_budget settlement deadline now of
            (None, now') \<Rightarrow> ([Cleanup_timeout deadline (pending_cleanup_phases started p)], [], now')
          | (Some None, now') \<Rightarrow> unwind_from env deadline (rev (started @ [p])) (cleanup_phases d) 0 0 [] now'
          | (Some (Some r), now') \<Rightarrow>
              unwind_from env deadline (rev started) (cleanup_phases d) 0 0 [Method_failed r] now'))"

subsection \<open>Booting and shutting down\<close>

text \<open>
  The loop of \<open>boot\<close> over the participants: all started, or the participants started before the
  failure, the error, and the participant at fault when its start was invoked.
\<close>

datatype boot_result =
    Booted
  | Boot_failed lifecycle_error "lifecycle_error list" "((string \<times> phase) \<times> int) list"

fun start_participants :: "environment \<Rightarrow> int \<Rightarrow> participant list \<Rightarrow> participant list \<Rightarrow> int \<Rightarrow>
    (lifecycle_error \<times> participant \<times> participant list) option \<times> int" where
  "start_participants env timeout [] started now = (None, now)"
| "start_participants env timeout (p # ps) started now =
     (if \<not> declares p Start then start_participants env timeout ps (started @ [p]) now
      else (case invoke_lifecycle env p Start timeout now of
          (None, now') \<Rightarrow> start_participants env timeout ps (started @ [p]) now'
        | (Some e, now') \<Rightarrow> (Some (e, p, started), now')))"

definition timed_out :: "participant \<Rightarrow> lifecycle_error \<Rightarrow> (participant \<times> settlement) option" where
  "timed_out p e = (case e of Timeout_error i ph t el settlement \<Rightarrow> Some (p, settlement) | _ \<Rightarrow> None)"

definition boot :: "environment \<Rightarrow> deadlines \<Rightarrow> participant list \<Rightarrow> int \<Rightarrow> boot_result \<times> int" where
  "boot env d ps now = (case start_participants env (dl_start d) ps [] now of
     (None, now') \<Rightarrow> (Booted, now')
   | (Some (e, p, started), now') \<Rightarrow>
       (let (errors, calls, end) = unwind_startup env d started (timed_out p e) now'
        in (Boot_failed e errors calls, end)))"

text \<open>
  \<open>#performShutdown\<close>: drain, stop and dispose in reverse order; \<open>drained\<close> is what waiting for the
  executions still running came to, with the time it took.
\<close>

definition perform_shutdown :: "environment \<Rightarrow> deadlines \<Rightarrow> participant list \<Rightarrow> reason option \<times> int \<Rightarrow> int \<Rightarrow>
    lifecycle_error list \<times> int" where
  "perform_shutdown env d ps drained now =
     (let (e1, t1) = invoke_phase env Drain (dl_drain d) (rev ps) now [];
          (e2, t2) = (e1 @ (case fst drained of None \<Rightarrow> [] | Some r \<Rightarrow> [Method_failed r]), t1 + snd drained);
          (e3, t3) = invoke_phase env Stop (dl_stop d) (rev ps) t2 e2
      in invoke_phase env Dispose (dl_dispose d) (rev ps) t3 e3)"

subsection \<open>Nothing is skipped silently\<close>

lemma remaining_step:
  assumes "i < length phases" and "k < length ps"
  shows "remaining_cleanup_phases ps phases i k =
    (if declares (ps ! k) (fst (phases ! i)) then [(pt_id (ps ! k), fst (phases ! i))] else []) @
    remaining_cleanup_phases ps phases i (Suc k)"
proof -
  have "[i..<length phases] = i # [Suc i..<length phases]" using assms(1) by (rule upt_conv_Cons)
  moreover have "drop k ps = ps ! k # drop (Suc k) ps" using assms(2) by (rule Cons_nth_drop_Suc [symmetric])
  moreover have "map (\<lambda>j. f j (if j = i then k else 0)) [Suc i..<length phases] =
      map (\<lambda>j. f j (if j = i then Suc k else 0)) [Suc i..<length phases]" for f :: "nat \<Rightarrow> nat \<Rightarrow> 'x"
    by auto
  ultimately show ?thesis
    by (simp add: remaining_cleanup_phases_def)
       (rule arg_cong [of _ _ concat], auto)
qed

lemma remaining_next:
  assumes "i < length phases" and "length ps \<le> k"
  shows "remaining_cleanup_phases ps phases i k = remaining_cleanup_phases ps phases (Suc i) 0"
proof -
  have "[i..<length phases] = i # [Suc i..<length phases]" using assms(1) by (rule upt_conv_Cons)
  then show ?thesis
    using assms(2) by (simp add: remaining_cleanup_phases_def) (rule arg_cong [of _ _ concat], auto)
qed

lemma remaining_done: "length phases \<le> i \<Longrightarrow> remaining_cleanup_phases ps phases i k = []"
  by (simp add: remaining_cleanup_phases_def)

text \<open>
  What a clean-up owes against what it did: either it made every call of the plan, or it ended with
  an error that lists what is left, where a last call that failed at the deadline counts as left too.
\<close>

definition accounted :: "int \<Rightarrow> (string \<times> phase) list \<Rightarrow> lifecycle_error list \<Rightarrow> (string \<times> phase) list \<Rightarrow>
    lifecycle_error list \<Rightarrow> bool" where
  "accounted deadline plan errors calls errors' \<longleftrightarrow>
     calls = plan \<and> (\<forall>u. Cleanup_timeout deadline u \<in> set errors' \<longrightarrow> Cleanup_timeout deadline u \<in> set errors) \<or>
     (\<exists>n u. calls = take n plan \<and> n \<le> length plan \<and> errors' \<noteq> [] \<and> last errors' = Cleanup_timeout deadline u \<and>
        (u = drop n plan \<or> 0 < n \<and> u = drop (n - 1) plan) \<and> u \<noteq> [])"

lemma invoke_no_cleanup_error: "fst (invoke_lifecycle env p ph timeout now) \<noteq> Some (Cleanup_timeout d u)"
  by (auto simp: invoke_lifecycle_def Let_def split: behaviour.split)

lemma accounted_step:
  assumes "accounted deadline plan (errors @ es) calls errors'" and "\<forall>u. Cleanup_timeout deadline u \<notin> set es"
  shows "accounted deadline (c # plan) errors (c # calls) errors'"
  using assms(1) unfolding accounted_def
proof (elim disjE conjE exE, goal_cases)
  case 1
  with assms(2) show ?case by auto
next
  case (2 n u)
  then show ?case
    by (intro disjI2 exI [of _ "Suc n"] exI [of _ u]) (cases n; auto)
next
  case (3 n u)
  then show ?case
    by (intro disjI2 exI [of _ "Suc n"] exI [of _ u]) (cases n; auto)
qed

text \<open>The seven ways the loop goes on, as an induction rule.\<close>

lemma unwind_from_induct [case_names finished next_phase skipped out_of_time settled failed_at_deadline failed]:
  fixes P :: "nat \<Rightarrow> nat \<Rightarrow> lifecycle_error list \<Rightarrow> int \<Rightarrow>
    lifecycle_error list \<Rightarrow> ((string \<times> phase) \<times> int) list \<Rightarrow> int \<Rightarrow> bool"
  assumes "\<And>i k errors now. length phases \<le> i \<Longrightarrow> P i k errors now errors [] now"
    and "\<And>i k errors now es calls t. i < length phases \<Longrightarrow> length ps \<le> k \<Longrightarrow> P (Suc i) 0 errors now es calls t \<Longrightarrow>
      P i k errors now es calls t"
    and "\<And>i k errors now es calls t. i < length phases \<Longrightarrow> k < length ps \<Longrightarrow>
      \<not> declares (ps ! k) (fst (phases ! i)) \<Longrightarrow> P i (Suc k) errors now es calls t \<Longrightarrow> P i k errors now es calls t"
    and "\<And>i k errors now. i < length phases \<Longrightarrow> k < length ps \<Longrightarrow> declares (ps ! k) (fst (phases ! i)) \<Longrightarrow>
      deadline \<le> now \<Longrightarrow>
      P i k errors now (errors @ [Cleanup_timeout deadline (remaining_cleanup_phases ps phases i k)]) [] now"
    and "\<And>i k errors now now' es calls t. i < length phases \<Longrightarrow> k < length ps \<Longrightarrow>
      declares (ps ! k) (fst (phases ! i)) \<Longrightarrow> now < deadline \<Longrightarrow>
      invoke_lifecycle env (ps ! k) (fst (phases ! i)) (min (snd (phases ! i)) (deadline - now)) now = (None, now') \<Longrightarrow>
      P i (Suc k) errors now' es calls t \<Longrightarrow>
      P i k errors now es (((pt_id (ps ! k), fst (phases ! i)), min (snd (phases ! i)) (deadline - now)) # calls) t"
    and "\<And>i k errors now now' e. i < length phases \<Longrightarrow> k < length ps \<Longrightarrow>
      declares (ps ! k) (fst (phases ! i)) \<Longrightarrow> now < deadline \<Longrightarrow>
      invoke_lifecycle env (ps ! k) (fst (phases ! i)) (min (snd (phases ! i)) (deadline - now)) now = (Some e, now') \<Longrightarrow>
      deadline \<le> now' \<Longrightarrow>
      P i k errors now (errors @ [e, Cleanup_timeout deadline (remaining_cleanup_phases ps phases i k)])
        [((pt_id (ps ! k), fst (phases ! i)), min (snd (phases ! i)) (deadline - now))] now'"
    and "\<And>i k errors now now' e es calls t. i < length phases \<Longrightarrow> k < length ps \<Longrightarrow>
      declares (ps ! k) (fst (phases ! i)) \<Longrightarrow> now < deadline \<Longrightarrow>
      invoke_lifecycle env (ps ! k) (fst (phases ! i)) (min (snd (phases ! i)) (deadline - now)) now = (Some e, now') \<Longrightarrow>
      now' < deadline \<Longrightarrow> P i (Suc k) (errors @ [e]) now' es calls t \<Longrightarrow>
      P i k errors now es (((pt_id (ps ! k), fst (phases ! i)), min (snd (phases ! i)) (deadline - now)) # calls) t"
  shows "case unwind_from env deadline ps phases i k errors now of (es, calls, t) \<Rightarrow> P i k errors now es calls t"
proof (induction "(length phases - i) * Suc (length ps) + (length ps - k)" arbitrary: i k errors now
    rule: less_induct)
  case less
  note unfolded = unwind_from.simps [of env deadline ps phases i k errors now]
  show ?case
  proof (cases "length phases \<le> i")
    case True
    then show ?thesis by (simp add: unfolded assms(1))
  next
    case i: False
    show ?thesis
    proof (cases "length ps \<le> k")
      case True
      have "length phases - i = Suc (length phases - Suc i)" using i by simp
      then have "(length phases - Suc i) * Suc (length ps) + (length ps - 0) <
          (length phases - i) * Suc (length ps) + (length ps - k)" using True by simp
      from less [OF this, of errors now] i True show ?thesis
        using assms(2) by (auto simp: unfolded split: prod.splits)
    next
      case k: False
      then have "(length phases - i) * Suc (length ps) + (length ps - Suc k) <
          (length phases - i) * Suc (length ps) + (length ps - k)" by simp
      note IH = less [OF this]
      obtain ph timeout where ph: "phases ! i = (ph, timeout)" by (cases "phases ! i")
      consider "\<not> declares (ps ! k) ph" | "declares (ps ! k) ph" "deadline \<le> now"
        | "declares (ps ! k) ph" "now < deadline" by linarith
      then show ?thesis
      proof cases
        case 1
        with i k ph IH [of errors now] show ?thesis
          using assms(3) [of i k] by (auto simp: unfolded split: prod.splits)
      next
        case 2
        with i k ph show ?thesis using assms(4) [of i k] by (simp add: unfolded Let_def)
      next
        case 3
        obtain r now' where r: "invoke_lifecycle env (ps ! k) ph (min timeout (deadline - now)) now = (r, now')"
          by (cases "invoke_lifecycle env (ps ! k) ph (min timeout (deadline - now)) now")
        show ?thesis
        proof (cases r)
          case None
          with 3 i k ph r IH [of errors now'] show ?thesis
            using assms(5) [of i k now now' errors] by (auto simp: unfolded Let_def split: prod.splits)
        next
          case (Some e)
          show ?thesis
          proof (cases "deadline \<le> now'")
            case True
            with Some 3 i k ph r show ?thesis
              using assms(6) [of i k now e now' errors] by (simp add: unfolded Let_def)
          next
            case False
            with Some 3 i k ph r IH [of "errors @ [e]" now'] show ?thesis
              using assms(7) [of i k now e now' errors] by (auto simp: unfolded Let_def split: prod.splits)
          qed
        qed
      qed
    qed
  qed
qed

lemma unwind_from_accounted:
  "case unwind_from env deadline ps phases i k errors now of (errors', calls, t) \<Rightarrow>
     accounted deadline (remaining_cleanup_phases ps phases i k) errors (map fst calls) errors'"
proof (rule unwind_from_induct [where P = "\<lambda>i k errors now errors' calls t.
      accounted deadline (remaining_cleanup_phases ps phases i k) errors (map fst calls) errors'"], goal_cases)
  case (1 i k errors now)
  then show ?case by (simp add: accounted_def remaining_done)
next
  case (2 i k errors now es calls t)
  then show ?case by (simp add: remaining_next)
next
  case (3 i k errors now es calls t)
  then show ?case by (simp add: remaining_step [of i phases k])
next
  case (4 i k errors now)
  then have "remaining_cleanup_phases ps phases i k \<noteq> []" by (simp add: remaining_step [of i phases k])
  then show ?case by (auto simp: accounted_def intro!: exI [of _ 0])
next
  case (5 i k errors now now' es calls t)
  then show ?case
    using accounted_step [of deadline "remaining_cleanup_phases ps phases i (Suc k)" errors "[]"]
    by (simp add: remaining_step [of i phases k])
next
  case (6 i k errors now now' e)
  then show ?case
    by (simp add: accounted_def remaining_step [of i phases k]) (auto intro!: exI [of _ "Suc 0"])
next
  case (7 i k errors now now' e es calls t)
  then have "\<forall>u. Cleanup_timeout deadline u \<notin> set [e]"
    using invoke_no_cleanup_error
      [of env "ps ! k" "fst (phases ! i)" "min (snd (phases ! i)) (deadline - now)" now deadline] by auto
  with 7 show ?case
    using accounted_step [of deadline "remaining_cleanup_phases ps phases i (Suc k)" errors "[e]"]
    by (simp add: remaining_step [of i phases k])
qed

text \<open>The clean-up owed to participants: the last started first, all stopped before any is disposed.\<close>

definition owed_in :: "phase \<Rightarrow> participant list \<Rightarrow> (string \<times> phase) list" where
  "owed_in ph ps = map (\<lambda>p. (pt_id p, ph)) (filter (\<lambda>p. declares p ph) (rev ps))"

definition cleanup_plan :: "participant list \<Rightarrow> (string \<times> phase) list" where
  "cleanup_plan ps = owed_in Stop ps @ owed_in Dispose ps"

lemma remaining_is_plan:
  "remaining_cleanup_phases (rev ps) [(Stop, a), (Dispose, b)] 0 0 = cleanup_plan ps"
  by (simp add: remaining_cleanup_phases_def cleanup_plan_def owed_in_def upt_rec)

lemma start_participants_split:
  "start_participants env timeout ps started now = (Some (e, p, started'), now') \<Longrightarrow>
     \<exists>more rest. started' = started @ more \<and> ps = more @ p # rest"
proof (induction ps arbitrary: started now)
  case (Cons q ps)
  show ?case
  proof (cases "declares q Start \<and> (\<exists>e now1. invoke_lifecycle env q Start timeout now = (Some e, now1))")
    case True
    with Cons.prems show ?thesis by auto
  next
    case False
    then have "\<exists>now1. start_participants env timeout ps (started @ [q]) now1 = (Some (e, p, started'), now')"
      using Cons.prems
      by (cases "invoke_lifecycle env q Start timeout now") (auto split: if_splits option.splits)
    then obtain more rest where "started' = (started @ [q]) @ more" "ps = more @ p # rest"
      using Cons.IH by blast
    then show ?thesis by (intro exI [of _ "q # more"] exI [of _ rest]) simp
  qed
qed simp

lemma unwind_startup_accounted:
  assumes "unwind_startup env d started pending now = (errors, calls, t)"
  shows "\<exists>owed. (owed = cleanup_plan started \<or>
      (\<exists>p t0. pending = Some (p, Some (t0, None)) \<and> owed = cleanup_plan (started @ [p]))) \<and>
    (map fst calls = owed \<or>
     (\<exists>n u. map fst calls = take n owed \<and> errors \<noteq> [] \<and> last errors = Cleanup_timeout (now + dl_cleanup d) u \<and>
        set (drop n owed) \<subseteq> set u))"
proof -
  let ?dl = "now + dl_cleanup d"
  have unwound: "map fst calls = cleanup_plan qs \<or>
     (\<exists>n u. map fst calls = take n (cleanup_plan qs) \<and> errors \<noteq> [] \<and> last errors = Cleanup_timeout ?dl u \<and>
        set (drop n (cleanup_plan qs)) \<subseteq> set u)"
    if "unwind_from env ?dl (rev qs) (cleanup_phases d) 0 0 es now1 = (errors, calls, t)" for qs es now1
  proof -
    from unwind_from_accounted [where env = env and deadline = ?dl and ps = "rev qs" and phases = "cleanup_phases d"
        and i = 0 and k = 0 and errors = es and now = now1] that
    have "accounted ?dl (cleanup_plan qs) es (map fst calls) errors"
      by (simp add: remaining_is_plan cleanup_phases_def)
    then show ?thesis
      unfolding accounted_def
    proof (elim disjE conjE exE, goal_cases)
      case (3 n u)
      have "set (drop n (cleanup_plan qs)) \<subseteq> set (drop (n - 1) (cleanup_plan qs))"
        by (rule set_drop_subset_set_drop) simp
      with 3 show ?case by blast
    qed blast+
  qed
  show ?thesis
  proof (cases pending)
    case None
    with assms have "unwind_from env ?dl (rev started) (cleanup_phases d) 0 0 [] now = (errors, calls, t)"
      by (simp add: unwind_startup_def Let_def)
    from unwound [OF this] show ?thesis by auto
  next
    case (Some ps)
    obtain p settlement where pending: "pending = Some (p, settlement)" using Some by (cases ps) auto
    obtain r now1 where r: "settle_within_cleanup_budget settlement ?dl now = (r, now1)"
      by (cases "settle_within_cleanup_budget settlement ?dl now")
    show ?thesis
    proof (cases r)
      case None
      with assms r pending have "errors = [Cleanup_timeout ?dl ((pt_id p, Start) # cleanup_plan started)]" "calls = []"
        by (auto simp: unwind_startup_def pending_cleanup_phases_def remaining_is_plan)
      then have "(\<exists>n u. map fst calls = take n (cleanup_plan started) \<and> errors \<noteq> [] \<and>
          last errors = Cleanup_timeout ?dl u \<and> set (drop n (cleanup_plan started)) \<subseteq> set u)"
        by (intro exI [of _ 0]) auto
      then show ?thesis by blast
    next
      case (Some res)
      show ?thesis
      proof (cases res)
        case None
        with Some r have settled: "\<exists>t0. settlement = Some (t0, None)"
          by (auto simp: settle_within_cleanup_budget_def split: if_splits option.splits)
        from None Some assms r pending
        have "unwind_from env ?dl (rev (started @ [p])) (cleanup_phases d) 0 0 [] now1 = (errors, calls, t)"
          by (simp add: unwind_startup_def)
        from unwound [OF this] settled pending show ?thesis by (intro exI [of _ "cleanup_plan (started @ [p])"]) auto
      next
        case (Some reason)
        with \<open>r = Some res\<close> assms r pending
        have "unwind_from env ?dl (rev started) (cleanup_phases d) 0 0 [Method_failed reason] now1 = (errors, calls, t)"
          by (simp add: unwind_startup_def)
        from unwound [OF this] show ?thesis by auto
      qed
    qed
  qed
qed


lemma unwind_from_budget:
  assumes "\<And>p ph. en_late env p ph = 0"
  shows "case unwind_from env deadline ps phases i k errors now of (es, calls, t) \<Rightarrow> now \<le> deadline \<longrightarrow> t \<le> deadline"
proof -
  have "now' \<le> deadline" if "invoke_lifecycle env p ph (min timeout (deadline - now)) now = (r, now')" "now \<le> deadline"
    for p ph timeout now r now'
    using that assms by (auto simp: invoke_lifecycle_def Let_def split: if_splits behaviour.splits)
  then show ?thesis
    by (intro unwind_from_induct [where P = "\<lambda>i k errors now es calls t. now \<le> deadline \<longrightarrow> t \<le> deadline"])
       (auto dest: less_imp_le)
qed

text \<open>
  C38. Clean-up ends within its budget: on a host whose timers are not late, unwinding a startup is
  over by the time it began plus the clean-up deadline, however many participants there are and
  whatever their methods do.
\<close>

theorem cleanup_within_budget:
  assumes "\<forall>p ph. en_late env p ph = 0" and "0 \<le> dl_cleanup d"
  shows "snd (snd (unwind_startup env d started pending now)) \<le> now + dl_cleanup d"
proof -
  have unwound: "snd (snd (unwind_from env (now + dl_cleanup d) ps (cleanup_phases d) 0 0 es now1)) \<le> now + dl_cleanup d"
    if "now1 \<le> now + dl_cleanup d" for ps es now1
    using unwind_from_budget [where env = env and deadline = "now + dl_cleanup d" and ps = ps
        and phases = "cleanup_phases d" and i = 0 and k = 0 and errors = es and now = now1] assms(1) that
    by (simp split: prod.splits)
  have "snd (settle_within_cleanup_budget s (now + dl_cleanup d) now) \<le> now + dl_cleanup d" for s
    using assms(2) by (auto simp: settle_within_cleanup_budget_def split: option.split)
  then have "now1 \<le> now + dl_cleanup d" if "settle_within_cleanup_budget s (now + dl_cleanup d) now = (r, now1)" for s r now1
    using that by (metis snd_conv)
  then show ?thesis
    using unwound assms(2) by (auto simp: unwind_startup_def Let_def split: option.split prod.split)
qed

subsection \<open>Samples\<close>

definition sample_participant :: "string \<Rightarrow> participant" where
  "sample_participant i = \<lparr>pt_id = i, pt_lifecycle = [Start, Stop, Dispose], pt_callable = [Start, Stop, Dispose]\<rparr>"

definition sample_deadlines :: deadlines where
  "sample_deadlines = \<lparr>dl_start = 100, dl_drain = 100, dl_stop = 50, dl_dispose = 50, dl_cleanup = 80\<rparr>"

text \<open>Everything takes 10 ms; the start of the third participant fails; the second never stops.\<close>

definition sample_environment :: environment where
  "sample_environment = \<lparr>en_behaviour = (\<lambda>p ph.
     if ph = Start then Settles 10 (if pt_id p = ''c'' then Some ''no'' else None)
     else if pt_id p = ''b'' then Never else Settles 10 None), en_late = (\<lambda>p ph. 0)\<rparr>"

definition sample_boot :: "boot_result \<times> int" where
  "sample_boot = boot sample_environment sample_deadlines (map sample_participant [''a'', ''b'', ''c'', ''d'']) 0"

lemma sample_boot_result: "sample_boot =
  (Boot_failed (Method_failed ''no'')
    [Timeout_error ''b'' Stop 30 50 None, Timeout_error ''b'' Dispose 90 20 None,
     Cleanup_timeout 110 [(''b'', Dispose), (''a'', Dispose)]]
    [((''b'', Stop), 50), ((''a'', Stop), 30), ((''b'', Dispose), 20)], 110)"
  by code_simp


theorem cleanup_within_budget_witness:
  "snd (snd (unwind_startup sample_environment sample_deadlines (map sample_participant [''a'', ''b'']) None 30)) \<le> 110"
  using cleanup_within_budget [of sample_environment sample_deadlines "map sample_participant [''a'', ''b'']" None 30]
  by (simp add: sample_environment_def sample_deadlines_def)

end
