(* ===== verification/Authorization.thy ===== *)
theory Authorization
  imports Prelude
begin

text \<open>
  Authorization decisions of the runtime (\<open>decideAuthorization\<close> and what it calls in
  \<open>packages/runtime/src/runtime.ts\<close>, with the roles of \<open>packages/core/src/authorization.ts\<close>): the
  constraints of a credential, the permission source of the application, resolved once per
  execution, and the policy of an ability.

  What a policy, the permission source, the audit trail and the read transaction of a decision come
  to are the application's and the host's: they are arguments. A decision records its effects in order.
\<close>

datatype effect = Allow | Deny

record decision =
  de_effect :: effect
  de_policy :: string
  de_code :: string

datatype auth_failure =
    Integrity_failure string
  | Source_integrity string
  | Source_failed string
  | Policy_failed bool string \<comment> \<open>hidden from a realtime client, message\<close>
  | Session_failed string
  | Audit_failed string

text \<open>A policy returns the texts of an effect and a code, or throws; a source returns a value, or throws.\<close>

datatype policy_outcome = Policy_gave string string | Policy_threw string
datatype source_outcome = Source_gave json | Source_threw string

record permission_source =
  sm_id :: string
  sm_abilities :: "string list"

record authority =
  au_source :: "permission_source option"
  au_policies :: "string \<Rightarrow> string option" \<comment> \<open>the policy of an ability\<close>
  au_audited :: bool \<comment> \<open>authentication is configured\<close>

record execution =
  ex_constraints :: "string list option"
  ex_realtime :: bool
  ex_resolving :: bool \<comment> \<open>inside the permission source\<close>
  ex_abilities :: "(auth_failure + string list) option" \<comment> \<open>\<open>store.permissionAbilities\<close>\<close>

datatype auth_effect = Source_called | Policy_asked string string | Audited string decision

record surroundings =
  su_source :: source_outcome
  su_policy :: "string \<Rightarrow> string \<Rightarrow> policy_outcome"
  su_session :: "string option"
  su_audit :: "decision \<Rightarrow> string option"

subsection \<open>Credential constraints\<close>

definition ends_in_wildcard :: "string \<Rightarrow> bool" where
  "ends_in_wildcard c \<longleftrightarrow> 2 \<le> length c \<and> drop (length c - 2) c = ''.*''"

definition constraint_allows :: "string \<Rightarrow> string \<Rightarrow> bool" where
  "constraint_allows c ability \<longleftrightarrow>
     c = ''*'' \<or> c = ability \<or> ends_in_wildcard c \<and> prefix (butlast c) ability"

definition constrained_away :: "string list option \<Rightarrow> string \<Rightarrow> bool" where
  "constrained_away constraints ability = (case constraints of
     None \<Rightarrow> False
   | Some cs \<Rightarrow> cs \<noteq> [] \<and> \<not> list_ex (\<lambda>c. constraint_allows c ability) cs)"

subsection \<open>Recording\<close>

definition record_decision ::
  "authority \<Rightarrow> surroundings \<Rightarrow> string \<Rightarrow> decision \<Rightarrow> (auth_failure + decision) \<times> auth_effect list" where
  "record_decision au su ability d =
     (if \<not> au_audited au then (Inr d, [])
      else (case su_audit su d of
              Some message \<Rightarrow> (Inl (Audit_failed message), [])
            | None \<Rightarrow> (Inr d, [Audited ability d])))"

definition deny :: "string \<Rightarrow> string \<Rightarrow> decision" where
  "deny policy code = \<lparr>de_effect = Deny, de_policy = policy, de_code = code\<rparr>"

definition allow :: "string \<Rightarrow> string \<Rightarrow> decision" where
  "allow policy code = \<lparr>de_effect = Allow, de_policy = policy, de_code = code\<rparr>"

subsection \<open>The permission source\<close>

definition all_strings :: "json list \<Rightarrow> string list option" where
  "all_strings vs = (if list_all (\<lambda>v. is_string (Some v)) vs then Some (map (\<lambda>v. the (opt_string (Some v))) vs) else None)"

definition source_result :: "permission_source \<Rightarrow> source_outcome \<Rightarrow> auth_failure + string list" where
  "source_result src outcome = (case outcome of
     Source_threw message \<Rightarrow> Inl (Source_failed message)
   | Source_gave v \<Rightarrow>
      (case (case v of JArr vs \<Rightarrow> all_strings vs | _ \<Rightarrow> None) of
         None \<Rightarrow> Inl (Source_integrity (''Permission source '' @ sm_id src @ '' must return an array of ability names.''))
       | Some abilities \<Rightarrow>
           if list_all (\<lambda>a. a \<in> set (sm_abilities src)) abilities then Inr abilities
           else Inl (Source_integrity (''Permission source '' @ sm_id src @
             '' returned an ability outside its declared catalog.''))))"

text \<open>\<open>resolvePermissionAbilities\<close>: the promise is kept, whether it is fulfilled or rejected.\<close>

definition recursion_error :: "permission_source \<Rightarrow> auth_failure" where
  "recursion_error src = Integrity_failure (''Permission source '' @ sm_id src @
     '' attempted recursive authorization while resolving abilities.'')"

definition resolve_permission_abilities ::
  "surroundings \<Rightarrow> permission_source \<Rightarrow> execution \<Rightarrow> (auth_failure + string list) \<times> auth_effect list \<times> execution" where
  "resolve_permission_abilities su src ex =
     (if ex_resolving ex then (Inl (recursion_error src), [], ex)
      else (case ex_abilities ex of
              Some r \<Rightarrow> (r, [], ex)
            | None \<Rightarrow> (let r = source_result src (su_source su)
                      in (r, [Source_called], ex\<lparr>ex_abilities := Some r\<rparr>))))"

subsection \<open>Policies\<close>

definition evaluate_policy ::
  "authority \<Rightarrow> surroundings \<Rightarrow> string \<Rightarrow> string \<Rightarrow> execution \<Rightarrow> (auth_failure + decision) \<times> auth_effect list" where
  "evaluate_policy au su policy ability ex = (case su_policy su policy ability of
     Policy_threw message \<Rightarrow>
       (Inl (Policy_failed (ex_realtime ex)
          (if ex_realtime ex then ''Realtime command authorization failed.'' else message)), [Policy_asked policy ability])
   | Policy_gave e code \<Rightarrow>
       if e \<noteq> ''allow'' \<and> e \<noteq> ''deny'' \<or> code = []
       then (Inl (Integrity_failure (''Policy '' @ policy @ '' returned an invalid decision.'')), [Policy_asked policy ability])
       else (let (r, es) = record_decision au su ability
                   \<lparr>de_effect = (if e = ''allow'' then Allow else Deny), de_policy = policy, de_code = code\<rparr>
             in (r, Policy_asked policy ability # es)))"

subsection \<open>Deciding\<close>

definition manages :: "authority \<Rightarrow> string \<Rightarrow> bool" where
  "manages au ability = (case au_source au of None \<Rightarrow> False | Some src \<Rightarrow> ability \<in> set (sm_abilities src))"

text \<open>The part of a decision that runs in a read-only model session.\<close>

definition decide_in_session ::
  "authority \<Rightarrow> surroundings \<Rightarrow> string \<Rightarrow> execution \<Rightarrow> (auth_failure + decision) \<times> auth_effect list \<times> execution" where
  "decide_in_session au su ability ex =
     (case (if manages au ability then au_source au else None) of
        None \<Rightarrow> (case au_policies au ability of
            None \<Rightarrow> (Inl (Integrity_failure []), [], ex)
          | Some policy \<Rightarrow> (let (r, es) = evaluate_policy au su policy ability ex in (r, es, ex)))
      | Some src \<Rightarrow>
         (let (abilities, es, ex') = resolve_permission_abilities su src ex in
          case abilities of
            Inl e \<Rightarrow> (Inl e, es, ex')
          | Inr granted \<Rightarrow>
              if ability \<notin> set granted then
                (let (r, es') = record_decision au su ability (deny (sm_id src) ''permission_required'') in (r, es @ es', ex'))
              else (case au_policies au ability of
                None \<Rightarrow> (let (r, es') = record_decision au su ability (allow (sm_id src) ''permission_granted'')
                         in (r, es @ es', ex'))
              | Some policy \<Rightarrow> (let (r, es') = evaluate_policy au su policy ability ex' in (r, es @ es', ex')))))"

definition with_read_session ::
  "surroundings \<Rightarrow> execution \<Rightarrow> (execution \<Rightarrow> (auth_failure + decision) \<times> auth_effect list \<times> execution) \<Rightarrow>
     (auth_failure + decision) \<times> auth_effect list \<times> execution" where
  "with_read_session su ex work = (case su_session su of
     Some message \<Rightarrow> (Inl (Session_failed message), [], ex) | None \<Rightarrow> work ex)"

definition decide_authorization ::
  "authority \<Rightarrow> surroundings \<Rightarrow> string \<Rightarrow> execution \<Rightarrow> (auth_failure + decision) \<times> auth_effect list \<times> execution" where
  "decide_authorization au su ability ex =
     (if constrained_away (ex_constraints ex) ability then
        (let (r, es) = record_decision au su ability (deny ''doxa:credential-constraints'' ''credential_constraint_denied'')
         in (r, es, ex))
      else if manages au ability \<and> ex_resolving ex then (Inl (recursion_error (the (au_source au))), [], ex)
      else if \<not> manages au ability \<and> au_policies au ability = None then
        (let (r, es) = record_decision au su ability (deny ''doxa:default-deny'' ''policy_missing'') in (r, es, ex))
      else (case (if manages au ability \<and> au_policies au ability = None then ex_abilities ex else None) of
        Some (Inl e) \<Rightarrow> (Inl e, [], ex)
      | Some (Inr granted) \<Rightarrow>
          (let (r, es) = record_decision au su ability
             (if ability \<in> set granted then allow (sm_id (the (au_source au))) ''permission_granted''
              else deny (sm_id (the (au_source au))) ''permission_required'') in (r, es, ex))
      | None \<Rightarrow> with_read_session su ex (decide_in_session au su ability)))"

subsection \<open>What a decision may be\<close>

text \<open>
  The decision an ability deserves, from the constraints, the abilities the source grants and the
  answer of the policy: none where the answer is not a decision.
\<close>

definition policy_decision :: "string \<Rightarrow> policy_outcome \<Rightarrow> decision option" where
  "policy_decision policy outcome = (case outcome of
     Policy_threw m \<Rightarrow> None
   | Policy_gave e code \<Rightarrow>
       if code = [] then None
       else if e = ''allow'' then Some (allow policy code)
       else if e = ''deny'' then Some (deny policy code) else None)"

definition deserved :: "authority \<Rightarrow> string list option \<Rightarrow> (auth_failure + string list) \<Rightarrow>
    (string \<Rightarrow> string \<Rightarrow> policy_outcome) \<Rightarrow> string \<Rightarrow> decision option" where
  "deserved au constraints abilities policy_of ability =
     (if constrained_away constraints ability
      then Some (deny ''doxa:credential-constraints'' ''credential_constraint_denied'')
      else case (au_source au, au_policies au ability) of
        (Some src, policy) \<Rightarrow>
          if ability \<in> set (sm_abilities src) then
            (case abilities of
               Inl e \<Rightarrow> None
             | Inr granted \<Rightarrow>
                 if ability \<notin> set granted then Some (deny (sm_id src) ''permission_required'')
                 else (case policy of
                   None \<Rightarrow> Some (allow (sm_id src) ''permission_granted'')
                 | Some p \<Rightarrow> policy_decision p (policy_of p ability)))
          else (case policy of
             None \<Rightarrow> Some (deny ''doxa:default-deny'' ''policy_missing'')
           | Some p \<Rightarrow> policy_decision p (policy_of p ability))
      | (None, None) \<Rightarrow> Some (deny ''doxa:default-deny'' ''policy_missing'')
      | (None, Some p) \<Rightarrow> policy_decision p (policy_of p ability))"

lemma record_decision_Inr: "record_decision au su ability d = (Inr d', es) \<Longrightarrow>
  d' = d \<and> (if au_audited au then es = [Audited ability d] else es = [])"
  by (auto simp: record_decision_def split: if_splits option.splits)

lemma evaluate_policy_Inr: "evaluate_policy au su policy ability ex = (Inr d, es) \<Longrightarrow>
  policy_decision policy (su_policy su policy ability) = Some d \<and>
  (if au_audited au then last es = Audited ability d else True)"
  by (auto simp: evaluate_policy_def policy_decision_def allow_def deny_def dest!: record_decision_Inr
      split: policy_outcome.splits if_splits prod.splits)

definition consistent :: "authority \<Rightarrow> source_outcome \<Rightarrow> execution \<Rightarrow> bool" where
  "consistent au outcome ex \<longleftrightarrow> (case ex_abilities ex of
     None \<Rightarrow> True
   | Some r \<Rightarrow> (case au_source au of None \<Rightarrow> False | Some src \<Rightarrow> r = source_result src outcome))"

text \<open>What a decision does to the memory of the execution, and how often it asks the source.\<close>

definition asked :: "auth_effect list \<Rightarrow> nat" where
  "asked es = length (filter (\<lambda>e. e = Source_called) es)"

lemma asked_simps [simp]: "asked [] = 0" "asked (e # es) = (if e = Source_called then 1 else 0) + asked es"
  "asked (es @ es') = asked es + asked es'"
  by (simp_all add: asked_def)

lemma asked_record: "record_decision au su ability d = (r, es) \<Longrightarrow> asked es = 0"
  by (auto simp: record_decision_def split: option.splits if_splits)

lemma asked_policy: "evaluate_policy au su policy ability ex = (r, es) \<Longrightarrow> asked es = 0"
  by (auto simp: evaluate_policy_def split: policy_outcome.splits prod.splits if_splits dest: asked_record)

definition memo_step :: "execution \<Rightarrow> auth_effect list \<Rightarrow> execution \<Rightarrow> bool" where
  "memo_step ex es ex' \<longleftrightarrow> ex' = ex\<lparr>ex_abilities := ex_abilities ex'\<rparr> \<and>
     (if ex_abilities ex = None \<and> ex_abilities ex' \<noteq> None then asked es = 1
      else ex_abilities ex' = ex_abilities ex \<and> asked es = 0)"

lemma memo_step_same: "asked es = 0 \<Longrightarrow> memo_step ex es ex"
  by (cases "ex_abilities ex") (simp_all add: memo_step_def)

lemma memo_step_more: "memo_step ex es ex' \<Longrightarrow> asked es' = 0 \<Longrightarrow> memo_step ex (es @ es') ex'"
  by (simp add: memo_step_def)

lemma resolve_memo: "resolve_permission_abilities su src ex = (r, es, ex') \<Longrightarrow> memo_step ex es ex'"
  by (auto simp: resolve_permission_abilities_def memo_step_def Let_def split: if_splits option.splits)

lemma session_memo:
  assumes "decide_in_session au su ability ex = (r, es, ex')"
  shows "memo_step ex es ex'"
proof (cases "if manages au ability then au_source au else None")
  case None
  with assms show ?thesis
    by (auto simp: decide_in_session_def split: option.splits prod.splits dest!: asked_policy intro: memo_step_same)
next
  case (Some src)
  obtain a es1 ex1 where res: "resolve_permission_abilities su src ex = (a, es1, ex1)"
    by (cases "resolve_permission_abilities su src ex")
  from assms Some res have "(es = es1 \<or> (\<exists>es2. es = es1 @ es2 \<and> asked es2 = 0)) \<and> ex' = ex1"
    by (auto simp: decide_in_session_def split: sum.splits option.splits prod.splits if_splits
        dest: asked_record asked_policy)
  with resolve_memo [OF res] show ?thesis by (auto intro: memo_step_more)
qed

lemma decide_memo:
  assumes "decide_authorization au su ability ex = (r, es, ex')"
  shows "memo_step ex es ex'"
proof -
  have "(asked es = 0 \<and> ex' = ex) \<or> with_read_session su ex (decide_in_session au su ability) = (r, es, ex')"
    using assms
    by (auto simp: decide_authorization_def split: if_splits prod.splits option.splits sum.splits dest: asked_record)
  then show ?thesis
    by (auto simp: with_read_session_def memo_step_same split: option.splits dest: session_memo)
qed

lemma decide_in_session_deserved:
  assumes "decide_in_session au su ability ex = (Inr d, es, ex')" and "consistent au (su_source su) ex"
    and "\<not> constrained_away (ex_constraints ex) ability" and "manages au ability \<or> au_policies au ability \<noteq> None"
  shows "deserved au (ex_constraints ex) (source_result (the (au_source au)) (su_source su)) (su_policy su) ability = Some d \<and>
    (au_audited au \<longrightarrow> Audited ability d \<in> set es)"
proof (cases "if manages au ability then au_source au else None")
  case None
  with assms(4) obtain p where p: "au_policies au ability = Some p" and "\<not> manages au ability"
    by (auto simp: manages_def split: if_splits option.splits)
  from assms(1) p None obtain es' where "evaluate_policy au su p ability ex = (Inr d, es)"
    by (auto simp: decide_in_session_def split: prod.splits)
  from evaluate_policy_Inr [OF this] have d: "policy_decision p (su_policy su p ability) = Some d"
    and audit: "au_audited au \<longrightarrow> last es = Audited ability d" and "es \<noteq> []"
    using \<open>evaluate_policy au su p ability ex = (Inr d, es)\<close>
    by (auto simp: evaluate_policy_def split: policy_outcome.splits if_splits prod.splits)
  then have "au_audited au \<longrightarrow> Audited ability d \<in> set es" by (metis last_in_set)
  with d p \<open>\<not> manages au ability\<close> assms(3) show ?thesis
    by (auto simp: deserved_def manages_def split: option.splits)
next
  case (Some src)
  then have src: "au_source au = Some src" and managed: "ability \<in> set (sm_abilities src)"
    by (auto simp: manages_def split: if_splits)
  obtain a es1 ex1 where res: "resolve_permission_abilities su src ex = (a, es1, ex1)"
    by (cases "resolve_permission_abilities su src ex")
  from assms(1) Some res obtain granted where a: "a = Inr granted"
    by (auto simp: decide_in_session_def split: sum.splits)
  have granted: "source_result src (su_source su) = Inr granted"
    using res a assms(2) src
    by (auto simp: resolve_permission_abilities_def consistent_def Let_def split: if_splits option.splits)
  show ?thesis
  proof (cases "ability \<in> set granted")
    case False
    with assms(1) Some res a obtain es2 where
      "record_decision au su ability (deny (sm_id src) ''permission_required'') = (Inr d, es2)" "es = es1 @ es2"
      by (auto simp: decide_in_session_def split: prod.splits)
    with record_decision_Inr [OF this(1)] False src managed granted assms(3) show ?thesis
      by (auto simp: deserved_def split: if_splits)
  next
    case True
    show ?thesis
    proof (cases "au_policies au ability")
      case None
      with True assms(1) Some res a obtain es2 where
        "record_decision au su ability (allow (sm_id src) ''permission_granted'') = (Inr d, es2)" "es = es1 @ es2"
        by (auto simp: decide_in_session_def split: prod.splits)
      with record_decision_Inr [OF this(1)] True None src managed granted assms(3) show ?thesis
        by (auto simp: deserved_def split: if_splits)
    next
      case (Some p)
      with True assms(1) \<open>(if manages au ability then au_source au else None) = Some src\<close> res a obtain es2 where
        e: "evaluate_policy au su p ability ex1 = (Inr d, es2)" "es = es1 @ es2"
        by (auto simp: decide_in_session_def split: prod.splits)
      then have "es2 \<noteq> []"
        by (auto simp: evaluate_policy_def split: policy_outcome.splits if_splits prod.splits)
      with evaluate_policy_Inr [OF e(1)] e(2) have "au_audited au \<longrightarrow> Audited ability d \<in> set es"
        by (auto split: if_splits) (metis last_in_set)
      with evaluate_policy_Inr [OF e(1)] True Some src managed granted assms(3) show ?thesis
        by (auto simp: deserved_def)
    qed
  qed
qed

text \<open>
  C19. Decisions are the deserved ones. Whatever decision \<open>decideAuthorization\<close> gives, on any of its
  paths and with abilities resolved now or remembered from earlier in the execution: it is a denial
  where the credential's constraints do not cover the ability, where nothing governs it or where the
  permission source does not grant it, and otherwise what the policy said, or an allowance where the
  source alone governs it; and with authentication configured it was written to the audit trail.
\<close>

theorem decisions_deserved:
  assumes "decide_authorization au su ability ex = (Inr d, es, ex')" and "consistent au (su_source su) ex"
  shows "deserved au (ex_constraints ex) (source_result (the (au_source au)) (su_source su)) (su_policy su) ability = Some d \<and>
    (au_audited au \<longrightarrow> Audited ability d \<in> set es)"
proof (cases "constrained_away (ex_constraints ex) ability")
  case True
  with assms(1) have "record_decision au su ability (deny ''doxa:credential-constraints'' ''credential_constraint_denied'') = (Inr d, es)"
    by (auto simp: decide_authorization_def split: prod.splits)
  with record_decision_Inr [OF this] True show ?thesis by (auto simp: deserved_def split: if_splits)
next
  case uncovered: False
  show ?thesis
  proof (cases "\<not> manages au ability \<and> au_policies au ability = None")
    case True
    with uncovered assms(1) have "record_decision au su ability (deny ''doxa:default-deny'' ''policy_missing'') = (Inr d, es)"
      by (auto simp: decide_authorization_def split: prod.splits)
    with record_decision_Inr [OF this] True uncovered show ?thesis
      by (auto simp: deserved_def manages_def split: if_splits option.splits)
  next
    case governed: False
    show ?thesis
    proof (cases "if manages au ability \<and> au_policies au ability = None then ex_abilities ex else None")
      case None
      with governed uncovered assms(1) have "decide_in_session au su ability ex = (Inr d, es, ex')"
        by (auto simp: decide_authorization_def with_read_session_def split: if_splits option.splits)
      moreover from governed have "manages au ability \<or> au_policies au ability \<noteq> None" by simp
      ultimately show ?thesis using decide_in_session_deserved assms(2) uncovered by simp
    next
      case (Some r)
      then obtain src where src: "au_source au = Some src" "ability \<in> set (sm_abilities src)" "au_policies au ability = None"
        "ex_abilities ex = Some r" by (auto simp: manages_def split: if_splits option.splits)
      with Some governed uncovered assms(1) obtain granted where r: "r = Inr granted"
        and rec: "record_decision au su ability
          (if ability \<in> set granted then allow (sm_id src) ''permission_granted''
           else deny (sm_id src) ''permission_required'') = (Inr d, es)"
        by (auto simp: decide_authorization_def split: if_splits sum.splits prod.splits)
      from src r assms(2) have "source_result src (su_source su) = Inr granted" by (simp add: consistent_def)
      with record_decision_Inr [OF rec] src uncovered show ?thesis
        by (auto simp: deserved_def split: if_splits)
    qed
  qed
qed

subsection \<open>One execution\<close>

fun run_decisions :: "authority \<Rightarrow> (surroundings \<times> string) list \<Rightarrow> execution \<Rightarrow>
    (auth_failure + decision) list \<times> auth_effect list \<times> execution" where
  "run_decisions au [] ex = ([], [], ex)"
| "run_decisions au ((su, ability) # rs) ex =
     (let (r, es, ex1) = decide_authorization au su ability ex;
          (rs', es', ex2) = run_decisions au rs ex1
      in (r # rs', es @ es', ex2))"

lemma run_decisions_asked:
  "run_decisions au rs ex = (ds, es, ex') \<Longrightarrow>
     asked es \<le> 1 \<and> (ex_abilities ex \<noteq> None \<longrightarrow> asked es = 0)"
proof (induction rs arbitrary: ex ds es)
  case (Cons q rs)
  obtain su ability where q: "q = (su, ability)" by (cases q)
  obtain r es1 ex1 where d: "decide_authorization au su ability ex = (r, es1, ex1)"
    by (cases "decide_authorization au su ability ex")
  obtain rs' es2 where rest: "run_decisions au rs ex1 = (rs', es2, ex')" and es: "es = es1 @ es2"
    using Cons.prems d q by (auto split: prod.splits)
  from decide_memo [OF d] Cons.IH [OF rest] show ?case
    by (auto simp: memo_step_def es split: if_splits)
qed simp

text \<open>
  The permission source is asked at most once in an execution, however many decisions it takes
  and whether the answer was a list of abilities or a failure.
\<close>

theorem permission_source_once:
  "asked (fst (snd (run_decisions au rs ex))) \<le> 1"
  using run_decisions_asked [of au rs ex] by (cases "run_decisions au rs ex") auto

definition sample_authority :: authority where
  "sample_authority = \<lparr>au_source = Some \<lparr>sm_id = ''roles'', sm_abilities = [''orders.ship'', ''orders.read'']\<rparr>,
     au_policies = (\<lambda>a. if a = ''orders.ship'' then Some ''warehouse'' else None), au_audited = True\<rparr>"

definition sample_surroundings :: surroundings where
  "sample_surroundings = \<lparr>su_source = Source_gave (JArr [JStr ''orders.ship'']),
     su_policy = (\<lambda>p a. Policy_gave ''allow'' ''on_shift''), su_session = None, su_audit = (\<lambda>d. None)\<rparr>"

definition sample_execution :: execution where
  "sample_execution = \<lparr>ex_constraints = Some [''orders.*''], ex_realtime = False, ex_resolving = False, ex_abilities = None\<rparr>"

theorem decisions_deserved_witness:
  "deserved sample_authority (Some [''orders.*'']) (Inr [''orders.ship'']) (\<lambda>p a. Policy_gave ''allow'' ''on_shift'')
     ''orders.ship'' = Some (allow ''warehouse'' ''on_shift'')"
proof -
  have "decide_authorization sample_authority sample_surroundings ''orders.ship'' sample_execution =
      (Inr (allow ''warehouse'' ''on_shift''),
       [Source_called, Policy_asked ''warehouse'' ''orders.ship'', Audited ''orders.ship'' (allow ''warehouse'' ''on_shift'')],
       sample_execution\<lparr>ex_abilities := Some (Inr [''orders.ship''])\<rparr>)"
    by code_simp
  from decisions_deserved [OF this] show ?thesis
    by (simp add: consistent_def sample_execution_def sample_surroundings_def sample_authority_def source_result_def
        all_strings_def)
qed

end
