(* ===== verification/DateTimeCodec.thy ===== *)
theory DateTimeCodec
  imports Prelude
begin

text \<open>
  \<open>packages/core/src/datetime-codec.ts\<close>: how values with dates and times in them become
  JSON, for queued work and events, and come back. The classes of \<open>graphite.ts\<close> wrap the
  platform's \<open>Temporal\<close>; what the codec uses of them, their \<open>toString\<close> and
  \<open>parse\<close>, is the argument \<open>date_host\<close>, whose type variable stands for the date itself.
\<close>

subsection \<open>Values and tags\<close>

datatype date_class = Graphite | Instant | Local_date | Duration

text \<open>
  \<open>VOther\<close> is every value the codec refuses: \<open>undefined\<close>, a function, a symbol, a
  \<open>bigint\<close>, \<open>NaN\<close>, or an instance of another class.
\<close>

datatype 'd jsvalue =
    VNull
  | VBool bool
  | VNum jsnum
  | VStr string
  | VDate date_class 'd
  | VArr "'d jsvalue list"
  | VObj "(string \<times> 'd jsvalue) list"
  | VOther

record 'd date_host =
  date_text :: "date_class \<Rightarrow> 'd \<Rightarrow> string"
  date_parse :: "date_class \<Rightarrow> string \<Rightarrow> 'd option"

datatype codec_error =
    Not_portable
  | Malformed_tag
  | Malformed_object_tag
  | Unsupported_tag "json option"
  | Invalid_date date_class string

datatype representation = Tagged | Plain_text

fun date_tag :: "date_class \<Rightarrow> string" where
  "date_tag Graphite = ''graphite@1''"
| "date_tag Instant = ''instant@1''"
| "date_tag Local_date = ''local-date@1''"
| "date_tag Duration = ''duration@1''"

definition object_tag :: string where
  "object_tag = ''json-object@1''"

definition doxa_key :: string where
  "doxa_key = ''$doxa''"

definition tagged :: "string \<Rightarrow> json \<Rightarrow> json" where
  "tagged tag v = JObj [(doxa_key, JStr tag), (''value'', v)]"

subsection \<open>Encoding\<close>

fun encode :: "'d date_host \<Rightarrow> representation \<Rightarrow> 'd jsvalue \<Rightarrow> codec_error + json" where
  "encode h r (VDate c d) =
     Inr (case r of Tagged \<Rightarrow> tagged (date_tag c) (JStr (date_text h c d)) | Plain_text \<Rightarrow> JStr (date_text h c d))"
| "encode h r VNull = Inr JNull"
| "encode h r (VStr s) = Inr (JStr s)"
| "encode h r (VBool b) = Inr (JBool b)"
| "encode h r (VNum n) = (case n of Fin q \<Rightarrow> Inr (JNum (Fin q)) | Inf s \<Rightarrow> Inl Not_portable)"
| "encode h r (VArr vs) = res_bind (map_res (encode h r) vs) (\<lambda>js. Inr (JArr js))"
| "encode h r (VObj kvs) =
     res_bind (map_res (\<lambda>(k, v). res_bind (encode h r v) (\<lambda>j. Inr (k, j))) kvs) (\<lambda>encoded.
       Inr (if r = Tagged \<and> doxa_key \<in> fst ` set kvs then tagged object_tag (JObj encoded) else JObj encoded))"
| "encode h r VOther = Inl Not_portable"

definition encode_date_time_values :: "'d date_host \<Rightarrow> 'd jsvalue \<Rightarrow> codec_error + json" where
  "encode_date_time_values h v = encode h Tagged v"

definition encode_date_time_strings :: "'d date_host \<Rightarrow> 'd jsvalue \<Rightarrow> codec_error + json" where
  "encode_date_time_strings h v = encode h Plain_text v"

subsection \<open>Decoding\<close>

definition decode_date :: "'d date_host \<Rightarrow> date_class \<Rightarrow> string \<Rightarrow> codec_error + 'd jsvalue" where
  "decode_date h c s = (case date_parse h c s of None \<Rightarrow> Inl (Invalid_date c s) | Some d \<Rightarrow> Inr (VDate c d))"

definition decode_tagged_text :: "'d date_host \<Rightarrow> json option \<Rightarrow> json option \<Rightarrow> codec_error + 'd jsvalue" where
  "decode_tagged_text h tag v = (case opt_string v of
     None \<Rightarrow> Inl Malformed_tag
   | Some s \<Rightarrow>
     if tag = Some (JStr (date_tag Graphite)) then decode_date h Graphite s
     else if tag = Some (JStr (date_tag Instant)) then decode_date h Instant s
     else if tag = Some (JStr (date_tag Local_date)) then decode_date h Local_date s
     else if tag = Some (JStr (date_tag Duration)) then decode_date h Duration s
     else Inl (Unsupported_tag tag))"

text \<open>
  \<open>decodeDateTimeValues\<close>, with \<open>decodeTagged\<close> in the branch of an object that has the
  key \<open>$doxa\<close>.
\<close>

function (sequential) decode :: "'d date_host \<Rightarrow> json \<Rightarrow> codec_error + 'd jsvalue" where
  "decode h (JArr js) = res_bind (map_res (decode h) js) (\<lambda>vs. Inr (VArr vs))"
| "decode h (JObj kvs) =
     (if doxa_key \<in> fst ` set kvs then
        if length kvs \<noteq> 2 then Inl Malformed_tag
        else if map_of kvs doxa_key = Some (JStr object_tag) then
          (case map_of kvs ''value'' of
             Some (JObj es) \<Rightarrow>
               res_bind (map_res (\<lambda>(k, j). res_bind (decode h j) (\<lambda>v. Inr (k, v))) es) (\<lambda>vs. Inr (VObj vs))
           | _ \<Rightarrow> Inl Malformed_object_tag)
        else decode_tagged_text h (map_of kvs doxa_key) (map_of kvs ''value'')
      else res_bind (map_res (\<lambda>(k, j). res_bind (decode h j) (\<lambda>v. Inr (k, v))) kvs) (\<lambda>vs. Inr (VObj vs)))"
| "decode h JNull = Inr VNull"
| "decode h (JBool b) = Inr (VBool b)"
| "decode h (JNum n) = Inr (VNum n)"
| "decode h (JStr s) = Inr (VStr s)"
  by pat_completeness auto

lemma size_map_of: "map_of kvs k = Some (j::json) \<Longrightarrow> size j < size_list (size_prod (\<lambda>_. 0) size) kvs"
  by (induction kvs) (auto split: if_splits)

lemma size_entry: "(k, j::json) \<in> set kvs \<Longrightarrow> size j < size_list (size_prod (\<lambda>_. 0) size) kvs"
  by (induction kvs) auto

termination decode
  by (relation "measure (\<lambda>(h, j). size j)")
     (auto dest!: size_map_of size_entry simp: less_Suc_eq_le size_list_estimation')

declare decode.simps(2) [simp del]

subsection \<open>What survives\<close>

fun portable :: "'d jsvalue \<Rightarrow> bool" where
  "portable (VNum n) = (case n of Fin q \<Rightarrow> True | Inf s \<Rightarrow> False)"
| "portable (VArr vs) = list_all portable vs"
| "portable (VObj kvs) = list_all (\<lambda>(k, v). portable v) kvs"
| "portable VOther = False"
| "portable _ = True"

text \<open>Every element either goes through or fails with the one error.\<close>

definition settles :: "('a \<Rightarrow> bool) \<Rightarrow> 'e \<Rightarrow> ('a \<Rightarrow> 'e + 'b) \<Rightarrow> 'a \<Rightarrow> bool" where
  "settles P e f x \<longleftrightarrow> (if P x then \<exists>y. f x = Inr y else f x = Inl e)"

lemma settles_map_res:
  "(\<And>x. x \<in> set xs \<Longrightarrow> settles P e f x) \<Longrightarrow> settles (list_all P) e (map_res f) xs"
  by (induction xs) (fastforce simp: settles_def split: if_splits)+

lemma settles_bind: "settles P e f x \<Longrightarrow> settles P e (\<lambda>x. res_bind (f x) (\<lambda>y. Inr (g y))) x"
  by (auto simp: settles_def split: if_splits)

lemma encode_settles: "settles portable Not_portable (encode h r) v"
proof (induction h r v rule: encode.induct)
  case (6 h r vs)
  then have "settles (list_all portable) Not_portable (map_res (encode h r)) vs"
    by (rule settles_map_res)
  then show ?case by (auto simp: settles_def split: if_splits)
next
  case (7 h r kvs)
  let ?f = "\<lambda>(k, v). res_bind (encode h r v) (\<lambda>j. Inr (k, j))"
  have "settles (\<lambda>(k, v). portable v) Not_portable ?f kv" if "kv \<in> set kvs" for kv
    using 7 [OF that surjective_pairing [symmetric]] by (auto simp: settles_def split: prod.splits if_splits)
  then have "settles (list_all (\<lambda>(k, v). portable v)) Not_portable (map_res ?f) kvs"
    by (rule settles_map_res)
  then show ?case by (auto simp: settles_def split: if_splits)
qed (auto simp: settles_def split: jsnum.splits)

lemma map_res_round_trip:
  "map_res f xs = Inr ys \<Longrightarrow> (\<And>x y. x \<in> set xs \<Longrightarrow> f x = Inr y \<Longrightarrow> g y = Inr x) \<Longrightarrow> map_res g ys = Inr xs"
  by (induction xs arbitrary: ys) auto

lemma decode_tagged_date:
  "decode h (tagged (date_tag c) (JStr s)) = decode_date h c s"
  by (cases c) (simp_all add: decode.simps(2) tagged_def doxa_key_def object_tag_def decode_tagged_text_def)

lemma decode_tagged_object:
  "decode h (tagged object_tag (JObj es)) =
     res_bind (map_res (\<lambda>(k, j). res_bind (decode h j) (\<lambda>v. Inr (k, v))) es) (\<lambda>vs. Inr (VObj vs))"
  by (simp add: decode.simps(2) tagged_def doxa_key_def object_tag_def)

lemma decode_plain_object:
  "doxa_key \<notin> fst ` set es \<Longrightarrow> decode h (JObj es) =
     res_bind (map_res (\<lambda>(k, j). res_bind (decode h j) (\<lambda>v. Inr (k, v))) es) (\<lambda>vs. Inr (VObj vs))"
  by (simp add: decode.simps(2))

lemma encoded_keys:
  "map_res (\<lambda>(k, v). res_bind (f v) (\<lambda>j. Inr (k, j))) kvs = Inr es \<Longrightarrow> map fst es = map fst kvs"
  by (induction kvs arbitrary: es) auto

lemma decode_encoded:
  "encode h r v = Inr j \<Longrightarrow> r = Tagged \<Longrightarrow> \<forall>c d. date_parse h c (date_text h c d) = Some d \<Longrightarrow>
     decode h j = Inr v"
proof (induction h r v arbitrary: j rule: encode.induct)
  case (1 h r c d)
  then show ?case by (auto simp: decode_tagged_date decode_date_def)
next
  case (6 h r vs)
  from 6(2) obtain js where js: "map_res (encode h r) vs = Inr js" and j: "j = JArr js" by auto
  have "map_res (decode h) js = Inr vs"
    by (rule map_res_round_trip [OF js]) (use 6 in blast)
  then show ?case by (simp add: j)
next
  case (7 h r kvs)
  let ?f = "\<lambda>(k, v). res_bind (encode h r v) (\<lambda>j. Inr (k, j))"
  let ?g = "\<lambda>(k, j). res_bind (decode h j) (\<lambda>v. Inr (k, v))"
  from 7(2,3) obtain es where es: "map_res ?f kvs = Inr es"
    and j: "j = (if doxa_key \<in> fst ` set kvs then tagged object_tag (JObj es) else JObj es)"
    by auto
  have "map_res ?g es = Inr kvs"
  proof (rule map_res_round_trip [OF es])
    fix kv kj assume "kv \<in> set kvs" "?f kv = Inr kj"
    moreover obtain k v where "kv = (k, v)" by (cases kv)
    ultimately obtain j' where "kj = (k, j')" "encode h r v = Inr j'" "(k, v) \<in> set kvs" by auto
    then show "?g kj = Inr kv" using 7(1) [OF _ refl _ 7(3) 7(4)] \<open>kv = (k, v)\<close> by simp
  qed
  then show ?case using arg_cong [OF encoded_keys [OF es], of set] by (simp add: j decode_tagged_object decode_plain_object)
qed (auto split: jsnum.splits)


text \<open>An object that looks like a tag, and one that holds a date.\<close>

definition sample_date_host :: "string date_host" where
  "sample_date_host = \<lparr>date_text = \<lambda>c d. d, date_parse = \<lambda>c s. Some s\<rparr>"

definition sample_value :: "string jsvalue" where
  "sample_value = VObj [(doxa_key, VStr ''instant@1''), (''value'', VStr ''not a date''),
     (''due'', VArr [VDate Instant ''2026-01-02T03:04:05Z'', VNum (Fin 7)])]"


end
