(* ===== verification/ExecutionContext.thy ===== *)
theory ExecutionContext
  imports AdmissionTickets
begin

text \<open>
  The execution context of \<open>packages/runtime/src/runtime.ts\<close>: what \<open>createExecutionContext\<close>
  makes of the seed an adapter (HTTP, the queue, Keryx, the console) admits work with.

  Actors, delegation hops and authentication are those of the tickets. Random identifiers are
  arguments; time zones and locales are checked by the platform's \<open>Intl\<close>, the record
  \<open>intl\<close>. The cancellation signal is not part of the record. The causation identifier is
  JSON: the one of a delivery is the schedule of its envelope, which nothing checks.
\<close>

subsection \<open>Contexts and seeds\<close>

record span_link =
  sl_trace_id :: string
  sl_span_id :: string
  sl_attributes :: "json option"

record trace_context =
  tr_trace_id :: "string option"
  tr_span_id :: "string option"
  tr_parent_span_id :: "string option"
  tr_is_remote :: "bool option"
  tr_parent_is_remote :: "bool option"
  tr_trace_flags :: "int option"
  tr_links :: "span_link list option"

definition no_trace :: trace_context where
  "no_trace = \<lparr>tr_trace_id = None, tr_span_id = None, tr_parent_span_id = None, tr_is_remote = None,
     tr_parent_is_remote = None, tr_trace_flags = None, tr_links = None\<rparr>"

datatype transport_kind = Http | Job | Schedule | Console | Websocket | Test | Internal

record transport =
  tp_kind :: transport_kind
  tp_name :: "string option"

record execution_seed =
  es_source_execution_id :: "string option"
  es_correlation_id :: "string option"
  es_causation_id :: "json option"
  es_actor :: actor
  es_initiator :: "actor option"
  es_delegation :: "hop list option"
  es_tenant :: "string option"
  es_authentication :: "authentication option"
  es_transport :: transport
  es_trace :: "trace_context option"
  es_locale :: "string option"
  es_time_zone :: "string option"
  es_deadline :: "int option"

record execution_context =
  ec_execution_id :: string
  ec_source_execution_id :: "string option"
  ec_correlation_id :: string
  ec_causation_id :: "json option"
  ec_actor :: actor
  ec_initiator :: actor
  ec_delegation :: "hop list"
  ec_tenant :: "string option"
  ec_authentication :: authentication
  ec_transport :: transport
  ec_trace :: trace_context
  ec_locale :: string
  ec_time_zone :: string
  ec_deadline :: "int option"

record intl =
  canonical_locale :: "string \<Rightarrow> string option"
  resolved_time_zone :: "string \<Rightarrow> string option"

record execution_ids =
  new_execution_id :: string
  new_trace_id :: string
  new_span_id :: string

record time_defaults =
  default_time_zone :: string
  default_locale :: string

subsection \<open>Creating a context\<close>

definition is_anonymous :: "actor \<Rightarrow> bool" where
  "is_anonymous a \<longleftrightarrow> actor_kind a = JStr ''anonymous''"

definition kind_text :: "actor \<Rightarrow> string" where
  "kind_text a = (case js_text (actor_kind a) of None \<Rightarrow> [] | Some s \<Rightarrow> s)"

definition validate_actor :: "actor \<Rightarrow> string \<Rightarrow> string + unit" where
  "validate_actor a label =
     (if is_anonymous a \<and> actor_id a \<noteq> None
      then Inl (''Anonymous '' @ label @ '' must not have an ID.'')
      else if \<not> is_anonymous a \<and> truthy_string (actor_id a) = None
      then Inl (label @ '' kind '' @ kind_text a @ '' requires an opaque ID.'')
      else Inr ())"

definition or_default :: "'a option \<Rightarrow> 'a \<Rightarrow> 'a" where
  "or_default v d = (case v of None \<Rightarrow> d | Some x \<Rightarrow> x)"

definition freeze_span_links :: "span_link list \<Rightarrow> span_link list" where
  "freeze_span_links links = take 32 links"

text \<open>\<open>{ state }\<close>: an authentication context of nothing but its state.\<close>

definition bare_authentication :: "string \<Rightarrow> authentication" where
  "bare_authentication state = \<lparr>au_state = JStr state, au_identity_id = None, au_method = None,
     au_assurance = None, au_authenticated_at = None, au_session_id = None,
     au_impersonation_grant_id = None, au_credential_id = None, au_constraints = None\<rparr>"

definition context_authentication :: "execution_seed \<Rightarrow> authentication" where
  "context_authentication s = (case es_authentication s of
     Some a \<Rightarrow> a
   | None \<Rightarrow> bare_authentication (if is_anonymous (es_actor s) then ''anonymous'' else ''authenticated''))"

definition context_trace :: "execution_ids \<Rightarrow> string option \<Rightarrow> trace_context \<Rightarrow> trace_context" where
  "context_trace ids own_span trace =
     (let parent = truthy_string (tr_span_id trace) in
      \<lparr>tr_trace_id = Some (or_default (tr_trace_id trace) (new_trace_id ids)),
       tr_span_id = Some (or_default own_span (new_span_id ids)),
       tr_parent_span_id = parent,
       tr_is_remote = None,
       tr_parent_is_remote = (if parent = None then None else Some (tr_is_remote trace = Some True)),
       tr_trace_flags = Some (or_default (tr_trace_flags trace) 1),
       tr_links = (case tr_links trace of
          None \<Rightarrow> None | Some links \<Rightarrow> if links = [] then None else Some (freeze_span_links links))\<rparr>)"

definition create_execution_context ::
  "intl \<Rightarrow> time_defaults \<Rightarrow> execution_ids \<Rightarrow> string option \<Rightarrow> execution_seed \<Rightarrow> string + execution_context" where
  "create_execution_context tz d ids own_span s =
     res_bind (validate_actor (es_actor s) ''actor'') (\<lambda>_.
     let initiator = or_default (es_initiator s) (es_actor s) in
     res_bind (validate_actor initiator ''initiator'') (\<lambda>_.
       case resolved_time_zone tz (or_default (es_time_zone s) (default_time_zone d)) of
         None \<Rightarrow> Inl ''Execution locale or timeZone is invalid.''
       | Some zone \<Rightarrow> (case canonical_locale tz (or_default (es_locale s) (default_locale d)) of
           None \<Rightarrow> Inl ''Execution locale or timeZone is invalid.''
         | Some locale \<Rightarrow> Inr
            \<lparr>ec_execution_id = new_execution_id ids,
             ec_source_execution_id = truthy_string (es_source_execution_id s),
             ec_correlation_id = or_default (es_correlation_id s) (new_execution_id ids),
             ec_causation_id = truthy_json (es_causation_id s),
             ec_actor = es_actor s,
             ec_initiator = initiator,
             ec_delegation = or_default (es_delegation s) [],
             ec_tenant = es_tenant s,
             ec_authentication = context_authentication s,
             ec_transport = es_transport s,
             ec_trace = context_trace ids own_span (or_default (es_trace s) no_trace),
             ec_locale = locale,
             ec_time_zone = zone,
             ec_deadline = es_deadline s\<rparr>)))"

text \<open>
  An actor the runtime works with has a kind and, unless it is anonymous, an identifier; it never
  has an empty one.
\<close>

definition actor_admissible :: "actor \<Rightarrow> bool" where
  "actor_admissible a \<longleftrightarrow> (if is_anonymous a then actor_id a = None else truthy_string (actor_id a) \<noteq> None)"

lemma validate_actor_Inr [simp]: "validate_actor a label = Inr u \<longleftrightarrow> actor_admissible a"
  by (auto simp: validate_actor_def actor_admissible_def)

lemma or_default_simps [simp]: "or_default None d = d" "or_default (Some x) d = x"
  by (simp_all add: or_default_def)

lemma truthy_string_simps [simp]:
  "truthy_string None = None" "truthy_string (Some s) = (if s = [] then None else Some s)"
  by (simp_all add: truthy_string_def)

lemma context_trace_complete:
  "tr_trace_id (context_trace ids own_span t) \<noteq> None" "tr_span_id (context_trace ids own_span t) \<noteq> None"
  "length (or_default (tr_links (context_trace ids own_span t)) []) \<le> 32"
  by (auto simp: context_trace_def Let_def freeze_span_links_def or_default_def split: option.splits)

text \<open>A context that was created has admissible principals, a complete trace and at most 32 links.\<close>

lemma create_Inr:
  "create_execution_context tz d ids own_span s = Inr c \<Longrightarrow>
     actor_admissible (es_actor s) \<and> actor_admissible (or_default (es_initiator s) (es_actor s)) \<and>
     (\<exists>zone locale. resolved_time_zone tz (or_default (es_time_zone s) (default_time_zone d)) = Some zone \<and>
        canonical_locale tz (or_default (es_locale s) (default_locale d)) = Some locale \<and>
        c = \<lparr>ec_execution_id = new_execution_id ids,
             ec_source_execution_id = truthy_string (es_source_execution_id s),
             ec_correlation_id = or_default (es_correlation_id s) (new_execution_id ids),
             ec_causation_id = truthy_json (es_causation_id s),
             ec_actor = es_actor s,
             ec_initiator = or_default (es_initiator s) (es_actor s),
             ec_delegation = or_default (es_delegation s) [],
             ec_tenant = es_tenant s,
             ec_authentication = context_authentication s,
             ec_transport = es_transport s,
             ec_trace = context_trace ids own_span (or_default (es_trace s) no_trace),
             ec_locale = locale,
             ec_time_zone = zone,
             ec_deadline = es_deadline s\<rparr>)"
  unfolding create_execution_context_def Let_def
  by (simp split: option.split_asm)

lemma created_context:
  assumes "create_execution_context tz d ids own_span s = Inr c"
  shows "actor_admissible (ec_actor c) \<and> actor_admissible (ec_initiator c) \<and>
    tr_trace_id (ec_trace c) \<noteq> None \<and> tr_span_id (ec_trace c) \<noteq> None \<and>
    length (or_default (tr_links (ec_trace c)) []) \<le> 32"
  using create_Inr [OF assms] context_trace_complete [of ids own_span "or_default (es_trace s) no_trace"]
  by (elim conjE exE) simp

end
