(* ===== verification/QueueContext.thy ===== *)
theory QueueContext
  imports ExecutionContext
begin

text \<open>
  How an execution context travels with queued work: \<open>queueContext\<close> writes it into the
  envelope, \<open>assertQueueDelivery\<close> of \<open>packages/runtime/src/runtime.ts\<close> checks the
  envelope a worker is handed, and \<open>queueSeed\<close> makes the seed of the worker's execution.

  Instants are counted in microseconds and written and read by the host, as is the text of JSON.
\<close>

record queue_host =
  qh_instant_text :: "int \<Rightarrow> string"
  qh_instant_parse :: "string \<Rightarrow> int option"
  qh_json_text :: "json \<Rightarrow> string"

subsection \<open>Field checks\<close>

definition bounded_text :: "json option \<Rightarrow> nat \<Rightarrow> bool" where
  "bounded_text v maximum = (case opt_string v of None \<Rightarrow> False | Some s \<Rightarrow> 0 < length s \<and> length s \<le> maximum)"

definition integer_between :: "json option \<Rightarrow> int \<Rightarrow> int \<Rightarrow> bool" where
  "integer_between v lo hi = (case safe_integer (number_value v) of None \<Rightarrow> False | Some n \<Rightarrow> lo \<le> n \<and> n \<le> hi)"

definition finite_between :: "json option \<Rightarrow> rat \<Rightarrow> rat \<Rightarrow> bool" where
  "finite_between v lo hi = (case number_value v of None \<Rightarrow> False | Some q \<Rightarrow> lo \<le> q \<and> q \<le> hi)"

definition valid_iso_date :: "queue_host \<Rightarrow> json option \<Rightarrow> bool" where
  "valid_iso_date h v = (case opt_string v of None \<Rightarrow> False | Some s \<Rightarrow> qh_instant_parse h s \<noteq> None)"

definition hex_char :: "char \<Rightarrow> bool" where
  "hex_char c \<longleftrightarrow> is_digit c \<or> char_between (CHR ''a'') (CHR ''f'') c \<or> char_between (CHR ''A'') (CHR ''F'') c"

definition hex_id :: "nat \<Rightarrow> string \<Rightarrow> bool" where
  "hex_id n s \<longleftrightarrow> length s = n \<and> list_all hex_char s \<and> \<not> list_all (\<lambda>c. c = CHR ''0'') s"

definition valid_trace_id :: "json option \<Rightarrow> bool" where
  "valid_trace_id v = (case opt_string v of None \<Rightarrow> False | Some s \<Rightarrow> hex_id 32 s)"

definition valid_span_id :: "json option \<Rightarrow> bool" where
  "valid_span_id v = (case opt_string v of None \<Rightarrow> False | Some s \<Rightarrow> hex_id 16 s)"

text \<open>The pattern of a UUID, one character class per place.\<close>

definition uuid_pattern :: "(char \<Rightarrow> bool) list" where
  "uuid_pattern =
     (let dash = (\<lambda>c. c = CHR ''-'') in
      replicate 8 hex_char @ [dash] @ replicate 4 hex_char @ [dash] @
      [char_between (CHR ''1'') (CHR ''8'')] @ replicate 3 hex_char @ [dash] @
      [\<lambda>c. c \<in> set ''89abAB''] @ replicate 3 hex_char @ [dash] @ replicate 12 hex_char)"

definition uuid_text :: "string \<Rightarrow> bool" where
  "uuid_text s \<longleftrightarrow> list_all2 (\<lambda>p c. p c) uuid_pattern s"

definition uuid :: "json option \<Rightarrow> bool" where
  "uuid v = (case opt_string v of None \<Rightarrow> False | Some s \<Rightarrow> uuid_text s)"

text \<open>
  \<open>Object.keys(record).every((key) => allowed.has(key))\<close>: the keys of an array or a string are
  its indices, which no set of the checks holds; other primitives have none.
\<close>

fun only_keys :: "json \<Rightarrow> string list \<Rightarrow> bool" where
  "only_keys (JObj kvs) allowed = list_all (\<lambda>(k, v). k \<in> set allowed) kvs"
| "only_keys (JArr vs) allowed = (vs = [])"
| "only_keys (JStr s) allowed = (s = [])"
| "only_keys _ allowed = True"

text \<open>\<open>v.k\<close> of a value a check has found truthy, and \<open>v === undefined || check(v)\<close>.\<close>

definition ofield :: "json option \<Rightarrow> string \<Rightarrow> json option" where
  "ofield v k = (case v of None \<Rightarrow> None | Some j \<Rightarrow> jfield j k)"

definition optional :: "(json option \<Rightarrow> bool) \<Rightarrow> json option \<Rightarrow> bool" where
  "optional check v \<longleftrightarrow> v = None \<or> check v"

definition truthy :: "json option \<Rightarrow> bool" where
  "truthy v \<longleftrightarrow> truthy_json v \<noteq> None"

definition is_boolean :: "json option \<Rightarrow> bool" where
  "is_boolean v = (case v of Some (JBool b) \<Rightarrow> True | _ \<Rightarrow> False)"

definition is_object :: "json option \<Rightarrow> bool" where
  "is_object v = (case v of Some (JObj kvs) \<Rightarrow> True | _ \<Rightarrow> False)"

definition array_of :: "nat \<Rightarrow> (json \<Rightarrow> bool) \<Rightarrow> json option \<Rightarrow> bool" where
  "array_of maximum every v = (case opt_array v of
     None \<Rightarrow> False | Some xs \<Rightarrow> length xs \<le> maximum \<and> list_all every xs)"

definition keys_among :: "json option \<Rightarrow> string list \<Rightarrow> bool" where
  "keys_among v allowed \<longleftrightarrow> only_keys (opt_json v) allowed"

subsection \<open>What a worker checks\<close>

definition queue_context_keys :: "string list" where
  "queue_context_keys = [''version'', ''sourceExecutionId'', ''correlationId'', ''causationId'', ''actor'',
     ''initiator'', ''delegation'', ''tenant'', ''authentication'', ''trace'', ''locale'', ''timeZone'']"

definition actor_keys :: "string list" where
  "actor_keys = [''kind'', ''id'']"

definition delegation_keys :: "string list" where
  "delegation_keys = [''from'', ''to'', ''grantId'', ''reason'', ''expiresAt'']"

definition tenant_keys :: "string list" where
  "tenant_keys = [''id'']"

definition authentication_keys :: "string list" where
  "authentication_keys = [''state'', ''identityId'', ''method'', ''assurance'', ''authenticatedAt'',
     ''credentialId'', ''constraints'']"

definition trace_keys :: "string list" where
  "trace_keys = [''traceId'', ''spanId'', ''parentSpanId'', ''isRemote'', ''parentIsRemote'',
     ''traceFlags'', ''links'']"

definition span_link_keys :: "string list" where
  "span_link_keys = [''traceId'', ''spanId'', ''attributes'']"

definition valid_json_object :: "queue_host \<Rightarrow> json option \<Rightarrow> bool" where
  "valid_json_object h v \<longleftrightarrow> is_object v \<and> length (qh_json_text h (opt_json v)) \<le> 16384"

definition valid_span_link :: "queue_host \<Rightarrow> json \<Rightarrow> bool" where
  "valid_span_link h v \<longleftrightarrow> truthy (Some v) \<and> only_keys v span_link_keys \<and>
     valid_trace_id (jfield v ''traceId'') \<and> valid_span_id (jfield v ''spanId'') \<and>
     optional (valid_json_object h) (jfield v ''attributes'')"

definition valid_trace :: "queue_host \<Rightarrow> json \<Rightarrow> bool" where
  "valid_trace h v \<longleftrightarrow> only_keys v trace_keys \<and>
     optional valid_trace_id (jfield v ''traceId'') \<and>
     optional valid_span_id (jfield v ''spanId'') \<and>
     optional valid_span_id (jfield v ''parentSpanId'') \<and>
     optional is_boolean (jfield v ''isRemote'') \<and>
     optional is_boolean (jfield v ''parentIsRemote'') \<and>
     optional (\<lambda>f. integer_between f 0 255) (jfield v ''traceFlags'') \<and>
     optional (array_of 32 (valid_span_link h)) (jfield v ''links'')"

text \<open>
  The checks of one delivery are listed in the order of the source, each with the message it
  fails with; the first that fails is the one that throws.
\<close>

fun run_checks :: "(bool \<times> string) list \<Rightarrow> string + unit" where
  "run_checks [] = Inr ()"
| "run_checks ((passed, message) # cs) =
     (if passed then run_checks cs else Inl (''Invalid queued work: '' @ message))"

fun decimal :: "nat \<Rightarrow> string" where
  "decimal n = (if n < 10 then [char_of (48 + n)] else decimal (n div 10) @ [char_of (48 + n mod 10)])"

definition queued_actor_checks :: "json option \<Rightarrow> string \<Rightarrow> (bool \<times> string) list" where
  "queued_actor_checks v label =
     [(truthy v \<and> text_among (ofield v ''kind'') actor_kinds, label @ '' is invalid.''),
      (keys_among v actor_keys, label @ '' includes unsupported fields.''),
      (if ofield v ''kind'' = Some (JStr ''anonymous'') then ofield v ''id'' = None
       else bounded_text (ofield v ''id'') 256, label @ '' identity is invalid.'')]"

definition delegation_hop_checks :: "queue_host \<Rightarrow> nat \<Rightarrow> json \<Rightarrow> (bool \<times> string) list" where
  "delegation_hop_checks h index hop =
     (let label = ''delegation '' @ decimal index in
      (truthy (Some hop) \<and> (is_object (Some hop) \<or> opt_array (Some hop) \<noteq> None), label @ '' is invalid.'') #
      (only_keys hop delegation_keys, label @ '' includes unsupported fields.'') #
      queued_actor_checks (jfield hop ''from'') (label @ '' from'') @
      queued_actor_checks (jfield hop ''to'') (label @ '' to'') @
      [(bounded_text (jfield hop ''grantId'') 256 \<and> bounded_text (jfield hop ''reason'') 512,
          label @ '' metadata is invalid.''),
       (optional (valid_iso_date h) (jfield hop ''expiresAt''), label @ '' expiry is invalid.'')])"

definition authentication_checks :: "queue_host \<Rightarrow> json option \<Rightarrow> (bool \<times> string) list" where
  "authentication_checks h v =
     [(truthy v \<and> keys_among v authentication_keys \<and>
       text_among (ofield v ''state'') authentication_states \<and>
       optional (\<lambda>f. bounded_text f 256) (ofield v ''identityId'') \<and>
       optional (\<lambda>f. bounded_text f 128) (ofield v ''method'') \<and>
       optional (\<lambda>f. text_among f assurance_levels) (ofield v ''assurance'') \<and>
       optional (\<lambda>f. bounded_text f 256) (ofield v ''credentialId'') \<and>
       optional (valid_iso_date h) (ofield v ''authenticatedAt'') \<and>
       optional (array_of 100 (\<lambda>c. bounded_text (Some c) 128)) (ofield v ''constraints''),
       ''authentication context is invalid.''),
      (\<not> (ofield v ''state'' = Some (JStr ''anonymous'') \<and> ofield v ''identityId'' \<noteq> None),
       ''anonymous authentication includes an identity.'')]"

definition queue_context_checks :: "queue_host \<Rightarrow> json option \<Rightarrow> (bool \<times> string) list" where
  "queue_context_checks h context =
     (truthy context \<and> ofield context ''version'' = Some (js_int 1), ''context version is unsupported.'') #
     (keys_among context queue_context_keys, ''context includes unsupported fields.'') #
     (uuid (ofield context ''sourceExecutionId''), ''sourceExecutionId is invalid.'') #
     (bounded_text (ofield context ''correlationId'') 256, ''correlationId is invalid.'') #
     (optional (\<lambda>f. bounded_text f 256) (ofield context ''causationId''), ''causationId is invalid.'') #
     queued_actor_checks (ofield context ''actor'') ''actor'' @
     queued_actor_checks (ofield context ''initiator'') ''initiator'' @
     (array_of 16 (\<lambda>_. True) (ofield context ''delegation''), ''delegation is invalid.'') #
     concat (map (\<lambda>(i, hop). delegation_hop_checks h i hop)
       (enumerate 0 (case opt_array (ofield context ''delegation'') of None \<Rightarrow> [] | Some hops \<Rightarrow> hops))) @
     (let tenant = ofield context ''tenant'' in
      (tenant = None \<or> (truthy tenant \<and> keys_among tenant tenant_keys \<and> bounded_text (ofield tenant ''id'') 256),
       ''tenant context is invalid.'')) #
     (optional (\<lambda>f. bounded_text f 128) (ofield context ''locale''), ''locale is invalid.'') #
     (optional (\<lambda>f. bounded_text f 128) (ofield context ''timeZone''), ''timeZone is invalid.'') #
     authentication_checks h (ofield context ''authentication'') @
     [(truthy (ofield context ''trace'') \<and> valid_trace h (opt_json (ofield context ''trace'')),
       ''trace context is invalid.'')]"

definition work_kinds :: "string list" where
  "work_kinds = [''job'', ''listener'', ''broadcast'', ''mail'', ''sms'']"

definition queue_delivery_checks :: "queue_host \<Rightarrow> json \<Rightarrow> json \<Rightarrow> (bool \<times> string) list" where
  "queue_delivery_checks h envelope attempt =
     (let policy = jfield envelope ''policy'' in
      [(is_object (Some envelope), ''envelope is not an object.''),
       (uuid (jfield envelope ''id''), ''id is not a UUID.''),
       (text_among (jfield envelope ''kind'') work_kinds, ''kind is unsupported.''),
       (bounded_text (jfield envelope ''targetId'') 256, ''targetId is invalid.''),
       (integer_between (Some attempt) 1 101, ''attempt is invalid.''),
       (truthy policy \<and> integer_between (ofield policy ''retries'') 0 100 \<and>
        finite_between (ofield policy ''retryDelay'') 0 86400 \<and> is_boolean (ofield policy ''backoff'') \<and>
        finite_between (ofield policy ''timeout'') 1 86400, ''retry policy is invalid.''),
       (optional (valid_iso_date h) (jfield envelope ''availableAt''), ''availableAt is invalid.''),
       (optional (\<lambda>f. bounded_text f 512) (jfield envelope ''idempotencyKey''), ''idempotencyKey is invalid.'')] @
      queue_context_checks h (jfield envelope ''context''))"

definition assert_queue_delivery :: "queue_host \<Rightarrow> json \<Rightarrow> json \<Rightarrow> string + unit" where
  "assert_queue_delivery h envelope attempt = run_checks (queue_delivery_checks h envelope attempt)"

subsection \<open>What travels\<close>

definition text_entry :: "string \<Rightarrow> string option \<Rightarrow> (string \<times> json) list" where
  "text_entry k v = opt_entry k (map_option JStr (truthy_string v))"

definition instant_entry :: "queue_host \<Rightarrow> string \<Rightarrow> int option \<Rightarrow> (string \<times> json) list" where
  "instant_entry h k v = opt_entry k (map_option (\<lambda>t. JStr (qh_instant_text h t)) v)"

definition queued_hop :: "queue_host \<Rightarrow> hop \<Rightarrow> json" where
  "queued_hop h hp = JObj ([(''from'', actor_json (hop_from hp)), (''to'', actor_json (hop_to hp)),
     (''grantId'', JStr (hop_grant_id hp)), (''reason'', JStr (hop_reason hp))] @
     instant_entry h ''expiresAt'' (hop_expires_at hp))"

definition queued_authentication_json :: "queue_host \<Rightarrow> authentication \<Rightarrow> json" where
  "queued_authentication_json h a = JObj ((''state'', au_state a) #
     text_entry ''identityId'' (au_identity_id a) @
     text_entry ''method'' (au_method a) @
     opt_entry ''assurance'' (truthy_json (au_assurance a)) @
     instant_entry h ''authenticatedAt'' (au_authenticated_at a) @
     text_entry ''credentialId'' (au_credential_id a) @
     opt_entry ''constraints'' (map_option (\<lambda>cs. JArr (map JStr cs)) (au_constraints a)))"

definition span_link_json :: "span_link \<Rightarrow> json" where
  "span_link_json l = JObj ([(''traceId'', JStr (sl_trace_id l)), (''spanId'', JStr (sl_span_id l))] @
     opt_entry ''attributes'' (sl_attributes l))"

text \<open>\<open>{ ...context.trace }\<close>\<close>

definition trace_json :: "trace_context \<Rightarrow> json" where
  "trace_json t = JObj (opt_entry ''traceId'' (map_option JStr (tr_trace_id t)) @
     opt_entry ''spanId'' (map_option JStr (tr_span_id t)) @
     opt_entry ''parentSpanId'' (map_option JStr (tr_parent_span_id t)) @
     opt_entry ''isRemote'' (map_option JBool (tr_is_remote t)) @
     opt_entry ''parentIsRemote'' (map_option JBool (tr_parent_is_remote t)) @
     opt_entry ''traceFlags'' (map_option js_int (tr_trace_flags t)) @
     opt_entry ''links'' (map_option (\<lambda>ls. JArr (map span_link_json ls)) (tr_links t)))"

definition queue_context :: "queue_host \<Rightarrow> execution_context \<Rightarrow> json" where
  "queue_context h c = JObj (
     [(''version'', js_int 1), (''sourceExecutionId'', JStr (ec_execution_id c)),
      (''correlationId'', JStr (ec_correlation_id c))] @
     opt_entry ''causationId'' (truthy_json (ec_causation_id c)) @
     [(''actor'', actor_json (ec_actor c)), (''initiator'', actor_json (ec_initiator c)),
      (''delegation'', JArr (map (queued_hop h) (ec_delegation c)))] @
     opt_entry ''tenant'' (map_option tenant_json (ec_tenant c)) @
     [(''authentication'', queued_authentication_json h (ec_authentication c)),
      (''trace'', trace_json (ec_trace c))] @
     text_entry ''locale'' (Some (ec_locale c)) @
     text_entry ''timeZone'' (Some (ec_time_zone c)))"

subsection \<open>What a worker makes of it\<close>

definition queued_actor :: "json option \<Rightarrow> actor" where
  "queued_actor v = \<lparr>actor_kind = opt_json (ofield v ''kind''), actor_id = opt_string (ofield v ''id'')\<rparr>"

definition or_text :: "json option \<Rightarrow> string" where
  "or_text v = or_default (opt_string v) []"

definition queued_instant :: "queue_host \<Rightarrow> json option \<Rightarrow> int option" where
  "queued_instant h v = (case opt_string v of None \<Rightarrow> None | Some s \<Rightarrow> qh_instant_parse h s)"

definition queued_seed_hop :: "queue_host \<Rightarrow> json \<Rightarrow> hop" where
  "queued_seed_hop h hop =
     \<lparr>hop_from = queued_actor (jfield hop ''from''), hop_to = queued_actor (jfield hop ''to''),
      hop_grant_id = or_text (jfield hop ''grantId''), hop_reason = or_text (jfield hop ''reason''),
      hop_expires_at = queued_instant h (jfield hop ''expiresAt'')\<rparr>"

definition queued_authentication :: "queue_host \<Rightarrow> json option \<Rightarrow> authentication" where
  "queued_authentication h v =
     \<lparr>au_state = opt_json (ofield v ''state''),
      au_identity_id = truthy_string (opt_string (ofield v ''identityId'')),
      au_method = truthy_string (opt_string (ofield v ''method'')),
      au_assurance = truthy_json (ofield v ''assurance''),
      au_authenticated_at = queued_instant h (ofield v ''authenticatedAt''),
      au_session_id = None,
      au_impersonation_grant_id = None,
      au_credential_id = truthy_string (opt_string (ofield v ''credentialId'')),
      au_constraints = string_array (ofield v ''constraints'')\<rparr>"

definition queued_link :: "json \<Rightarrow> span_link" where
  "queued_link v = \<lparr>sl_trace_id = or_text (jfield v ''traceId''), sl_span_id = or_text (jfield v ''spanId''),
     sl_attributes = jfield v ''attributes''\<rparr>"

definition opt_boolean :: "json option \<Rightarrow> bool option" where
  "opt_boolean v = (case v of Some (JBool b) \<Rightarrow> Some b | _ \<Rightarrow> None)"

definition queued_trace :: "json option \<Rightarrow> trace_context" where
  "queued_trace v = \<lparr>tr_trace_id = opt_string (ofield v ''traceId''),
     tr_span_id = opt_string (ofield v ''spanId''),
     tr_parent_span_id = opt_string (ofield v ''parentSpanId''),
     tr_is_remote = opt_boolean (ofield v ''isRemote''),
     tr_parent_is_remote = opt_boolean (ofield v ''parentIsRemote''),
     tr_trace_flags = safe_integer (number_value (ofield v ''traceFlags'')),
     tr_links = map_option (map queued_link) (opt_array (ofield v ''links''))\<rparr>"

text \<open>The trace of the attempt before this one, if there was one, is linked to.\<close>

definition retry_link :: "int \<Rightarrow> span_link option \<Rightarrow> span_link option" where
  "retry_link attempt prior = (if attempt > 1 then
     map_option (\<lambda>l. l\<lparr>sl_attributes := Some (JObj [(''relationship'', JStr ''retry''),
       (''attempt'', js_int (attempt - 1))])\<rparr>) prior else None)"

definition queue_seed :: "queue_host \<Rightarrow> json \<Rightarrow> int \<Rightarrow> span_link option \<Rightarrow> execution_seed" where
  "queue_seed h envelope attempt prior =
     (let context = jfield envelope ''context''; trace = queued_trace (ofield context ''trace'') in
      \<lparr>es_source_execution_id = opt_string (ofield context ''sourceExecutionId''),
       es_correlation_id = opt_string (ofield context ''correlationId''),
       es_causation_id = (if jfield envelope ''scheduleId'' \<in> {None, Some JNull}
          then jfield envelope ''id'' else jfield envelope ''scheduleId''),
       es_actor = queued_actor (ofield context ''actor''),
       es_initiator = Some (queued_actor (ofield context ''initiator'')),
       es_delegation = Some (map (queued_seed_hop h) (or_default (opt_array (ofield context ''delegation'')) [])),
       es_tenant = opt_string (ofield (ofield context ''tenant'') ''id''),
       es_authentication = Some (queued_authentication h (ofield context ''authentication'')),
       es_transport = \<lparr>tp_kind = Job, tp_name = opt_string (jfield envelope ''targetId'')\<rparr>,
       es_trace = Some (trace\<lparr>tr_is_remote := Some True,
          tr_links := (case retry_link attempt prior of
             None \<Rightarrow> tr_links trace | Some l \<Rightarrow> Some (or_default (tr_links trace) [] @ [l]))\<rparr>),
       es_locale = truthy_string (opt_string (ofield context ''locale'')),
       es_time_zone = truthy_string (opt_string (ofield context ''timeZone'')),
       es_deadline = None\<rparr>)"

text \<open>\<open>queueAttemptSpanId\<close>: the span of an attempt is a digest, so its redelivery has the same one.\<close>

definition queue_attempt_span_id :: "(string \<Rightarrow> string) \<Rightarrow> string \<Rightarrow> nat \<Rightarrow> string" where
  "queue_attempt_span_id digest envelope_id attempt =
     take 16 (digest (''doxa:queue-attempt:'' @ envelope_id @ '':'' @ decimal attempt))"

subsection \<open>The envelope\<close>

datatype work_kind = Job_work | Listener_work | Broadcast_work | Mail_work | Sms_work

fun work_kind_text :: "work_kind \<Rightarrow> string" where
  "work_kind_text Job_work = ''job''"
| "work_kind_text Listener_work = ''listener''"
| "work_kind_text Broadcast_work = ''broadcast''"
| "work_kind_text Mail_work = ''mail''"
| "work_kind_text Sms_work = ''sms''"

record queue_policy =
  qp_retries :: rat
  qp_retry_delay :: rat
  qp_backoff :: bool
  qp_timeout :: rat

record work =
  wk_kind :: work_kind
  wk_target_id :: string
  wk_event_id :: "string option"
  wk_event_version :: "int option"
  wk_payload :: json
  wk_policy :: queue_policy
  wk_available_at :: "int option"
  wk_idempotency_key :: "string option"

definition queue_policy_json :: "queue_policy \<Rightarrow> json" where
  "queue_policy_json p = JObj [(''retries'', JNum (Fin (qp_retries p))),
     (''retryDelay'', JNum (Fin (qp_retry_delay p))), (''backoff'', JBool (qp_backoff p)),
     (''timeout'', JNum (Fin (qp_timeout p)))]"

definition hex_value :: "char \<Rightarrow> nat" where
  "hex_value c = (if is_digit c then of_char c - 48 else if is_lower c then of_char c - 87 else of_char c - 55)"

definition hex_digit :: "nat \<Rightarrow> char" where
  "hex_digit n = char_of (if n < 10 then 48 + n else 87 + n)"

text \<open>\<open>(Number.parseInt(hex[16], 16) & 0x3) | 0x8\<close>\<close>

definition variant_digit :: "char \<Rightarrow> char" where
  "variant_digit c = hex_digit (8 + hex_value c mod 4)"

definition deterministic_job_id :: "(string \<Rightarrow> string) \<Rightarrow> string \<Rightarrow> string \<Rightarrow> string" where
  "deterministic_job_id digest target key =
     (let hex = take 32 (digest (target @ [CHR 0x00] @ key));
          v = hex[12 := CHR ''5'', 16 := variant_digit (hex ! 16)] in
      join ''-'' [take 8 v, take 4 (drop 8 v), take 4 (drop 12 v), take 4 (drop 16 v), drop 20 v])"

definition create_queue_envelope ::
  "queue_host \<Rightarrow> (string \<Rightarrow> string) \<Rightarrow> string \<Rightarrow> work \<Rightarrow> execution_context \<Rightarrow> json" where
  "create_queue_envelope h digest random w c = JObj (
     [(''id'', JStr (case truthy_string (wk_idempotency_key w) of
         None \<Rightarrow> random | Some key \<Rightarrow> deterministic_job_id digest (wk_target_id w) key)),
      (''kind'', JStr (work_kind_text (wk_kind w))), (''targetId'', JStr (wk_target_id w))] @
     opt_entry ''eventId'' (map_option JStr (wk_event_id w)) @
     opt_entry ''eventVersion'' (map_option js_int (wk_event_version w)) @
     [(''payload'', wk_payload w), (''policy'', queue_policy_json (wk_policy w))] @
     instant_entry h ''availableAt'' (wk_available_at w) @
     text_entry ''idempotencyKey'' (wk_idempotency_key w) @
     [(''context'', queue_context h c)])"

subsection \<open>Reading the envelope\<close>

lemma run_checks_Inr: "run_checks cs = Inr u \<longleftrightarrow> list_all fst cs"
  by (induction cs rule: run_checks.induct) auto

lemma jfield_JObj [simp]: "jfield (JObj kvs) k = map_of kvs k"
  by simp

lemma ofield_Some [simp]: "ofield (Some j) k = jfield j k" "ofield None k = None"
  by (simp_all add: ofield_def)

lemma only_opt_entry [simp]:
  "list_all P (opt_entry k v) \<longleftrightarrow> (case v of None \<Rightarrow> True | Some j \<Rightarrow> P (k, j))"
  by (auto simp: opt_entry_def split: option.splits)

lemmas entry_defs = text_entry_def instant_entry_def

lemma truthy_obj [simp]: "truthy (Some (JObj kvs))" "truthy_json (Some (JObj kvs)) = Some (JObj kvs)" "\<not> truthy None"
  by (simp_all add: truthy_def truthy_json_def)

lemma queue_context_fields:
  "jfield (queue_context h c) ''version'' = Some (js_int 1)"
  "jfield (queue_context h c) ''sourceExecutionId'' = Some (JStr (ec_execution_id c))"
  "jfield (queue_context h c) ''correlationId'' = Some (JStr (ec_correlation_id c))"
  "jfield (queue_context h c) ''causationId'' = truthy_json (ec_causation_id c)"
  "jfield (queue_context h c) ''actor'' = Some (actor_json (ec_actor c))"
  "jfield (queue_context h c) ''initiator'' = Some (actor_json (ec_initiator c))"
  "jfield (queue_context h c) ''delegation'' = Some (JArr (map (queued_hop h) (ec_delegation c)))"
  "jfield (queue_context h c) ''tenant'' = map_option tenant_json (ec_tenant c)"
  "jfield (queue_context h c) ''authentication'' = Some (queued_authentication_json h (ec_authentication c))"
  "jfield (queue_context h c) ''trace'' = Some (trace_json (ec_trace c))"
  "jfield (queue_context h c) ''locale'' = map_option JStr (truthy_string (Some (ec_locale c)))"
  "jfield (queue_context h c) ''timeZone'' = map_option JStr (truthy_string (Some (ec_time_zone c)))"
  by (simp_all add: queue_context_def entry_defs split: option.splits del: map_of_append truthy_string_simps)

lemma queue_context_keys_ok: "only_keys (queue_context h c) queue_context_keys"
  by (simp add: queue_context_def queue_context_keys_def entry_defs split: option.splits del: truthy_string_simps)

lemma queue_context_truthy [simp]: "truthy (Some (queue_context h c))"
  by (simp add: queue_context_def)

lemma actor_json_fields:
  "jfield (actor_json a) ''kind'' = Some (actor_kind a)"
  "jfield (actor_json a) ''id'' = map_option JStr (actor_id a)"
  "only_keys (actor_json a) actor_keys" "truthy (Some (actor_json a))"
  by (simp_all add: actor_json_def actor_keys_def split: option.splits del: map_of_append truthy_string_simps)

lemma queued_hop_fields:
  "jfield (queued_hop h hp) ''from'' = Some (actor_json (hop_from hp))"
  "jfield (queued_hop h hp) ''to'' = Some (actor_json (hop_to hp))"
  "jfield (queued_hop h hp) ''grantId'' = Some (JStr (hop_grant_id hp))"
  "jfield (queued_hop h hp) ''reason'' = Some (JStr (hop_reason hp))"
  "jfield (queued_hop h hp) ''expiresAt'' = map_option (\<lambda>t. JStr (qh_instant_text h t)) (hop_expires_at hp)"
  "only_keys (queued_hop h hp) delegation_keys" "truthy (Some (queued_hop h hp))"
  "is_object (Some (queued_hop h hp))"
  by (simp_all add: queued_hop_def entry_defs delegation_keys_def is_object_def split: option.splits del: map_of_append truthy_string_simps)

lemma queued_authentication_fields:
  "jfield (queued_authentication_json h a) ''state'' = Some (au_state a)"
  "jfield (queued_authentication_json h a) ''identityId'' = map_option JStr (truthy_string (au_identity_id a))"
  "jfield (queued_authentication_json h a) ''method'' = map_option JStr (truthy_string (au_method a))"
  "jfield (queued_authentication_json h a) ''assurance'' = truthy_json (au_assurance a)"
  "jfield (queued_authentication_json h a) ''authenticatedAt'' =
     map_option (\<lambda>t. JStr (qh_instant_text h t)) (au_authenticated_at a)"
  "jfield (queued_authentication_json h a) ''credentialId'' = map_option JStr (truthy_string (au_credential_id a))"
  "jfield (queued_authentication_json h a) ''constraints'' = map_option (\<lambda>cs. JArr (map JStr cs)) (au_constraints a)"
  "only_keys (queued_authentication_json h a) authentication_keys"
  "truthy (Some (queued_authentication_json h a))"
  by (simp_all add: queued_authentication_json_def entry_defs authentication_keys_def split: option.splits del: map_of_append truthy_string_simps)

lemma trace_json_fields:
  "jfield (trace_json t) ''traceId'' = map_option JStr (tr_trace_id t)"
  "jfield (trace_json t) ''spanId'' = map_option JStr (tr_span_id t)"
  "jfield (trace_json t) ''parentSpanId'' = map_option JStr (tr_parent_span_id t)"
  "jfield (trace_json t) ''isRemote'' = map_option JBool (tr_is_remote t)"
  "jfield (trace_json t) ''parentIsRemote'' = map_option JBool (tr_parent_is_remote t)"
  "jfield (trace_json t) ''traceFlags'' = map_option js_int (tr_trace_flags t)"
  "jfield (trace_json t) ''links'' = map_option (\<lambda>ls. JArr (map span_link_json ls)) (tr_links t)"
  "only_keys (trace_json t) trace_keys" "truthy (Some (trace_json t))"
  by (simp_all add: trace_json_def trace_keys_def split: option.splits del: map_of_append truthy_string_simps)

lemma span_link_fields:
  "jfield (span_link_json l) ''traceId'' = Some (JStr (sl_trace_id l))"
  "jfield (span_link_json l) ''spanId'' = Some (JStr (sl_span_id l))"
  "jfield (span_link_json l) ''attributes'' = sl_attributes l"
  "only_keys (span_link_json l) span_link_keys" "truthy (Some (span_link_json l))"
  by (simp_all add: span_link_json_def span_link_keys_def split: option.splits del: map_of_append truthy_string_simps)

lemma envelope_fields:
  "jfield (create_queue_envelope h digest random w c) ''kind'' = Some (JStr (work_kind_text (wk_kind w)))"
  "jfield (create_queue_envelope h digest random w c) ''targetId'' = Some (JStr (wk_target_id w))"
  "jfield (create_queue_envelope h digest random w c) ''policy'' = Some (queue_policy_json (wk_policy w))"
  "jfield (create_queue_envelope h digest random w c) ''context'' = Some (queue_context h c)"
  "jfield (create_queue_envelope h digest random w c) ''scheduleId'' = None"
  "jfield (create_queue_envelope h digest random w c) ''availableAt'' =
     map_option (\<lambda>t. JStr (qh_instant_text h t)) (wk_available_at w)"
  "jfield (create_queue_envelope h digest random w c) ''idempotencyKey'' =
     map_option JStr (truthy_string (wk_idempotency_key w))"
  "jfield (create_queue_envelope h digest random w c) ''id'' =
     Some (JStr (case truthy_string (wk_idempotency_key w) of
         None \<Rightarrow> random | Some key \<Rightarrow> deterministic_job_id digest (wk_target_id w) key))"
  "is_object (Some (create_queue_envelope h digest random w c))"
  by (simp_all add: create_queue_envelope_def entry_defs is_object_def split: option.splits del: map_of_append truthy_string_simps)

lemma policy_fields:
  "jfield (queue_policy_json p) ''retries'' = Some (JNum (Fin (qp_retries p)))"
  "jfield (queue_policy_json p) ''retryDelay'' = Some (JNum (Fin (qp_retry_delay p)))"
  "jfield (queue_policy_json p) ''backoff'' = Some (JBool (qp_backoff p))"
  "jfield (queue_policy_json p) ''timeout'' = Some (JNum (Fin (qp_timeout p)))"
  "truthy (Some (queue_policy_json p))"
  by (simp_all add: queue_policy_json_def split: option.splits del: map_of_append truthy_string_simps)

lemmas queued_fields = queue_context_fields queue_context_keys_ok actor_json_fields queued_hop_fields
  queued_authentication_fields trace_json_fields span_link_fields envelope_fields policy_fields

subsection \<open>Which envelopes are accepted\<close>

definition text_within :: "nat \<Rightarrow> string \<Rightarrow> bool" where
  "text_within maximum s \<longleftrightarrow> 0 < length s \<and> length s \<le> maximum"

definition each :: "('a \<Rightarrow> bool) \<Rightarrow> 'a option \<Rightarrow> bool" where
  "each p v = (case v of None \<Rightarrow> True | Some x \<Rightarrow> p x)"

definition actor_deliverable :: "actor \<Rightarrow> bool" where
  "actor_deliverable a \<longleftrightarrow> text_among (Some (actor_kind a)) actor_kinds \<and>
     (if is_anonymous a then actor_id a = None else actor_id a \<noteq> None \<and> each (text_within 256) (actor_id a))"

definition hop_deliverable :: "hop \<Rightarrow> bool" where
  "hop_deliverable hp \<longleftrightarrow> actor_deliverable (hop_from hp) \<and> actor_deliverable (hop_to hp) \<and>
     text_within 256 (hop_grant_id hp) \<and> text_within 512 (hop_reason hp)"

definition authentication_deliverable :: "authentication \<Rightarrow> bool" where
  "authentication_deliverable a \<longleftrightarrow> text_among (Some (au_state a)) authentication_states \<and>
     each (text_within 256) (truthy_string (au_identity_id a)) \<and>
     each (text_within 128) (truthy_string (au_method a)) \<and>
     each (\<lambda>v. text_among (Some v) assurance_levels) (truthy_json (au_assurance a)) \<and>
     each (text_within 256) (truthy_string (au_credential_id a)) \<and>
     each (\<lambda>cs. length cs \<le> 100 \<and> list_all (text_within 128) cs) (au_constraints a) \<and>
     \<not> (au_state a = JStr ''anonymous'' \<and> truthy_string (au_identity_id a) \<noteq> None)"

definition link_deliverable :: "queue_host \<Rightarrow> span_link \<Rightarrow> bool" where
  "link_deliverable h l \<longleftrightarrow> hex_id 32 (sl_trace_id l) \<and> hex_id 16 (sl_span_id l) \<and>
     each (\<lambda>v. valid_json_object h (Some v)) (sl_attributes l)"

definition trace_deliverable :: "queue_host \<Rightarrow> trace_context \<Rightarrow> bool" where
  "trace_deliverable h t \<longleftrightarrow> each (hex_id 32) (tr_trace_id t) \<and> each (hex_id 16) (tr_span_id t) \<and>
     each (hex_id 16) (tr_parent_span_id t) \<and> each (\<lambda>n. 0 \<le> n \<and> n \<le> 255) (tr_trace_flags t) \<and>
     each (\<lambda>ls. length ls \<le> 32 \<and> list_all (link_deliverable h) ls) (tr_links t)"

definition context_deliverable :: "queue_host \<Rightarrow> execution_context \<Rightarrow> bool" where
  "context_deliverable h c \<longleftrightarrow> uuid_text (ec_execution_id c) \<and> text_within 256 (ec_correlation_id c) \<and>
     each (\<lambda>v. bounded_text (Some v) 256) (truthy_json (ec_causation_id c)) \<and>
     actor_deliverable (ec_actor c) \<and> actor_deliverable (ec_initiator c) \<and>
     length (ec_delegation c) \<le> 16 \<and> list_all hop_deliverable (ec_delegation c) \<and>
     each (text_within 256) (ec_tenant c) \<and> length (ec_locale c) \<le> 128 \<and> length (ec_time_zone c) \<le> 128 \<and>
     authentication_deliverable (ec_authentication c) \<and> trace_deliverable h (ec_trace c)"

definition policy_deliverable :: "queue_policy \<Rightarrow> bool" where
  "policy_deliverable p \<longleftrightarrow> (\<exists>n::int. qp_retries p = of_int n \<and> 0 \<le> n \<and> n \<le> 100) \<and>
     0 \<le> qp_retry_delay p \<and> qp_retry_delay p \<le> 86400 \<and> 1 \<le> qp_timeout p \<and> qp_timeout p \<le> 86400"

definition work_deliverable :: "work \<Rightarrow> bool" where
  "work_deliverable w \<longleftrightarrow> text_within 256 (wk_target_id w) \<and> policy_deliverable (wk_policy w) \<and>
     each (text_within 512) (truthy_string (wk_idempotency_key w))"

lemma bounded_text_simps [simp]:
  "bounded_text None m \<longleftrightarrow> False" "bounded_text (Some (JStr s)) m \<longleftrightarrow> text_within m s"
  by (simp_all add: bounded_text_def text_within_def)

lemma optional_simps [simp]:
  "optional p None" "optional p (Some v) \<longleftrightarrow> p (Some v)"
  "optional p (map_option f u) \<longleftrightarrow> each (\<lambda>x. p (Some (f x))) u"
  by (auto simp: optional_def each_def split: option.splits)

lemma optional_each: "optional p v \<longleftrightarrow> each (\<lambda>x. p (Some x)) v"
  by (cases v) (simp_all add: each_def)

lemma each_simps [simp]: "each p None" "each p (Some x) \<longleftrightarrow> p x" "each (\<lambda>x. True) v"
  by (auto simp: each_def split: option.splits)

lemma iso_date_written [simp]:
  "qh_instant_parse h (qh_instant_text h t) = Some t \<Longrightarrow> valid_iso_date h (Some (JStr (qh_instant_text h t)))"
  by (simp add: valid_iso_date_def)

lemma hex_id_simps [simp]:
  "valid_trace_id (Some (JStr s)) \<longleftrightarrow> hex_id 32 s" "valid_span_id (Some (JStr s)) \<longleftrightarrow> hex_id 16 s"
  "\<not> valid_trace_id None" "\<not> valid_span_id None"
  "uuid (Some (JStr s)) \<longleftrightarrow> uuid_text s"
  by (simp_all add: valid_trace_id_def valid_span_id_def uuid_def)

lemma boolean_simps [simp]: "is_boolean (Some (JBool b))"
  by (simp add: is_boolean_def)

lemma integer_between_js_int [simp]:
  "integer_between (Some (js_int n)) lo hi \<longleftrightarrow> \<bar>n\<bar> \<le> 9007199254740991 \<and> lo \<le> n \<and> n \<le> hi"
  by (simp add: integer_between_def number_value_def js_int_def)

lemma number_value_Fin [simp]: "number_value (Some (JNum (Fin q))) = Some q"
  by (simp add: number_value_def)

lemma integer_between_Fin:
  "\<bar>lo\<bar> \<le> 9007199254740991 \<Longrightarrow> \<bar>hi\<bar> \<le> 9007199254740991 \<Longrightarrow>
     integer_between (Some (JNum (Fin q))) lo hi \<longleftrightarrow> (\<exists>n::int. q = of_int n \<and> lo \<le> n \<and> n \<le> hi)"
  by (auto simp: integer_between_def safe_integer_def split: option.splits if_splits elim!: Ints_cases)

lemma array_of_simps [simp]:
  "array_of m p (Some (JArr vs)) \<longleftrightarrow> length vs \<le> m \<and> list_all p vs"
  by (simp add: array_of_def)

lemma keys_among_Some [simp]: "keys_among (Some v) ks \<longleftrightarrow> only_keys v ks"
  by (simp add: keys_among_def)

lemma actor_checks_pass:
  "list_all fst (queued_actor_checks (Some (actor_json a)) label) \<longleftrightarrow> actor_deliverable a"
  by (auto simp: queued_actor_checks_def queued_fields actor_deliverable_def is_anonymous_def each_def
      split: option.splits)

text \<open>Every instant the host writes is one it reads back.\<close>

definition queue_instants_read_back :: "queue_host \<Rightarrow> bool" where
  "queue_instants_read_back h \<longleftrightarrow> (\<forall>t. qh_instant_parse h (qh_instant_text h t) = Some t)"

lemma hop_checks_pass:
  "queue_instants_read_back h \<Longrightarrow>
     list_all fst (delegation_hop_checks h i (queued_hop h hp)) \<longleftrightarrow> hop_deliverable hp"
  by (simp add: delegation_hop_checks_def Let_def queued_fields actor_checks_pass hop_deliverable_def
      queue_instants_read_back_def conj_ac)

lemma list_all_enumerate:
  "(\<And>i x. list_all fst (f i (g x)) \<longleftrightarrow> Q x) \<Longrightarrow>
     list_all fst (concat (map (\<lambda>(i, x). f i x) (enumerate n (map g xs)))) \<longleftrightarrow> list_all Q xs"
  by (induction xs arbitrary: n) auto

lemma authentication_checks_pass:
  "queue_instants_read_back h \<Longrightarrow>
     list_all fst (authentication_checks h (Some (queued_authentication_json h a))) \<longleftrightarrow>
       authentication_deliverable a"
  by (simp add: authentication_checks_def queued_fields authentication_deliverable_def queue_instants_read_back_def
      optional_each [of _ "truthy_json (au_assurance a)"] list.pred_map o_def conj_ac cong: conj_cong)

lemma valid_span_link_pass: "valid_span_link h (span_link_json l) \<longleftrightarrow> link_deliverable h l"
  by (simp add: valid_span_link_def queued_fields link_deliverable_def optional_each)

lemma flags_pass: "each (\<lambda>n. integer_between (Some (js_int n)) 0 255) v \<longleftrightarrow> each (\<lambda>n. 0 \<le> n \<and> n \<le> 255) v"
  by (auto simp: each_def split: option.splits)

lemma valid_trace_pass: "valid_trace h (trace_json t) \<longleftrightarrow> trace_deliverable h t"
  by (simp add: valid_trace_def queued_fields trace_deliverable_def flags_pass list.pred_map o_def valid_span_link_pass
      del: integer_between_js_int)

lemma tenant_fields:
  "jfield (tenant_json t) ''id'' = Some (JStr t)" "only_keys (tenant_json t) tenant_keys" "truthy (Some (tenant_json t))"
  by (simp_all add: tenant_json_def tenant_keys_def)

lemma list_all_True: "list_all (\<lambda>x. True) xs"
  by (simp add: list_all_iff)

lemma each_bounded_truthy: "each (text_within m) (truthy_string (Some s)) \<longleftrightarrow> length s \<le> m"
  by (cases s) (simp_all add: text_within_def)

lemma context_checks_pass:
  assumes "queue_instants_read_back h"
  shows "list_all fst (queue_context_checks h (Some (queue_context h c))) \<longleftrightarrow> context_deliverable h c"
proof -
  have tenant: "(let tenant = map_option tenant_json t in
      tenant = None \<or> truthy tenant \<and> keys_among tenant tenant_keys \<and> bounded_text (ofield tenant ''id'') 256) \<longleftrightarrow>
      each (text_within 256) t" for t
    by (cases t) (simp_all add: tenant_fields)
  have hops: "list_all fst (concat (map (\<lambda>(i, hop). delegation_hop_checks h i hop) (enumerate 0 (map (queued_hop h) ds))))
      \<longleftrightarrow> list_all hop_deliverable ds" for ds
    by (rule list_all_enumerate) (rule hop_checks_pass [OF assms])
  show ?thesis
    using tenant [of "ec_tenant c"]
    by (simp add: queue_context_checks_def queued_fields context_deliverable_def actor_checks_pass hops Let_def
        authentication_checks_pass [OF assms] valid_trace_pass optional_each [of _ "truthy_json (ec_causation_id c)"]
        each_bounded_truthy list.pred_map o_def conj_ac list_all_True del: truthy_string_simps)
qed

text \<open>The digests are hexadecimal texts of 64 digits, as SHA-256 has them.\<close>

definition hex_digest :: "(string \<Rightarrow> string) \<Rightarrow> bool" where
  "hex_digest digest \<longleftrightarrow> (\<forall>s. length (digest s) = 64 \<and> list_all hex_char (digest s))"

lemma hex_digit_values:
  "hex_digit 8 = CHR ''8''" "hex_digit 9 = CHR ''9''" "hex_digit 10 = CHR ''a''" "hex_digit 11 = CHR ''b''"
  by code_simp+

lemma variant_digit_ok: "variant_digit c \<in> set ''89abAB''"
proof -
  have "hex_value c mod 4 < 4" by simp
  then have "hex_value c mod 4 \<in> {0, 1, 2, 3}" by auto
  then show ?thesis by (auto simp: variant_digit_def hex_digit_values)
qed

lemma list_all2_replicate: "list_all2 (\<lambda>p c. p c) (replicate n P) xs \<longleftrightarrow> length xs = n \<and> list_all P xs"
proof (induction n arbitrary: xs)
  case (Suc n)
  then show ?case by (cases xs) auto
qed auto

lemma split_32:
  assumes "length v = 32"
  shows "\<exists>a b x c y d e. v = a @ b @ x # c @ y # d @ e \<and> length a = 8 \<and> length b = 4 \<and> length c = 3 \<and>
    length d = 3 \<and> length e = 12"
proof -
  have piece: "drop i v = take n (drop i v) @ drop (i + n) v" for i n
    by (metis append_take_drop_id drop_drop add.commute)
  have one: "i < 32 \<Longrightarrow> drop i v = v ! i # drop (Suc i) v" for i
    using assms by (simp add: Cons_nth_drop_Suc)
  have "v = take 8 v @ take 4 (drop 8 v) @ v ! 12 # take 3 (drop 13 v) @ v ! 16 # take 3 (drop 17 v) @ drop 20 v"
    using piece [of 0 8] piece [of 8 4] one [of 12] piece [of 13 3] one [of 16] piece [of 17 3] by simp
  moreover have "length (take 8 v) = 8 \<and> length (take 4 (drop 8 v)) = 4 \<and> length (take 3 (drop 13 v)) = 3 \<and>
      length (take 3 (drop 17 v)) = 3 \<and> length (drop 20 v) = 12"
    using assms by simp
  ultimately show ?thesis by blast
qed

lemma hex_chars: "hex_char (CHR ''5'')" "char_between (CHR ''1'') (CHR ''8'') (CHR ''5'')"
  by (simp_all add: hex_char_def char_class_defs)

lemma deterministic_job_id_uuid:
  assumes "hex_digest digest"
  shows "uuid_text (deterministic_job_id digest target key)"
proof -
  define s where "s = target @ [CHR 0x00] @ key"
  let ?hex = "take 32 (digest s)"
  from assms have len: "length ?hex = 32" and hex: "list_all hex_char ?hex"
    by (auto simp: hex_digest_def list_all_iff dest: in_set_takeD)
  obtain a b x c y d e where v: "?hex = a @ b @ x # c @ y # d @ e" and
    l: "length a = 8" "length b = 4" "length c = 3" "length d = 3" "length e = 12"
    using split_32 [OF len] by blast
  let ?z = "variant_digit (?hex ! 16)"
  have upd: "?hex[12 := CHR ''5'', 16 := ?z] = a @ b @ CHR ''5'' # c @ ?z # d @ e"
    using l by (simp add: v list_update_append nth_append)
  have "deterministic_job_id digest target key =
      a @ CHR ''-'' # b @ CHR ''-'' # (CHR ''5'' # c) @ CHR ''-'' # (?z # d) @ CHR ''-'' # e"
    unfolding deterministic_job_id_def Let_def s_def [symmetric] upd using l by simp
  moreover have "list_all hex_char a" "list_all hex_char b" "list_all hex_char c" "list_all hex_char d" "list_all hex_char e"
    using hex by (simp_all add: v)
  moreover have "?z \<in> set ''89abAB''" by (rule variant_digit_ok)
  ultimately show ?thesis using l
    unfolding uuid_text_def uuid_pattern_def Let_def append_Cons append_Nil
    by (auto intro!: list_all2_appendI simp: list_all2_replicate hex_chars simp del: append_assoc)
qed

lemma envelope_id_uuid:
  "hex_digest digest \<Longrightarrow> uuid_text random \<Longrightarrow>
     uuid_text (case truthy_string key of None \<Rightarrow> random | Some k \<Rightarrow> deterministic_job_id digest target k)"
  by (simp add: deterministic_job_id_uuid split: option.splits)

lemma policy_passes:
  "truthy (Some (queue_policy_json p)) \<and>
     integer_between (ofield (Some (queue_policy_json p)) ''retries'') 0 100 \<and>
     finite_between (ofield (Some (queue_policy_json p)) ''retryDelay'') 0 86400 \<and>
     is_boolean (ofield (Some (queue_policy_json p)) ''backoff'') \<and>
     finite_between (ofield (Some (queue_policy_json p)) ''timeout'') 1 86400 \<longleftrightarrow> policy_deliverable p"
  by (simp add: policy_fields finite_between_def integer_between_Fin policy_deliverable_def)

lemma work_kind_text_among: "work_kind_text k \<in> set work_kinds"
  by (cases k) (simp_all add: work_kinds_def)

lemma envelope_accepted:
  assumes "queue_instants_read_back h" and "hex_digest digest" and "uuid_text random"
  shows "assert_queue_delivery h (create_queue_envelope h digest random w c) (js_int n) = Inr () \<longleftrightarrow>
    1 \<le> n \<and> n \<le> 101 \<and> work_deliverable w \<and> context_deliverable h c"
proof -
  have "optional (valid_iso_date h) (map_option (\<lambda>t. JStr (qh_instant_text h t)) v)" for v
    using assms(1) by (simp add: queue_instants_read_back_def)
  then show ?thesis
    using envelope_id_uuid [OF assms(2,3), where key = "wk_idempotency_key w" and target = "wk_target_id w"] policy_passes [of "wk_policy w"]
    by (auto simp: assert_queue_delivery_def queue_delivery_checks_def run_checks_Inr Let_def envelope_fields
        work_kind_text_among context_checks_pass [OF assms(1)] work_deliverable_def)
qed

subsection \<open>Who the work runs as\<close>

lemma queued_actor_read [simp]: "queued_actor (Some (actor_json a)) = a"
  by (simp add: queued_actor_def queued_fields opt_string_def option.map_comp o_def split: option.splits)

lemma queued_instant_read:
  "queue_instants_read_back h \<Longrightarrow> queued_instant h (map_option (\<lambda>t. JStr (qh_instant_text h t)) v) = v"
  by (cases v) (simp_all add: queued_instant_def queue_instants_read_back_def)

lemma queued_hop_read: "queue_instants_read_back h \<Longrightarrow> queued_seed_hop h (queued_hop h hp) = hp"
  by (simp add: queued_seed_hop_def queued_fields queued_instant_read or_text_def)

lemma queued_link_read [simp]: "queued_link (span_link_json l) = l"
  by (simp add: queued_link_def queued_fields or_text_def)

lemma opt_string_map [simp]: "opt_string (map_option JStr v) = v"
  by (cases v) simp_all

lemma opt_boolean_map [simp]: "opt_boolean (map_option JBool v) = v"
  by (cases v) (simp_all add: opt_boolean_def)

lemma opt_array_map [simp]: "opt_array (map_option (\<lambda>vs. JArr (f vs)) v) = map_option f v"
  by (cases v) simp_all

lemma safe_integer_map: "each (\<lambda>n. 0 \<le> n \<and> n \<le> 255) v \<Longrightarrow> safe_integer (number_value (map_option js_int v)) = v"
  by (cases v) (simp_all add: js_int_def safe_integer_def number_value_def)

lemma queued_trace_read: "trace_deliverable h t \<Longrightarrow> queued_trace (Some (trace_json t)) = t"
  by (simp add: queued_trace_def queued_fields trace_deliverable_def safe_integer_map option.map_comp o_def option.map_ident)

text \<open>
  What a worker keeps of an authentication: the session and the grant of an impersonation stay
  behind, and so do empty fields.
\<close>

definition travelled :: "authentication \<Rightarrow> authentication" where
  "travelled a = a\<lparr>au_identity_id := truthy_string (au_identity_id a), au_method := truthy_string (au_method a),
     au_assurance := truthy_json (au_assurance a), au_session_id := None, au_impersonation_grant_id := None,
     au_credential_id := truthy_string (au_credential_id a)\<rparr>"

lemma truthy_string_idem [simp]: "truthy_string (truthy_string v) = truthy_string v"
  by (simp add: truthy_string_def)

lemma string_array_map: "string_array (map_option (\<lambda>cs. JArr (map JStr cs)) v) = v"
  by (cases v) (simp_all add: string_array_strings string_array_None)

lemma queued_authentication_read:
  "queue_instants_read_back h \<Longrightarrow> queued_authentication h (Some (queued_authentication_json h a)) = travelled a"
  by (simp add: queued_authentication_def queued_fields travelled_def queued_instant_read string_array_map
      truthy_json_idem)

lemma deliverable_admissible: "actor_deliverable a \<Longrightarrow> actor_admissible a"
  by (auto simp: actor_deliverable_def actor_admissible_def each_def text_within_def split: option.splits if_splits)

text \<open>What \<open>Intl\<close> resolves a zone or a locale to resolves to itself, and is not empty.\<close>

definition intl_resolves :: "intl \<Rightarrow> bool" where
  "intl_resolves tz \<longleftrightarrow>
     (\<forall>x y. canonical_locale tz x = Some y \<longrightarrow> y \<noteq> [] \<and> canonical_locale tz y = Some y) \<and>
     (\<forall>x y. resolved_time_zone tz x = Some y \<longrightarrow> y \<noteq> [] \<and> resolved_time_zone tz y = Some y)"


lemma queue_seed_principals:
  assumes law: "queue_instants_read_back h" and ok: "context_deliverable h c"
    and s: "s = queue_seed h (create_queue_envelope h digest random w c) n prior"
  shows "es_actor s = ec_actor c" "es_initiator s = Some (ec_initiator c)" "es_delegation s = Some (ec_delegation c)"
    "es_tenant s = ec_tenant c" "es_authentication s = Some (travelled (ec_authentication c))"
    "es_source_execution_id s = Some (ec_execution_id c)" "es_correlation_id s = Some (ec_correlation_id c)"
    "es_locale s = truthy_string (Some (ec_locale c))" "es_time_zone s = truthy_string (Some (ec_time_zone c))"
    "es_transport s = \<lparr>tp_kind = Job, tp_name = Some (wk_target_id w)\<rparr>" "es_deadline s = None"
    "\<exists>t. es_trace s = Some t \<and> tr_trace_id t = tr_trace_id (ec_trace c) \<and>
       tr_span_id t = tr_span_id (ec_trace c) \<and> tr_is_remote t = Some True"
proof -
  from ok have trace: "trace_deliverable h (ec_trace c)" by (simp add: context_deliverable_def)
  have tenant: "opt_string (ofield (map_option tenant_json t) ''id'') = t" for t
    by (cases t) (simp_all add: tenant_fields)
  note read = s queue_seed_def Let_def queued_fields queued_authentication_read [OF law] queued_hop_read [OF law]
    queued_trace_read [OF trace] tenant map_idI
  show "es_actor s = ec_actor c" "es_initiator s = Some (ec_initiator c)" "es_delegation s = Some (ec_delegation c)"
    "es_tenant s = ec_tenant c" "es_authentication s = Some (travelled (ec_authentication c))"
    "es_source_execution_id s = Some (ec_execution_id c)" "es_correlation_id s = Some (ec_correlation_id c)"
    "es_locale s = truthy_string (Some (ec_locale c))" "es_time_zone s = truthy_string (Some (ec_time_zone c))"
    "es_transport s = \<lparr>tp_kind = Job, tp_name = Some (wk_target_id w)\<rparr>" "es_deadline s = None"
    "\<exists>t. es_trace s = Some t \<and> tr_trace_id t = tr_trace_id (ec_trace c) \<and>
       tr_span_id t = tr_span_id (ec_trace c) \<and> tr_is_remote t = Some True"
    by (simp_all add: read del: truthy_string_simps)
qed

lemma created_zone_locale:
  assumes "intl_resolves tz" and "create_execution_context tz d ids own_span s = Inr c"
  shows "ec_locale c \<noteq> [] \<and> canonical_locale tz (ec_locale c) = Some (ec_locale c) \<and>
    ec_time_zone c \<noteq> [] \<and> resolved_time_zone tz (ec_time_zone c) = Some (ec_time_zone c)"
  using create_Inr [OF assms(2)] assms(1) by (elim conjE exE) (simp add: intl_resolves_def)

lemma queued_work_same_author:
  assumes "queue_instants_read_back h" and "hex_digest digest" and "uuid_text random" and "intl_resolves tz"
    and "create_execution_context tz d ids own_span seed = Inr c"
    and "assert_queue_delivery h (create_queue_envelope h digest random w c) (js_int n) = Inr ()"
  shows "\<exists>c'. create_execution_context tz d' ids' own_span'
        (queue_seed h (create_queue_envelope h digest random w c) n prior) = Inr c' \<and>
      ec_actor c' = ec_actor c \<and> ec_initiator c' = ec_initiator c \<and> ec_delegation c' = ec_delegation c \<and>
      ec_tenant c' = ec_tenant c \<and> ec_authentication c' = travelled (ec_authentication c) \<and>
      ec_correlation_id c' = ec_correlation_id c \<and> ec_source_execution_id c' = Some (ec_execution_id c) \<and>
      ec_locale c' = ec_locale c \<and> ec_time_zone c' = ec_time_zone c \<and>
      tr_trace_id (ec_trace c') = tr_trace_id (ec_trace c) \<and>
      tr_parent_span_id (ec_trace c') = tr_span_id (ec_trace c) \<and> tr_parent_is_remote (ec_trace c') = Some True"
proof -
  define s where "s = queue_seed h (create_queue_envelope h digest random w c) n prior"
  have ok: "context_deliverable h c"
    using assms(6) envelope_accepted [OF assms(1-3)] by simp
  note principals = queue_seed_principals [OF assms(1) ok s_def]
  note zone = created_zone_locale [OF assms(4,5)]
  from ok have span_ok: "each (hex_id 16) (tr_span_id (ec_trace c))" "uuid_text (ec_execution_id c)"
    and actors: "actor_admissible (ec_actor c)" "actor_admissible (ec_initiator c)"
    by (simp_all add: context_deliverable_def trace_deliverable_def deliverable_admissible)
  from created_context [OF assms(5)] obtain trace_id span_id where
    ids: "tr_trace_id (ec_trace c) = Some trace_id" "tr_span_id (ec_trace c) = Some span_id" by auto
  with span_ok have "span_id \<noteq> []" by (auto simp: hex_id_def)
  moreover have "ec_execution_id c \<noteq> []"
    using span_ok(2) by (auto simp: uuid_text_def uuid_pattern_def Let_def)
  moreover obtain t where "es_trace s = Some t" "tr_trace_id t = Some trace_id" "tr_span_id t = Some span_id"
    "tr_is_remote t = Some True"
    using principals(12) ids by auto
  ultimately show ?thesis
    unfolding s_def [symmetric] using zone actors ids
    by (simp add: create_execution_context_def Let_def principals context_authentication_def context_trace_def)
qed

text \<open>
  C20. Queued work runs as the one who queued it. When a worker accepts an envelope the runtime made
  in some execution, the execution it admits for it is one the runtime can create, has the same
  actor, initiator, delegation, tenant, correlation identifier, locale and time zone, has the
  authentication without its session and impersonation grant, names the first execution as its
  source and continues its trace as a remote child of the span that queued it.
\<close>

theorem queued_work_runs_as_its_author:
  assumes "queue_instants_read_back h" and "hex_digest digest" and "uuid_text random" and "intl_resolves tz"
    and "create_execution_context tz d ids own_span seed = Inr c"
    and "assert_queue_delivery h (create_queue_envelope h digest random w c) (js_int n) = Inr ()"
  shows "\<exists>c'. create_execution_context tz d' ids' own_span'
        (queue_seed h (create_queue_envelope h digest random w c) n prior) = Inr c' \<and>
      ec_actor c' = ec_actor c \<and> ec_initiator c' = ec_initiator c \<and> ec_delegation c' = ec_delegation c \<and>
      ec_tenant c' = ec_tenant c \<and> ec_authentication c' = travelled (ec_authentication c) \<and>
      ec_correlation_id c' = ec_correlation_id c \<and> ec_source_execution_id c' = Some (ec_execution_id c) \<and>
      ec_locale c' = ec_locale c \<and> ec_time_zone c' = ec_time_zone c \<and>
      tr_trace_id (ec_trace c') = tr_trace_id (ec_trace c) \<and>
      tr_parent_span_id (ec_trace c') = tr_span_id (ec_trace c) \<and> tr_parent_is_remote (ec_trace c') = Some True"
  by (rule queued_work_same_author [OF assms])

subsection \<open>Witnesses\<close>

definition sample_queue_host :: queue_host where
  "sample_queue_host = \<lparr>qh_instant_text = unary_text, qh_instant_parse = unary_parse, qh_json_text = \<lambda>j. ''{}''\<rparr>"

definition sample_digest :: "string \<Rightarrow> string" where
  "sample_digest = (\<lambda>s. replicate 64 (CHR ''a''))"

definition sample_uuid :: string where
  "sample_uuid = ''00000000-0000-1000-8000-000000000000''"

definition sample_intl :: intl where
  "sample_intl = \<lparr>canonical_locale = \<lambda>s. if s = [] then None else Some s,
     resolved_time_zone = \<lambda>s. if s = [] then None else Some s\<rparr>"

definition sample_ids :: execution_ids where
  "sample_ids = \<lparr>new_execution_id = sample_uuid, new_trace_id = replicate 32 (CHR ''1''),
     new_span_id = replicate 16 (CHR ''1'')\<rparr>"

definition sample_defaults :: time_defaults where
  "sample_defaults = \<lparr>default_time_zone = ''UTC'', default_locale = ''en-US''\<rparr>"

definition sample_seed :: execution_seed where
  "sample_seed = \<lparr>es_source_execution_id = None, es_correlation_id = Some ''c1'', es_causation_id = None,
     es_actor = demo_user, es_initiator = Some demo_admin, es_delegation = None, es_tenant = Some ''t1'',
     es_authentication = None, es_transport = \<lparr>tp_kind = Http, tp_name = None\<rparr>, es_trace = None,
     es_locale = None, es_time_zone = None, es_deadline = None\<rparr>"

definition sample_context :: execution_context where
  "sample_context = (case create_execution_context sample_intl sample_defaults sample_ids None sample_seed of Inr c \<Rightarrow> c)"

definition sample_work :: "rat \<Rightarrow> work" where
  "sample_work retries = \<lparr>wk_kind = Job_work, wk_target_id = ''job:a/b'', wk_event_id = None, wk_event_version = None,
     wk_payload = JNull, wk_policy = \<lparr>qp_retries = retries, qp_retry_delay = 1, qp_backoff = True, qp_timeout = 30\<rparr>,
     wk_available_at = Some 5, wk_idempotency_key = Some ''k''\<rparr>"

abbreviation sample_envelope :: "rat \<Rightarrow> json" where
  "sample_envelope retries \<equiv>
     create_queue_envelope sample_queue_host sample_digest sample_uuid (sample_work retries) sample_context"

lemma sample_host_ok: "queue_instants_read_back sample_queue_host" "hex_digest sample_digest" "uuid_text sample_uuid"
  "intl_resolves sample_intl"
proof -
  show "queue_instants_read_back sample_queue_host"
    by (simp add: queue_instants_read_back_def sample_queue_host_def unary_parse_text)
  show "hex_digest sample_digest"
    by (simp add: hex_digest_def sample_digest_def list_all_iff hex_char_def char_class_defs)
  show "uuid_text sample_uuid" by code_simp
  show "intl_resolves sample_intl" by (simp add: intl_resolves_def sample_intl_def)
qed

lemma sample_context_created:
  "create_execution_context sample_intl sample_defaults sample_ids None sample_seed = Inr sample_context"
  by code_simp

lemma sample_context_deliverable: "context_deliverable sample_queue_host sample_context"
  by code_simp

lemma sample_work_deliverable: "work_deliverable (sample_work q) \<longleftrightarrow> (\<exists>n::int. q = of_int n \<and> 0 \<le> n \<and> n \<le> 100)"
  by (simp add: work_deliverable_def sample_work_def text_within_def policy_deliverable_def)


theorem queued_work_runs_as_its_author_witness:
  "\<exists>c'. create_execution_context sample_intl sample_defaults sample_ids None
      (queue_seed sample_queue_host (sample_envelope 3) 1 None) = Inr c' \<and>
    ec_actor c' = demo_user \<and> ec_initiator c' = demo_admin \<and> ec_tenant c' = Some ''t1''"
proof -
  have "work_deliverable (sample_work 3)"
    unfolding sample_work_deliverable by (rule exI [of _ 3]) simp
  then have "assert_queue_delivery sample_queue_host (sample_envelope 3) (js_int 1) = Inr ()"
    using envelope_accepted [OF sample_host_ok(1-3)] sample_context_deliverable by simp
  moreover have "ec_actor sample_context = demo_user" "ec_initiator sample_context = demo_admin"
    "ec_tenant sample_context = Some ''t1''"
    by code_simp+
  ultimately show ?thesis
    using queued_work_runs_as_its_author [OF sample_host_ok sample_context_created] by metis
qed

end
