(* ===== verification/Cache.thy ===== *)
theory Cache
  imports Protocol
begin

text \<open>
  The application cache: \<open>MemoryCache\<close> of \<open>packages/core/src/cache.ts\<close> and
  \<open>PostgresCache\<close> of \<open>packages/postgres-drizzle/src/postgres-cache.ts\<close>, each against the one
  specification of what a cache keeps, through the locale \<open>cache_contract\<close>.

  Both are given the same clock, in milliseconds. The addition of two numbers is the host's,
  \<open>sum_of\<close>; so is what a \<open>jsonb\<close> column gives back of a value put in it, \<open>column\<close>. The
  statements of the Postgres cache are their effect on the rows of the table; a statement is atomic.
\<close>

subsection \<open>Calls and results\<close>

type_synonym cache_entry = "json \<times> rat option"

text \<open>The \<open>ttlSeconds\<close> of the options, if any. An infinite number stands for any that is not finite.\<close>

datatype cache_op =
    Get string
  | Put string json "jsnum option"
  | Add string json "jsnum option"
  | Increment string jsnum "jsnum option"
  | Forget string

datatype cache_result =
    Found "json option"
  | Stored
  | Added bool
  | Counted jsnum
  | Forgotten bool
  | Type_failure string
  | Database_failure

definition ttl_error :: string where
  "ttl_error = ''Cache ttlSeconds must be a positive finite number.''"

definition not_numeric :: "string \<Rightarrow> string" where
  "not_numeric key = ''Cache value '' @ key @ '' is not numeric.''"

fun op_key :: "cache_op \<Rightarrow> string" where
  "op_key (Get k) = k"
| "op_key (Put k v t) = k"
| "op_key (Add k v t) = k"
| "op_key (Increment k n t) = k"
| "op_key (Forget k) = k"

definition expired :: "rat \<Rightarrow> cache_entry \<Rightarrow> bool" where
  "expired now e = (case snd e of None \<Rightarrow> False | Some t \<Rightarrow> t \<le> now)"

definition live :: "rat \<Rightarrow> cache_entry option \<Rightarrow> cache_entry option" where
  "live now e = (case e of None \<Rightarrow> None | Some x \<Rightarrow> if expired now x then None else Some x)"

fun numeric :: "json \<Rightarrow> jsnum option" where
  "numeric (JNum n) = Some n"
| "numeric _ = None"

subsection \<open>In memory\<close>

definition expiry :: "jsnum option \<Rightarrow> rat \<Rightarrow> string + rat option" where
  "expiry ttl now = (case ttl of
     None \<Rightarrow> Inr None
   | Some (Inf s) \<Rightarrow> Inl ttl_error
   | Some (Fin q) \<Rightarrow> if q \<le> 0 then Inl ttl_error else Inr (Some (now + q * 1000)))"

type_synonym memory = "(string, cache_entry) omap"

definition live_entry :: "rat \<Rightarrow> string \<Rightarrow> memory \<Rightarrow> cache_entry option \<times> memory" where
  "live_entry now key m = (case om_get m key of
     None \<Rightarrow> (None, m)
   | Some e \<Rightarrow> if expired now e then (None, om_delete key m) else (Some e, m))"

fun memory_step :: "(jsnum \<Rightarrow> jsnum \<Rightarrow> jsnum) \<Rightarrow> rat \<Rightarrow> cache_op \<Rightarrow> memory \<Rightarrow> cache_result \<times> memory" where
  "memory_step sum_of now (Get key) m =
     (let (e, m') = live_entry now key m in (Found (map_option fst e), m'))"
| "memory_step sum_of now (Put key value ttl) m = (case expiry ttl now of
     Inl e \<Rightarrow> (Type_failure e, m)
   | Inr t \<Rightarrow> (Stored, om_set key (value, t) m))"
| "memory_step sum_of now (Add key value ttl) m = (case live_entry now key m of
     (Some e, m') \<Rightarrow> (Added False, m')
   | (None, m') \<Rightarrow> (case expiry ttl now of
       Inl e \<Rightarrow> (Type_failure e, m')
     | Inr t \<Rightarrow> (Added True, om_set key (value, t) m')))"
| "memory_step sum_of now (Increment key amount ttl) m = (case live_entry now key m of
     (Some (value, t), m') \<Rightarrow> (case numeric value of
         None \<Rightarrow> (Type_failure (not_numeric key), m')
       | Some n \<Rightarrow> (Counted (sum_of n amount), om_set key (JNum (sum_of n amount), t) m'))
   | (None, m') \<Rightarrow> (case expiry ttl now of
       Inl e \<Rightarrow> (Type_failure e, m')
     | Inr t \<Rightarrow> (Counted (sum_of (Fin 0) amount), om_set key (JNum (sum_of (Fin 0) amount), t) m')))"
| "memory_step sum_of now (Forget key) m = (Forgotten (om_has m key), om_delete key m)"

subsection \<open>In a table\<close>

text \<open>\<open>new Date(...)\<close> keeps whole milliseconds, in the range of dates.\<close>

definition expires_at :: "jsnum option \<Rightarrow> rat \<Rightarrow> string + rat option" where
  "expires_at ttl now = res_bind (expiry ttl now) (\<lambda>t. Inr (map_option (\<lambda>x. of_int \<lfloor>x\<rfloor>) t))"

definition invalid_date :: "rat option \<Rightarrow> bool" where
  "invalid_date t = (case t of None \<Rightarrow> False | Some x \<Rightarrow> x > 8640000000000000)"

fun postgres_step ::
  "(json \<Rightarrow> json) \<Rightarrow> (jsnum \<Rightarrow> jsnum \<Rightarrow> jsnum) \<Rightarrow> rat \<Rightarrow> cache_op \<Rightarrow> memory \<Rightarrow> cache_result \<times> memory" where
  "postgres_step column sum_of now (Get key) rows =
     (let rows' = filter (\<lambda>(k, e). \<not> (k = key \<and> expired now e)) rows in
      (Found (map_option fst (om_get rows' key)), rows'))"
| "postgres_step column sum_of now (Put key value ttl) rows = (case expires_at ttl now of
     Inl e \<Rightarrow> (Type_failure e, rows)
   | Inr t \<Rightarrow> if invalid_date t then (Database_failure, rows)
       else (Stored, om_set key (column value, t) rows))"
| "postgres_step column sum_of now (Add key value ttl) rows = (case expires_at ttl now of
     Inl e \<Rightarrow> (Type_failure e, rows)
   | Inr t \<Rightarrow> if invalid_date t then (Database_failure, rows)
       else (case om_get rows key of
           None \<Rightarrow> (Added True, om_set key (column value, t) rows)
         | Some old \<Rightarrow> if expired now old then (Added True, om_set key (column value, t) rows)
             else (Added False, rows)))"
| "postgres_step column sum_of now (Increment key amount ttl) rows = (case amount of
     Inf s \<Rightarrow> (Type_failure ''Cache increment amount must be finite.'', rows)
   | Fin q \<Rightarrow> (case expires_at ttl now of
       Inl e \<Rightarrow> (Type_failure e, rows)
     | Inr t \<Rightarrow> if invalid_date t then (Database_failure, rows)
         else (case om_get rows key of
             None \<Rightarrow> (Counted amount, om_set key (JNum amount, t) rows)
           | Some old \<Rightarrow>
               if expired now old then (Counted amount, om_set key (JNum amount, t) rows)
               else (case numeric (fst old) of
                   None \<Rightarrow> (Type_failure (not_numeric key), rows)
                 | Some n \<Rightarrow> (case sum_of n amount of
                     Inf s \<Rightarrow> (Database_failure, rows)
                   | Fin r \<Rightarrow> (Counted (Fin r), om_set key (JNum (Fin r), snd old) rows))))))"
| "postgres_step column sum_of now (Forget key) rows = (Forgotten (om_has rows key), om_delete key rows)"

subsection \<open>\<open>remember\<close>\<close>

text \<open>
  \<open>remember(key, produce, options)\<close> of the contract, over the steps of a cache: what it returns,
  whether it called \<open>produce\<close>, and the cache after. The clock is read at the look-up and at the put.
\<close>

definition remember ::
  "(rat \<Rightarrow> cache_op \<Rightarrow> 's \<Rightarrow> cache_result \<times> 's) \<Rightarrow> rat \<Rightarrow> rat \<Rightarrow> string \<Rightarrow> json \<Rightarrow> jsnum option \<Rightarrow> 's \<Rightarrow>
     cache_result \<times> bool \<times> 's" where
  "remember step now later key produced ttl s = (case step now (Get key) s of
     (Found (Some v), s') \<Rightarrow> (Found (Some v), False, s')
   | (_, s') \<Rightarrow> (case step later (Put key produced ttl) s' of
       (Stored, s'') \<Rightarrow> (Found (Some produced), True, s'')
     | (failure, s'') \<Rightarrow> (failure, True, s'')))"

fun run_cache :: "(rat \<Rightarrow> cache_op \<Rightarrow> 's \<Rightarrow> cache_result \<times> 's) \<Rightarrow> (rat \<times> cache_op) list \<Rightarrow> 's \<Rightarrow>
    cache_result list \<times> 's" where
  "run_cache step [] s = ([], s)"
| "run_cache step ((now, op) # ops) s =
     (let (r, s') = step now op s; (rs, s'') = run_cache step ops s' in (r # rs, s''))"

subsection \<open>What a cache promises\<close>

text \<open>
  The contents of a cache are a map from keys to values with their deadlines. An entry that has
  expired is still there until a call finds it: only \<open>forget\<close> can tell.
\<close>

type_synonym contents = "string \<Rightarrow> cache_entry option"

definition deadline :: "rat \<Rightarrow> jsnum option \<Rightarrow> rat option" where
  "deadline now ttl = (case ttl of Some (Fin q) \<Rightarrow> Some (now + q * 1000) | _ \<Rightarrow> None)"

fun spec_step :: "(jsnum \<Rightarrow> jsnum \<Rightarrow> jsnum) \<Rightarrow> rat \<Rightarrow> cache_op \<Rightarrow> contents \<Rightarrow> cache_result \<times> contents" where
  "spec_step sum_of now (Get k) M = (Found (map_option fst (live now (M k))), M(k := live now (M k)))"
| "spec_step sum_of now (Put k v ttl) M = (Stored, M(k := Some (v, deadline now ttl)))"
| "spec_step sum_of now (Add k v ttl) M = (case live now (M k) of
     None \<Rightarrow> (Added True, M(k := Some (v, deadline now ttl)))
   | Some e \<Rightarrow> (Added False, M))"
| "spec_step sum_of now (Increment k n ttl) M = (case live now (M k) of
     None \<Rightarrow> (Counted n, M(k := Some (JNum n, deadline now ttl)))
   | Some (v, t) \<Rightarrow> (case numeric v of
         None \<Rightarrow> (Type_failure (not_numeric k), M)
       | Some m \<Rightarrow> (Counted (sum_of m n), M(k := Some (JNum (sum_of m n), t)))))"
| "spec_step sum_of now (Forget k) M = (Forgotten (M k \<noteq> None), M(k := None))"

text \<open>
  A call is in order when its time limit is positive and ends on a whole millisecond of the
  calendar, its amount is a finite number of the
  machine (adding it to zero gives it back) and its value is one the column keeps.
\<close>

definition ttl_in_order :: "rat \<Rightarrow> jsnum option \<Rightarrow> bool" where
  "ttl_in_order now ttl = (case ttl of
     None \<Rightarrow> True
   | Some (Inf s) \<Rightarrow> False
   | Some (Fin q) \<Rightarrow> 0 < q \<and> of_int \<lfloor>now + q * 1000\<rfloor> = now + q * 1000 \<and> now + q * 1000 \<le> 8640000000000000)"

fun in_order :: "(json \<Rightarrow> json) \<Rightarrow> (jsnum \<Rightarrow> jsnum \<Rightarrow> jsnum) \<Rightarrow> rat \<Rightarrow> cache_op \<Rightarrow> bool" where
  "in_order column sum_of now (Put k v ttl) = (ttl_in_order now ttl \<and> column v = v)"
| "in_order column sum_of now (Add k v ttl) = (ttl_in_order now ttl \<and> column v = v)"
| "in_order column sum_of now (Increment k n ttl) = 
     (ttl_in_order now ttl \<and> (case n of Fin q \<Rightarrow> sum_of (Fin 0) n = n | Inf s \<Rightarrow> False))"
| "in_order column sum_of now _ = True"

fun overflowed :: "cache_result \<Rightarrow> bool" where
  "overflowed (Counted (Inf s)) = True"
| "overflowed _ = False"

lemma spec_step_other: "op_key op \<noteq> k \<Longrightarrow> snd (spec_step sum_of now op M) k = M k"
  by (cases op) (auto split: option.splits)

lemma run_untouched:
  "run_cache (spec_step sum_of) ops M = (rs, M') \<Longrightarrow> list_all (\<lambda>(now, op). op_key op \<noteq> k) ops \<Longrightarrow> M' k = M k"
proof (induction ops arbitrary: M rs)
  case (Cons top ops)
  obtain now op where top: "top = (now, op)" by (cases top)
  obtain rs' where "run_cache (spec_step sum_of) ops (snd (spec_step sum_of now op M)) = (rs', M')"
    using Cons.prems(1) by (auto simp: top split: prod.splits)
  from Cons.IH [OF this] show ?case
    using Cons.prems(2) by (simp add: top spec_step_other)
qed simp

locale cache_contract =
  fixes step :: "rat \<Rightarrow> cache_op \<Rightarrow> 's \<Rightarrow> cache_result \<times> 's"
    and contents_of :: "'s \<Rightarrow> contents"
    and sound :: "'s \<Rightarrow> bool"
    and column :: "json \<Rightarrow> json"
    and sum_of :: "jsnum \<Rightarrow> jsnum \<Rightarrow> jsnum"
  assumes step_spec:
      "sound s \<Longrightarrow> in_order column sum_of now op \<Longrightarrow> spec_step sum_of now op (contents_of s) = (r, M) \<Longrightarrow>
         \<not> overflowed r \<Longrightarrow> fst (step now op s) = r \<and> contents_of (snd (step now op s)) = M"
    and step_sound: "sound s \<Longrightarrow> sound (snd (step now op s))"
begin

lemma run_spec:
  "sound s \<Longrightarrow> list_all (\<lambda>(now, op). in_order column sum_of now op) ops \<Longrightarrow>
     run_cache (spec_step sum_of) ops (contents_of s) = (rs, M) \<Longrightarrow> list_all (\<lambda>r. \<not> overflowed r) rs \<Longrightarrow>
     fst (run_cache step ops s) = rs \<and> contents_of (snd (run_cache step ops s)) = M \<and> sound (snd (run_cache step ops s))"
proof (induction ops arbitrary: s rs M)
  case (Cons top ops)
  obtain now op where top: "top = (now, op)" by (cases top)
  obtain r M1 where one: "spec_step sum_of now op (contents_of s) = (r, M1)" by fastforce
  obtain rs' where run: "run_cache (spec_step sum_of) ops M1 = (rs', M)" and rs: "rs = r # rs'"
    using Cons.prems(3) one by (auto simp: top split: prod.splits)
  have "fst (step now op s) = r \<and> contents_of (snd (step now op s)) = M1"
    using step_spec [OF Cons.prems(1) _ one] Cons.prems by (simp add: top rs)
  then show ?case
    using Cons.IH [of "snd (step now op s)" rs' M] run Cons.prems step_sound
    by (auto simp: top rs split: prod.splits)
qed simp

lemma put_kept:
  assumes "sound s" and "in_order column sum_of now (Put k v ttl)"
    and "list_all (\<lambda>(t, op). in_order column sum_of t op \<and> op_key op \<noteq> k) ops"
    and "list_all (\<lambda>r. \<not> overflowed r) (fst (run_cache (spec_step sum_of) ops ((contents_of s)(k := Some (v, deadline now ttl)))))"
  shows "fst (step later (Get k) (snd (run_cache step ((now, Put k v ttl) # ops) s))) =
    Found (map_option fst (live later (Some (v, deadline now ttl))))"
proof -
  let ?M = "(contents_of s)(k := Some (v, deadline now ttl))"
  obtain rs M where run: "run_cache (spec_step sum_of) ops ?M = (rs, M)" by fastforce
  have "contents_of (snd (run_cache step ((now, Put k v ttl) # ops) s)) = M \<and>
      sound (snd (run_cache step ((now, Put k v ttl) # ops) s))"
    using run_spec [OF assms(1), of "(now, Put k v ttl) # ops" "Stored # rs" M] assms(2-4) run
    by (auto simp: list_all_iff split: prod.splits)
  moreover have "M k = Some (v, deadline now ttl)"
    using run_untouched [OF run, of k] assms(3) by (auto simp: list_all_iff split: prod.splits)
  ultimately show ?thesis
    using step_spec [where now = later and op = "Get k" and s = "snd (run_cache step ((now, Put k v ttl) # ops) s)"]
    by simp
qed

end

subsection \<open>Both caches keep it\<close>

lemma om_get_delete_fun: "om_get (om_delete k m) = (om_get m)(k := None)"
  by (rule ext) simp

lemma om_get_set_fun: "om_get (om_set k v m) = (om_get m)(k := Some v)"
  by (rule ext) simp

lemma ttl_accepted:
  "ttl_in_order now ttl \<Longrightarrow> expiry ttl now = Inr (deadline now ttl) \<and> expires_at ttl now = Inr (deadline now ttl) \<and>
     \<not> invalid_date (deadline now ttl)"
  by (auto simp: ttl_in_order_def expiry_def expires_at_def deadline_def invalid_date_def split: option.splits jsnum.splits)

lemma prune_expired:
  "om_ok m \<Longrightarrow> om_get (filter (\<lambda>(k, e). \<not> (k = key \<and> expired now e)) m) = (om_get m)(key := live now (om_get m key))"
proof (rule ext)
  fix k assume "om_ok m"
  have "filter (\<lambda>(k, e). \<not> (k = key \<and> expired now e)) m = om_prune (\<lambda>k e. k = key \<and> expired now e) m"
    by (auto simp: om_prune_def intro!: filter_cong)
  then show "om_get (filter (\<lambda>(k, e). \<not> (k = key \<and> expired now e)) m) k = ((om_get m)(key := live now (om_get m key))) k"
    using om_get_prune [OF \<open>om_ok m\<close>] by (auto simp: live_def split: option.splits)
qed

lemma memory_step_spec:
  assumes ok: "in_order column sum_of now op"
    and spec: "spec_step sum_of now op (om_get s) = (r, M)"
  shows "fst (memory_step sum_of now op s) = r \<and> om_get (snd (memory_step sum_of now op s)) = M"
proof (cases op)
  case (Get k)
  then show ?thesis using spec
    by (auto simp: live_entry_def live_def om_get_delete_fun split: option.splits)
next
  case (Put k v ttl)
  then show ?thesis using spec ok ttl_accepted by (auto simp: om_get_set_fun)
next
  case (Add k v ttl)
  then show ?thesis using spec ok ttl_accepted [of now ttl]
    by (auto simp: live_entry_def live_def om_get_set_fun om_get_delete_fun split: option.splits if_splits)
next
  case (Increment k n ttl)
  then show ?thesis using spec ok ttl_accepted [of now ttl]
    by (auto simp: live_entry_def live_def om_get_set_fun om_get_delete_fun split: option.splits if_splits jsnum.splits)
next
  case (Forget k)
  then show ?thesis using spec by (auto simp: om_get_delete_fun om_has_get)
qed

lemma postgres_step_spec:
  assumes wf: "om_ok s" and ok: "in_order column sum_of now op"
    and spec: "spec_step sum_of now op (om_get s) = (r, M)" and fine: "\<not> overflowed r"
  shows "fst (postgres_step column sum_of now op s) = r \<and> om_get (snd (postgres_step column sum_of now op s)) = M"
proof (cases op)
  case (Get k)
  then show ?thesis using spec prune_expired [OF wf] by auto
next
  case (Put k v ttl)
  then show ?thesis using spec ok ttl_accepted by (auto simp: om_get_set_fun)
next
  case (Add k v ttl)
  then show ?thesis using spec ok ttl_accepted [of now ttl]
    by (auto simp: live_def om_get_set_fun split: option.splits if_splits)
next
  case (Increment k n ttl)
  then show ?thesis using spec ok ttl_accepted [of now ttl] fine
    by (auto simp: live_def om_get_set_fun split: option.splits if_splits jsnum.splits)
next
  case (Forget k)
  then show ?thesis using spec by (auto simp: om_get_delete_fun om_has_get)
qed

lemma cache_steps_sound:
  "om_ok s \<Longrightarrow> om_ok (snd (memory_step sum_of now op s))"
  "om_ok s \<Longrightarrow> om_ok (snd (postgres_step column sum_of now op s))"
  by (cases op; auto simp: live_entry_def om_ok_filter Let_def split: option.splits sum.splits prod.splits jsnum.splits)+

interpretation memory_cache: cache_contract "memory_step sum_of" om_get om_ok column sum_of
  for sum_of column
  by unfold_locales (rule memory_step_spec, assumption+, rule cache_steps_sound, assumption)

interpretation postgres_cache: cache_contract "postgres_step column sum_of" om_get om_ok column sum_of
  for sum_of column
  by unfold_locales (rule postgres_step_spec, assumption+, rule cache_steps_sound, assumption)

text \<open>
  C34. The two caches are one. Any sequence of calls in order that counts past no finite number is
  answered alike, call by call, by the cache in memory and by the one in Postgres, expired entries
  and what \<open>forget\<close> says of them included: both answer as the map of keys to values and
  deadlines does.
\<close>

theorem caches_agree:
  assumes "list_all (\<lambda>(now, op). in_order column sum_of now op) ops"
    and "list_all (\<lambda>r. \<not> overflowed r) (fst (run_cache (spec_step sum_of) ops (\<lambda>k. None)))"
  shows "fst (run_cache (memory_step sum_of) ops []) = fst (run_cache (spec_step sum_of) ops (\<lambda>k. None)) \<and>
    fst (run_cache (postgres_step column sum_of) ops []) = fst (run_cache (spec_step sum_of) ops (\<lambda>k. None))"
proof -
  have start: "om_get [] = (\<lambda>k. None)" by (rule ext) simp
  obtain rs M where run: "run_cache (spec_step sum_of) ops (\<lambda>k. None) = (rs, M)" by fastforce
  then show ?thesis
    using memory_cache.run_spec [OF om_ok_nil, where ops = ops and column = column and sum_of = sum_of and rs = rs and M = M]
      postgres_cache.run_spec [OF om_ok_nil, where ops = ops and column = column and sum_of = sum_of and rs = rs and M = M] assms
    by (simp add: start)
qed

text \<open>
  A value that was put is found, by either cache and whatever happens to other keys, until its
  deadline and never from then on; without a time limit it stays.
\<close>

theorem cached_until_deadline:
  assumes "om_ok s" and "in_order column sum_of now (Put k v ttl)"
    and "list_all (\<lambda>(t, op). in_order column sum_of t op \<and> op_key op \<noteq> k) ops"
    and "list_all (\<lambda>r. \<not> overflowed r)
      (fst (run_cache (spec_step sum_of) ops ((om_get s)(k := Some (v, deadline now ttl)))))"
  shows "fst (memory_step sum_of later (Get k) (snd (run_cache (memory_step sum_of) ((now, Put k v ttl) # ops) s))) =
      Found (if expired later (v, deadline now ttl) then None else Some v) \<and>
    fst (postgres_step column sum_of later (Get k)
        (snd (run_cache (postgres_step column sum_of) ((now, Put k v ttl) # ops) s))) =
      Found (if expired later (v, deadline now ttl) then None else Some v)"
  using memory_cache.put_kept [OF assms, where later = later] postgres_cache.put_kept [OF assms, where later = later]
  by (simp add: live_def)

text \<open>Where they differ: a time limit that is not positive is only noticed in memory when it is used.\<close>

lemma bad_time_limit_unnoticed:
  assumes "om_get s k = Some (v, None)"
  shows "fst (memory_step sum_of now (Add k w (Some (Fin 0))) s) = Added False"
    and "fst (postgres_step column sum_of now (Add k w (Some (Fin 0))) s) = Type_failure ttl_error"
  using assms by (simp_all add: live_entry_def expired_def expires_at_def expiry_def)

lemma remember_produces_once:
  assumes "live now (om_get s k) = Some (v, t)"
  shows "fst (remember (memory_step sum_of) now later k produced ttl s) = Found (Some v) \<and>
    \<not> fst (snd (remember (memory_step sum_of) now later k produced ttl s))"
  using assms by (auto simp: remember_def live_entry_def live_def split: option.splits if_splits)

text \<open>A counter that expires, and a lock taken with \<open>add\<close>.\<close>

definition exact_sum :: "jsnum \<Rightarrow> jsnum \<Rightarrow> jsnum" where
  "exact_sum a b = (case (a, b) of (Fin p, Fin q) \<Rightarrow> Fin (p + q) | _ \<Rightarrow> Inf True)"

definition sample_calls :: "(rat \<times> cache_op) list" where
  "sample_calls = [(0, Increment ''n'' (Fin 2) (Some (Fin 1))), (10, Increment ''n'' (Fin 3) None),
     (20, Add ''lock'' (JStr ''me'') (Some (Fin 1))), (30, Add ''lock'' (JStr ''you'') None),
     (1000, Get ''n''), (1020, Add ''lock'' (JStr ''you'') None), (1030, Forget ''n'')]"

theorem caches_agree_witness:
  "fst (run_cache (memory_step exact_sum) sample_calls []) =
     [Counted (Fin 2), Counted (Fin 5), Added True, Added False, Found None, Added True, Forgotten False] \<and>
   fst (run_cache (postgres_step (\<lambda>v. v) exact_sum) sample_calls []) =
     [Counted (Fin 2), Counted (Fin 5), Added True, Added False, Found None, Added True, Forgotten False]"
proof -
  have spec: "fst (run_cache (spec_step exact_sum) sample_calls (\<lambda>k. None)) =
     [Counted (Fin 2), Counted (Fin 5), Added True, Added False, Found None, Added True, Forgotten False]"
    by (simp add: sample_calls_def live_def expired_def deadline_def exact_sum_def)
  have "list_all (\<lambda>(now, op). in_order (\<lambda>v. v) exact_sum now op) sample_calls"
    by (simp add: sample_calls_def ttl_in_order_def exact_sum_def)
  from caches_agree [OF this] show ?thesis by (simp add: spec)
qed

theorem cached_until_deadline_witness:
  "fst (memory_step exact_sum 999 (Get ''k'')
     (snd (run_cache (memory_step exact_sum) [(0, Put ''k'' JNull (Some (Fin 1))), (5, Forget ''n'')] []))) =
     Found (Some JNull) \<and>
   fst (postgres_step (\<lambda>v. v) exact_sum 1000 (Get ''k'')
     (snd (run_cache (postgres_step (\<lambda>v. v) exact_sum) [(0, Put ''k'' JNull (Some (Fin 1))), (5, Forget ''n'')] []))) =
     Found None"
proof -
  have order: "in_order (\<lambda>v. v) exact_sum 0 (Put ''k'' JNull (Some (Fin 1)))"
    "list_all (\<lambda>(t, op). in_order (\<lambda>v. v) exact_sum t op \<and> op_key op \<noteq> ''k'') [(5, Forget ''n'')]"
    "list_all (\<lambda>r. \<not> overflowed r) (fst (run_cache (spec_step exact_sum) [(5, Forget ''n'')]
       ((om_get [])(''k'' := Some (JNull, deadline 0 (Some (Fin 1)))))))"
    by (simp_all add: ttl_in_order_def)
  show ?thesis
    using cached_until_deadline [OF om_ok_nil order, of 999] cached_until_deadline [OF om_ok_nil order, of 1000]
    by (simp add: expired_def deadline_def)
qed

end
