(* ===== verification/UnitOfWork.thy ===== *)
theory UnitOfWork
  imports QueueContext DateTimeCodec
begin

text \<open>
  The unit of work of \<open>packages/postgres-drizzle/src/postgres-transaction-manager.ts\<close>: its
  operations on the framework's tables, the queue they run through, and the transaction around
  them; with the rule for delivery states of \<open>packages/core/src/communications.ts\<close>.

  A statement is its effect on the tables it names, which are lists and maps. Mapped tables and
  model queries, whose SQL is built from a compiled model, are not part of this theory. The times
  and the execution's context in the rows are left out; identifiers drawn at random are arguments.
\<close>

subsection \<open>Delivery states\<close>

datatype delivery_state =
    Pending | Accepted | Sent | Delivered | Undelivered | Failed | Suppressed | Cancelled

definition can_apply_delivery_transition :: "delivery_state \<Rightarrow> delivery_state \<Rightarrow> bool" where
  "can_apply_delivery_transition current_state next_state =
     (if current_state = next_state \<or> next_state = Suppressed then True
      else if current_state \<in> {Delivered, Failed, Suppressed, Cancelled} then False
      else if next_state = Accepted then current_state = Pending
      else if next_state = Sent then current_state = Pending \<or> current_state = Accepted
      else if next_state = Undelivered
        then current_state = Pending \<or> current_state = Accepted \<or> current_state = Sent
      else if next_state = Delivered \<or> next_state = Failed \<or> next_state = Cancelled then True
      else False)"

definition delivery_states :: "delivery_state list" where
  "delivery_states = [Pending, Accepted, Sent, Delivered, Undelivered, Failed, Suppressed, Cancelled]"

definition allowed_delivery_previous_states :: "delivery_state \<Rightarrow> delivery_state list" where
  "allowed_delivery_previous_states next_state =
     filter (\<lambda>c. can_apply_delivery_transition c next_state) delivery_states"

text \<open>The rule is a partial order on the states, so the library's facts about orders apply to it.\<close>

instantiation delivery_state :: order
begin

definition less_eq_delivery_state :: "delivery_state \<Rightarrow> delivery_state \<Rightarrow> bool" where
  "less_eq_delivery_state = can_apply_delivery_transition"

definition less_delivery_state :: "delivery_state \<Rightarrow> delivery_state \<Rightarrow> bool" where
  "less_delivery_state s t \<longleftrightarrow> can_apply_delivery_transition s t \<and> s \<noteq> t"

instance
proof
  fix s t u :: delivery_state
  show "s \<le> s" by (simp add: less_eq_delivery_state_def can_apply_delivery_transition_def)
  show "s \<le> t \<Longrightarrow> t \<le> s \<Longrightarrow> s = t"
    by (cases s; cases t; simp add: less_eq_delivery_state_def can_apply_delivery_transition_def)
  show "s < t \<longleftrightarrow> s \<le> t \<and> \<not> t \<le> s"
    by (cases s; cases t; simp add: less_eq_delivery_state_def less_delivery_state_def can_apply_delivery_transition_def)
  show "s \<le> t \<Longrightarrow> t \<le> u \<Longrightarrow> s \<le> u"
    by (cases t; cases s; cases u; simp add: less_eq_delivery_state_def can_apply_delivery_transition_def)
qed

end

lemma delivery_order:
  "s \<le> t \<longleftrightarrow> s \<in> set (allowed_delivery_previous_states t)" for s :: delivery_state
proof -
  have "s \<in> set delivery_states" by (cases s) (simp_all add: delivery_states_def)
  then show ?thesis by (simp add: allowed_delivery_previous_states_def less_eq_delivery_state_def)
qed

subsection \<open>The tables\<close>

record journal_fact =
  jf_id :: string
  jf_type :: string
  jf_version :: int
  jf_entity_type :: string
  jf_entity_id :: string
  jf_payload :: json

record outbox_message =
  ob_id :: string
  ob_type :: string
  ob_payload :: json
  ob_available_at :: "int option"

record staged_delivery =
  sd_id :: string
  sd_channel :: string
  sd_recipients :: "string list"
  sd_payload :: json

record delivery_transition =
  dt_message_id :: string
  dt_state :: delivery_state
  dt_provider_message_id :: "string option"
  dt_event_id :: "string option"
  dt_failure_kind :: "string option"
  dt_code :: "string option"

record delivery_row =
  dr_staged :: staged_delivery
  dr_state :: delivery_state
  dr_provider_message_id :: "string option"
  dr_failure_kind :: "string option"
  dr_failure_code :: "string option"

record database =
  db_entities :: "(string \<times> string, int \<times> json) omap"
  db_journal :: "journal_fact list"
  db_outbox :: "outbox_message list"
  db_deliveries :: "(string, delivery_row) omap"
  db_delivery_events :: "(string, string \<times> delivery_state) omap"

datatype work_error =
    Stale_unit_of_work
  | Optimistic_concurrency string string "int option"
  | Persistence_failure
  | Cancelled_execution
  | Dispatch_failure string
  | Payload_failure codec_error
  | Forbidden string
  | Application_failure string
  | After_commit_failure "work_error list"

datatype uow_result =
    Entity "(int \<times> json) option"
  | Version int
  | Row string
  | Nothing_returned

subsection \<open>The statements\<close>

definition find_entity :: "string \<Rightarrow> string \<Rightarrow> database \<Rightarrow> (work_error + uow_result) \<times> database" where
  [simp]: "find_entity type ident db = (Inr (Entity (om_get (db_entities db) (type, ident))), db)"

definition save_entity :: "string \<Rightarrow> string \<Rightarrow> int option \<Rightarrow> json \<Rightarrow> database \<Rightarrow>
    (work_error + uow_result) \<times> database" where
  "save_entity type ident expected state db = (case expected of
     None \<Rightarrow>
       if om_has (db_entities db) (type, ident)
       then (Inl (Optimistic_concurrency type ident None), db)
       else (Inr (Version 1), db\<lparr>db_entities := om_set (type, ident) (1, state) (db_entities db)\<rparr>)
   | Some v \<Rightarrow> (case om_get (db_entities db) (type, ident) of
       None \<Rightarrow> (Inl (Optimistic_concurrency type ident (Some v)), db)
     | Some (current, old) \<Rightarrow>
         if current \<noteq> v then (Inl (Optimistic_concurrency type ident (Some v)), db)
         else (Inr (Version (v + 1)), db\<lparr>db_entities := om_set (type, ident) (v + 1, state) (db_entities db)\<rparr>)))"

definition delete_entity :: "string \<Rightarrow> string \<Rightarrow> int \<Rightarrow> database \<Rightarrow> (work_error + uow_result) \<times> database" where
  "delete_entity type ident expected db = (case om_get (db_entities db) (type, ident) of
     None \<Rightarrow> (Inl (Optimistic_concurrency type ident (Some expected)), db)
   | Some (current, old) \<Rightarrow>
       if current \<noteq> expected then (Inl (Optimistic_concurrency type ident (Some expected)), db)
       else (Inr Nothing_returned, db\<lparr>db_entities := om_delete (type, ident) (db_entities db)\<rparr>))"

definition record_fact :: "journal_fact \<Rightarrow> database \<Rightarrow> (work_error + uow_result) \<times> database" where
  [simp]: "record_fact f db = (Inr (Row (jf_id f)), db\<lparr>db_journal := db_journal db @ [f]\<rparr>)"

definition enqueue_message :: "outbox_message \<Rightarrow> database \<Rightarrow> (work_error + uow_result) \<times> database" where
  [simp]: "enqueue_message msg db = (Inr (Row (ob_id msg)), db\<lparr>db_outbox := db_outbox db @ [msg]\<rparr>)"

text \<open>A staged delivery is pending; a second one with its identifier breaks the primary key.\<close>

definition stage_delivery :: "staged_delivery \<Rightarrow> database \<Rightarrow> (work_error + uow_result) \<times> database" where
  "stage_delivery d db =
     (if om_has (db_deliveries db) (sd_id d) then (Inl Persistence_failure, db)
      else (Inr Nothing_returned, db\<lparr>db_deliveries := om_set (sd_id d)
        \<lparr>dr_staged = d, dr_state = Pending, dr_provider_message_id = None, dr_failure_kind = None,
         dr_failure_code = None\<rparr> (db_deliveries db)\<rparr>))"

definition apply_transition :: "delivery_transition \<Rightarrow> delivery_row \<Rightarrow> delivery_row" where
  "apply_transition t row =
     (if dr_state row \<in> set (allowed_delivery_previous_states (dt_state t)) then
        row\<lparr>dr_state := dt_state t,
          dr_provider_message_id := (case truthy_string (dt_provider_message_id t) of
             None \<Rightarrow> dr_provider_message_id row | Some p \<Rightarrow> Some p),
          dr_failure_kind := dt_failure_kind t,
          dr_failure_code := dt_code t\<rparr>
      else row)"

definition update_delivery :: "delivery_transition \<Rightarrow> database \<Rightarrow> database" where
  "update_delivery t db = (case om_get (db_deliveries db) (dt_message_id t) of
     None \<Rightarrow> db
   | Some row \<Rightarrow> db\<lparr>db_deliveries := om_set (dt_message_id t) (apply_transition t row) (db_deliveries db)\<rparr>)"

text \<open>
  An event of the provider is recorded first, once: a row that references a delivery which is not
  there breaks the foreign key, one that is there already ends the call.
\<close>

definition transition_delivery :: "delivery_transition \<Rightarrow> database \<Rightarrow> (work_error + uow_result) \<times> database" where
  "transition_delivery t db = (case truthy_string (dt_event_id t) of
     None \<Rightarrow> (Inr Nothing_returned, update_delivery t db)
   | Some e \<Rightarrow>
       if om_has (db_delivery_events db) e then (Inr Nothing_returned, db)
       else if \<not> om_has (db_deliveries db) (dt_message_id t) then (Inl Persistence_failure, db)
       else (Inr Nothing_returned, update_delivery t
          (db\<lparr>db_delivery_events := om_set e (dt_message_id t, dt_state t) (db_delivery_events db)\<rparr>)))"

datatype uow_call =
    Find string string
  | Save string string "int option" json
  | Delete string string int
  | Record journal_fact
  | Enqueue outbox_message
  | Stage staged_delivery
  | Transition delivery_transition

fun statement :: "uow_call \<Rightarrow> database \<Rightarrow> (work_error + uow_result) \<times> database" where
  "statement (Find type ident) db = find_entity type ident db"
| "statement (Save type ident expected state) db = save_entity type ident expected state db"
| "statement (Delete type ident expected) db = delete_entity type ident expected db"
| "statement (Record f) db = record_fact f db"
| "statement (Enqueue msg) db = enqueue_message msg db"
| "statement (Stage d) db = stage_delivery d db"
| "statement (Transition t) db = transition_delivery t db"

subsection \<open>The unit of work\<close>

text \<open>
  \<open>PostgresOperationQueue\<close> runs the operations one after another in the order of the calls, and
  the first that fails is the failure of every later one. A closed unit of work takes none.
\<close>

record 'c unit_of_work =
  uw_db :: database
  uw_active :: bool
  uw_failure :: "work_error option"
  uw_after_commit :: "'c list"

definition new_unit_of_work :: "database \<Rightarrow> 'c unit_of_work" where
  "new_unit_of_work db = \<lparr>uw_db = db, uw_active = True, uw_failure = None, uw_after_commit = []\<rparr>"

definition run_operation :: "uow_call \<Rightarrow> 'c unit_of_work \<Rightarrow> (work_error + uow_result) \<times> 'c unit_of_work" where
  "run_operation c u =
     (if \<not> uw_active u then (Inl Stale_unit_of_work, u)
      else (case uw_failure u of
          Some e \<Rightarrow> (Inl e, u)
        | None \<Rightarrow> (case statement c (uw_db u) of
            (Inl e, db) \<Rightarrow> (Inl e, u\<lparr>uw_failure := Some e\<rparr>)
          | (Inr r, db) \<Rightarrow> (Inr r, u\<lparr>uw_db := db\<rparr>))))"

definition after_commit :: "'c \<Rightarrow> 'c unit_of_work \<Rightarrow> (work_error + uow_result) \<times> 'c unit_of_work" where
  "after_commit c u =
     (if \<not> uw_active u then (Inl Stale_unit_of_work, u)
      else (Inr Nothing_returned, u\<lparr>uw_after_commit := uw_after_commit u @ [c]\<rparr>))"

text \<open>
  What the application does in a transaction: it returns, or it makes a call and goes on with its
  result, which may be an error it catches.
\<close>

datatype ('c, 'a) transaction_work =
    Return "work_error + 'a"
  | Call uow_call "work_error + uow_result \<Rightarrow> ('c, 'a) transaction_work"
  | After 'c "work_error + uow_result \<Rightarrow> ('c, 'a) transaction_work"

text \<open>\<open>runTransactionWork\<close> up to its \<open>drain\<close>; the execution is cancelled after \<open>limit\<close> calls, if at all.\<close>

primrec run_work :: "('c, 'a) transaction_work \<Rightarrow> nat option \<Rightarrow> 'c unit_of_work \<Rightarrow>
    (work_error + 'a) \<times> 'c unit_of_work" where
  "run_work (Return r) limit u = (if limit = Some 0 then (Inl Cancelled_execution, u) else (r, u))"
| "run_work (Call c k) limit u =
     (if limit = Some 0 then (Inl Cancelled_execution, u)
      else (let (r, u') = run_operation c u in run_work (k r) (map_option (\<lambda>n. n - 1) limit) u'))"
| "run_work (After c k) limit u =
     (if limit = Some 0 then (Inl Cancelled_execution, u)
      else (let (r, u') = after_commit c u in run_work (k r) (map_option (\<lambda>n. n - 1) limit) u'))"

definition run_transaction_work :: "('c, 'a) transaction_work \<Rightarrow> nat option \<Rightarrow> 'c unit_of_work \<Rightarrow>
    (work_error + 'a) \<times> 'c unit_of_work" where
  "run_transaction_work work limit u = (case run_work work limit u of
     (Inl e, u') \<Rightarrow> (Inl e, u'\<lparr>uw_active := False\<rparr>)
   | (Inr v, u') \<Rightarrow> ((case uw_failure u' of Some e \<Rightarrow> Inl e | None \<Rightarrow> Inr v), u'\<lparr>uw_active := False\<rparr>))"

text \<open>\<open>releaseAfterCommit\<close>: every callback runs, and the failures of all are thrown together.\<close>

fun release_after_commit :: "('c \<Rightarrow> 's \<Rightarrow> work_error option \<times> 's) \<Rightarrow> 'c list \<Rightarrow> 's \<Rightarrow> work_error list \<times> 's" where
  "release_after_commit run [] s = ([], s)"
| "release_after_commit run (c # cs) s =
     (let (e, s') = run c s; (es, s'') = release_after_commit run cs s'
      in ((case e of None \<Rightarrow> es | Some x \<Rightarrow> x # es), s''))"

text \<open>
  \<open>transaction(context, work)\<close>: the answer, the tables it leaves, and whether it committed. The
  callbacks run on a state \<open>'s\<close> of their own, after the commit.
\<close>

definition transaction :: "('c \<Rightarrow> 's \<Rightarrow> work_error option \<times> 's) \<Rightarrow> ('c, 'a) transaction_work \<Rightarrow> nat option \<Rightarrow>
    database \<Rightarrow> 's \<Rightarrow> (work_error + 'a) \<times> database \<times> 's" where
  "transaction run work limit db s = (case run_transaction_work work limit (new_unit_of_work db) of
     (Inl e, u) \<Rightarrow> (Inl e, db, s)
   | (Inr v, u) \<Rightarrow> (case release_after_commit run (uw_after_commit u) s of
       ([], s') \<Rightarrow> (Inr v, uw_db u, s')
     | (es, s') \<Rightarrow> (Inl (After_commit_failure es), uw_db u, s')))"

subsection \<open>All or nothing\<close>

text \<open>The calls a work issues and the callbacks it registers, in order, however they end.\<close>

primrec issued :: "('c, 'a) transaction_work \<Rightarrow> nat option \<Rightarrow> 'c unit_of_work \<Rightarrow> uow_call list \<times> 'c list" where
  "issued (Return r) limit u = ([], [])"
| "issued (Call c k) limit u =
     (if limit = Some 0 then ([], [])
      else (let (r, u') = run_operation c u; (cs, bs) = issued (k r) (map_option (\<lambda>n. n - 1) limit) u'
            in (c # cs, bs)))"
| "issued (After b k) limit u =
     (if limit = Some 0 then ([], [])
      else (let (r, u') = after_commit b u; (cs, bs) = issued (k r) (map_option (\<lambda>n. n - 1) limit) u'
            in (cs, b # bs)))"

fun all_succeed :: "uow_call list \<Rightarrow> database \<Rightarrow> database \<Rightarrow> bool" where
  "all_succeed [] db db' \<longleftrightarrow> db' = db"
| "all_succeed (c # cs) db db' \<longleftrightarrow> (\<exists>r mid. statement c db = (Inr r, mid) \<and> all_succeed cs mid db')"

lemma run_operation_failed: "uw_failure u = Some e \<Longrightarrow> uw_failure (snd (run_operation c u)) = Some e"
  by (simp add: run_operation_def)

lemma after_commit_active: "uw_active u \<Longrightarrow> after_commit b u = (Inr Nothing_returned, u\<lparr>uw_after_commit := uw_after_commit u @ [b]\<rparr>)"
  by (simp add: after_commit_def)

lemma run_work_failed: "uw_failure u = Some e \<Longrightarrow> uw_failure (snd (run_work work limit u)) \<noteq> None"
proof (induction work arbitrary: limit u)
  case (Call c k)
  then show ?case using run_operation_failed [OF Call.prems, of c]
    by (auto split: prod.splits)
next
  case (After b k)
  then show ?case by (auto simp: after_commit_def split: prod.splits)
qed auto

lemma run_work_commits:
  "run_work work limit u = (r, u') \<Longrightarrow> uw_active u \<Longrightarrow> uw_failure u' = None \<Longrightarrow>
     all_succeed (fst (issued work limit u)) (uw_db u) (uw_db u') \<and>
     uw_after_commit u' = uw_after_commit u @ snd (issued work limit u)"
proof (induction work arbitrary: limit u)
  case (Return v)
  then show ?case by (auto split: if_splits)
next
  case (Call c k)
  show ?case
  proof (cases "limit = Some 0")
    case False
    obtain res u1 where one: "run_operation c u = (res, u1)" by fastforce
    let ?limit = "map_option (\<lambda>n. n - 1) limit"
    from Call.prems False one have rest: "run_work (k res) ?limit u1 = (r, u')" by simp
    have "uw_failure u1 = None"
      using run_work_failed [of u1 _ "k res" ?limit] rest Call.prems(3) by fastforce
    with one Call.prems(2) obtain v where step: "statement c (uw_db u) = (Inr v, uw_db u1)" "uw_active u1"
      "uw_after_commit u1 = uw_after_commit u"
      by (auto simp: run_operation_def split: option.splits prod.splits sum.splits)
    from Call.IH [OF _ rest step(2) Call.prems(3)] show ?thesis
      using False one step by (auto split: prod.splits)
  qed (use Call.prems in simp)
next
  case (After b k)
  show ?case
  proof (cases "limit = Some 0")
    case False
    let ?limit = "map_option (\<lambda>n. n - 1) limit" and ?u = "u\<lparr>uw_after_commit := uw_after_commit u @ [b]\<rparr>"
    from After.prems False have rest: "run_work (k (Inr Nothing_returned)) ?limit ?u = (r, u')"
      by (simp add: after_commit_active)
    from After.IH [OF _ rest] show ?thesis
      using False After.prems by (auto simp: after_commit_active split: prod.splits)
  qed (use After.prems in simp)
qed

text \<open>
  C3. A transaction is all or nothing, whatever the application does in it. Either it fails, the
  tables stay as they were and no callback runs; or every operation the work issued succeeded, one
  whose error the application swallowed included, the tables are those the operations leave, and
  after the commit every registered callback runs once, in order: the answer is then the work's own,
  or the failures of the callbacks.
\<close>

theorem transaction_all_or_nothing:
  assumes "transaction run work limit db s = (r, db', s')"
  shows "(\<exists>e. r = Inl e) \<and> db' = db \<and> s' = s \<or>
    all_succeed (fst (issued work limit (new_unit_of_work db))) db db' \<and>
    (\<exists>es. release_after_commit run (snd (issued work limit (new_unit_of_work db))) s = (es, s') \<and>
       (if es = [] then \<exists>v. r = Inr v else r = Inl (After_commit_failure es)))"
proof -
  obtain res u where work: "run_work work limit (new_unit_of_work db) = (res, u)" by fastforce
  show ?thesis
  proof (cases "\<exists>v. res = Inr v \<and> uw_failure u = None")
    case False
    then show ?thesis using assms work
      by (auto simp: transaction_def run_transaction_work_def split: sum.splits option.splits)
  next
    case True
    then obtain v where v: "res = Inr v" "uw_failure u = None" by blast
    from run_work_commits [OF work _ v(2)]
    have "all_succeed (fst (issued work limit (new_unit_of_work db))) db (uw_db u)"
      "uw_after_commit u = snd (issued work limit (new_unit_of_work db))"
      by (simp_all add: new_unit_of_work_def)
    with assms work v show ?thesis
      by (auto simp: transaction_def run_transaction_work_def split: prod.splits list.splits)
  qed
qed

subsection \<open>Concurrent changes of an entity\<close>

fun entity_version :: "database \<Rightarrow> string \<times> string \<Rightarrow> int option" where
  "entity_version db key = map_option fst (om_get (db_entities db) key)"

fun deletes :: "string \<times> string \<Rightarrow> uow_call \<Rightarrow> bool" where
  "deletes key (Delete type ident v) = ((type, ident) = key)"
| "deletes key _ = False"

lemma update_delivery_entities [simp]: "db_entities (update_delivery t db) = db_entities db"
  by (simp add: update_delivery_def split: option.splits)

lemma transition_entities [simp]: "db_entities (snd (transition_delivery t db)) = db_entities db"
  by (simp add: transition_delivery_def split: option.splits)

lemma stage_entities [simp]: "db_entities (snd (stage_delivery d db)) = db_entities db"
  by (simp add: stage_delivery_def)

lemma version_grows:
  assumes "\<not> deletes key c" and "entity_version db key = Some v"
  shows "\<exists>v' \<ge> v. entity_version (snd (statement c db)) key = Some v'"
  using assms
  by (cases c) (auto simp: save_entity_def delete_entity_def om_has_get split: option.splits)

lemma versions_grow:
  "list_all (\<lambda>c. \<not> deletes key c) cs \<Longrightarrow> entity_version db key = Some v \<Longrightarrow>
     \<exists>v' \<ge> v. entity_version (fold (\<lambda>c d. snd (statement c d)) cs db) key = Some v'"
proof (induction cs arbitrary: db v)
  case (Cons c cs)
  then obtain v1 where "v1 \<ge> v" "entity_version (snd (statement c db)) key = Some v1"
    using version_grows [of key c db v] by auto
  with Cons.IH [of "snd (statement c db)" v1] Cons.prems(1) show ?case by fastforce
qed auto

text \<open>
  C36. No update is lost. After one save that expected version \<open>v\<close> of an entity has succeeded,
  and whatever statements of whatever transactions have run since, short of deleting the entity,
  another save that expects version \<open>v\<close> is refused as a concurrent change and changes nothing.
\<close>

theorem no_lost_update:
  assumes "statement (Save type ident (Some v) state) db = (Inr r, db1)"
    and "list_all (\<lambda>c. \<not> deletes (type, ident) c) cs"
    and "db2 = fold (\<lambda>c d. snd (statement c d)) cs db1"
  shows "statement (Save type ident (Some v) state') db2 = (Inl (Optimistic_concurrency type ident (Some v)), db2)"
proof -
  from assms(1) have "entity_version db1 (type, ident) = Some (v + 1)"
    by (auto simp: save_entity_def split: option.splits if_splits)
  then obtain v' where "v' \<ge> v + 1" "entity_version db2 (type, ident) = Some v'"
    using versions_grow [OF assms(2)] assms(3) by blast
  then show ?thesis by (auto simp: save_entity_def)
qed

text \<open>An entity that is deleted and created again starts over, and with it its versions.\<close>

lemma recreated_entity_accepts_stale_version:
  "fst (statement (Save t i (Some 1) new)
     (fold (\<lambda>c d. snd (statement c d)) [Save t i (Some 1) a, Delete t i 2, Save t i None b] db)) = Inr (Version 2)"
  if "om_get (db_entities db) (t, i) = Some (1, old)"
  using that by (simp add: save_entity_def delete_entity_def om_has_get)

subsection \<open>Reports of a delivery\<close>

definition delivery_state_of :: "database \<Rightarrow> string \<Rightarrow> delivery_state option" where
  "delivery_state_of db i = map_option dr_state (om_get (db_deliveries db) i)"

definition reported :: "database \<Rightarrow> delivery_transition \<Rightarrow> bool" where
  "reported db t \<longleftrightarrow> (case truthy_string (dt_event_id t) of None \<Rightarrow> False | Some e \<Rightarrow> om_has (db_delivery_events db) e)"

text \<open>Two reports that carry the same event of the provider say the same.\<close>

definition consistent_reports :: "delivery_transition list \<Rightarrow> bool" where
  "consistent_reports ts \<longleftrightarrow> (\<forall>t\<in>set ts. \<forall>t'\<in>set ts.
     truthy_string (dt_event_id t) \<noteq> None \<longrightarrow> truthy_string (dt_event_id t') = truthy_string (dt_event_id t) \<longrightarrow>
     dt_state t' = dt_state t)"

lemma apply_transition_state:
  "dr_state (apply_transition t row) = (if dr_state row \<le> dt_state t then dt_state t else dr_state row)"
  by (simp add: apply_transition_def delivery_order)

lemma update_delivery_state:
  "delivery_state_of (update_delivery t db) i =
     (if i = dt_message_id t then map_option (\<lambda>s. if s \<le> dt_state t then dt_state t else s) (delivery_state_of db i)
      else delivery_state_of db i)"
  by (auto simp: update_delivery_def delivery_state_of_def apply_transition_state split: option.splits)

lemma update_delivery_events [simp]: "db_delivery_events (update_delivery t db) = db_delivery_events db"
  by (simp add: update_delivery_def split: option.splits)

lemma delivery_state_of_events [simp]: "delivery_state_of (db\<lparr>db_delivery_events := es\<rparr>) i = delivery_state_of db i"
  by (simp add: delivery_state_of_def)

lemma transition_delivery_state:
  assumes "delivery_state_of db (dt_message_id t) = Some s"
  shows "delivery_state_of (snd (transition_delivery t db)) (dt_message_id t) =
      Some (if reported db t then s else if s \<le> dt_state t then dt_state t else s)"
    and "reported (snd (transition_delivery t db)) t' \<longleftrightarrow>
      reported db t' \<or> truthy_string (dt_event_id t') \<noteq> None \<and> truthy_string (dt_event_id t') = truthy_string (dt_event_id t)"
proof -
  from assms have "om_has (db_deliveries db) (dt_message_id t)"
    by (auto simp: delivery_state_of_def om_has_get)
  with assms show "delivery_state_of (snd (transition_delivery t db)) (dt_message_id t) =
      Some (if reported db t then s else if s \<le> dt_state t then dt_state t else s)"
    and "reported (snd (transition_delivery t db)) t' \<longleftrightarrow>
      reported db t' \<or> truthy_string (dt_event_id t') \<noteq> None \<and> truthy_string (dt_event_id t') = truthy_string (dt_event_id t)"
    by (auto simp: transition_delivery_def reported_def update_delivery_state split: option.splits)
qed

lemma consistent_reports_tail: "consistent_reports (t # ts) \<Longrightarrow> consistent_reports ts"
  unfolding consistent_reports_def by (meson list.set_intros(2))

lemma consistent_reportsD:
  "consistent_reports ts \<Longrightarrow> t \<in> set ts \<Longrightarrow> t' \<in> set ts \<Longrightarrow> truthy_string (dt_event_id t) \<noteq> None \<Longrightarrow>
     truthy_string (dt_event_id t') = truthy_string (dt_event_id t) \<Longrightarrow> dt_state t' = dt_state t"
  unfolding consistent_reports_def by blast

lemma reports_settle:
  assumes "list_all (\<lambda>t. dt_message_id t = i \<and> dt_state t \<le> g) ts" and "consistent_reports ts"
    and "delivery_state_of db i = Some s" and "s \<le> g" and "g \<in> dt_state ` set ts \<or> s = g"
    and "\<forall>t\<in>set ts. reported db t \<longrightarrow> dt_state t = g \<longrightarrow> s = g"
  shows "delivery_state_of (fold (\<lambda>t d. snd (transition_delivery t d)) ts db) i = Some g"
  using assms
proof (induction ts arbitrary: db s)
  case (Cons t ts)
  let ?db = "snd (transition_delivery t db)" and ?n = "dt_state t"
  let ?s = "if reported db t then s else if s \<le> ?n then ?n else s"
  have t: "dt_message_id t = i" "?n \<le> g" using Cons.prems(1) by auto
  note step = transition_delivery_state [of db t s, unfolded t(1), OF Cons.prems(3)]
  have top: "s = g \<Longrightarrow> ?s = g" using t(2) by auto
  have reach: "?n = g \<Longrightarrow> ?s = g"
    using Cons.prems(4,6) by auto
  have "delivery_state_of (fold (\<lambda>t d. snd (transition_delivery t d)) ts ?db) i = Some g"
  proof (rule Cons.IH [of _ ?s])
    show "list_all (\<lambda>t. dt_message_id t = i \<and> dt_state t \<le> g) ts" using Cons.prems(1) by simp
    show "consistent_reports ts" using Cons.prems(2) by (rule consistent_reports_tail)
    show "delivery_state_of ?db i = Some ?s" by (rule step(1))
    show "?s \<le> g" using t(2) Cons.prems(4) by auto
    from Cons.prems(5) consider "g \<in> dt_state ` set ts" | "?n = g" | "s = g" by auto
    then show "g \<in> dt_state ` set ts \<or> ?s = g"
    proof cases
      case 1 then show ?thesis by (rule disjI1)
    next
      case 2 then show ?thesis by (intro disjI2 reach)
    next
      case 3 then show ?thesis by (intro disjI2 top)
    qed
    show "\<forall>t'\<in>set ts. reported ?db t' \<longrightarrow> dt_state t' = g \<longrightarrow> ?s = g"
    proof (intro ballI impI)
      fix t' assume t': "t' \<in> set ts" "reported ?db t'" "dt_state t' = g"
      from t'(2) consider "reported db t'" |
        "truthy_string (dt_event_id t) \<noteq> None" "truthy_string (dt_event_id t') = truthy_string (dt_event_id t)"
        unfolding step(2) by (elim disjE conjE) simp_all
      then show "?s = g"
      proof cases
        case 1
        then have "s = g" using Cons.prems(6) t' by auto
        then show ?thesis by (rule top)
      next
        case 2
        then have "dt_state t' = ?n" by (intro consistent_reportsD [OF Cons.prems(2)]) (use t'(1) in auto)
        then show ?thesis using t'(3) reach by simp
      qed
    qed
  qed
  then show ?case by simp
qed simp

text \<open>
  The reports of a delivery settle it whatever order they come in. If one of the states
  reported for a staged delivery outranks its present state and all others reported, the delivery
  ends in it, in whatever order and however often the reports arrive, as long as reports with the
  same event of the provider agree and none was recorded before.
\<close>

theorem delivery_reports_settle:
  assumes "list_all (\<lambda>t. dt_message_id t = i \<and> dt_state t \<le> g \<and> \<not> reported db t) ts" and "consistent_reports ts"
    and "delivery_state_of db i = Some s" and "s \<le> g" and "g \<in> dt_state ` set ts"
  shows "delivery_state_of (fold (\<lambda>t d. snd (transition_delivery t d)) ts db) i = Some g"
  by (rule reports_settle [of i g ts db s]) (use assms in \<open>auto simp: list_all_iff\<close>)

subsection \<open>Witnesses\<close>

definition empty_database :: database where
  "empty_database = \<lparr>db_entities = [], db_journal = [], db_outbox = [], db_deliveries = [], db_delivery_events = []\<rparr>"

text \<open>A work that swallows the failure of a save still rolls back.\<close>

definition swallowing_work :: "(nat, unit) transaction_work" where
  "swallowing_work = Call (Enqueue \<lparr>ob_id = ''o'', ob_type = ''t'', ob_payload = JNull, ob_available_at = None\<rparr>)
     (\<lambda>_. Call (Save ''user'' ''u'' (Some 3) JNull) (\<lambda>_. Return (Inr ())))"

definition plain_work :: "(nat, unit) transaction_work" where
  "plain_work = After 7 (\<lambda>_. Call (Save ''user'' ''u'' None JNull) (\<lambda>_. Return (Inr ())))"

definition note_callback :: "nat \<Rightarrow> nat list \<Rightarrow> work_error option \<times> nat list" where
  "note_callback n seen = (None, seen @ [n])"

theorem transaction_all_or_nothing_witness:
  "(\<exists>e. transaction note_callback swallowing_work None empty_database [] = (Inl e, empty_database, [])) \<and>
   (\<exists>db. transaction note_callback plain_work None empty_database [] = (Inr (), db, [7]) \<and>
     all_succeed [Save ''user'' ''u'' None JNull] empty_database db)"
proof -
  have "\<exists>e. transaction note_callback swallowing_work None empty_database [] = (Inl e, empty_database, [])"
    by (simp add: transaction_def run_transaction_work_def swallowing_work_def run_operation_def new_unit_of_work_def
        save_entity_def empty_database_def)
  moreover obtain r db s where run: "transaction note_callback plain_work None empty_database [] = (r, db, s)"
    by (metis prod_cases3)
  moreover have "r = Inr () \<and> s = [7]"
    using run by (simp add: transaction_def run_transaction_work_def plain_work_def run_operation_def after_commit_def
        new_unit_of_work_def save_entity_def empty_database_def note_callback_def)
  moreover have "fst (issued plain_work None (new_unit_of_work empty_database)) = [Save ''user'' ''u'' None JNull]"
    by (simp add: plain_work_def)
  ultimately show ?thesis
    using transaction_all_or_nothing [OF run] by auto
qed

theorem no_lost_update_witness:
  "statement (Save ''user'' ''u'' (Some 1) (JBool True))
     (snd (statement (Save ''user'' ''u'' (Some 1) JNull)
       (empty_database\<lparr>db_entities := [((''user'', ''u''), (1, JNull))]\<rparr>))) =
   (Inl (Optimistic_concurrency ''user'' ''u'' (Some 1)),
    empty_database\<lparr>db_entities := [((''user'', ''u''), (2, JNull))]\<rparr>)"
proof -
  let ?db = "empty_database\<lparr>db_entities := [((''user'', ''u''), (1, JNull))]\<rparr>"
  let ?db1 = "empty_database\<lparr>db_entities := [((''user'', ''u''), (2, JNull))]\<rparr>"
  have "statement (Save ''user'' ''u'' (Some 1) JNull) ?db = (Inr (Version 2), ?db1)"
    by (simp add: save_entity_def empty_database_def om_get_def)
  from no_lost_update [OF this, of "[]"] this show ?thesis by simp
qed

definition delivered_report :: delivery_transition where
  "delivered_report = \<lparr>dt_message_id = ''m'', dt_state = Delivered, dt_provider_message_id = None,
     dt_event_id = Some ''e2'', dt_failure_kind = None, dt_code = None\<rparr>"

definition sent_report :: delivery_transition where
  "sent_report = delivered_report\<lparr>dt_state := Sent, dt_event_id := Some ''e1''\<rparr>"

definition staged_database :: database where
  "staged_database = snd (stage_delivery \<lparr>sd_id = ''m'', sd_channel = ''mail'', sd_recipients = [], sd_payload = JNull\<rparr> empty_database)"

theorem delivery_reports_settle_witness:
  "delivery_state_of (fold (\<lambda>t d. snd (transition_delivery t d)) [delivered_report, sent_report, delivered_report]
     staged_database) ''m'' = Some Delivered"
proof (rule delivery_reports_settle)
  show "delivery_state_of staged_database ''m'' = Some Pending"
    by (simp add: staged_database_def stage_delivery_def empty_database_def delivery_state_of_def om_get_def)
  show "list_all (\<lambda>t. dt_message_id t = ''m'' \<and> dt_state t \<le> Delivered \<and> \<not> reported staged_database t)
      [delivered_report, sent_report, delivered_report]"
    by (simp add: delivered_report_def sent_report_def reported_def staged_database_def stage_delivery_def empty_database_def
        less_eq_delivery_state_def can_apply_delivery_transition_def)
  show "consistent_reports [delivered_report, sent_report, delivered_report]"
    by (simp add: consistent_reports_def delivered_report_def sent_report_def)
qed (simp_all add: delivered_report_def less_eq_delivery_state_def can_apply_delivery_transition_def)

end
