(* ===== verification/EventDispatch.thy ===== *)
theory EventDispatch
  imports UnitOfWork "HOL-Library.Multiset"
begin

text \<open>
  The dispatch of events in \<open>packages/runtime/src/runtime.ts\<close>: \<open>dispatchEvent\<close>,
  \<open>dispatchEventNow\<close>, the queueing of listeners and broadcasts, \<open>publishBroadcast\<close> and
  \<open>invokeListener\<close>, with what the unit of work of the execution makes of them.

  What the application and the services answer is the environment; the fake of the testing package
  is not installed. Observations and logging are left out.
\<close>

subsection \<open>Manifests, events, environment\<close>

datatype listener_delivery = Local | After_commit | Queued | Queued_after_commit

record listener =
  ls_id :: string
  ls_delivery :: listener_delivery
  ls_access :: string

datatype broadcast_mode = No_broadcast | Broadcast_queued | Broadcast_now

record event_manifest =
  em_id :: string
  em_payload_version :: int
  em_domain :: "string option"
  em_after_commit :: bool
  em_broadcast :: broadcast_mode

record 'd event =
  ev_payload :: "'d jsvalue"
  ev_entity_id :: string
  ev_broadcast_on :: "destination list option"
  ev_broadcast_as :: "string option"
  ev_broadcast_with :: "'d jsvalue option"

datatype 'd effect =
    Listener_handled string "'d event"
  | Work_enqueued json
  | Message_published broadcast_message

datatype 'd callback = Run_listener listener "'d event" | Run_event event_manifest "'d event"

record 'd environment =
  en_date_host :: "'d date_host"
  en_queue_host :: queue_host
  en_digest :: "string \<Rightarrow> string"
  en_random :: "nat \<Rightarrow> string"
  en_clock :: string
  en_context :: execution_context
  en_realtime :: bool
  en_cancelled :: bool
  en_queues :: bool
  en_broadcasting :: bool
  en_listeners :: "string \<Rightarrow> listener list"
  en_authorize :: "string \<Rightarrow> work_error option"
  en_handle :: "string \<Rightarrow> 'd event \<Rightarrow> work_error option"
  en_enqueue :: "json \<Rightarrow> work_error option"
  en_publish :: "broadcast_message \<Rightarrow> work_error option"

text \<open>The execution: its unit of work, if one is open, what happened, the identifiers drawn.\<close>

record 'd execution =
  xe_uow :: "'d callback unit_of_work option"
  xe_log :: "'d effect list"
  xe_drawn :: nat

type_synonym 'd action = "'d execution \<Rightarrow> work_error option \<times> 'd execution"

definition and_then :: "'d action \<Rightarrow> 'd action \<Rightarrow> 'd action" where
  "and_then a b s = (case a s of (Some e, s') \<Rightarrow> (Some e, s') | (None, s') \<Rightarrow> b s')"

definition fail :: "work_error \<Rightarrow> 'd action" where
  "fail e s = (Some e, s)"

definition nothing_more :: "'d action" where
  "nothing_more s = (None, s)"

text \<open>\<open>for (const x of xs) await action(x)\<close>\<close>

fun for_each :: "('x \<Rightarrow> 'd action) \<Rightarrow> 'x list \<Rightarrow> 'd action" where
  "for_each a [] s = (None, s)"
| "for_each a (x # xs) s = (case a x s of (Some e, s') \<Rightarrow> (Some e, s') | (None, s') \<Rightarrow> for_each a xs s')"

definition perform :: "'d effect \<Rightarrow> work_error option \<Rightarrow> 'd action" where
  "perform f outcome s = (outcome, s\<lparr>xe_log := xe_log s @ [f]\<rparr>)"

subsection \<open>Payloads\<close>

definition serialize_queue_payload :: "'d date_host \<Rightarrow> 'd jsvalue \<Rightarrow> work_error + json" where
  "serialize_queue_payload h v = (case encode_date_time_values h v of
     Inl e \<Rightarrow> Inl (Dispatch_failure ''Queued payloads must be JSON serializable.'') | Inr j \<Rightarrow> Inr j)"

definition serialize_broadcast_payload :: "'d date_host \<Rightarrow> 'd jsvalue \<Rightarrow> work_error + json" where
  "serialize_broadcast_payload h v = (case encode_date_time_strings h v of
     Inl e \<Rightarrow> Inl (Dispatch_failure ''Broadcast payloads must be JSON serializable.'') | Inr j \<Rightarrow> Inr j)"

definition serialize_event_payload :: "'d date_host \<Rightarrow> event_manifest \<Rightarrow> 'd event \<Rightarrow> work_error + json" where
  "serialize_event_payload h em ev = res_bind (serialize_queue_payload h (ev_payload ev)) (\<lambda>payload.
     Inr (if em_domain em \<noteq> None then JObj [(''entityId'', JStr (ev_entity_id ev)), (''payload'', payload)]
          else payload))"

text \<open>\<open>new Constructor(payload)\<close> or, of a domain event, \<open>new Constructor(entityId, payload)\<close>.\<close>

definition rehydrate_event :: "'d date_host \<Rightarrow> ('d jsvalue \<Rightarrow> string \<Rightarrow> 'd event) \<Rightarrow> event_manifest \<Rightarrow> json \<Rightarrow>
    work_error + 'd event" where
  "rehydrate_event h build em serialized = (case decode h serialized of
     Inl e \<Rightarrow> Inl (Payload_failure e)
   | Inr decoded \<Rightarrow>
     if em_domain em = None then Inr (build decoded [])
     else (case decoded of
         VObj kvs \<Rightarrow> (case (map_of kvs ''entityId'', map_of kvs ''payload'') of
             (Some (VStr i), Some payload) \<Rightarrow> Inr (build payload i)
           | _ \<Rightarrow> Inl (Dispatch_failure (''Queued DomainEvent '' @ em_id em @ '' is invalid.'')))
       | _ \<Rightarrow> Inl (Dispatch_failure (''Queued DomainEvent '' @ em_id em @ '' is invalid.''))))"

subsection \<open>Queueing\<close>

definition draw :: "'d environment \<Rightarrow> 'd execution \<Rightarrow> string \<times> 'd execution" where
  "draw env s = (en_random env (xe_drawn s), s\<lparr>xe_drawn := Suc (xe_drawn s)\<rparr>)"

definition uow_operation :: "uow_call \<Rightarrow> 'd action" where
  "uow_operation c s = (case xe_uow s of
     None \<Rightarrow> (Some Stale_unit_of_work, s)
   | Some u \<Rightarrow> (case run_operation c u of
       (Inl e, u') \<Rightarrow> (Some e, s\<lparr>xe_uow := Some u'\<rparr>)
     | (Inr r, u') \<Rightarrow> (None, s\<lparr>xe_uow := Some u'\<rparr>)))"

definition register_callback :: "'d callback \<Rightarrow> 'd action" where
  "register_callback c s = (case xe_uow s of
     None \<Rightarrow> (Some Stale_unit_of_work, s)
   | Some u \<Rightarrow> (case after_commit c u of
       (Inl e, u') \<Rightarrow> (Some e, s\<lparr>xe_uow := Some u'\<rparr>)
     | (Inr r, u') \<Rightarrow> (None, s\<lparr>xe_uow := Some u'\<rparr>)))"

definition enqueue_envelope :: "'d environment \<Rightarrow> json \<Rightarrow> int option \<Rightarrow> 'd action" where
  "enqueue_envelope env envelope available_at s =
     (if \<not> en_queues env then fail (Dispatch_failure ''No queue manager is available.'') s
      else if xe_uow s \<noteq> None then
        (let (i, s') = draw env s in
         uow_operation (Enqueue \<lparr>ob_id = i, ob_type = ''doxa.queue'', ob_payload = envelope,
           ob_available_at = available_at\<rparr>) s')
      else (case en_enqueue env envelope of
          Some e \<Rightarrow> (Some e, s)
        | None \<Rightarrow> perform (Work_enqueued envelope) None s))"

definition event_policy :: queue_policy where
  "event_policy = \<lparr>qp_retries = 3, qp_retry_delay = 1, qp_backoff = True, qp_timeout = 30\<rparr>"

definition event_work :: "work_kind \<Rightarrow> string \<Rightarrow> event_manifest \<Rightarrow> json \<Rightarrow> work" where
  "event_work kind target em payload = \<lparr>wk_kind = kind, wk_target_id = target, wk_event_id = Some (em_id em),
     wk_event_version = Some (em_payload_version em), wk_payload = payload, wk_policy = event_policy,
     wk_available_at = None, wk_idempotency_key = None\<rparr>"

definition queue_event_work :: "'d environment \<Rightarrow> work_kind \<Rightarrow> string \<Rightarrow> event_manifest \<Rightarrow> 'd event \<Rightarrow> 'd action" where
  "queue_event_work env kind target em ev s =
     (case serialize_event_payload (en_date_host env) em ev of
        Inl e \<Rightarrow> (Some e, s)
      | Inr payload \<Rightarrow>
          (let (i, s') = draw env s in
           enqueue_envelope env (create_queue_envelope (en_queue_host env) (en_digest env) i
             (event_work kind target em payload) (en_context env)) None s'))"

definition enqueue_listener :: "'d environment \<Rightarrow> listener \<Rightarrow> event_manifest \<Rightarrow> 'd event \<Rightarrow> 'd action" where
  "enqueue_listener env l em ev = queue_event_work env Listener_work (ls_id l) em ev"

definition enqueue_broadcast :: "'d environment \<Rightarrow> event_manifest \<Rightarrow> 'd event \<Rightarrow> 'd action" where
  "enqueue_broadcast env em ev = queue_event_work env Broadcast_work (em_id em) em ev"

subsection \<open>Handling and publishing\<close>

definition invoke_listener :: "'d environment \<Rightarrow> listener \<Rightarrow> 'd event \<Rightarrow> 'd action" where
  "invoke_listener env l ev s =
     (case (if ls_access l \<noteq> ''public'' then en_authorize env (ls_access l) else None) of
        Some e \<Rightarrow> (Some e, s)
      | None \<Rightarrow> perform (Listener_handled (ls_id l) ev) (en_handle env (ls_id l) ev) s)"

definition broadcast_channel_kind_ok :: "destination \<Rightarrow> bool" where
  "broadcast_channel_kind_ok d \<longleftrightarrow> dest_kind d \<in> JStr ` set channel_kinds"

definition channel_error :: "event_manifest \<Rightarrow> destination \<Rightarrow> string option" where
  "channel_error em d =
     (if \<not> broadcast_channel_kind_ok d then Some (em_id em @ '' returned an invalid broadcast channel.'')
      else if isl (validate_broadcast_channel_name (dest_name d)) then Some ''Broadcast channel is invalid.''
      else None)"

fun first_some :: "('a \<Rightarrow> 'b option) \<Rightarrow> 'a list \<Rightarrow> 'b option" where
  "first_some f [] = None"
| "first_some f (x # xs) = (case f x of Some y \<Rightarrow> Some y | None \<Rightarrow> first_some f xs)"

definition broadcast_message_of :: "'d environment \<Rightarrow> event_manifest \<Rightarrow> 'd event \<Rightarrow> string \<Rightarrow> work_error + broadcast_message" where
  "broadcast_message_of env em ev message_id = (case ev_broadcast_on ev of
     None \<Rightarrow> Inl (Dispatch_failure (em_id em @ '' must define broadcastOn().''))
   | Some channels \<Rightarrow>
     if length channels = 0 then Inl (Dispatch_failure (em_id em @ ''.broadcastOn() returned no channels.''))
     else (case first_some (channel_error em) channels of
         Some e \<Rightarrow> Inl (Dispatch_failure e)
       | None \<Rightarrow>
         (let event_name = or_default (ev_broadcast_as ev) (em_id em) in
          if \<not> event_name_ok event_name
          then Inl (Dispatch_failure (em_id em @ ''.broadcastAs() returned an invalid name.''))
          else res_bind (serialize_broadcast_payload (en_date_host env) (or_default (ev_broadcast_with ev) (ev_payload ev)))
            (\<lambda>data. Inr \<lparr>msg_id = message_id, msg_event = event_name, msg_channels = channels, msg_data = data,
               msg_occurred_at = en_clock env\<rparr>))))"

definition publish_broadcast :: "'d environment \<Rightarrow> event_manifest \<Rightarrow> 'd event \<Rightarrow> string \<Rightarrow> 'd action" where
  "publish_broadcast env em ev message_id s =
     (if \<not> en_broadcasting env then fail (Dispatch_failure ''No broadcasting transport is configured.'') s
      else (case broadcast_message_of env em ev message_id of
          Inl e \<Rightarrow> (Some e, s)
        | Inr m \<Rightarrow> perform (Message_published m) (en_publish env m) s))"

subsection \<open>Dispatching\<close>

definition is_queued :: "listener \<Rightarrow> bool" where
  "is_queued l \<longleftrightarrow> ls_delivery l \<in> {Queued, Queued_after_commit}"

definition dispatch_to_listener :: "'d environment \<Rightarrow> bool \<Rightarrow> event_manifest \<Rightarrow> 'd event \<Rightarrow> listener \<Rightarrow> 'd action" where
  "dispatch_to_listener env skip_queued em ev l s =
     (if is_queued l then (if skip_queued then (None, s) else enqueue_listener env l em ev s)
      else if ls_delivery l = After_commit \<and> xe_uow s \<noteq> None then register_callback (Run_listener l ev) s
      else invoke_listener env l ev s)"

definition dispatch_event_now :: "'d environment \<Rightarrow> bool \<Rightarrow> event_manifest \<Rightarrow> 'd event \<Rightarrow> 'd action" where
  "dispatch_event_now env skip_queued em ev =
     and_then (for_each (dispatch_to_listener env skip_queued em ev) (en_listeners env (em_id em)))
       (\<lambda>s. case em_broadcast em of
          Broadcast_queued \<Rightarrow> if skip_queued then (None, s) else enqueue_broadcast env em ev s
        | Broadcast_now \<Rightarrow> (let (i, s') = draw env s in publish_broadcast env em ev i s')
        | No_broadcast \<Rightarrow> (None, s))"

definition realtime_refuses :: "'d environment \<Rightarrow> event_manifest \<Rightarrow> bool" where
  "realtime_refuses env em \<longleftrightarrow> em_domain em \<noteq> None \<or> em_after_commit em \<or> em_broadcast em = Broadcast_queued \<or>
     list_ex (\<lambda>l. ls_delivery l \<noteq> Local) (en_listeners env (em_id em))"

definition record_domain_event :: "'d environment \<Rightarrow> event_manifest \<Rightarrow> 'd event \<Rightarrow> 'd action" where
  "record_domain_event env em ev s = (case em_domain em of
     None \<Rightarrow> (None, s)
   | Some entity_type \<Rightarrow>
     if xe_uow s = None
     then fail (Dispatch_failure (em_id em @ '' is a DomainEvent and requires an active writable Unit of Work.'')) s
     else (case serialize_queue_payload (en_date_host env) (ev_payload ev) of
         Inl e \<Rightarrow> (Some e, s)
       | Inr payload \<Rightarrow>
         (let (i, s') = draw env s in
          uow_operation (Record \<lparr>jf_id = i, jf_type = em_id em, jf_version = em_payload_version em,
            jf_entity_type = entity_type, jf_entity_id = ev_entity_id ev, jf_payload = payload\<rparr>) s')))"

text \<open>\<open>dispatchEvent(event)\<close>; an event whose class no feature declares has no manifest.\<close>

definition dispatch_event :: "'d environment \<Rightarrow> event_manifest option \<Rightarrow> 'd event \<Rightarrow> 'd action" where
  "dispatch_event env manifest ev s =
     (if en_realtime env \<and> en_cancelled env then fail Cancelled_execution s
      else (case manifest of
        None \<Rightarrow> fail (Dispatch_failure ''The event is not declared by a selected Feature.'') s
      | Some em \<Rightarrow>
        if en_realtime env \<and> realtime_refuses env em
        then fail (Dispatch_failure ''Realtime commands may dispatch only immediate, non-durable Events and ShouldBroadcastNow broadcasts.'') s
        else and_then (record_domain_event env em ev)
          (\<lambda>s. if em_after_commit em \<and> xe_uow s \<noteq> None
            then and_then (for_each (\<lambda>l. enqueue_listener env l em ev) (filter is_queued (en_listeners env (em_id em))))
              (and_then (if em_broadcast em = Broadcast_queued then enqueue_broadcast env em ev else nothing_more)
                (register_callback (Run_event em ev))) s
            else dispatch_event_now env False em ev s) s))"

text \<open>After the commit the unit of work is gone, and what was queued is not queued again.\<close>

definition run_callback :: "'d environment \<Rightarrow> 'd callback \<Rightarrow> 'd action" where
  "run_callback env c = (case c of
     Run_listener l ev \<Rightarrow> invoke_listener env l ev
   | Run_event em ev \<Rightarrow> dispatch_event_now env True em ev)"

text \<open>
  A unit of work around an action: \<open>None\<close> in the middle if it rolled back, otherwise the tables it
  committed; at the end the failures of the callbacks and the execution. A cancellation is a failure
  of the action.
\<close>

definition within_transaction :: "'d environment \<Rightarrow> 'd action \<Rightarrow> database \<Rightarrow> 'd execution \<Rightarrow>
    database option \<times> work_error list \<times> 'd execution" where
  "within_transaction env work db s =
     (case work (s\<lparr>xe_uow := Some (new_unit_of_work db)\<rparr>) of
        (Some e, s') \<Rightarrow> (None, [e], s'\<lparr>xe_uow := None\<rparr>)
      | (None, s') \<Rightarrow> (case xe_uow s' of
          None \<Rightarrow> (None, [], s')
        | Some u \<Rightarrow> (case uw_failure u of
            Some e \<Rightarrow> (None, [e], s'\<lparr>xe_uow := None\<rparr>)
          | None \<Rightarrow> (case release_after_commit (run_callback env) (uw_after_commit u) (s'\<lparr>xe_uow := None\<rparr>) of
              (es, s'') \<Rightarrow> (Some (uw_db u), es, s'')))))"

definition dispatch_in_transaction :: "'d environment \<Rightarrow> event_manifest option \<Rightarrow> 'd event \<Rightarrow> database \<Rightarrow> 'd execution \<Rightarrow>
    database option \<times> work_error list \<times> 'd execution" where
  "dispatch_in_transaction env manifest ev = within_transaction env (dispatch_event env manifest ev)"

subsection \<open>Who is reached\<close>

datatype target = To_listener string | To_channels

definition envelope_target :: "json \<Rightarrow> target multiset" where
  "envelope_target envelope =
     (if jfield envelope ''kind'' = Some (JStr ''listener'')
      then {#To_listener (or_text (jfield envelope ''targetId''))#}
      else if jfield envelope ''kind'' = Some (JStr ''broadcast'') then {#To_channels#} else {#})"

fun effect_target :: "'d effect \<Rightarrow> target multiset" where
  "effect_target (Listener_handled i ev) = {#To_listener i#}"
| "effect_target (Work_enqueued envelope) = envelope_target envelope"
| "effect_target (Message_published m) = {#To_channels#}"

definition broadcast_targets :: "broadcast_mode \<Rightarrow> target multiset" where
  "broadcast_targets mode = (if mode = No_broadcast then {#} else {#To_channels#})"

fun callback_target :: "'d environment \<Rightarrow> 'd callback \<Rightarrow> target multiset" where
  "callback_target env (Run_listener l ev) = {#To_listener (ls_id l)#}"
| "callback_target env (Run_event em ev) =
     mset (map (To_listener \<circ> ls_id) (filter (\<lambda>l. \<not> is_queued l) (en_listeners env (em_id em)))) +
     (if em_broadcast em = Broadcast_now then {#To_channels#} else {#})"

definition log_targets :: "'d effect list \<Rightarrow> target multiset" where
  "log_targets fs = sum_list (map effect_target fs)"

definition outbox_targets :: "database \<Rightarrow> target multiset" where
  "outbox_targets db = sum_list (map (\<lambda>m. envelope_target (ob_payload m)) (db_outbox db))"

text \<open>What an execution has reached or will, if its unit of work commits.\<close>

definition bound_for :: "'d environment \<Rightarrow> 'd execution \<Rightarrow> target multiset" where
  "bound_for env s = log_targets (xe_log s) + (case xe_uow s of
     None \<Rightarrow> {#}
   | Some u \<Rightarrow> outbox_targets (uw_db u) + sum_list (map (callback_target env) (uw_after_commit u)))"

text \<open>Whom an event is for: each of its listeners, and its channels if it broadcasts.\<close>

definition audience :: "'d environment \<Rightarrow> event_manifest \<Rightarrow> target multiset" where
  "audience env em = mset (map (To_listener \<circ> ls_id) (en_listeners env (em_id em))) + broadcast_targets (em_broadcast em)"

definition reaches :: "'d environment \<Rightarrow> target multiset \<Rightarrow> 'd action \<Rightarrow> bool" where
  "reaches env M a \<longleftrightarrow> (\<forall>s s'. a s = (None, s') \<longrightarrow>
     bound_for env s' = bound_for env s + M \<and> (xe_uow s' = None \<longleftrightarrow> xe_uow s = None))"

lemma reachesI:
  "(\<And>s s'. a s = (None, s') \<Longrightarrow> bound_for env s' = bound_for env s + M) \<Longrightarrow>
   (\<And>s s'. a s = (None, s') \<Longrightarrow> xe_uow s' = None \<longleftrightarrow> xe_uow s = None) \<Longrightarrow> reaches env M a"
  by (simp add: reaches_def)

lemma reachesD:
  "reaches env M a \<Longrightarrow> a s = (None, s') \<Longrightarrow> bound_for env s' = bound_for env s + M"
  "reaches env M a \<Longrightarrow> a s = (None, s') \<Longrightarrow> xe_uow s' = None \<longleftrightarrow> xe_uow s = None"
  by (simp_all add: reaches_def)

lemma reaches_fail [simp]: "reaches env M (fail e)"
  by (simp add: reaches_def fail_def)

lemma reaches_nothing_more [simp]: "reaches env {#} nothing_more" "reaches env {#} (Pair None)"
  by (simp_all add: reaches_def nothing_more_def)

lemma reaches_and_then: "reaches env M a \<Longrightarrow> reaches env N b \<Longrightarrow> reaches env (M + N) (and_then a b)"
  by (fastforce simp: reaches_def and_then_def split: prod.splits option.splits)

lemma reaches_for_each:
  "(\<And>x. x \<in> set xs \<Longrightarrow> reaches env (f x) (a x)) \<Longrightarrow> reaches env (sum_list (map f xs)) (for_each a xs)"
proof (induction xs)
  case (Cons x xs)
  have "for_each a (x # xs) = and_then (a x) (for_each a xs)"
    by (rule ext) (simp add: and_then_def)
  then show ?case using Cons by (auto intro!: reaches_and_then)
qed (simp add: reaches_def)

lemma reaches_perform: "reaches env (effect_target f) (perform f outcome)"
  by (auto simp: reaches_def perform_def bound_for_def log_targets_def split: option.splits)

lemma reaches_draw: "(\<And>i. reaches env M (a i)) \<Longrightarrow> reaches env M (\<lambda>s. let (i, s') = draw env s in a i s')"
  unfolding reaches_def draw_def bound_for_def by fastforce

lemma reaches_cong: "reaches env M a \<Longrightarrow> (\<And>s s'. b s = (None, s') \<Longrightarrow> a s = (None, s')) \<Longrightarrow> reaches env M b"
  by (simp add: reaches_def)

lemma reaches_uow_enqueue:
  "reaches env (envelope_target (ob_payload m)) (uow_operation (Enqueue m))"
  unfolding reaches_def uow_operation_def run_operation_def bound_for_def outbox_targets_def
  by (auto split: option.splits if_splits)

lemma reaches_uow_record: "reaches env {#} (uow_operation (Record f))"
  unfolding reaches_def uow_operation_def run_operation_def bound_for_def outbox_targets_def
  by (auto split: option.splits if_splits)

lemma reaches_register: "reaches env (callback_target env c) (register_callback c)"
  unfolding reaches_def register_callback_def after_commit_def bound_for_def
  by (auto split: option.splits if_splits)

definition work_target :: "work_kind \<Rightarrow> string \<Rightarrow> target multiset" where
  "work_target kind target = (case kind of
     Listener_work \<Rightarrow> {#To_listener target#} | Broadcast_work \<Rightarrow> {#To_channels#} | _ \<Rightarrow> {#})"

lemma envelope_target_created:
  "envelope_target (create_queue_envelope h digest random w c) = work_target (wk_kind w) (wk_target_id w)"
  by (cases "wk_kind w") (simp_all add: envelope_target_def envelope_fields work_target_def or_text_def)

lemma reaches_enqueue_envelope: "reaches env (envelope_target j) (enqueue_envelope env j t)"
proof -
  have "reaches env (envelope_target j) (\<lambda>s. let (i, s') = draw env s in
      uow_operation (Enqueue \<lparr>ob_id = i, ob_type = ''doxa.queue'', ob_payload = j, ob_available_at = t\<rparr>) s')"
    using reaches_uow_enqueue [where m = "\<lparr>ob_id = i, ob_type = ''doxa.queue'', ob_payload = j, ob_available_at = t\<rparr>" for i]
    by (intro reaches_draw) simp
  moreover have "reaches env (envelope_target j) (perform (Work_enqueued j) None)"
    using reaches_perform [of env "Work_enqueued j"] by simp
  ultimately show ?thesis
    unfolding reaches_def enqueue_envelope_def fail_def by (auto split: if_splits option.splits)
qed

lemma reaches_queue_event_work: "reaches env (work_target kind target) (queue_event_work env kind target em ev)"
proof (cases "serialize_event_payload (en_date_host env) em ev")
  case (Inl e)
  then show ?thesis by (simp add: queue_event_work_def reaches_def)
next
  case (Inr payload)
  let ?w = "event_work kind target em payload"
  have "reaches env (work_target kind target)
      (enqueue_envelope env (create_queue_envelope (en_queue_host env) (en_digest env) i ?w (en_context env)) None)" for i
    using reaches_enqueue_envelope [of env "create_queue_envelope (en_queue_host env) (en_digest env) i ?w (en_context env)"]
    by (simp add: envelope_target_created) (simp add: event_work_def)
  from reaches_draw [OF this] show ?thesis
    by (rule reaches_cong) (simp add: queue_event_work_def Inr)
qed

lemma reaches_invoke_listener: "reaches env {#To_listener (ls_id l)#} (invoke_listener env l ev)"
proof (cases "if ls_access l \<noteq> ''public'' then en_authorize env (ls_access l) else None")
  case None
  from reaches_perform [of env "Listener_handled (ls_id l) ev"] show ?thesis
    by (intro reaches_cong [where b = "invoke_listener env l ev"]) (simp_all add: invoke_listener_def None)
next
  case (Some e)
  then show ?thesis by (simp add: invoke_listener_def reaches_def)
qed

lemma reaches_publish_broadcast: "reaches env {#To_channels#} (publish_broadcast env em ev i)"
proof (cases "broadcast_message_of env em ev i")
  case (Inl e)
  then show ?thesis by (simp add: publish_broadcast_def reaches_def fail_def)
next
  case (Inr m)
  have "reaches env {#To_channels#} (perform (Message_published m) (en_publish env m))"
    using reaches_perform [of env "Message_published m"] by simp
  then show ?thesis
    by (rule reaches_cong) (simp add: publish_broadcast_def Inr fail_def split: if_splits)
qed

text \<open>Before the commit every listener is reached or queued; after it only those that are not queued are left.\<close>

definition listener_target :: "bool \<Rightarrow> listener \<Rightarrow> target multiset" where
  "listener_target skip_queued l = (if skip_queued \<and> is_queued l then {#} else {#To_listener (ls_id l)#})"

lemma reaches_dispatch_to_listener:
  "reaches env (listener_target skip l) (dispatch_to_listener env skip em ev l)"
  using reaches_queue_event_work [of env Listener_work "ls_id l" em ev] reaches_register [of env "Run_listener l ev"]
    reaches_invoke_listener [of env l ev]
  unfolding reaches_def dispatch_to_listener_def listener_target_def enqueue_listener_def work_target_def
  by (auto split: if_splits)

definition broadcast_now_target :: "bool \<Rightarrow> broadcast_mode \<Rightarrow> target multiset" where
  "broadcast_now_target skip_queued mode =
     (if mode = No_broadcast \<or> skip_queued \<and> mode = Broadcast_queued then {#} else {#To_channels#})"

lemma reaches_broadcast_part:
  "reaches env (broadcast_now_target skip (em_broadcast em)) (\<lambda>s. case em_broadcast em of
      Broadcast_queued \<Rightarrow> if skip then (None, s) else enqueue_broadcast env em ev s
    | Broadcast_now \<Rightarrow> (let (i, s') = draw env s in publish_broadcast env em ev i s')
    | No_broadcast \<Rightarrow> (None, s))"
proof (cases "em_broadcast em")
  case Broadcast_queued
  then show ?thesis using reaches_queue_event_work [of env Broadcast_work "em_id em" em ev]
    by (auto simp: broadcast_now_target_def enqueue_broadcast_def work_target_def reaches_def split: if_splits)
next
  case Broadcast_now
  then show ?thesis using reaches_draw [OF reaches_publish_broadcast]
    by (simp add: broadcast_now_target_def)
qed (simp add: broadcast_now_target_def reaches_def)

lemma reaches_dispatch_event_now:
  "reaches env (sum_list (map (listener_target skip) (en_listeners env (em_id em))) +
     broadcast_now_target skip (em_broadcast em)) (dispatch_event_now env skip em ev)"
  unfolding dispatch_event_now_def
  by (intro reaches_and_then reaches_for_each reaches_broadcast_part) (rule reaches_dispatch_to_listener)

lemma listener_targets:
  "sum_list (map (listener_target False) ls) = mset (map (To_listener \<circ> ls_id) ls)"
  "sum_list (map (listener_target True) ls) = mset (map (To_listener \<circ> ls_id) (filter (\<lambda>l. \<not> is_queued l) ls))"
  by (induction ls) (simp_all add: listener_target_def)

lemma audience_split:
  "sum_list (map (\<lambda>l. {#To_listener (ls_id l)#}) (filter is_queued ls)) +
     mset (map (To_listener \<circ> ls_id) (filter (\<lambda>l. \<not> is_queued l) ls)) = mset (map (To_listener \<circ> ls_id) ls)"
  by (induction ls) simp_all

lemma reaches_run_callback: "reaches env (callback_target env c) (run_callback env c)"
proof (cases c)
  case (Run_listener l ev)
  then show ?thesis using reaches_invoke_listener by (simp add: run_callback_def)
next
  case (Run_event em ev)
  have "callback_target env c = sum_list (map (listener_target True) (en_listeners env (em_id em))) +
      broadcast_now_target True (em_broadcast em)"
    by (cases "em_broadcast em") (simp_all add: Run_event listener_targets broadcast_now_target_def)
  then show ?thesis using reaches_dispatch_event_now [of env True em ev] by (simp add: run_callback_def Run_event)
qed

lemma reaches_record: "reaches env {#} (record_domain_event env em ev)"
proof -
  have "reaches env {#} (\<lambda>s. let (i, s') = draw env s in uow_operation (Record (f i)) s')" for f
    by (intro reaches_draw reaches_uow_record)
  then show ?thesis
    unfolding reaches_def record_domain_event_def fail_def
    by (auto split: option.splits sum.splits if_splits)
qed

lemma reaches_if: "reaches env M a \<Longrightarrow> reaches env M b \<Longrightarrow> reaches env M (\<lambda>s. if P s then a s else b s)"
  by (auto simp: reaches_def)

text \<open>What \<open>dispatchEvent\<close> does with an event that waits for the commit.\<close>

abbreviation dispatch_after_commit :: "'d environment \<Rightarrow> event_manifest \<Rightarrow> 'd event \<Rightarrow> 'd action" where
  "dispatch_after_commit env em ev \<equiv>
     and_then (for_each (\<lambda>l. enqueue_listener env l em ev) (filter is_queued (en_listeners env (em_id em))))
       (and_then (if em_broadcast em = Broadcast_queued then enqueue_broadcast env em ev else nothing_more)
         (register_callback (Run_event em ev)))"

lemma reaches_dispatch_after_commit: "reaches env (audience env em) (dispatch_after_commit env em ev)"
proof -
  let ?ls = "en_listeners env (em_id em)"
  have one: "reaches env {#To_listener (ls_id l)#} (enqueue_listener env l em ev)" for l
    using reaches_queue_event_work [of env Listener_work "ls_id l" em ev]
    by (simp add: enqueue_listener_def work_target_def)
  have "reaches env (if em_broadcast em = Broadcast_queued then {#To_channels#} else {#})
      (if em_broadcast em = Broadcast_queued then enqueue_broadcast env em ev else nothing_more)"
    using reaches_queue_event_work [of env Broadcast_work "em_id em" em ev]
    by (simp add: enqueue_broadcast_def work_target_def)
  then have "reaches env (sum_list (map (\<lambda>l. {#To_listener (ls_id l)#}) (filter is_queued ?ls)) +
      ((if em_broadcast em = Broadcast_queued then {#To_channels#} else {#}) + callback_target env (Run_event em ev)))
      (dispatch_after_commit env em ev)"
    by (intro reaches_and_then reaches_for_each one reaches_register)
  moreover have "sum_list (map (\<lambda>l. {#To_listener (ls_id l)#}) (filter is_queued ?ls)) +
      ((if em_broadcast em = Broadcast_queued then {#To_channels#} else {#}) + callback_target env (Run_event em ev)) =
      audience env em"
    using audience_split [of ?ls]
    by (cases "em_broadcast em") (simp_all add: audience_def broadcast_targets_def add.assoc flip: audience_split)
  ultimately show ?thesis by simp
qed

lemma reaches_dispatch_event: "reaches env (audience env em) (dispatch_event env (Some em) ev)"
proof -
  have now: "reaches env (audience env em) (dispatch_event_now env False em ev)"
    using reaches_dispatch_event_now [of env False em ev]
    by (cases "em_broadcast em") (simp_all add: listener_targets audience_def broadcast_targets_def broadcast_now_target_def)
  have "reaches env ({#} + audience env em) (and_then (record_domain_event env em ev)
      (\<lambda>s. if em_after_commit em \<and> xe_uow s \<noteq> None then dispatch_after_commit env em ev s
        else dispatch_event_now env False em ev s))"
    by (intro reaches_and_then reaches_record reaches_if reaches_dispatch_after_commit now)
  then show ?thesis
    by (auto simp: reaches_def dispatch_event_def fail_def split: if_splits)
qed

lemma released_targets:
  "release_after_commit (run_callback env) cs s = ([], s') \<Longrightarrow> xe_uow s = None \<Longrightarrow>
     log_targets (xe_log s') = log_targets (xe_log s) + sum_list (map (callback_target env) cs) \<and> xe_uow s' = None"
proof (induction cs arbitrary: s)
  case (Cons c cs)
  obtain s1 where one: "run_callback env c s = (None, s1)" and rest: "release_after_commit (run_callback env) cs s1 = ([], s')"
    using Cons.prems(1) by (auto split: prod.splits option.splits)
  from reachesD [OF reaches_run_callback one] Cons.prems(2)
  have "log_targets (xe_log s1) = log_targets (xe_log s) + callback_target env c" "xe_uow s1 = None"
    by (simp_all add: bound_for_def)
  with Cons.IH [OF rest] show ?case by (simp add: add.assoc)
qed simp

text \<open>Inside a unit of work an action is silent when nothing happens outside of it.\<close>

definition silent :: "'d action \<Rightarrow> bool" where
  "silent a \<longleftrightarrow> (\<forall>s. xe_uow s \<noteq> None \<longrightarrow> xe_log (snd (a s)) = xe_log s \<and> xe_uow (snd (a s)) \<noteq> None)"

lemma silent_and_then:
  fixes a b :: "'d action"
  assumes a: "silent a" and b: "silent b"
  shows "silent (and_then a b)"
proof -
  show ?thesis unfolding silent_def
  proof (intro allI impI)
    fix s :: "'d execution" assume s: "xe_uow s \<noteq> None"
    obtain r s1 where one: "a s = (r, s1)" by fastforce
    from a s one have "xe_log s1 = xe_log s" "xe_uow s1 \<noteq> None" unfolding silent_def by (metis snd_conv)+
    moreover from b this(2) have "xe_log (snd (b s1)) = xe_log s1 \<and> xe_uow (snd (b s1)) \<noteq> None" by (simp add: silent_def)
    ultimately show "xe_log (snd (and_then a b s)) = xe_log s \<and> xe_uow (snd (and_then a b s)) \<noteq> None"
      by (simp add: and_then_def one split: option.splits)
  qed
qed

lemma silent_for_each: "(\<And>x. silent (a x)) \<Longrightarrow> silent (for_each a xs)"
proof (induction xs)
  case (Cons x xs)
  have "for_each a (x # xs) = and_then (a x) (for_each a xs)" by (rule ext) (simp add: and_then_def)
  with Cons show ?case by (simp add: silent_and_then)
qed (simp add: silent_def)

lemma silent_parts: "silent (fail e)" "silent nothing_more" "silent (uow_operation c)" "silent (register_callback b)"
  by (auto simp: silent_def fail_def nothing_more_def uow_operation_def register_callback_def
      split: option.splits sum.splits prod.splits)

lemma silent_queue_event_work: "silent (queue_event_work env kind target em ev)"
  unfolding silent_def queue_event_work_def enqueue_envelope_def draw_def Let_def fail_def uow_operation_def
  by (auto split: sum.splits option.splits prod.splits)

lemma silent_record: "silent (record_domain_event env em ev)"
  unfolding silent_def record_domain_event_def draw_def Let_def fail_def uow_operation_def
  by (auto split: sum.splits option.splits prod.splits)

lemma silent_if: "silent a \<Longrightarrow> silent b \<Longrightarrow> silent (\<lambda>s. if P then a s else b s)"
  by (cases P) simp_all

lemma after_commit_event_silent: "em_after_commit em \<Longrightarrow> silent (dispatch_event env (Some em) ev)"
proof -
  assume em: "em_after_commit em"
  have "silent (dispatch_after_commit env em ev)"
    by (intro silent_and_then silent_for_each) (auto simp: enqueue_listener_def enqueue_broadcast_def silent_queue_event_work silent_parts)
  then have "silent (\<lambda>s. if em_after_commit em \<and> xe_uow s \<noteq> None then dispatch_after_commit env em ev s
      else dispatch_event_now env False em ev s)"
    by (simp add: silent_def em)
  from silent_and_then [OF silent_record [of env em ev] this] show ?thesis
    unfolding dispatch_event_def [abs_def] option.case by (intro silent_if silent_parts)
qed


subsection \<open>Realtime commands\<close>

fun durable :: "'d effect \<Rightarrow> bool" where
  "durable (Work_enqueued envelope) = True"
| "durable _ = False"

definition leaves_nothing :: "'d action \<Rightarrow> bool" where
  "leaves_nothing a \<longleftrightarrow> (\<forall>s. xe_uow s = None \<longrightarrow>
     filter durable (xe_log (snd (a s))) = filter durable (xe_log s) \<and> xe_uow (snd (a s)) = None)"

lemma leaves_nothing_and_then:
  fixes a b :: "'d action"
  assumes a: "leaves_nothing a" and b: "leaves_nothing b"
  shows "leaves_nothing (and_then a b)"
  unfolding leaves_nothing_def
proof (intro allI impI)
  fix s :: "'d execution" assume s: "xe_uow s = None"
  obtain r s1 where one: "a s = (r, s1)" by fastforce
  from a s have "filter durable (xe_log (snd (a s))) = filter durable (xe_log s) \<and> xe_uow (snd (a s)) = None"
    unfolding leaves_nothing_def by blast
  then have s1: "filter durable (xe_log s1) = filter durable (xe_log s)" "xe_uow s1 = None" by (simp_all add: one)
  with b have "filter durable (xe_log (snd (b s1))) = filter durable (xe_log s1) \<and> xe_uow (snd (b s1)) = None"
    unfolding leaves_nothing_def by blast
  with s1 show "filter durable (xe_log (snd (and_then a b s))) = filter durable (xe_log s) \<and>
      xe_uow (snd (and_then a b s)) = None"
    by (simp add: and_then_def one split: option.splits)
qed

lemma leaves_nothing_for_each: "(\<And>x. x \<in> set xs \<Longrightarrow> leaves_nothing (a x)) \<Longrightarrow> leaves_nothing (for_each a xs)"
proof (induction xs)
  case (Cons x xs)
  have "for_each a (x # xs) = and_then (a x) (for_each a xs)" by (rule ext) (simp add: and_then_def)
  with Cons show ?case by (simp add: leaves_nothing_and_then)
qed (simp add: leaves_nothing_def)

lemma leaves_nothing_local:
  "ls_delivery l = Local \<Longrightarrow> leaves_nothing (dispatch_to_listener env skip em ev l)"
  by (auto simp: leaves_nothing_def dispatch_to_listener_def is_queued_def invoke_listener_def perform_def split: option.splits)

lemma leaves_nothing_publish: "leaves_nothing (\<lambda>s. let (i, s') = draw env s in publish_broadcast env em ev i s')"
  by (auto simp: leaves_nothing_def draw_def publish_broadcast_def fail_def perform_def split: sum.splits)

text \<open>
  A realtime command leaves nothing durable behind. Whatever event it dispatches, whether the
  dispatch is refused, fails or succeeds, nothing is queued, no unit of work is opened or written,
  and the listeners it reaches are local ones.
\<close>

theorem realtime_events_leave_nothing:
  assumes "en_realtime env" and "xe_uow s = None" and "dispatch_event env manifest ev s = (r, s')"
  shows "filter durable (xe_log s') = filter durable (xe_log s) \<and> xe_uow s' = None"
proof -
  have "leaves_nothing (dispatch_event env manifest ev)"
  proof (cases "\<exists>em. manifest = Some em \<and> \<not> realtime_refuses env em \<and> \<not> en_cancelled env")
    case True
    then obtain em where m: "manifest = Some em" "\<not> realtime_refuses env em" "\<not> en_cancelled env" by blast
    then have plain: "em_domain em = None" "\<not> em_after_commit em" "em_broadcast em \<noteq> Broadcast_queued"
      and locals: "\<And>l. l \<in> set (en_listeners env (em_id em)) \<Longrightarrow> ls_delivery l = Local"
      by (auto simp: realtime_refuses_def list_ex_iff)
    have "leaves_nothing (\<lambda>s. case em_broadcast em of
          Broadcast_queued \<Rightarrow> if False then (None, s) else enqueue_broadcast env em ev s
        | Broadcast_now \<Rightarrow> (let (i, s') = draw env s in publish_broadcast env em ev i s')
        | No_broadcast \<Rightarrow> (None, s))"
      using leaves_nothing_publish plain(3) by (cases "em_broadcast em") (simp_all add: leaves_nothing_def)
    then have "leaves_nothing (dispatch_event_now env False em ev)"
      unfolding dispatch_event_now_def
      by (intro leaves_nothing_and_then leaves_nothing_for_each leaves_nothing_local locals)
    moreover have "dispatch_event env manifest ev = dispatch_event_now env False em ev"
      using m plain by (intro ext) (simp add: dispatch_event_def and_then_def record_domain_event_def)
    ultimately show ?thesis by simp
  next
    case False
    then show ?thesis using assms(1)
      by (auto simp: leaves_nothing_def dispatch_event_def fail_def split: option.splits)
  qed
  then have "filter durable (xe_log (snd (dispatch_event env manifest ev s))) = filter durable (xe_log s) \<and>
      xe_uow (snd (dispatch_event env manifest ev s)) = None"
    using assms(2) unfolding leaves_nothing_def by blast
  with assms(3) show ?thesis by simp
qed

subsection \<open>Witnesses\<close>

definition sample_listeners :: "listener list" where
  "sample_listeners = [\<lparr>ls_id = ''a'', ls_delivery = Local, ls_access = ''public''\<rparr>,
     \<lparr>ls_id = ''b'', ls_delivery = After_commit, ls_access = ''public''\<rparr>,
     \<lparr>ls_id = ''c'', ls_delivery = Queued, ls_access = ''public''\<rparr>]"

definition sample_event_manifest :: event_manifest where
  "sample_event_manifest = \<lparr>em_id = ''event:x'', em_payload_version = 1, em_domain = Some ''user'',
     em_after_commit = True, em_broadcast = Broadcast_queued\<rparr>"

definition sample_event :: "string event" where
  "sample_event = \<lparr>ev_payload = VNull, ev_entity_id = ''u1'', ev_broadcast_on = None, ev_broadcast_as = None,
     ev_broadcast_with = None\<rparr>"

definition sample_environment :: "bool \<Rightarrow> string environment" where
  "sample_environment realtime = \<lparr>en_date_host = sample_date_host, en_queue_host = sample_queue_host,
     en_digest = sample_digest, en_random = (\<lambda>n. replicate n (CHR ''1'')), en_clock = ''now'', en_context = sample_context,
     en_realtime = realtime, en_cancelled = False, en_queues = True, en_broadcasting = True,
     en_listeners = (\<lambda>i. sample_listeners), en_authorize = (\<lambda>a. None), en_handle = (\<lambda>i ev. None),
     en_enqueue = (\<lambda>j. None), en_publish = (\<lambda>m. None)\<rparr>"

definition fresh_execution :: "string execution" where
  "fresh_execution = \<lparr>xe_uow = None, xe_log = [], xe_drawn = 0\<rparr>"

lemmas evaluate_dispatch = dispatch_in_transaction_def within_transaction_def dispatch_event_def and_then_def record_domain_event_def
  serialize_queue_payload_def serialize_event_payload_def encode_date_time_values_def draw_def uow_operation_def
  run_operation_def new_unit_of_work_def enqueue_listener_def enqueue_broadcast_def queue_event_work_def
  enqueue_envelope_def register_callback_def after_commit_def run_callback_def dispatch_event_now_def
  dispatch_to_listener_def invoke_listener_def perform_def is_queued_def


theorem realtime_events_leave_nothing_witness:
  "filter durable (xe_log (snd (dispatch_event (sample_environment True) (Some sample_event_manifest) sample_event
     fresh_execution))) = []"
  using realtime_events_leave_nothing [of "sample_environment True" fresh_execution "Some sample_event_manifest" sample_event]
  by (cases "dispatch_event (sample_environment True) (Some sample_event_manifest) sample_event fresh_execution")
     (simp add: sample_environment_def fresh_execution_def)

end
