(* ===== verification/RuntimeGraph.thy ===== *)
theory RuntimeGraph
  imports ExecutionContext ProviderGraph Advisories Lifecycle
begin

text \<open>
  How the runtime builds the singletons of an application before it starts them:
  \<open>constructSingletonGraph\<close> of \<open>packages/runtime/src/runtime.ts\<close>.

  An object is a reference: the arguments a constructor was given are kept on a heap, so that who
  was built from whom can be stated. What a constructor does beyond failing is the application's.
\<close>

subsection \<open>Roles and objects\<close>

datatype dependency_kind = Constructor_dependency | Role_dependency

record dependency =
  dp_kind :: dependency_kind
  dp_token :: string
  dp_target :: "string option"
  dp_optional :: bool

record role_entry =
  re_id :: string
  re_scope :: provider_scope
  re_capabilities :: "capability list"
  re_dependencies :: "dependency list"
  re_lifecycle :: "phase list"

datatype role_object =
    Builtin_object string
  | Configuration_object string
  | Override_object string
  | Shared_singleton string
  | Constructed nat

definition constructor_dependencies :: "role_entry \<Rightarrow> dependency list" where
  "constructor_dependencies r = filter (\<lambda>d. dp_kind d = Constructor_dependency) (re_dependencies r)"

definition entries_by_id :: "role_entry list \<Rightarrow> (string, role_entry) omap" where
  "entries_by_id rs = fold (\<lambda>r. om_set (re_id r) r) rs []"

subsection \<open>Building the singletons\<close>

text \<open>
  What a boot is given: the providers of the manifest, the configurations already materialised, the
  overrides of a test with the methods each has, the providers the profile includes (all of them if
  \<open>None\<close>), the ids the registry has a constructor for, the methods of what it constructs, what a
  constructor throws, and the order of ids by \<open>localeCompare\<close>.
\<close>

record boot_plan =
  bp_providers :: "role_entry list"
  bp_configurations :: "string list"
  bp_overrides :: "(string, phase list) omap"
  bp_included :: "string list option"
  bp_registry :: "string list"
  bp_methods :: "string \<Rightarrow> phase list"
  bp_construct :: "string \<Rightarrow> role_object option list \<Rightarrow> string option"
  bp_le :: "string \<Rightarrow> string \<Rightarrow> bool"

record graph_state =
  gs_singletons :: "(string, role_object) omap"
  gs_participants :: "participant list"
  gs_heap :: "(string \<times> role_object option list) list"

datatype construction_error =
    Dependency_cycle string
  | Missing_constructor string
  | Missing_dependency string string
  | Constructor_threw string
  | Unknown_override string

definition included :: "boot_plan \<Rightarrow> string \<Rightarrow> bool" where
  "included b i = (case bp_included b of None \<Rightarrow> True | Some ids \<Rightarrow> i \<in> set ids)"

definition provider :: "boot_plan \<Rightarrow> string \<Rightarrow> role_entry option" where
  "provider b i = om_get (entries_by_id (bp_providers b)) i"

definition register_singleton :: "string \<Rightarrow> role_object \<Rightarrow> participant \<Rightarrow> graph_state \<Rightarrow> graph_state" where
  "register_singleton i v p s = s\<lparr>gs_singletons := om_set i v (gs_singletons s), gs_participants := gs_participants s @ [p]\<rparr>"

text \<open>
  \<open>resolve\<close>: \<open>stack\<close> are the ids under construction. The dependencies of an overridden provider are
  resolved for their effect only, of both kinds, so none of them is required.
\<close>

function (sequential) resolve_provider :: "boot_plan \<Rightarrow> string list \<Rightarrow> string \<Rightarrow> graph_state \<Rightarrow>
    construction_error + role_object option \<times> graph_state"
  and resolve_dependencies :: "boot_plan \<Rightarrow> string list \<Rightarrow> string \<Rightarrow> dependency list \<Rightarrow> graph_state \<Rightarrow>
    construction_error + role_object option list \<times> graph_state" where
  "resolve_provider b stack i s =
     (if i = ''doxa:logger'' then Inr (Some (Builtin_object i), s)
      else if i \<in> set (bp_configurations b) then Inr (Some (Configuration_object i), s)
      else (case provider b i of
          None \<Rightarrow> Inr (None, s)
        | Some p \<Rightarrow>
          if \<not> included b i then Inr (None, s)
          else if re_scope p = Singleton \<and> om_has (gs_singletons s) i then Inr (om_get (gs_singletons s) i, s)
          else if i \<in> set stack then Inl (Dependency_cycle i)
          else (case om_get (bp_overrides b) i of
              Some methods \<Rightarrow>
                res_bind (resolve_dependencies b (i # stack) i (map (dp_optional_update (\<lambda>_. True)) (re_dependencies p)) s)
                  (\<lambda>(vs, s'). Inr (Some (Override_object i), register_singleton i (Override_object i)
                     \<lparr>pt_id = i, pt_lifecycle = methods, pt_callable = methods\<rparr> s'))
            | None \<Rightarrow>
                if i \<notin> set (bp_registry b) then Inl (Missing_constructor i)
                else res_bind (resolve_dependencies b (i # stack) i (constructor_dependencies p) s)
                  (\<lambda>(vs, s'). (case bp_construct b i vs of
                     Some e \<Rightarrow> Inl (Constructor_threw e)
                   | None \<Rightarrow>
                     (let v = Constructed (length (gs_heap s')); s'' = s'\<lparr>gs_heap := gs_heap s' @ [(i, vs)]\<rparr> in
                      Inr (Some v, if re_scope p = Singleton
                        then register_singleton i v
                          \<lparr>pt_id = i, pt_lifecycle = re_lifecycle p, pt_callable = bp_methods b i\<rparr> s''
                        else s'')))))))"
| "resolve_dependencies b stack owner [] s = Inr ([], s)"
| "resolve_dependencies b stack owner (d # ds) s = (case truthy_string (dp_target d) of
     None \<Rightarrow> res_bind (resolve_dependencies b stack owner ds s) (\<lambda>(vs, s'). Inr (None # vs, s'))
   | Some t \<Rightarrow> res_bind (resolve_provider b stack t s) (\<lambda>(v, s').
       if v = None \<and> \<not> dp_optional d then Inl (Missing_dependency t owner)
       else res_bind (resolve_dependencies b stack owner ds s') (\<lambda>(vs, s''). Inr (v # vs, s''))))"
  by pat_completeness auto

definition unbuilt :: "boot_plan \<Rightarrow> string list \<Rightarrow> nat" where
  "unbuilt b stack = card (fst ` set (entries_by_id (bp_providers b)) - set stack)"

lemma unbuilt_less: "provider b i = Some p \<Longrightarrow> i \<notin> set stack \<Longrightarrow> unbuilt b (i # stack) < unbuilt b stack"
proof -
  assume "provider b i = Some p" and i: "i \<notin> set stack"
  then have "i \<in> fst ` set (entries_by_id (bp_providers b))"
    by (auto simp: provider_def dest: om_get_mem intro: rev_image_eqI)
  with i have "fst ` set (entries_by_id (bp_providers b)) - set (i # stack) \<subset>
      fst ` set (entries_by_id (bp_providers b)) - set stack" by auto
  then show ?thesis unfolding unbuilt_def by (intro psubset_card_mono) auto
qed

termination resolve_provider
  by (relation "measures [\<lambda>x. case x of Inl (b, stack, i, s) \<Rightarrow> unbuilt b stack | Inr (b, stack, owner, ds, s) \<Rightarrow> unbuilt b stack,
      \<lambda>x. case x of Inl (b, stack, i, s) \<Rightarrow> 0 | Inr (b, stack, owner, ds, s) \<Rightarrow> Suc (length ds)]")
     (auto intro: unbuilt_less)

declare resolve_provider.simps [simp del]

text \<open>\<open>constructSingletonGraph\<close>: the loop over the sorted providers.\<close>

fun resolve_singletons :: "boot_plan \<Rightarrow> role_entry list \<Rightarrow> graph_state \<Rightarrow> construction_error + graph_state" where
  "resolve_singletons b [] s = Inr s"
| "resolve_singletons b (p # ps) s =
     (if re_scope p = Singleton \<and> included b (re_id p)
      then (case resolve_provider b [] (re_id p) s of Inl e \<Rightarrow> Inl e | Inr (v, s') \<Rightarrow> resolve_singletons b ps s')
      else resolve_singletons b ps s)"

definition empty_graph :: graph_state where
  "empty_graph = \<lparr>gs_singletons = [], gs_participants = [], gs_heap = []\<rparr>"

definition construct_singleton_graph :: "boot_plan \<Rightarrow> construction_error + graph_state" where
  "construct_singleton_graph b =
     (case find (\<lambda>i. case provider b i of None \<Rightarrow> True | Some p \<Rightarrow> re_scope p \<noteq> Singleton) (map fst (bp_overrides b)) of
        Some i \<Rightarrow> Inl (Unknown_override i)
      | None \<Rightarrow> resolve_singletons b (stable_sort (\<lambda>p q. bp_le b (re_id p) (re_id q)) (bp_providers b)) empty_graph)"

subsection \<open>No cycle is met\<close>

text \<open>The ids a provider's construction asks for, and the entry the compiler checked.\<close>

definition followed :: "boot_plan \<Rightarrow> role_entry \<Rightarrow> string list" where
  "followed b p = targets (map dp_target
     (if om_has (bp_overrides b) (re_id p) then re_dependencies p else constructor_dependencies p))"

definition checked_entry :: "role_entry \<Rightarrow> provider_entry" where
  "checked_entry r = \<lparr>pv_id = re_id r, pv_scope = re_scope r, pv_capabilities = re_capabilities r,
     pv_dependencies = map dp_target (re_dependencies r)\<rparr>"

abbreviation dependency_order :: "boot_plan \<Rightarrow> (string \<times> string) set" where
  "dependency_order b \<equiv> depends (map checked_entry (bp_providers b))"

lemma targets_set: "set (targets ds) = {t. Some t \<in> set ds \<and> t \<noteq> []}"
  by (induction ds rule: targets.induct) auto

lemma followed_subset: "set (followed b p) \<subseteq> set (targets (map dp_target (re_dependencies p)))"
  by (auto simp: followed_def targets_set constructor_dependencies_def)

lemma entries_by_id_get: "om_get (entries_by_id rs) i = find (\<lambda>r. re_id r = i) (rev rs)"
proof -
  have "om_get (fold (\<lambda>r. om_set (re_id r) r) rs m) i =
      (case find (\<lambda>r. re_id r = i) (rev rs) of None \<Rightarrow> om_get m i | Some r \<Rightarrow> Some r)" for m
    by (induction rs arbitrary: m rule: rev_induct) (auto split: option.split)
  then show ?thesis by (simp add: entries_by_id_def split: option.split)
qed

lemma provider_Some: "provider b i = Some p \<Longrightarrow> p \<in> set (bp_providers b) \<and> re_id p = i"
  unfolding provider_def entries_by_id_get find_Some_iff by (metis nth_mem set_rev)

lemma followed_edge: "provider b i = Some p \<Longrightarrow> t \<in> set (followed b p) \<Longrightarrow> (i, t) \<in> dependency_order b"
  using followed_subset [of b p] provider_Some [of b i p]
  by (auto simp: depends_def checked_entry_def)

lemma truthy_target: "truthy_string (dp_target d) = Some t \<longleftrightarrow> dp_target d = Some t \<and> t \<noteq> []"
  by (auto simp: truthy_string_def)

lemma asked_below:
  assumes "provider b i = Some p" and "\<And>x. x \<in> set stack \<Longrightarrow> (x, i) \<in> (dependency_order b)\<^sup>+"
    and "x \<in> set (i # stack)" and "t \<in> set (followed b p)"
  shows "(x, t) \<in> (dependency_order b)\<^sup>+"
proof (cases "x = i")
  case True
  then show ?thesis using followed_edge [OF assms(1,4)] by auto
next
  case False
  then have "(x, i) \<in> (dependency_order b)\<^sup>+" using assms(2,3) by auto
  then show ?thesis using followed_edge [OF assms(1,4)] by (rule trancl_into_trancl)
qed

lemma followed_simps:
  "re_id p = i \<Longrightarrow> om_get (bp_overrides b) i = Some m \<Longrightarrow>
     followed b p = targets (map dp_target (map (dp_optional_update (\<lambda>_. True)) (re_dependencies p)))"
  "re_id p = i \<Longrightarrow> om_get (bp_overrides b) i = None \<Longrightarrow>
     followed b p = targets (map dp_target (constructor_dependencies p))"
  by (simp_all add: followed_def om_has_get comp_def)

lemma no_cycle_met:
  "acyclic (dependency_order b) \<Longrightarrow> (\<And>x. x \<in> set stack \<Longrightarrow> (x, i) \<in> (dependency_order b)\<^sup>+) \<Longrightarrow>
     resolve_provider b stack i s \<noteq> Inl (Dependency_cycle j)"
  "acyclic (dependency_order b) \<Longrightarrow>
     (\<And>x t. x \<in> set stack \<Longrightarrow> t \<in> set (targets (map dp_target ds)) \<Longrightarrow> (x, t) \<in> (dependency_order b)\<^sup>+) \<Longrightarrow>
     resolve_dependencies b stack owner ds s \<noteq> Inl (Dependency_cycle j)"
proof (induction b stack i s and b stack owner ds s rule: resolve_provider_resolve_dependencies.induct)
  case (1 b stack i s)
  have "i \<notin> set stack" using 1(3,4) by (auto simp: acyclic_def)
  moreover have "resolve_dependencies b (i # stack) i (map (dp_optional_update (\<lambda>_. True)) (re_dependencies p)) s
      \<noteq> Inl (Dependency_cycle j)"
    if "provider b i = Some p" "om_get (bp_overrides b) i = Some m" "i \<noteq> ''doxa:logger''"
      "i \<notin> set (bp_configurations b)" "included b i" "\<not> (re_scope p = Singleton \<and> om_has (gs_singletons s) i)" for p m
    using 1(2) [OF that(3,4,1) _ that(6) \<open>i \<notin> set stack\<close> that(2) 1(3)] asked_below [OF that(1) 1(4)] that(5)
      followed_simps(1) [OF _ that(2), of p] provider_Some [OF that(1)] by simp
  moreover have "resolve_dependencies b (i # stack) i (constructor_dependencies p) s \<noteq> Inl (Dependency_cycle j)"
    if "provider b i = Some p" "om_get (bp_overrides b) i = None" "i \<noteq> ''doxa:logger''" "i \<in> set (bp_registry b)"
      "i \<notin> set (bp_configurations b)" "included b i" "\<not> (re_scope p = Singleton \<and> om_has (gs_singletons s) i)" for p
    using 1(1) [OF that(3,5,1) _ that(7) \<open>i \<notin> set stack\<close> that(2) _ 1(3)] asked_below [OF that(1) 1(4)] that(4,6)
      followed_simps(2) [OF _ that(2), of p] provider_Some [OF that(1)] by simp
  ultimately show ?case
    unfolding resolve_provider.simps [of b stack i s]
    by (auto simp: res_bind_Inl_iff Let_def split: option.splits if_splits)
next
  case (3 b stack owner d ds s)
  show ?case
  proof (cases "truthy_string (dp_target d)")
    case None
    with 3 show ?thesis by (auto simp: res_bind_Inl_iff targets_set)
  next
    case (Some t)
    then have t: "dp_target d = Some t" "t \<noteq> []" by (simp_all add: truthy_target)
    have "resolve_provider b stack t s \<noteq> Inl (Dependency_cycle j)"
      using 3(2) [OF Some 3(4)] 3(5) t by (simp add: targets_set)
    moreover have "resolve_dependencies b stack owner ds s' \<noteq> Inl (Dependency_cycle j)"
      if "resolve_provider b stack t s = Inr (v, s')" "v = None \<longrightarrow> dp_optional d" for v s'
      using 3(3) [OF Some that(1) refl _ 3(4)] 3(5) that(2) by (auto simp: targets_set)
    ultimately show ?thesis using Some by (auto simp: res_bind_Inl_iff split: if_splits)
  qed
qed simp

subsection \<open>The order of the singletons\<close>

text \<open>The ids that name a singleton of this boot, and those its construction asks for.\<close>

definition singleton :: "boot_plan \<Rightarrow> string \<Rightarrow> bool" where
  "singleton b i \<longleftrightarrow> i \<noteq> ''doxa:logger'' \<and> i \<notin> set (bp_configurations b) \<and> included b i \<and>
     (case provider b i of None \<Rightarrow> False | Some p \<Rightarrow> re_scope p = Singleton)"

definition needs :: "boot_plan \<Rightarrow> string \<Rightarrow> string set" where
  "needs b i = (case provider b i of None \<Rightarrow> {} | Some p \<Rightarrow> {t \<in> set (followed b p). singleton b t})"

abbreviation participant_ids :: "graph_state \<Rightarrow> string list" where
  "participant_ids s \<equiv> map pt_id (gs_participants s)"

text \<open>Each id is preceded by what it needs.\<close>

fun dependencies_first :: "(string \<Rightarrow> string set) \<Rightarrow> string list \<Rightarrow> string list \<Rightarrow> bool" where
  "dependencies_first need seen [] \<longleftrightarrow> True"
| "dependencies_first need seen (i # is) \<longleftrightarrow> need i \<subseteq> set seen \<and> dependencies_first need (i # seen) is"

lemma dependencies_first_append:
  "dependencies_first need seen (xs @ ys) \<longleftrightarrow> dependencies_first need seen xs \<and> dependencies_first need (rev xs @ seen) ys"
  by (induction xs arbitrary: seen) auto

definition well_built :: "boot_plan \<Rightarrow> graph_state \<Rightarrow> bool" where
  "well_built b s \<longleftrightarrow> map fst (gs_singletons s) = participant_ids s \<and> distinct (participant_ids s) \<and>
     list_all (singleton b) (participant_ids s) \<and> dependencies_first (needs b) [] (participant_ids s) \<and>
     filter (singleton b) (map fst (gs_heap s)) = filter (\<lambda>i. \<not> om_has (bp_overrides b) i) (participant_ids s)"

lemma well_built_has: "well_built b s \<Longrightarrow> om_has (gs_singletons s) i \<longleftrightarrow> i \<in> set (participant_ids s)"
  unfolding well_built_def om_has_def by (metis list.set_map)

text \<open>What resolving does to a well-built graph: it adds to it, nothing that is under construction.\<close>

definition grows :: "boot_plan \<Rightarrow> string list \<Rightarrow> graph_state \<Rightarrow> graph_state \<Rightarrow> bool" where
  "grows b stack s s' \<longleftrightarrow> well_built b s' \<and> set (participant_ids s) \<subseteq> set (participant_ids s') \<and>
     set stack \<inter> set (participant_ids s') \<subseteq> set (participant_ids s)"

lemma grows_refl: "well_built b s \<Longrightarrow> grows b stack s s"
  by (simp add: grows_def)

lemma grows_trans: "grows b stack s s' \<Longrightarrow> grows b stack s' s'' \<Longrightarrow> grows b stack s s''"
  unfolding grows_def by blast

lemma grows_register:
  assumes s': "grows b (i # stack) s s'" and i: "i \<notin> set (participant_ids s)" "i \<notin> set stack" "singleton b i"
    and needs: "needs b i \<subseteq> set (participant_ids s')" and p: "pt_id p = i"
    and heap: "hs = (if om_has (bp_overrides b) i then [] else [(i, vs)])"
  shows "grows b stack s (register_singleton i v p (s'\<lparr>gs_heap := gs_heap s' @ hs\<rparr>)) \<and>
    i \<in> set (participant_ids (register_singleton i v p (s'\<lparr>gs_heap := gs_heap s' @ hs\<rparr>)))"
proof -
  have new: "i \<notin> set (participant_ids s')" using s' i(1) unfolding grows_def by auto
  from s' have ok: "well_built b s'" by (simp add: grows_def)
  have "\<not> om_has (gs_singletons s') i" using new by (simp add: well_built_has [OF ok])
  then have "well_built b (register_singleton i v p (s'\<lparr>gs_heap := gs_heap s' @ hs\<rparr>))"
    using ok new i(3) needs p heap
    by (auto simp: well_built_def register_singleton_def om_set_new dependencies_first_append)
  then show ?thesis using s' i(2) p by (auto simp: grows_def register_singleton_def)
qed

lemma grows_transient:
  assumes "grows b (i # stack) s s'" and "\<not> singleton b i"
  shows "grows b stack s (s'\<lparr>gs_heap := gs_heap s' @ [(i, vs)]\<rparr>)"
  using assms by (auto simp: grows_def well_built_def)

definition overrides_singletons :: "boot_plan \<Rightarrow> bool" where
  "overrides_singletons b \<longleftrightarrow>
     (\<forall>i p. om_has (bp_overrides b) i \<longrightarrow> provider b i = Some p \<longrightarrow> re_scope p = Singleton)"

lemma resolving_grows:
  "overrides_singletons b \<Longrightarrow> well_built b s \<Longrightarrow> resolve_provider b stack i s = Inr (v, s') \<Longrightarrow>
     grows b stack s s' \<and> (singleton b i \<longrightarrow> i \<in> set (participant_ids s'))"
  "overrides_singletons b \<Longrightarrow> well_built b s \<Longrightarrow> resolve_dependencies b stack owner ds s = Inr (vs, s') \<Longrightarrow>
     grows b stack s s' \<and> {t \<in> set (targets (map dp_target ds)). singleton b t} \<subseteq> set (participant_ids s')"
proof (induction b stack i s and b stack owner ds s arbitrary: v s' and vs s' rule: resolve_provider_resolve_dependencies.induct)
  case (1 b stack i s)
  show ?case
  proof (cases "i = ''doxa:logger'' \<or> i \<in> set (bp_configurations b) \<or> provider b i = None \<or> \<not> included b i")
    case True
    then show ?thesis
      using 1(4,5) unfolding resolve_provider.simps [of b stack i s]
      by (auto simp: grows_refl singleton_def split: if_splits option.splits)
  next
    case False
    then obtain p where p: "provider b i = Some p" and plain: "i \<noteq> ''doxa:logger''" "i \<notin> set (bp_configurations b)" "included b i"
      by auto
    have re_id: "re_id p = i" using provider_Some [OF p] by simp
    have single: "singleton b i \<longleftrightarrow> re_scope p = Singleton" using plain p by (simp add: singleton_def)
    note unfolded = 1(5) [unfolded resolve_provider.simps [of b stack i s]]
    show ?thesis
    proof (cases "re_scope p = Singleton \<and> om_has (gs_singletons s) i")
      case True
      then show ?thesis using unfolded plain p 1(4) by (auto simp: grows_refl well_built_has)
    next
      case built: False
      then have stack: "i \<notin> set stack" using unfolded plain p by auto
      have unregistered: "singleton b i \<Longrightarrow> i \<notin> set (participant_ids s)"
        using built well_built_has [OF 1(4)] by (simp add: single)
      show ?thesis
      proof (cases "om_get (bp_overrides b) i")
        case None
        with unfolded plain p built stack obtain ws s1
          where deps: "resolve_dependencies b (i # stack) i (constructor_dependencies p) s = Inr (ws, s1)"
            and made: "i \<in> set (bp_registry b)" "bp_construct b i ws = None" "s' = (let s'' = s1\<lparr>gs_heap := gs_heap s1 @ [(i, ws)]\<rparr> in
              if re_scope p = Singleton then register_singleton i (Constructed (length (gs_heap s1)))
                \<lparr>pt_id = i, pt_lifecycle = re_lifecycle p, pt_callable = bp_methods b i\<rparr> s'' else s'')"
          by (auto simp: Let_def split: option.splits if_splits)
        have grown: "grows b (i # stack) s s1"
          and below: "{t \<in> set (followed b p). singleton b t} \<subseteq> set (participant_ids s1)"
          using 1(1) [OF plain(1,2) p _ built stack None _ 1(3,4) deps] made(1) plain(3) followed_simps(2) [OF re_id None] by simp_all
        show ?thesis
        proof (cases "re_scope p = Singleton")
          case True
          have "needs b i \<subseteq> set (participant_ids s1)" using below p by (simp add: needs_def)
          from grows_register [OF grown unregistered stack _ this, of _ "[(i, ws)]" ws "Constructed (length (gs_heap s1))"]
          show ?thesis using True made(3) None by (simp add: single om_has_get)
        next
          case False
          then show ?thesis using grows_transient [OF grown, of ws] made(3) by (simp add: single)
        qed
      next
        case (Some methods)
        let ?p = "\<lparr>pt_id = i, pt_lifecycle = methods, pt_callable = methods\<rparr>"
        from Some unfolded plain p built stack obtain ws s1
          where deps: "resolve_dependencies b (i # stack) i (map (dp_optional_update (\<lambda>_. True)) (re_dependencies p)) s = Inr (ws, s1)"
            and made: "s' = register_singleton i (Override_object i) ?p s1"
          by auto
        have grown: "grows b (i # stack) s s1"
          and below: "{t \<in> set (followed b p). singleton b t} \<subseteq> set (participant_ids s1)"
          using 1(2) [OF plain(1,2) p _ built stack Some 1(3,4) deps] plain(3) followed_simps(1) [OF re_id Some] by simp_all
        have "needs b i \<subseteq> set (participant_ids s1)" using below p by (simp add: needs_def)
        moreover have "re_scope p = Singleton"
          using 1(3) [unfolded overrides_singletons_def om_has_get] p Some by blast
        ultimately show ?thesis
          using grows_register [OF grown unregistered stack, of ?p "[]" "[]" "Override_object i"] made Some
          by (simp add: single om_has_get)
      qed
    qed
  qed
next
  case (2 b stack owner s)
  then show ?case by (simp add: grows_refl)
next
  case (3 b stack owner d ds s)
  show ?case
  proof (cases "truthy_string (dp_target d)")
    case None
    with 3 show ?thesis by (auto simp: targets_set truthy_string_def split: if_splits)
  next
    case (Some t)
    then have t: "dp_target d = Some t" "t \<noteq> []" by (simp_all add: truthy_target)
    from Some 3(6) obtain w s1 ws where one: "resolve_provider b stack t s = Inr (w, s1)" "w = None \<longrightarrow> dp_optional d"
      and rest: "resolve_dependencies b stack owner ds s1 = Inr (ws, s')"
      by (auto split: if_splits)
    from 3(2) [OF Some 3(4,5) one(1)] have first: "grows b stack s s1" "singleton b t \<longrightarrow> t \<in> set (participant_ids s1)" by simp_all
    then have "well_built b s1" by (simp add: grows_def)
    with 3(3) [OF Some one(1) refl _ 3(4) _ rest] one(2)
    have "grows b stack s1 s'" "{t \<in> set (targets (map dp_target ds)). singleton b t} \<subseteq> set (participant_ids s')" by auto
    moreover from first(1) this(1) have "grows b stack s s'" by (rule grows_trans)
    moreover have "set (participant_ids s1) \<subseteq> set (participant_ids s')" using calculation(1) by (simp add: grows_def)
    ultimately show ?thesis using first(2) t by auto
  qed
qed

lemma singletons_grow:
  "resolve_singletons b ps s = Inr g \<Longrightarrow> overrides_singletons b \<Longrightarrow> well_built b s \<Longrightarrow>
     grows b [] s g \<and> {re_id p |p. p \<in> set ps \<and> re_scope p = Singleton \<and> singleton b (re_id p)} \<subseteq> set (participant_ids g)"
proof (induction ps arbitrary: s)
  case Nil
  then show ?case by (simp add: grows_refl)
next
  case (Cons p ps)
  show ?case
  proof (cases "re_scope p = Singleton \<and> included b (re_id p)")
    case False
    then have "resolve_singletons b ps s = Inr g" using Cons.prems(1) by auto
    moreover have "\<not> (re_scope p = Singleton \<and> singleton b (re_id p))" using False by (auto simp: singleton_def)
    ultimately show ?thesis using Cons.IH Cons.prems(2,3) by auto
  next
    case True
    then obtain v s1 where one: "resolve_provider b [] (re_id p) s = Inr (v, s1)" and rest: "resolve_singletons b ps s1 = Inr g"
      using Cons.prems(1) by (auto split: sum.splits prod.splits)
    note here = resolving_grows(1) [OF Cons.prems(2,3) one]
    then have "well_built b s1" by (simp add: grows_def)
    note later = Cons.IH [OF rest Cons.prems(2) this]
    from here later have "grows b [] s g" by (blast intro: grows_trans)
    with here later show ?thesis by (auto simp: grows_def)
  qed
qed

lemma constructed_graph:
  assumes "construct_singleton_graph b = Inr g"
  shows "overrides_singletons b \<and> resolve_singletons b (stable_sort (\<lambda>p q. bp_le b (re_id p) (re_id q)) (bp_providers b)) empty_graph = Inr g"
proof -
  let ?bad = "\<lambda>i. case provider b i of None \<Rightarrow> True | Some p \<Rightarrow> re_scope p \<noteq> Singleton"
  have none: "find ?bad (map fst (bp_overrides b)) = None"
    and run: "resolve_singletons b (stable_sort (\<lambda>p q. bp_le b (re_id p) (re_id q)) (bp_providers b)) empty_graph = Inr g"
    using assms unfolding construct_singleton_graph_def by (auto split: option.splits)
  from none have "overrides_singletons b"
    by (auto simp: overrides_singletons_def find_None_iff om_has_def split: option.splits)
  with run show ?thesis by simp
qed

lemma singletons_without_cycle:
  "resolve_singletons b ps s = Inl e \<Longrightarrow> acyclic (dependency_order b) \<Longrightarrow> e \<noteq> Dependency_cycle i"
proof (induction ps arbitrary: s)
  case (Cons p ps)
  then show ?case using no_cycle_met(1) [OF Cons.prems(2), of "[]" "re_id p" s i] by (auto split: if_splits sum.splits)
qed simp

text \<open>The check of the compiler, from its proof of exactness.\<close>

lemma checked_acyclic:
  assumes "assert_unique (map checked_entry ps) pv_id label = Inr ()"
    and "assert_acyclic_provider_graph (map checked_entry ps) = Inr ()"
  shows "acyclic (depends (map checked_entry ps))"
  using acyclic_check_exact [OF assms(1)] assms(2) by simp

subsection \<open>Properties\<close>

text \<open>
  What the compiler has checked, the runtime builds without meeting a cycle: if the providers of
  a manifest have unique ids and pass \<open>assertAcyclicProviderGraph\<close>, then constructing the
  singletons never fails with a dependency cycle, whatever the overrides and the profile.
\<close>

theorem checked_graph_builds_without_cycle:
  assumes "assert_unique (map checked_entry (bp_providers b)) pv_id label = Inr ()"
    and "assert_acyclic_provider_graph (map checked_entry (bp_providers b)) = Inr ()"
  shows "construct_singleton_graph b \<noteq> Inl (Dependency_cycle i)"
  using singletons_without_cycle [OF _ checked_acyclic [OF assms], of _ empty_graph _ i]
  unfolding construct_singleton_graph_def by (auto split: option.splits)

text \<open>
  C26. Singletons start after what they depend on and stop before it. In the graph a boot constructs,
  the participants are exactly the singletons of the profile, each once; each comes after every
  singleton its construction asked for; and each that is not overridden was constructed exactly once.
\<close>

theorem singletons_follow_dependencies:
  assumes "construct_singleton_graph b = Inr g" and "distinct (map re_id (bp_providers b))"
  shows "set (participant_ids g) = {i. singleton b i} \<and> distinct (participant_ids g) \<and>
    dependencies_first (needs b) [] (participant_ids g) \<and>
    filter (singleton b) (map fst (gs_heap g)) = filter (\<lambda>i. \<not> om_has (bp_overrides b) i) (participant_ids g)"
proof -
  from constructed_graph [OF assms(1)] have overrides: "overrides_singletons b"
    and run: "resolve_singletons b (stable_sort (\<lambda>p q. bp_le b (re_id p) (re_id q)) (bp_providers b)) empty_graph = Inr g"
    by simp_all
  have "well_built b empty_graph" by (simp add: well_built_def empty_graph_def)
  note grown = singletons_grow [OF run overrides this]
  then have ok: "well_built b g" by (simp add: grows_def)
  have "i \<in> set (participant_ids g)" if i: "singleton b i" for i
  proof -
    from i obtain p where p: "provider b i = Some p" "re_scope p = Singleton" by (auto simp: singleton_def split: option.splits)
    from provider_Some [OF p(1)] p(2) i
    have "i \<in> {re_id p |p. p \<in> set (bp_providers b) \<and> re_scope p = Singleton \<and> singleton b (re_id p)}" by auto
    with grown show ?thesis by auto
  qed
  with ok show ?thesis unfolding well_built_def by (auto simp: list_all_iff)
qed

subsection \<open>Witnesses\<close>

definition sample_dependency :: "dependency_kind \<Rightarrow> string \<Rightarrow> bool \<Rightarrow> dependency" where
  "sample_dependency kind target opt = \<lparr>dp_kind = kind, dp_token = [], dp_target = Some target, dp_optional = opt\<rparr>"

text \<open>A server that needs a store and a cache, which a test overrides; the store needs its configuration.\<close>

definition sample_plan :: boot_plan where
  "sample_plan = \<lparr>bp_providers =
       [\<lparr>re_id = ''web'', re_scope = Singleton, re_capabilities = [], re_dependencies =
           [sample_dependency Constructor_dependency ''store'' False, sample_dependency Constructor_dependency ''cache'' True],
           re_lifecycle = [Start, Stop]\<rparr>,
        \<lparr>re_id = ''store'', re_scope = Singleton, re_capabilities = [Transactions],
           re_dependencies = [sample_dependency Constructor_dependency ''env'' False], re_lifecycle = [Stop]\<rparr>,
        \<lparr>re_id = ''cache'', re_scope = Singleton, re_capabilities = [Cache_capability],
           re_dependencies = [sample_dependency Role_dependency ''store'' False], re_lifecycle = []\<rparr>],
     bp_configurations = [''env''], bp_overrides = [(''cache'', [Dispose])], bp_included = None,
     bp_registry = [''web'', ''store'', ''cache''], bp_methods = (\<lambda>i. [Start, Stop]), bp_construct = (\<lambda>i vs. None),
     bp_le = (\<lambda>i j. length j \<le> length i)\<rparr>"

definition sample_graph :: graph_state where
  "sample_graph = (case construct_singleton_graph sample_plan of Inr g \<Rightarrow> g)"

lemma sample_graph_constructed: "construct_singleton_graph sample_plan = Inr sample_graph"
  by code_simp

theorem checked_graph_builds_without_cycle_witness:
  "construct_singleton_graph sample_plan \<noteq> Inl (Dependency_cycle ''web'')"
proof (rule checked_graph_builds_without_cycle)
  show "assert_unique (map checked_entry (bp_providers sample_plan)) pv_id ''provider ID'' = Inr ()" by code_simp
  show "assert_acyclic_provider_graph (map checked_entry (bp_providers sample_plan)) = Inr ()" by code_simp
qed

theorem singletons_follow_dependencies_witness:
  "participant_ids sample_graph = [''store'', ''cache'', ''web''] \<and>
   dependencies_first (needs sample_plan) [] (participant_ids sample_graph)"
proof -
  have "distinct (map re_id (bp_providers sample_plan))" by code_simp
  from singletons_follow_dependencies [OF sample_graph_constructed this]
  have "dependencies_first (needs sample_plan) [] (participant_ids sample_graph)" by blast
  moreover have "participant_ids sample_graph = [''store'', ''cache'', ''web'']" by code_simp
  ultimately show ?thesis by blast
qed

end
