(* ===== verification/Configuration.thy ===== *)
theory Configuration
  imports RuntimeGraph
begin

text \<open>
  Configuration objects (\<open>packages/runtime/src/runtime.ts\<close>): the \<open>.env\<close> file, where the value of
  a property comes from, what is made of it, and \<open>materializeConfigurations\<close>, which collects
  every issue before it fails.

  \<open>String(v)\<close> and \<open>Number(s)\<close> are the host's: the second gives \<open>None\<close> for what is not a
  finite number. An override may be any value, or \<open>undefined\<close>.
\<close>

subsection \<open>The \<open>.env\<close> file\<close>

text \<open>Lines end with a line feed; the carriage return before it is white space and trimmed.\<close>

fun text_lines :: "string \<Rightarrow> string list" where
  "text_lines [] = [[]]"
| "text_lines (c # cs) = (if c = CHR 0x0A then [] # text_lines cs
     else (case text_lines cs of [] \<Rightarrow> [[c]] | l # ls \<Rightarrow> (c # l) # ls))"

definition unquote :: "string \<Rightarrow> string" where
  "unquote v =
     (if v \<noteq> [] \<and> hd v = last v \<and> hd v \<in> {CHR 0x22, CHR 0x27}
      then butlast (tl v) else v)"

fun index_of :: "char \<Rightarrow> string \<Rightarrow> nat option" where
  "index_of c [] = None"
| "index_of c (x # xs) = (if x = c then Some 0 else map_option Suc (index_of c xs))"

definition dotenv_entry :: "string \<Rightarrow> (string \<times> string) option" where
  "dotenv_entry raw =
     (let line = js_trim raw in
      if line = [] \<or> hd line = CHR ''#'' then None
      else (case index_of (CHR ''='') line of
          None \<Rightarrow> None
        | Some 0 \<Rightarrow> None
        | Some n \<Rightarrow> Some (js_trim (take n line), unquote (js_trim (drop (Suc n) line)))))"

definition load_dotenv :: "string option \<Rightarrow> (string, string) omap" where
  "load_dotenv contents = (case contents of
     None \<Rightarrow> []
   | Some t \<Rightarrow> fold (\<lambda>l m. case dotenv_entry l of None \<Rightarrow> m | Some (k, v) \<Rightarrow> om_set k v m) (text_lines t) [])"

subsection \<open>Properties\<close>

datatype value_kind = String_kind | Number_kind | Boolean_kind | Literal_union | Secret_kind

record configuration_property =
  cp_name :: string
  cp_environment_key :: string
  cp_kind :: value_kind
  cp_allowed :: "json list option"
  cp_optional :: bool
  cp_default :: "json option"

record configuration_entry =
  ce_id :: string
  ce_name :: string
  ce_properties :: "configuration_property list"

datatype configured = Plain json | Secret string

record text_host =
  th_text :: "json \<Rightarrow> string"
  th_number :: "string \<Rightarrow> rat option"

definition resolve_configuration_value :: "text_host \<Rightarrow> string \<Rightarrow> configuration_property \<Rightarrow> json option \<Rightarrow>
    string + configured option" where
  "resolve_configuration_value h owner p source = (case source of
     None \<Rightarrow> if cp_optional p then Inr None else Inl (''required value is missing for '' @ owner)
   | Some v \<Rightarrow> (case cp_kind p of
       Literal_union \<Rightarrow>
         (case find (\<lambda>a. th_text h a = th_text h v) (case cp_allowed p of None \<Rightarrow> [] | Some vs \<Rightarrow> vs) of
            None \<Rightarrow> Inl (''expected one of '' @ (case cp_allowed p of
               None \<Rightarrow> ''undefined'' | Some vs \<Rightarrow> join '', '' (map (th_text h) vs)))
          | Some a \<Rightarrow> Inr (Some (Plain a)))
     | String_kind \<Rightarrow> (case v of JStr s \<Rightarrow> Inr (Some (Plain v)) | _ \<Rightarrow> Inl ''expected a string'')
     | Secret_kind \<Rightarrow> (case v of JStr s \<Rightarrow> Inr (Some (Secret s)) | _ \<Rightarrow> Inl ''expected a secret string'')
     | Number_kind \<Rightarrow>
         (case v of
            JNum (Fin q) \<Rightarrow> Inr (Some (Plain v))
          | JStr s \<Rightarrow> (case (if js_trim s = [] then None else th_number h s) of
               Some q \<Rightarrow> Inr (Some (Plain (JNum (Fin q)))) | None \<Rightarrow> Inl ''expected a finite number'')
          | _ \<Rightarrow> Inl ''expected a finite number'')
     | Boolean_kind \<Rightarrow>
         (case v of
            JBool b \<Rightarrow> Inr (Some (Plain v))
          | JStr s \<Rightarrow> if s = ''true'' then Inr (Some (Plain (JBool True)))
              else if s = ''false'' then Inr (Some (Plain (JBool False))) else Inl ''expected true or false''
          | _ \<Rightarrow> Inl ''expected true or false'')))"

text \<open>The sources of values, the first that has one: override, environment, \<open>.env\<close>, default.\<close>

record configuration_sources =
  cs_overrides :: "string \<Rightarrow> (string, json option) omap"
  cs_environment :: "string \<Rightarrow> string option"
  cs_dotenv :: "string \<Rightarrow> string option"

definition configuration_source :: "configuration_sources \<Rightarrow> string \<Rightarrow> configuration_property \<Rightarrow> json option" where
  "configuration_source cs owner p = (case om_get (cs_overrides cs owner) (cp_name p) of
     Some override \<Rightarrow> override
   | None \<Rightarrow> (case cs_environment cs (cp_environment_key p) of
       Some s \<Rightarrow> Some (JStr s)
     | None \<Rightarrow> (case cs_dotenv cs (cp_environment_key p) of Some s \<Rightarrow> Some (JStr s) | None \<Rightarrow> cp_default p)))"

type_synonym configuration = "(string, configured option) omap"

definition property_value :: "text_host \<Rightarrow> configuration_sources \<Rightarrow> configuration_entry \<Rightarrow> configuration_property \<Rightarrow>
    string + configured option" where
  "property_value h cs c p = resolve_configuration_value h (ce_id c) p (configuration_source cs (ce_id c) p)"

definition property_issue :: "configuration_entry \<Rightarrow> configuration_property \<Rightarrow> string \<Rightarrow> string" where
  "property_issue c p e = ce_name c @ ''.'' @ cp_name p @ '' ('' @ cp_environment_key p @ ''): '' @ e"

fun materialize_properties :: "text_host \<Rightarrow> configuration_sources \<Rightarrow> configuration_entry \<Rightarrow> configuration_property list \<Rightarrow>
    configuration \<Rightarrow> string list \<Rightarrow> configuration \<times> string list" where
  "materialize_properties h cs c [] made issues = (made, issues)"
| "materialize_properties h cs c (p # ps) made issues = (case property_value h cs c p of
     Inl e \<Rightarrow> materialize_properties h cs c ps made (issues @ [property_issue c p e])
   | Inr v \<Rightarrow> materialize_properties h cs c ps (om_set (cp_name p) v made) issues)"

text \<open>The loop: the instances, with a missing constructor as the error that ends it, and the issues.\<close>

fun materialize_all :: "text_host \<Rightarrow> configuration_sources \<Rightarrow> string list \<Rightarrow> string list option \<Rightarrow> configuration_entry list \<Rightarrow>
    (string, configuration) omap \<Rightarrow> string list \<Rightarrow> string + (string, configuration) omap \<times> string list" where
  "materialize_all h cs registry only [] instances issues = Inr (instances, issues)"
| "materialize_all h cs registry only (c # rest) instances issues =
     (if (case only of None \<Rightarrow> False | Some ids \<Rightarrow> ce_id c \<notin> set ids)
      then materialize_all h cs registry only rest instances issues
      else if ce_id c \<notin> set registry then Inl (''Registry is missing '' @ ce_id c @ ''.'')
      else (case materialize_properties h cs c (ce_properties c) [] issues of
          (made, issues') \<Rightarrow>
            materialize_all h cs registry only rest (om_set (ce_id c) made instances) issues'))"

datatype configuration_error = Integrity string | Invalid_configuration "string list"

definition materialize_configurations :: "text_host \<Rightarrow> configuration_sources \<Rightarrow> string list \<Rightarrow> string list option \<Rightarrow>
    configuration_entry list \<Rightarrow> configuration_error + (string, configuration) omap" where
  "materialize_configurations h cs registry only entries = (case materialize_all h cs registry only entries [] [] of
     Inl e \<Rightarrow> Inl (Integrity e)
   | Inr (instances, issues) \<Rightarrow> if issues \<noteq> [] then Inl (Invalid_configuration issues) else Inr instances)"

subsection \<open>Values have the kind the manifest declares\<close>

fun of_kind :: "configuration_property \<Rightarrow> configured option \<Rightarrow> bool" where
  "of_kind p None = cp_optional p"
| "of_kind p (Some (Secret s)) = (cp_kind p = Secret_kind)"
| "of_kind p (Some (Plain v)) = (case cp_kind p of
     String_kind \<Rightarrow> (\<exists>s. v = JStr s) | Number_kind \<Rightarrow> (\<exists>q. v = JNum (Fin q)) | Boolean_kind \<Rightarrow> (\<exists>b. v = JBool b)
   | Literal_union \<Rightarrow> (\<exists>vs. cp_allowed p = Some vs \<and> v \<in> set vs) | Secret_kind \<Rightarrow> False)"

lemma resolved_of_kind: "resolve_configuration_value h owner p source = Inr v \<Longrightarrow> of_kind p v"
  by (cases source; cases "cp_kind p")
     (auto simp: resolve_configuration_value_def find_Some_iff split: if_splits option.splits json.splits jsnum.splits)

definition selected :: "string list option \<Rightarrow> configuration_entry list \<Rightarrow> configuration_entry list" where
  "selected only entries = filter (\<lambda>c. case only of None \<Rightarrow> True | Some ids \<Rightarrow> ce_id c \<in> set ids) entries"

definition issues_of :: "text_host \<Rightarrow> configuration_sources \<Rightarrow> configuration_entry \<Rightarrow> configuration_property list \<Rightarrow> string list" where
  "issues_of h cs c ps = concat (map (\<lambda>p. case property_value h cs c p of Inl e \<Rightarrow> [property_issue c p e] | Inr v \<Rightarrow> []) ps)"

lemma materialize_properties_issues:
  "snd (materialize_properties h cs c ps m issues) = issues @ issues_of h cs c ps"
  by (induction ps arbitrary: m issues) (auto simp: issues_of_def split: sum.splits)

lemma materialize_properties_keeps:
  "p \<notin> cp_name ` set ps \<Longrightarrow> om_get (fst (materialize_properties h cs c ps m issues)) p = om_get m p"
  by (induction ps arbitrary: m issues) (auto split: sum.splits)

lemma materialize_properties_values:
  "distinct (map cp_name ps) \<Longrightarrow> p \<in> set ps \<Longrightarrow> property_value h cs c p = Inr v \<Longrightarrow>
     om_get (fst (materialize_properties h cs c ps m issues)) (cp_name p) = Some v"
proof (induction ps arbitrary: m issues)
  case (Cons q ps)
  show ?case
  proof (cases "p = q")
    case True
    with Cons.prems show ?thesis by (simp add: materialize_properties_keeps)
  next
    case False
    with Cons show ?thesis by (auto split: sum.splits)
  qed
qed simp

lemma selected_Cons:
  "selected only (c # rest) = (if (case only of None \<Rightarrow> False | Some ids \<Rightarrow> ce_id c \<notin> set ids)
     then selected only rest else c # selected only rest)"
  by (simp add: selected_def split: option.split)

lemma materialize_all_issues:
  "materialize_all h cs registry only entries m issues = Inr (m', issues') \<Longrightarrow>
     issues' = issues @ concat (map (\<lambda>c. issues_of h cs c (ce_properties c)) (selected only entries))"
proof (induction entries arbitrary: m issues)
  case (Cons c rest)
  show ?case
  proof (cases "case only of None \<Rightarrow> False | Some ids \<Rightarrow> ce_id c \<notin> set ids")
    case True
    with Cons show ?thesis by (simp add: selected_Cons)
  next
    case False
    obtain x i where here: "materialize_properties h cs c (ce_properties c) [] issues = (x, i)" by fastforce
    with False Cons.prems have "materialize_all h cs registry only rest (om_set (ce_id c) x m) i = Inr (m', issues')"
      by (simp split: if_splits)
    from Cons.IH [OF this] here False show ?thesis
      using materialize_properties_issues [of h cs c "ce_properties c" "[]" issues] by (simp add: selected_Cons)
  qed
qed (simp add: selected_def)

lemma materialize_all_keeps:
  "materialize_all h cs registry only entries m issues = Inr (m', issues') \<Longrightarrow> i \<notin> ce_id ` set entries \<Longrightarrow>
     om_get m' i = om_get m i"
  by (induction entries arbitrary: m issues) (auto split: if_splits prod.splits)

lemma materialize_all_instances:
  "materialize_all h cs registry only entries m issues = Inr (m', issues') \<Longrightarrow> distinct (map ce_id entries) \<Longrightarrow>
     c \<in> set (selected only entries) \<Longrightarrow>
     \<exists>old. om_get m' (ce_id c) = Some (fst (materialize_properties h cs c (ce_properties c) [] old))"
proof (induction entries arbitrary: m issues)
  case (Cons d rest)
  show ?case
  proof (cases "c = d")
    case True
    with Cons.prems have "\<not> (case only of None \<Rightarrow> False | Some ids \<Rightarrow> ce_id c \<notin> set ids)"
      by (auto simp: selected_def split: option.splits if_splits)
    with True Cons.prems obtain x later where here: "materialize_properties h cs c (ce_properties c) [] issues = (x, later)"
      and rest: "materialize_all h cs registry only rest (om_set (ce_id c) x m) later = Inr (m', issues')"
      by (auto split: if_splits prod.splits)
    have "om_get m' (ce_id c) = Some x" using materialize_all_keeps [OF rest, of "ce_id c"] Cons.prems(2) True by simp
    then show ?thesis using here by (metis fst_conv)
  next
    case False
    with Cons.prems(3) have "c \<in> set (selected only rest)" by (auto simp: selected_def split: if_splits)
    with Cons show ?thesis by (auto split: if_splits prod.splits)
  qed
qed (simp add: selected_def)

text \<open>
  C29. An application starts only with values of the declared kinds. When the configurations are
  materialised, every property of every selected one has the value its source resolves to, and this is
  of the kind the manifest declares, absent only where the property is optional. When they are refused
  for their values, the report is the list of all the properties that do not resolve, and it is not empty.
\<close>

theorem configured_values_well_typed:
  assumes "distinct (map ce_id entries)" and "c \<in> set (selected only entries)"
    and "distinct (map cp_name (ce_properties c))" and "p \<in> set (ce_properties c)"
  shows "(\<forall>instances. materialize_configurations h cs registry only entries = Inr instances \<longrightarrow>
      (\<exists>m v. om_get instances (ce_id c) = Some m \<and> om_get m (cp_name p) = Some v \<and>
         property_value h cs c p = Inr v \<and> of_kind p v)) \<and>
    (\<forall>issues. materialize_configurations h cs registry only entries = Inl (Invalid_configuration issues) \<longrightarrow>
      issues \<noteq> [] \<and> issues = concat (map (\<lambda>c. issues_of h cs c (ce_properties c)) (selected only entries)))"
proof (intro conjI allI impI)
  fix instances assume "materialize_configurations h cs registry only entries = Inr instances"
  then have run: "materialize_all h cs registry only entries [] [] = Inr (instances, [])"
    by (auto simp: materialize_configurations_def split: sum.splits if_splits)
  from materialize_all_issues [OF run] assms(2) have "issues_of h cs c (ce_properties c) = []" by auto
  with assms(4) have "\<not> isl (property_value h cs c p)"
    by (auto simp: issues_of_def isl_def split: sum.splits)
  then obtain v where v: "property_value h cs c p = Inr v" by (cases "property_value h cs c p") auto
  from materialize_all_instances [OF run assms(1,2)] obtain old
    where "om_get instances (ce_id c) = Some (fst (materialize_properties h cs c (ce_properties c) [] old))" by blast
  moreover from materialize_properties_values [OF assms(3,4) v]
  have "om_get (fst (materialize_properties h cs c (ce_properties c) [] old)) (cp_name p) = Some v" .
  moreover from v have "of_kind p v" unfolding property_value_def by (rule resolved_of_kind)
  ultimately show "\<exists>m v. om_get instances (ce_id c) = Some m \<and> om_get m (cp_name p) = Some v \<and>
      property_value h cs c p = Inr v \<and> of_kind p v" using v by blast
qed (auto simp: materialize_configurations_def dest!: materialize_all_issues split: sum.splits if_splits)

subsection \<open>Witness\<close>

definition sample_text_host :: text_host where
  "sample_text_host = \<lparr>th_text = (\<lambda>v. case v of JStr s \<Rightarrow> s | _ \<Rightarrow> ''?''),
     th_number = (\<lambda>s. if s = ''8080'' then Some 8080 else None)\<rparr>"

definition sample_property :: configuration_property where
  "sample_property = \<lparr>cp_name = ''port'', cp_environment_key = ''PORT'', cp_kind = Number_kind, cp_allowed = None,
     cp_optional = False, cp_default = Some (JNum (Fin 80))\<rparr>"

definition sample_configuration :: configuration_entry where
  "sample_configuration = \<lparr>ce_id = ''env'', ce_name = ''Env'', ce_properties = [sample_property]\<rparr>"

definition sample_sources :: "string \<Rightarrow> configuration_sources" where
  "sample_sources file = \<lparr>cs_overrides = (\<lambda>i. []), cs_environment = (\<lambda>k. None), cs_dotenv = om_get (load_dotenv (Some file))\<rparr>"

theorem configured_values_well_typed_witness:
  "\<exists>m. om_get m ''port'' = Some (Some (Plain (JNum (Fin 8080)))) \<and>
     materialize_configurations sample_text_host (sample_sources ''PORT = 8080'') [''env''] None [sample_configuration] =
       Inr [(''env'', m)]"
proof -
  let ?run = "materialize_configurations sample_text_host (sample_sources ''PORT = 8080'') [''env''] None [sample_configuration]"
  let ?m = "[(''port'', Some (Plain (JNum (Fin 8080))))]"
  have run: "?run = Inr [(''env'', ?m)]" by code_simp
  have "distinct (map ce_id [sample_configuration])" "sample_configuration \<in> set (selected None [sample_configuration])"
    "distinct (map cp_name (ce_properties sample_configuration))" "sample_property \<in> set (ce_properties sample_configuration)"
    by (simp_all add: selected_def sample_configuration_def)
  from configured_values_well_typed [OF this, of sample_text_host "sample_sources ''PORT = 8080''" "[''env'']"] run
  have "\<exists>m v. om_get [(''env'', ?m)] (ce_id sample_configuration) = Some m \<and> om_get m (cp_name sample_property) = Some v \<and>
      of_kind sample_property v" by blast
  with run show ?thesis by (intro exI [of _ ?m]) (simp add: om_get_def)
qed

end
