(* ===== verification/ExecutionScope.thy ===== *)
theory ExecutionScope
  imports RuntimeGraph
begin

text \<open>
  The scope of one execution, \<open>ExecutionScope\<close> of \<open>packages/runtime/src/runtime.ts\<close>: it
  constructs the roles an execution asks for, with their dependencies, shares those of execution scope,
  and disposes of what it constructed.

  What a constructor does is the application's: the roles it injects, in order, and whether it then
  throws. The constructor arguments and the injected roles of an object are kept on a heap; the
  singletons of the runtime are opaque here.
\<close>

subsection \<open>Scopes\<close>

record injection_token =
  it_name :: string
  it_builtin :: "string option"
  it_direct :: "string option"
  it_capability :: "capability option"

record scope_plan =
  sp_providers :: "role_entry list"
  sp_executables :: "role_entry list"
  sp_registry :: "string list"
  sp_configurations :: "string list"
  sp_singletons :: "string list"
  sp_methods :: "string \<Rightarrow> phase list"
  sp_injects :: "string \<Rightarrow> (injection_token \<times> bool) list"
  sp_throws :: "string \<Rightarrow> role_object option list \<Rightarrow> string option"

record scope_state =
  sc_instances :: "(string, role_object) omap"
  sc_disposables :: "(participant \<times> nat) list"
  sc_heap :: "(string \<times> role_object option list) list"
  sc_unit_of_work :: bool
  sc_read_only :: bool
  sc_disposed :: bool

datatype resolution_error =
    Scope_disposed
  | Construction construction_error
  | Undeclared_injection string string
  | Nested_unit_of_work

definition builtin_roles :: "string list" where
  "builtin_roles = [''doxa:action-bus'', ''doxa:query-bus'', ''doxa:current-execution'', ''doxa:current-job'',
     ''doxa:authorization'', ''doxa:ai-observability'', ''doxa:mailer'', ''doxa:sms'', ''doxa:delivery-ledger'', ''doxa:logger'']"

definition role :: "scope_plan \<Rightarrow> string \<Rightarrow> role_entry option" where
  "role sp i = (case om_get (entries_by_id (sp_providers sp)) i of
     Some p \<Rightarrow> Some p | None \<Rightarrow> om_get (entries_by_id (sp_executables sp)) i)"

text \<open>\<open>#injectionTarget\<close>: the declared dependency of the owner that a token stands for.\<close>

definition or_else :: "'a option \<Rightarrow> 'a option \<Rightarrow> 'a option" where
  "or_else a b = (case a of None \<Rightarrow> b | Some x \<Rightarrow> Some x)"

definition inferred_target :: "scope_plan \<Rightarrow> injection_token \<Rightarrow> string option" where
  "inferred_target sp t = or_else (it_builtin t) (or_else (it_direct t) (case it_capability t of
     None \<Rightarrow> None
   | Some c \<Rightarrow> map_option re_id
       (find (\<lambda>p. c \<in> set (re_capabilities p)) (map snd (entries_by_id (sp_providers sp))))))"

definition injection_target :: "scope_plan \<Rightarrow> role_entry \<Rightarrow> injection_token \<Rightarrow> bool \<Rightarrow> resolution_error + string option" where
  "injection_target sp owner t opt =
     (let inferred = inferred_target sp t in
      case find (\<lambda>d. dp_kind d = Role_dependency \<and> (dp_target d = inferred \<or>
          inferred = None \<and> opt \<and> dp_optional d \<and> dp_token d = it_name t)) (re_dependencies owner) of
        None \<Rightarrow> Inl (Undeclared_injection (re_id owner) (it_name t))
      | Some d \<Rightarrow> if dp_optional d \<noteq> opt then Inl (Undeclared_injection (re_id owner) (it_name t))
          else Inr (dp_target d))"

subsection \<open>Resolving\<close>

definition add_instance :: "scope_plan \<Rightarrow> role_entry \<Rightarrow> string \<Rightarrow> role_object option list \<Rightarrow> scope_state \<Rightarrow> scope_state" where
  "add_instance sp m i vs s =
     (let n = length (sc_heap s) in s\<lparr>sc_heap := sc_heap s @ [(i, vs)],
        sc_instances := (if re_scope m = Execution then om_set i (Constructed n) (sc_instances s) else sc_instances s),
        sc_disposables := sc_disposables s @ (if Dispose \<in> set (re_lifecycle m)
          then [(\<lparr>pt_id = i, pt_lifecycle = re_lifecycle m, pt_callable = sp_methods sp i\<rparr>, n)] else [])\<rparr>)"

text \<open>
  \<open>resolve\<close>, the arguments of a constructor, and the roles it injects. What was constructed before an
  error stays in the scope.
\<close>

function (sequential) resolve_role :: "scope_plan \<Rightarrow> string list \<Rightarrow> string \<Rightarrow> scope_state \<Rightarrow>
    (resolution_error + role_object option) \<times> scope_state"
  and resolve_arguments :: "scope_plan \<Rightarrow> string list \<Rightarrow> string \<Rightarrow> dependency list \<Rightarrow> scope_state \<Rightarrow>
    (resolution_error + role_object option list) \<times> scope_state"
  and inject_roles :: "scope_plan \<Rightarrow> string list \<Rightarrow> role_entry \<Rightarrow> (injection_token \<times> bool) list \<Rightarrow> scope_state \<Rightarrow>
    (resolution_error + role_object option list) \<times> scope_state" where
  "resolve_role sp stack i s =
     (if sc_disposed s then (Inl Scope_disposed, s)
      else if i \<in> set builtin_roles then (Inr (Some (Builtin_object i)), s)
      else if i = ''doxa:unit-of-work'' then
        (Inr (Some (Builtin_object (if sc_read_only s \<or> \<not> sc_unit_of_work s
           then ''doxa:read-only-unit-of-work'' else i))), s)
      else if i \<in> set (sp_configurations sp) then (Inr (Some (Configuration_object i)), s)
      else if i \<in> set (sp_singletons sp) then (Inr (Some (Shared_singleton i)), s)
      else (case role sp i of
          None \<Rightarrow> (Inr None, s)
        | Some m \<Rightarrow>
          if re_scope m = Execution \<and> om_has (sc_instances s) i then (Inr (om_get (sc_instances s) i), s)
          else if i \<in> set stack then (Inl (Construction (Dependency_cycle i)), s)
          else if i \<notin> set (sp_registry sp) then (Inl (Construction (Missing_constructor i)), s)
          else (case resolve_arguments sp (i # stack) i (constructor_dependencies m) s of
              (Inl e, s1) \<Rightarrow> (Inl e, s1)
            | (Inr vs, s1) \<Rightarrow> (case inject_roles sp (i # stack) m (sp_injects sp i) s1 of
                (Inl e, s2) \<Rightarrow> (Inl e, s2)
              | (Inr ws, s2) \<Rightarrow> (case sp_throws sp i (vs @ ws) of
                  Some e \<Rightarrow> (Inl (Construction (Constructor_threw e)), s2)
                | None \<Rightarrow> (Inr (Some (Constructed (length (sc_heap s2)))), add_instance sp m i (vs @ ws) s2))))))"
| "resolve_arguments sp stack owner [] s = (Inr [], s)"
| "resolve_arguments sp stack owner (d # ds) s = (case truthy_string (dp_target d) of
     None \<Rightarrow> (case resolve_arguments sp stack owner ds s of (Inl e, s') \<Rightarrow> (Inl e, s') | (Inr vs, s') \<Rightarrow> (Inr (None # vs), s'))
   | Some t \<Rightarrow> (case resolve_role sp stack t s of
       (Inl e, s') \<Rightarrow> (Inl e, s')
     | (Inr v, s') \<Rightarrow>
         if v = None \<and> \<not> dp_optional d then (Inl (Construction (Missing_dependency t owner)), s')
         else (case resolve_arguments sp stack owner ds s' of
             (Inl e, s'') \<Rightarrow> (Inl e, s'') | (Inr vs, s'') \<Rightarrow> (Inr (v # vs), s''))))"
| "inject_roles sp stack owner [] s = (Inr [], s)"
| "inject_roles sp stack owner ((t, opt) # ts) s = (case injection_target sp owner t opt of
     Inl e \<Rightarrow> (Inl e, s)
   | Inr target \<Rightarrow> (case truthy_string target of
       None \<Rightarrow> (case inject_roles sp stack owner ts s of (Inl e, s') \<Rightarrow> (Inl e, s') | (Inr vs, s') \<Rightarrow> (Inr (None # vs), s'))
     | Some i \<Rightarrow> (case resolve_role sp stack i s of
         (Inl e, s') \<Rightarrow> (Inl e, s')
       | (Inr v, s') \<Rightarrow>
           if v = None then (Inl (Construction (Missing_dependency i (re_id owner))), s')
           else (case inject_roles sp stack owner ts s' of
               (Inl e, s'') \<Rightarrow> (Inl e, s'') | (Inr vs, s'') \<Rightarrow> (Inr (v # vs), s'')))))"
  by pat_completeness auto

definition unresolved :: "scope_plan \<Rightarrow> string list \<Rightarrow> nat" where
  "unresolved sp stack =
     card (fst ` set (entries_by_id (sp_providers sp)) \<union> fst ` set (entries_by_id (sp_executables sp)) - set stack)"

lemma unresolved_less: "role sp i = Some m \<Longrightarrow> i \<notin> set stack \<Longrightarrow> unresolved sp (i # stack) < unresolved sp stack"
proof -
  let ?K = "fst ` set (entries_by_id (sp_providers sp)) \<union> fst ` set (entries_by_id (sp_executables sp))"
  assume "role sp i = Some m" and i: "i \<notin> set stack"
  then have "i \<in> ?K" by (auto simp: role_def dest!: om_get_mem intro: rev_image_eqI split: option.splits)
  with i have "?K - set (i # stack) \<subset> ?K - set stack" by auto
  then show ?thesis unfolding unresolved_def by (intro psubset_card_mono) auto
qed

termination resolve_role
  by (relation "measures [\<lambda>x. case x of Inl (sp, stack, i, s) \<Rightarrow> unresolved sp stack
      | Inr (Inl (sp, stack, owner, ds, s)) \<Rightarrow> unresolved sp stack
      | Inr (Inr (sp, stack, owner, ts, s)) \<Rightarrow> unresolved sp stack,
      \<lambda>x. case x of Inl (sp, stack, i, s) \<Rightarrow> 0 | Inr (Inl (sp, stack, owner, ds, s)) \<Rightarrow> Suc (length ds)
      | Inr (Inr (sp, stack, owner, ts, s)) \<Rightarrow> Suc (length ts)]")
     (auto intro: unresolved_less)

declare resolve_role.simps [simp del]

subsection \<open>The life of a scope\<close>

definition new_scope :: scope_state where
  "new_scope = \<lparr>sc_instances = [], sc_disposables = [], sc_heap = [], sc_unit_of_work = False, sc_read_only = False,
     sc_disposed = False\<rparr>"

text \<open>\<open>dispose(timeout)\<close>, at a time.\<close>

definition dispose_scope :: "Lifecycle.environment \<Rightarrow> int \<Rightarrow> int \<Rightarrow> scope_state \<Rightarrow> lifecycle_error list \<times> int \<times> scope_state" where
  "dispose_scope env timeout now s =
     (if sc_disposed s then ([], now, s)
      else (case invoke_phase env Dispose timeout (rev (map fst (sc_disposables s))) now [] of
          (errors, now') \<Rightarrow> (errors, now', s\<lparr>sc_disposed := True, sc_instances := []\<rparr>)))"

definition with_unit_of_work :: "(scope_state \<Rightarrow> (resolution_error + 'a) \<times> scope_state) \<Rightarrow> scope_state \<Rightarrow>
    (resolution_error + 'a) \<times> scope_state" where
  "with_unit_of_work work s =
     (if sc_unit_of_work s then (Inl Nested_unit_of_work, s)
      else (case work (s\<lparr>sc_unit_of_work := True\<rparr>) of (r, s') \<Rightarrow> (r, s'\<lparr>sc_unit_of_work := False\<rparr>)))"

text \<open>An execution resolves roles one after another; an error does not end it.\<close>

fun resolve_sequence :: "scope_plan \<Rightarrow> string list \<Rightarrow> scope_state \<Rightarrow>
    (resolution_error + role_object option) list \<times> scope_state" where
  "resolve_sequence sp [] s = ([], s)"
| "resolve_sequence sp (i # is) s =
     (let (r, s1) = resolve_role sp [] i s; (rs, s2) = resolve_sequence sp is s1 in (r # rs, s2))"

subsection \<open>What a scope keeps\<close>

text \<open>An id that stands for a role of execution scope, constructed by this scope.\<close>

definition own_role :: "scope_plan \<Rightarrow> string \<Rightarrow> bool" where
  "own_role sp i \<longleftrightarrow> i \<notin> set builtin_roles \<and> i \<noteq> ''doxa:unit-of-work'' \<and> i \<notin> set (sp_configurations sp) \<and>
     i \<notin> set (sp_singletons sp)"

definition shared_role :: "scope_plan \<Rightarrow> string \<Rightarrow> bool" where
  "shared_role sp i \<longleftrightarrow> own_role sp i \<and> (case role sp i of None \<Rightarrow> False | Some m \<Rightarrow> re_scope m = Execution)"

definition refers_below :: "nat \<Rightarrow> role_object option \<Rightarrow> bool" where
  "refers_below n v \<longleftrightarrow> (\<forall>k. v = Some (Constructed k) \<longrightarrow> k < n)"

fun heap_ordered :: "nat \<Rightarrow> (string \<times> role_object option list) list \<Rightarrow> bool" where
  "heap_ordered n [] \<longleftrightarrow> True"
| "heap_ordered n ((i, vs) # h) \<longleftrightarrow> list_all (refers_below n) vs \<and> heap_ordered (Suc n) h"

lemma heap_ordered_append: "heap_ordered n (g @ h) \<longleftrightarrow> heap_ordered n g \<and> heap_ordered (n + length g) h"
  by (induction n g rule: heap_ordered.induct) auto

definition scope_ok :: "scope_plan \<Rightarrow> scope_state \<Rightarrow> bool" where
  "scope_ok sp s \<longleftrightarrow> heap_ordered 0 (sc_heap s) \<and>
     filter (shared_role sp) (map fst (sc_heap s)) = map fst (sc_instances s) \<and> distinct (map fst (sc_instances s)) \<and>
     list_all (refers_below (length (sc_heap s))) (map (Some \<circ> snd) (sc_instances s)) \<and>
     sorted_wrt (<) (map snd (sc_disposables s)) \<and> list_all (\<lambda>n. n < length (sc_heap s)) (map snd (sc_disposables s))"

text \<open>What resolving does: it adds objects, and no instance for what is under construction.\<close>

definition scope_grows :: "string list \<Rightarrow> scope_state \<Rightarrow> scope_state \<Rightarrow> bool" where
  "scope_grows stack s s' \<longleftrightarrow> length (sc_heap s) \<le> length (sc_heap s') \<and>
     (\<forall>i v. om_get (sc_instances s) i = Some v \<longrightarrow> om_get (sc_instances s') i = Some v) \<and>
     (\<forall>i\<in>set stack. om_get (sc_instances s') i = om_get (sc_instances s) i) \<and> sc_disposed s' = sc_disposed s"

lemma scope_grows_refl [simp]: "scope_grows stack s s"
  by (simp add: scope_grows_def)

lemma scope_grows_trans: "scope_grows stack s s' \<Longrightarrow> scope_grows stack s' s'' \<Longrightarrow> scope_grows stack s s''"
  unfolding scope_grows_def by auto

lemma scope_grows_Cons: "scope_grows (i # stack) s s' \<Longrightarrow> scope_grows stack s s'"
  by (simp add: scope_grows_def)

lemma refers_below_mono: "refers_below n v \<Longrightarrow> n \<le> k \<Longrightarrow> refers_below k v"
  by (auto simp: refers_below_def)

lemma list_all_refers_mono: "list_all (refers_below n) vs \<Longrightarrow> n \<le> k \<Longrightarrow> list_all (refers_below k) vs"
  by (auto simp: list_all_iff intro: refers_below_mono)

lemma scope_ok_instance: "scope_ok sp s \<Longrightarrow> refers_below (length (sc_heap s)) (om_get (sc_instances s) i)"
  by (cases "om_get (sc_instances s) i") (auto simp: scope_ok_def refers_below_def list_all_iff dest!: om_get_mem)

lemma add_instance_ok:
  assumes ok: "scope_ok sp s" and vs: "list_all (refers_below (length (sc_heap s))) vs" and m: "role sp i = Some m"
    and own: "own_role sp i" and new: "re_scope m = Execution \<Longrightarrow> \<not> om_has (sc_instances s) i"
  shows "scope_ok sp (add_instance sp m i vs s)"
proof -
  have shared: "shared_role sp i \<longleftrightarrow> re_scope m = Execution" using m own by (simp add: shared_role_def)
  have fresh: "i \<notin> set (map fst (sc_instances s))" if "re_scope m = Execution"
    using new [OF that] by (simp add: om_has_def)
  show ?thesis
    using ok vs fresh
    by (auto simp: scope_ok_def add_instance_def Let_def heap_ordered_append shared om_set_new [OF new] list_all_iff
        sorted_wrt_append refers_below_def intro: less_SucI)
qed

lemma resolving_keeps:
  "scope_ok sp s \<Longrightarrow> resolve_role sp stack i s = (r, s') \<Longrightarrow>
     scope_ok sp s' \<and> scope_grows stack s s' \<and> (\<forall>v. r = Inr v \<longrightarrow> refers_below (length (sc_heap s')) v \<and>
       (shared_role sp i \<longrightarrow> \<not> sc_disposed s \<longrightarrow> om_get (sc_instances s') i = v \<and> v \<noteq> None))"
  "scope_ok sp s \<Longrightarrow> resolve_arguments sp stack owner ds s = (rs, s') \<Longrightarrow>
     scope_ok sp s' \<and> scope_grows stack s s' \<and> (\<forall>vs. rs = Inr vs \<longrightarrow> list_all (refers_below (length (sc_heap s'))) vs)"
  "scope_ok sp s \<Longrightarrow> inject_roles sp stack m ts s = (rs, s') \<Longrightarrow>
     scope_ok sp s' \<and> scope_grows stack s s' \<and> (\<forall>vs. rs = Inr vs \<longrightarrow> list_all (refers_below (length (sc_heap s'))) vs)"
proof (induction sp stack i s and sp stack owner ds s and sp stack m ts s
    arbitrary: r s' and rs s' and rs s' rule: resolve_role_resolve_arguments_inject_roles.induct)
  case (1 sp stack i s)
  note unfolded = 1(4) [unfolded resolve_role.simps [of sp stack i s]]
  show ?case
  proof (cases "sc_disposed s \<or> \<not> own_role sp i \<or> role sp i = None")
    case True
    then show ?thesis using unfolded 1(3)
      by (auto simp: own_role_def shared_role_def refers_below_def split: if_splits option.splits)
  next
    case False
    then obtain m where m: "role sp i = Some m" and live: "\<not> sc_disposed s" and own: "own_role sp i" by auto
    note plain = own [unfolded own_role_def]
    have shared: "shared_role sp i \<longleftrightarrow> re_scope m = Execution" using m own by (simp add: shared_role_def)
    consider (kept) "re_scope m = Execution \<and> om_has (sc_instances s) i"
      | (refused) "\<not> (re_scope m = Execution \<and> om_has (sc_instances s) i)" "i \<in> set stack \<or> i \<notin> set (sp_registry sp)"
      | (built) "\<not> (re_scope m = Execution \<and> om_has (sc_instances s) i)" "i \<notin> set stack" "i \<in> set (sp_registry sp)" by blast
    then show ?thesis
    proof cases
      case kept
      then show ?thesis using unfolded live plain m 1(3) scope_ok_instance [OF 1(3)] by (auto simp: om_has_get)
    next
      case refused
      then show ?thesis using unfolded live plain m 1(3) by (auto split: if_splits)
    next
      case built
      obtain a s1 where args: "resolve_arguments sp (i # stack) i (constructor_dependencies m) s = (a, s1)" by fastforce
      have one: "scope_ok sp s1" "scope_grows (i # stack) s s1"
        "\<And>vs. a = Inr vs \<Longrightarrow> list_all (refers_below (length (sc_heap s1))) vs"
        using 1(1) [OF live _ _ _ _ m built(1,2) _ 1(3) args] plain built(3) by simp_all
      show ?thesis
      proof (cases a)
        case (Inl e)
        then show ?thesis using unfolded live plain m built args one scope_grows_Cons by auto
      next
        case (Inr vs)
        obtain b s2 where inj: "inject_roles sp (i # stack) m (sp_injects sp i) s1 = (b, s2)" by fastforce
        have two: "scope_ok sp s2" "scope_grows (i # stack) s1 s2"
          "\<And>ws. b = Inr ws \<Longrightarrow> list_all (refers_below (length (sc_heap s2))) ws"
          using 1(2) [OF live _ _ _ _ m built(1,2) _ args [symmetric] Inr one(1) inj] plain built(3) Inr by simp_all
        have grown: "scope_grows (i # stack) s s2" using one(2) two(2) by (rule scope_grows_trans)
        show ?thesis
        proof (cases "\<exists>ws. b = Inr ws \<and> sp_throws sp i (vs @ ws) = None")
          case False
          then show ?thesis using unfolded live plain m built args inj Inr two(1) scope_grows_Cons [OF grown]
            by (auto split: sum.splits option.splits)
        next
          case True
          then obtain ws where ws: "b = Inr ws" "sp_throws sp i (vs @ ws) = None" by blast
          have done_: "r = Inr (Some (Constructed (length (sc_heap s2))))" "s' = add_instance sp m i (vs @ ws) s2"
            using unfolded live plain m built args inj Inr ws by simp_all
          have "re_scope m = Execution \<Longrightarrow> \<not> om_has (sc_instances s2) i"
            using grown built(1) by (auto simp: scope_grows_def om_has_get)
          moreover have "list_all (refers_below (length (sc_heap s2))) (vs @ ws)"
            using two(3) [OF ws(1)] list_all_refers_mono [OF one(3) [OF Inr], of "length (sc_heap s2)"] two(2)
            by (simp add: scope_grows_def)
          ultimately have "scope_ok sp s'" unfolding done_(2) using add_instance_ok [OF two(1) _ m own] by blast
          moreover have "scope_grows stack s s'"
            using grown built(1,2) unfolding done_(2) add_instance_def scope_grows_def
            by (auto simp: Let_def om_has_get)
          ultimately show ?thesis unfolding done_ by (auto simp: refers_below_def add_instance_def Let_def shared)
        qed
      qed
    qed
  qed
next
  case (3 sp stack owner d ds s)
  show ?case
  proof (cases "truthy_string (dp_target d)")
    case None
    obtain a s1 where "resolve_arguments sp stack owner ds s = (a, s1)" by fastforce
    with 3(1) [OF None 3(4) this] 3(5) None show ?thesis by (auto simp: refers_below_def split: sum.splits)
  next
    case (Some t)
    obtain a s1 where one: "resolve_role sp stack t s = (a, s1)" by fastforce
    note first = 3(2) [OF Some 3(4) one]
    show ?thesis
    proof (cases "\<exists>v. a = Inr v \<and> (v \<noteq> None \<or> dp_optional d)")
      case False
      with Some one first 3(5) show ?thesis by (auto split: sum.splits if_splits)
    next
      case True
      then obtain v where v: "a = Inr v" "\<not> (v = None \<and> \<not> dp_optional d)" by blast
      obtain b s2 where two: "resolve_arguments sp stack owner ds s1 = (b, s2)" by fastforce
      note second = 3(3) [OF Some one [symmetric] v(1,2) conjunct1 [OF first] two]
      have "s' = s2" using 3(5) Some one two v by (auto split: sum.splits)
      moreover have "scope_grows stack s s2" using first second by (blast intro: scope_grows_trans)
      moreover have "refers_below (length (sc_heap s2)) v"
        using first second v(1) by (auto intro: refers_below_mono simp: scope_grows_def)
      ultimately show ?thesis using 3(5) Some one two v second by (auto split: sum.splits)
    qed
  qed
next
  case (5 sp stack owner t opt ts s)
  show ?case
  proof (cases "injection_target sp owner t opt")
    case (Inl e)
    with 5(4,5) show ?thesis by auto
  next
    case (Inr target)
    show ?thesis
    proof (cases "truthy_string target")
      case None
      obtain a s1 where "inject_roles sp stack owner ts s = (a, s1)" by fastforce
      with 5(1) [OF Inr None 5(4) this] 5(5) Inr None show ?thesis by (auto simp: refers_below_def split: sum.splits)
    next
      case (Some i)
      obtain a s1 where one: "resolve_role sp stack i s = (a, s1)" by fastforce
      note first = 5(2) [OF Inr Some 5(4) one]
      show ?thesis
      proof (cases "\<exists>v. a = Inr v \<and> v \<noteq> None")
        case False
        with Inr Some one first 5(5) show ?thesis by (auto split: sum.splits if_splits)
      next
        case True
        then obtain v where v: "a = Inr v" "v \<noteq> None" by blast
        obtain b s2 where two: "inject_roles sp stack owner ts s1 = (b, s2)" by fastforce
        note second = 5(3) [OF Inr Some one [symmetric] v conjunct1 [OF first] two]
        have "s' = s2" using 5(5) Inr Some one two v by (auto split: sum.splits)
        moreover have "scope_grows stack s s2" using first second by (blast intro: scope_grows_trans)
        moreover have "refers_below (length (sc_heap s2)) v"
          using first second v(1) by (auto intro: refers_below_mono simp: scope_grows_def)
        ultimately show ?thesis using 5(5) Inr Some one two v second by (auto split: sum.splits)
      qed
    qed
  qed
qed auto

lemma new_scope_ok: "scope_ok sp new_scope"
  by (simp add: scope_ok_def new_scope_def)

lemma sequence_keeps:
  "resolve_sequence sp is s = (rs, s') \<Longrightarrow> scope_ok sp s \<Longrightarrow> \<not> sc_disposed s \<Longrightarrow>
     scope_ok sp s' \<and> scope_grows [] s s' \<and>
     (\<forall>j<length is. \<forall>v. rs ! j = Inr v \<longrightarrow> shared_role sp (is ! j) \<longrightarrow> om_get (sc_instances s') (is ! j) = v \<and> v \<noteq> None)"
proof (induction "is" arbitrary: s rs)
  case (Cons i "is")
  obtain r s1 where one: "resolve_role sp [] i s = (r, s1)" by fastforce
  obtain rest where rest: "resolve_sequence sp is s1 = (rest, s')" "rs = r # rest"
    using Cons.prems(1) one by (auto split: prod.splits)
  note first = resolving_keeps(1) [OF Cons.prems(2) one]
  then have "\<not> sc_disposed s1" using Cons.prems(3) by (simp add: scope_grows_def)
  note later = Cons.IH [OF rest(1) conjunct1 [OF first] this]
  have "scope_grows [] s s'" using first later by (blast intro: scope_grows_trans)
  moreover have "om_get (sc_instances s') ((i # is) ! j) = v \<and> v \<noteq> None"
    if "j < length (i # is)" "rs ! j = Inr v" "shared_role sp ((i # is) ! j)" for j v
  proof (cases j)
    case 0
    with that first Cons.prems(3) rest(2) have "om_get (sc_instances s1) i = v" "v \<noteq> None" by auto
    with later show ?thesis using 0 by (auto simp: scope_grows_def)
  next
    case (Suc k)
    with that later rest(2) show ?thesis by simp
  qed
  ultimately show ?case using later by blast
qed simp

lemma heap_ordered_nth: "heap_ordered n h \<Longrightarrow> k < length h \<Longrightarrow> Some (Constructed a) \<in> set (snd (h ! k)) \<Longrightarrow> a < n + k"
proof (induction n h arbitrary: k rule: heap_ordered.induct)
  case (2 n i vs h)
  then show ?case by (cases k) (auto simp: list_all_iff refers_below_def)
qed simp

subsection \<open>Properties\<close>

text \<open>
  C28. An execution shares its roles. Whatever it resolves, in whatever order and with whatever errors
  in between, a role of execution scope is constructed at most once, whoever asks for it, and
  everybody who is given one is given the same object.
\<close>

theorem scope_shares_instances:
  assumes "resolve_sequence sp ids new_scope = (rs, s)"
  shows "distinct (filter (shared_role sp) (map fst (sc_heap s))) \<and>
    (\<forall>j k v w. j < length ids \<longrightarrow> k < length ids \<longrightarrow> ids ! j = ids ! k \<longrightarrow> shared_role sp (ids ! j) \<longrightarrow>
       rs ! j = Inr v \<longrightarrow> rs ! k = Inr w \<longrightarrow> v = w \<and> v \<noteq> None)"
proof -
  have "\<not> sc_disposed new_scope" by (simp add: new_scope_def)
  note kept = sequence_keeps [OF assms new_scope_ok this]
  then have "scope_ok sp s" by blast
  then have "distinct (filter (shared_role sp) (map fst (sc_heap s)))" by (simp add: scope_ok_def)
  moreover have "v = w \<and> v \<noteq> None" if "j < length ids" "k < length ids" "ids ! j = ids ! k" "shared_role sp (ids ! j)"
    "rs ! j = Inr v" "rs ! k = Inr w" for j k v w
    using kept that by metis
  ultimately show ?thesis by blast
qed


subsection \<open>Witnesses\<close>

definition sample_role :: "string \<Rightarrow> provider_scope \<Rightarrow> dependency list \<Rightarrow> role_entry" where
  "sample_role i scope ds = \<lparr>re_id = i, re_scope = scope, re_capabilities = [], re_dependencies = ds, re_lifecycle = [Dispose]\<rparr>"

text \<open>Two actions that share a session; one is given it, the other injects it.\<close>

definition sample_scope_plan :: scope_plan where
  "sample_scope_plan = \<lparr>sp_providers = [sample_role ''session'' Execution []],
     sp_executables = [sample_role ''pay'' Transient [sample_dependency Constructor_dependency ''session'' False],
       sample_role ''ship'' Transient [sample_dependency Role_dependency ''session'' False]],
     sp_registry = [''session'', ''pay'', ''ship''], sp_configurations = [], sp_singletons = [],
     sp_methods = (\<lambda>i. [Dispose]),
     sp_injects = (\<lambda>i. if i = ''ship''
       then [(\<lparr>it_name = ''Session'', it_builtin = None, it_direct = Some ''session'', it_capability = None\<rparr>, False)] else []),
     sp_throws = (\<lambda>i vs. None)\<rparr>"

definition sample_resolved :: "(resolution_error + role_object option) list \<times> scope_state" where
  "sample_resolved = resolve_sequence sample_scope_plan [''pay'', ''session'', ''ship'', ''session''] new_scope"

theorem scope_shares_instances_witness:
  "fst sample_resolved ! 1 = Inr (Some (Constructed 0)) \<and> fst sample_resolved ! 3 = fst sample_resolved ! 1 \<and>
   distinct (filter (shared_role sample_scope_plan) (map fst (sc_heap (snd sample_resolved))))"
proof -
  have run: "resolve_sequence sample_scope_plan [''pay'', ''session'', ''ship'', ''session''] new_scope =
      (fst sample_resolved, snd sample_resolved)" by (simp add: sample_resolved_def)
  have "fst sample_resolved ! 1 = Inr (Some (Constructed 0))" "fst sample_resolved ! 3 = fst sample_resolved ! 1" by code_simp+
  with scope_shares_instances [OF run] show ?thesis by blast
qed


end
