(* ===== verification/Operations.thy ===== *)
theory Operations
  imports EventDispatch
begin

text \<open>
  Admitting an execution and running operations in it (\<open>packages/runtime/src/runtime.ts\<close>):
  \<open>#admitExecution\<close>, \<open>dispatchAction\<close>, \<open>dispatchQuery\<close> and \<open>invokeJob\<close>.

  A handler is what the application does with its unit of work, an action of the execution; it is
  given the stack of the operations it runs in. Observations, telemetry and logs are left out, and
  model sessions, which read and write through the same unit of work.
\<close>

subsection \<open>Admission\<close>

datatype ('e, 'c) admission_error =
    Not_ready string
  | Nested_execution
  | Invalid_context string
  | Work_error 'e
  | Cleanup_error "'c list"
  | Failure_and_cleanup 'e "'c list"

record runtime =
  rt_state :: string
  rt_inside :: bool
  rt_intl :: intl
  rt_time :: time_defaults

text \<open>
  The work runs in the context made of the seed, and the scope is disposed of however it ends; what
  disposing comes to is the argument.
\<close>

definition admit_execution :: "runtime \<Rightarrow> execution_ids \<Rightarrow> string option \<Rightarrow> execution_seed \<Rightarrow>
    (execution_context \<Rightarrow> 's \<Rightarrow> 'e option \<times> 's) \<Rightarrow> ('s \<Rightarrow> 'c list \<times> 's) \<Rightarrow> 's \<Rightarrow>
    ('e, 'c) admission_error option \<times> 's" where
  "admit_execution rt ids own_span seed work dispose s =
     (if rt_state rt \<noteq> ''ready'' then (Some (Not_ready (rt_state rt)), s)
      else if rt_inside rt then (Some Nested_execution, s)
      else (case create_execution_context (rt_intl rt) (rt_time rt) ids own_span seed of
          Inl message \<Rightarrow> (Some (Invalid_context message), s)
        | Inr context \<Rightarrow> (case work context s of
            (failed, s') \<Rightarrow> (case dispose s' of
                (cleanup, s'') \<Rightarrow>
                  ((case failed of
                      Some e \<Rightarrow> Some (if cleanup = [] then Work_error e else Failure_and_cleanup e cleanup)
                    | None \<Rightarrow> if cleanup = [] then None else Some (Cleanup_error cleanup)), s'')))))"

subsection \<open>Operations\<close>

record operation =
  op_id :: string
  op_query :: bool
  op_access :: string

record 'd operations =
  os_operations :: "operation list"
  os_transactions :: bool
  os_resolve :: "string \<Rightarrow> work_error option"
  os_handle :: "string \<Rightarrow> string list \<Rightarrow> 'd action"

definition nested_unit_of_work :: work_error where
  "nested_unit_of_work = Dispatch_failure ''Nested units of work are prohibited in the Doxa MVP.''"

text \<open>A transaction around an action of the execution: the error, the tables and the execution it leaves.\<close>

definition transact :: "'d environment \<Rightarrow> 'd action \<Rightarrow> database \<Rightarrow> 'd execution \<Rightarrow>
    work_error option \<times> database \<times> 'd execution" where
  "transact env work db s =
     (if xe_uow s \<noteq> None then (Some nested_unit_of_work, db, s)
      else (case within_transaction env work db s of
          (None, es, s') \<Rightarrow> (Some (case es of [] \<Rightarrow> Stale_unit_of_work | e # rest \<Rightarrow> e), db, s')
        | (Some db', es, s') \<Rightarrow> (if es = [] then None else Some (After_commit_failure es), db', s')))"

definition guarded :: "'d environment \<Rightarrow> string \<Rightarrow> 'd action \<Rightarrow> 'd action" where
  "guarded env access work s =
     (case (if access \<noteq> ''public'' then en_authorize env access else None) of Some e \<Rightarrow> (Some e, s) | None \<Rightarrow> work s)"

definition run_handler :: "'d operations \<Rightarrow> string \<Rightarrow> string list \<Rightarrow> 'd action" where
  "run_handler os i stack s = (case os_resolve os i of Some e \<Rightarrow> (Some e, s) | None \<Rightarrow> os_handle os i stack s)"

definition operation_for :: "'d operations \<Rightarrow> string \<Rightarrow> bool \<Rightarrow> work_error + operation" where
  "operation_for os i query = (case find (\<lambda>q. op_id q = i) (os_operations os) of
     None \<Rightarrow> Inl (Dispatch_failure (i @ '' is not a declared '' @ (if query then ''query.'' else ''action.'')))
   | Some oper \<Rightarrow> if op_query oper \<noteq> query
       then Inl (Dispatch_failure (i @ '' is not a declared '' @ (if query then ''query.'' else ''action.''))) else Inr oper)"

definition dispatch_action :: "'d environment \<Rightarrow> 'd operations \<Rightarrow> string \<Rightarrow> string list \<Rightarrow> database \<Rightarrow> 'd execution \<Rightarrow>
    work_error option \<times> database \<times> 'd execution" where
  "dispatch_action env os i stack db s =
     (if stack \<noteq> [] then (Some (Dispatch_failure ''Nested action dispatch is prohibited in the Doxa MVP.''), db, s)
      else (case operation_for os i False of
          Inl e \<Rightarrow> (Some e, db, s)
        | Inr oper \<Rightarrow>
          if \<not> os_transactions os
          then (Some (Dispatch_failure ''No transaction manager is available for action dispatch.''), db, s)
          else transact env (guarded env (op_access oper) (run_handler os i (''action'' # stack))) db s))"

text \<open>A query reads; it has no unit of work of its own.\<close>

definition dispatch_query :: "'d environment \<Rightarrow> 'd operations \<Rightarrow> string \<Rightarrow> string list \<Rightarrow> 'd action" where
  "dispatch_query env os i stack s = (case operation_for os i True of
     Inl e \<Rightarrow> (Some e, s)
   | Inr oper \<Rightarrow>
     if \<not> os_transactions os
     then (Some (Dispatch_failure ''No persistence manager is available for query dispatch.''), s)
     else guarded env (op_access oper) (run_handler os i (''query'' # stack)) s)"

record job_entry =
  jb_id :: string
  jb_access :: string
  jb_policy :: queue_policy

definition invoke_job :: "'d environment \<Rightarrow> bool \<Rightarrow> job_entry \<Rightarrow> 'd action \<Rightarrow> database \<Rightarrow> 'd execution \<Rightarrow>
    work_error option \<times> database \<times> 'd execution" where
  "invoke_job env transactions j handler db s =
     (if \<not> transactions
      then (Some (Dispatch_failure ''No transaction manager is available for job execution.''), db, s)
      else transact env (guarded env (jb_access j) handler) db s)"

end
