(* ===== verification/QueueDelivery.thy ===== *)
theory QueueDelivery
  imports Operations
begin

text \<open>
  Queueing jobs and messages, and what a worker does with a delivery
  (\<open>packages/runtime/src/runtime.ts\<close>: \<open>dispatchJob\<close>, \<open>dispatchCommunication\<close>,
  \<open>recordDelivery\<close>, \<open>handleQueueDelivery\<close> and its callees).

  Job handlers, transports and the constructors of events are arguments. The table of attempt traces
  is that of \<open>packages/queue-pg-boss\<close>, without its sweep of rows older than thirty days; its
  statements succeed or all fail.
\<close>

subsection \<open>Queueing\<close>

record job_options =
  jo_delay :: "jsnum option"
  jo_idempotency_key :: "string option"

text \<open>\<open>Math.round(delaySeconds * 1_000_000)\<close> microseconds from now.\<close>

definition available_at :: "int \<Rightarrow> jsnum option \<Rightarrow> work_error + int option" where
  "available_at now delay = (case delay of
     None \<Rightarrow> Inr None
   | Some (Inf b) \<Rightarrow> Inl (Dispatch_failure ''Job delaySeconds must be a non-negative finite number.'')
   | Some (Fin q) \<Rightarrow> if q < 0 then Inl (Dispatch_failure ''Job delaySeconds must be a non-negative finite number.'')
       else Inr (Some (now + \<lfloor>q * 1000000 + 1 / 2\<rfloor>)))"

definition job_work :: "job_entry \<Rightarrow> json \<Rightarrow> int option \<Rightarrow> string option \<Rightarrow> work" where
  "job_work j payload due key = \<lparr>wk_kind = Job_work, wk_target_id = jb_id j, wk_event_id = None, wk_event_version = None,
     wk_payload = payload, wk_policy = jb_policy j, wk_available_at = due, wk_idempotency_key = key\<rparr>"

text \<open>The envelope of a piece of work is made and enqueued; only one without a key draws an identifier.\<close>

definition enqueue_work :: "'d environment \<Rightarrow> work \<Rightarrow> 'd action" where
  "enqueue_work env w s =
     (let (i, s') = (if truthy_string (wk_idempotency_key w) = None then draw env s else ([], s)) in
      enqueue_envelope env (create_queue_envelope (en_queue_host env) (en_digest env) i w (en_context env))
        (wk_available_at w) s')"

definition dispatch_job :: "'d environment \<Rightarrow> job_entry list \<Rightarrow> int \<Rightarrow> string \<Rightarrow> 'd jsvalue \<Rightarrow> job_options \<Rightarrow> 'd action" where
  "dispatch_job env jobs now i input options s =
     (if en_realtime env
      then fail (if en_cancelled env then Cancelled_execution
        else Dispatch_failure ''Realtime commands cannot dispatch durable Jobs.'') s
      else (case find (\<lambda>j. jb_id j = i) jobs of
          None \<Rightarrow> fail (Dispatch_failure (i @ '' is not declared by a selected Feature.'')) s
        | Some j \<Rightarrow> (case available_at now (jo_delay options) of
            Inl e \<Rightarrow> (Some e, s)
          | Inr due \<Rightarrow> (case serialize_queue_payload (en_date_host env) input of
              Inl e \<Rightarrow> (Some e, s)
            | Inr payload \<Rightarrow> enqueue_work env (job_work j payload due (jo_idempotency_key options)) s))))"

datatype channel = Mail_channel | Sms_channel

fun channel_text :: "channel \<Rightarrow> string" where
  "channel_text Mail_channel = ''mail''"
| "channel_text Sms_channel = ''sms''"

record 'd message =
  ms_id :: string
  ms_recipients :: "string list"
  ms_value :: "'d jsvalue"

definition message_work :: "channel \<Rightarrow> json \<Rightarrow> work" where
  "message_work ch payload = \<lparr>wk_kind = (case ch of Mail_channel \<Rightarrow> Mail_work | Sms_channel \<Rightarrow> Sms_work),
     wk_target_id = ''doxa:'' @ channel_text ch, wk_event_id = None, wk_event_version = None, wk_payload = payload,
     wk_policy = \<lparr>qp_retries = 3, qp_retry_delay = 1, qp_backoff = True, qp_timeout = 30\<rparr>,
     wk_available_at = None, wk_idempotency_key = None\<rparr>"

definition dispatch_communication :: "'d environment \<Rightarrow> bool \<Rightarrow> channel \<Rightarrow> 'd message \<Rightarrow> 'd action" where
  "dispatch_communication env has_transport ch msg s =
     (if xe_uow s = None
      then fail (Dispatch_failure (channel_text ch @ '' delivery must be queued inside a mutating action or job.'')) s
      else if \<not> has_transport
      then fail (Dispatch_failure (''No '' @ channel_text ch @ '' transport is configured.'')) s
      else (case serialize_queue_payload (en_date_host env) (ms_value msg) of
          Inl e \<Rightarrow> (Some e, s)
        | Inr payload \<Rightarrow>
            and_then (uow_operation (Stage \<lparr>sd_id = ms_id msg, sd_channel = channel_text ch,
                sd_recipients = ms_recipients msg, sd_payload = payload\<rparr>))
              (enqueue_work env (message_work ch payload)) s))"

definition record_delivery :: "delivery_transition \<Rightarrow> 'd action" where
  "record_delivery t s =
     (if xe_uow s = None then fail (Dispatch_failure ''Delivery reconciliation requires a mutating action or job.'') s
      else uow_operation (Transition t) s)"

subsection \<open>The worker\<close>

record job_reference =
  jr_id :: string
  jr_attempt :: int
  jr_max_attempts :: rat
  jr_idempotency_key :: "string option"

record schedule_entry =
  sh_id :: string
  sh_access :: string

datatype failure_kind = Transient_failure | Permanent_failure | Opt_out | Suppressed_recipient

fun failure_kind_text :: "failure_kind \<Rightarrow> string" where
  "failure_kind_text Transient_failure = ''transient''"
| "failure_kind_text Permanent_failure = ''permanent''"
| "failure_kind_text Opt_out = ''opt-out''"
| "failure_kind_text Suppressed_recipient = ''suppressed''"

datatype transport_answer =
    Acceptance delivery_transition
  | Delivery_error failure_kind string
  | Transport_threw work_error

record 'd worker =
  wr_runtime :: runtime
  wr_environment :: "execution_context \<Rightarrow> 'd environment"
  wr_queue_host :: queue_host
  wr_date_host :: "'d date_host"
  wr_digest :: "string \<Rightarrow> string"
  wr_jobs :: "job_entry list"
  wr_schedules :: "schedule_entry list"
  wr_listeners :: "listener list"
  wr_events :: "event_manifest list"
  wr_constructors :: "string \<Rightarrow> ('d jsvalue \<Rightarrow> string \<Rightarrow> 'd event) option"
  wr_handle_job :: "string \<Rightarrow> job_reference \<Rightarrow> 'd jsvalue \<Rightarrow> 'd action"
  wr_transactions :: bool
  wr_transport :: "channel \<Rightarrow> ('d jsvalue \<Rightarrow> transport_answer) option"
  wr_traces_work :: bool

record 'd worker_state =
  ws_traces :: "(string \<times> int, string \<times> string) omap"
  ws_database :: database
  ws_execution :: "'d execution"
  ws_sent :: "(channel \<times> 'd jsvalue) list"

type_synonym 'd delivery_step = "'d worker_state \<Rightarrow> work_error option \<times> 'd worker_state"

text \<open>Actions of the execution, and transactions on its tables, as steps of the worker.\<close>

definition act :: "'d action \<Rightarrow> 'd delivery_step" where
  "act a st = (case a (ws_execution st) of (r, s) \<Rightarrow> (r, st\<lparr>ws_execution := s\<rparr>))"

definition act_on_tables :: "(database \<Rightarrow> 'd execution \<Rightarrow> work_error option \<times> database \<times> 'd execution) \<Rightarrow>
    'd delivery_step" where
  "act_on_tables t st = (case t (ws_database st) (ws_execution st) of
     (r, db, s) \<Rightarrow> (r, st\<lparr>ws_database := db, ws_execution := s\<rparr>))"

definition refuse :: "string \<Rightarrow> 'd delivery_step" where
  "refuse message st = (Some (Dispatch_failure message), st)"

subsection \<open>Attempt traces\<close>

definition find_attempt_trace :: "'d worker \<Rightarrow> string \<Rightarrow> int \<Rightarrow> 'd worker_state \<Rightarrow> span_link option" where
  "find_attempt_trace w i attempt st =
     (if \<not> wr_traces_work w then None
      else map_option (\<lambda>(t, sp). \<lparr>sl_trace_id = t, sl_span_id = sp, sl_attributes = None\<rparr>) (om_get (ws_traces st) (i, attempt)))"

definition record_attempt_trace :: "'d worker \<Rightarrow> string \<Rightarrow> int \<Rightarrow> trace_context \<Rightarrow> 'd worker_state \<Rightarrow> 'd worker_state" where
  "record_attempt_trace w i attempt trace st =
     (case (truthy_string (tr_trace_id trace), truthy_string (tr_span_id trace)) of
        (Some t, Some sp) \<Rightarrow> if wr_traces_work w then st\<lparr>ws_traces := om_set (i, attempt) (t, sp) (ws_traces st)\<rparr> else st
      | _ \<Rightarrow> st)"

definition clear_attempt_traces :: "'d worker \<Rightarrow> string \<Rightarrow> 'd worker_state \<Rightarrow> 'd worker_state" where
  "clear_attempt_traces w i st =
     (if wr_traces_work w then st\<lparr>ws_traces := filter (\<lambda>e. fst (fst e) \<noteq> i) (ws_traces st)\<rparr> else st)"

subsection \<open>What a delivery does\<close>

definition envelope_text :: "json \<Rightarrow> string \<Rightarrow> string" where
  "envelope_text envelope k = or_text (jfield envelope k)"

definition envelope_retries :: "json \<Rightarrow> rat" where
  "envelope_retries envelope = (case number_value (ofield (jfield envelope ''policy'') ''retries'') of None \<Rightarrow> 0 | Some q \<Rightarrow> q)"

definition reference_of :: "json \<Rightarrow> int \<Rightarrow> job_reference" where
  "reference_of envelope attempt = \<lparr>jr_id = envelope_text envelope ''id'', jr_attempt = attempt,
     jr_max_attempts = envelope_retries envelope + 1,
     jr_idempotency_key = truthy_string (opt_string (jfield envelope ''idempotencyKey''))\<rparr>"

definition decode_payload :: "'d worker \<Rightarrow> json \<Rightarrow> work_error + 'd jsvalue" where
  "decode_payload w envelope = (case decode (wr_date_host w) (opt_json (jfield envelope ''payload'')) of
     Inl e \<Rightarrow> Inl (Payload_failure e) | Inr v \<Rightarrow> Inr v)"

text \<open>The access of the schedule that fired a job, if one did.\<close>

definition schedule_check :: "'d worker \<Rightarrow> 'd environment \<Rightarrow> json \<Rightarrow> work_error option" where
  "schedule_check w env envelope = (case truthy_json (jfield envelope ''scheduleId'') of
     None \<Rightarrow> None
   | Some sid \<Rightarrow> (case find (\<lambda>sh. JStr (sh_id sh) = sid) (wr_schedules w) of
       None \<Rightarrow> Some (Dispatch_failure ''The schedule is not declared.'')
     | Some sh \<Rightarrow> if sh_access sh \<noteq> ''public'' then en_authorize env (sh_access sh) else None))"

definition deliver_job :: "'d worker \<Rightarrow> 'd environment \<Rightarrow> json \<Rightarrow> int \<Rightarrow> 'd delivery_step" where
  "deliver_job w env envelope attempt st =
     (case find (\<lambda>j. jb_id j = envelope_text envelope ''targetId'') (wr_jobs w) of
        None \<Rightarrow> refuse (''Queued job '' @ envelope_text envelope ''targetId'' @ '' is not declared.'') st
      | Some j \<Rightarrow> (case schedule_check w env envelope of
          Some e \<Rightarrow> (Some e, st)
        | None \<Rightarrow> (case decode_payload w envelope of
            Inl e \<Rightarrow> (Some e, st)
          | Inr input \<Rightarrow> act_on_tables (invoke_job env (wr_transactions w) j
              (wr_handle_job w (jb_id j) (reference_of envelope attempt) input)) st)))"

definition failure_state :: "failure_kind \<Rightarrow> delivery_state" where
  "failure_state k = (if k = Suppressed_recipient then Suppressed else if k = Opt_out then Failed
     else if k = Transient_failure then Undelivered else Failed)"

definition reconcile :: "'d environment \<Rightarrow> delivery_transition \<Rightarrow> 'd delivery_step" where
  "reconcile env t = act_on_tables (transact env (uow_operation (Transition t)))"

definition payload_message_id :: "json \<Rightarrow> string" where
  "payload_message_id envelope = or_default (js_text_opt (ofield (jfield envelope ''payload'') ''id'')) []"

definition invoke_communication :: "'d worker \<Rightarrow> 'd environment \<Rightarrow> channel \<Rightarrow> json \<Rightarrow> 'd delivery_step" where
  "invoke_communication w env ch envelope st =
     (if \<not> wr_transactions w then refuse ''No transaction manager is available for delivery reconciliation.'' st
      else (case wr_transport w ch of
          None \<Rightarrow> refuse (''No '' @ channel_text ch @ '' transport is configured.'') st
        | Some send \<Rightarrow> (case decode_payload w envelope of
            Inl e \<Rightarrow> (Some e, st)
          | Inr msg \<Rightarrow>
            (let sent = st\<lparr>ws_sent := ws_sent st @ [(ch, msg)]\<rparr> in
             case send msg of
               Acceptance t \<Rightarrow> reconcile env t sent
             | Transport_threw e \<Rightarrow> (Some e, sent)
             | Delivery_error k code \<Rightarrow>
                 (case reconcile env \<lparr>dt_message_id = payload_message_id envelope, dt_state = failure_state k,
                    dt_provider_message_id = None, dt_event_id = None, dt_failure_kind = Some (failure_kind_text k),
                    dt_code = Some code\<rparr> sent of
                   (Some e, st') \<Rightarrow> (Some e, st')
                 | (None, st') \<Rightarrow>
                     (if k = Transient_failure then Some (Application_failure code) else None, st'))))))"

text \<open>An event is rebuilt only from an object payload of the version its manifest has.\<close>

definition object_payload :: "json \<Rightarrow> json option" where
  "object_payload envelope = (case jfield envelope ''payload'' of Some (JObj kvs) \<Rightarrow> Some (JObj kvs) | _ \<Rightarrow> None)"

definition deliver_broadcast :: "'d worker \<Rightarrow> 'd environment \<Rightarrow> json \<Rightarrow> 'd delivery_step" where
  "deliver_broadcast w env envelope st =
     (let target = envelope_text envelope ''targetId''; message = ''Queued broadcast '' @ target @ '' cannot be rehydrated.'' in
      case find (\<lambda>em. em_id em = target) (wr_events w) of
        None \<Rightarrow> refuse message st
      | Some em \<Rightarrow> (case (wr_constructors w (em_id em), object_payload envelope) of
          (Some build, Some payload) \<Rightarrow>
            if jfield envelope ''eventVersion'' \<noteq> Some (js_int (em_payload_version em)) then refuse message st
            else (case rehydrate_event (wr_date_host w) build em payload of
                Inl e \<Rightarrow> (Some e, st)
              | Inr ev \<Rightarrow> act (publish_broadcast env em ev (envelope_text envelope ''id'')) st)
        | _ \<Rightarrow> refuse message st))"

definition deliver_listener :: "'d worker \<Rightarrow> 'd environment \<Rightarrow> json \<Rightarrow> 'd delivery_step" where
  "deliver_listener w env envelope st =
     (let target = envelope_text envelope ''targetId'' in
      case (find (\<lambda>l. ls_id l = target) (wr_listeners w),
          (case truthy_string (opt_string (jfield envelope ''eventId'')) of
             None \<Rightarrow> None | Some i \<Rightarrow> find (\<lambda>em. em_id em = i) (wr_events w))) of
        (Some l, Some em) \<Rightarrow>
          if jfield envelope ''eventVersion'' \<noteq> Some (js_int (em_payload_version em))
          then refuse (''Queued event '' @ em_id em @ '' payload version is unsupported.'') st
          else (case (wr_constructors w (em_id em), object_payload envelope) of
              (Some build, Some payload) \<Rightarrow> (case rehydrate_event (wr_date_host w) build em payload of
                  Inl e \<Rightarrow> (Some e, st)
                | Inr ev \<Rightarrow> act (invoke_listener env l ev) st)
            | _ \<Rightarrow> refuse (''Queued event '' @ em_id em @ '' cannot be rehydrated.'') st)
      | _ \<Rightarrow> refuse (''Queued listener '' @ target @ '' is not declared correctly.'') st)"

definition deliver_kind :: "'d worker \<Rightarrow> 'd environment \<Rightarrow> json \<Rightarrow> int \<Rightarrow> 'd delivery_step" where
  "deliver_kind w env envelope attempt =
     (let kind = jfield envelope ''kind'' in
      if kind = Some (JStr ''job'') then deliver_job w env envelope attempt
      else if kind = Some (JStr ''mail'') then invoke_communication w env Mail_channel envelope
      else if kind = Some (JStr ''sms'') then invoke_communication w env Sms_channel envelope
      else if kind = Some (JStr ''broadcast'') then deliver_broadcast w env envelope
      else deliver_listener w env envelope)"

definition delivery_work :: "'d worker \<Rightarrow> json \<Rightarrow> int \<Rightarrow> execution_context \<Rightarrow> 'd delivery_step" where
  "delivery_work w envelope attempt context st =
     deliver_kind w (wr_environment w context) envelope attempt
       (record_attempt_trace w (envelope_text envelope ''id'') attempt (ec_trace context) st)"

datatype delivery_error = Refused string | Delivery_failed "(work_error, work_error) admission_error"

text \<open>\<open>handleQueueDelivery\<close>; \<open>dispose\<close> is what disposing of the execution's scope comes to.\<close>

definition handle_queue_delivery :: "'d worker \<Rightarrow> execution_ids \<Rightarrow> work_error list \<Rightarrow> json \<Rightarrow> int \<Rightarrow> 'd worker_state \<Rightarrow>
    delivery_error option \<times> 'd worker_state" where
  "handle_queue_delivery w ids dispose envelope attempt st =
     (case assert_queue_delivery (wr_queue_host w) envelope (js_int attempt) of
        Inl message \<Rightarrow> (Some (Refused message), st)
      | Inr _ \<Rightarrow>
        (let i = envelope_text envelope ''id'';
             prior = (if attempt > 1 then find_attempt_trace w i (attempt - 1) st else None) in
         case admit_execution (wr_runtime w) ids (Some (queue_attempt_span_id (wr_digest w) i (nat attempt)))
             (queue_seed (wr_queue_host w) envelope attempt prior) (delivery_work w envelope attempt)
             (\<lambda>st. (dispose, st)) st of
           (r, st') \<Rightarrow> (map_option Delivery_failed r,
             if r = None \<or> of_int attempt \<ge> envelope_retries envelope + 1 then clear_attempt_traces w i st' else st')))"

subsection \<open>Events survive the queue\<close>

definition object_value :: "'d jsvalue \<Rightarrow> bool" where
  "object_value v = (case v of VObj kvs \<Rightarrow> True | VDate c d \<Rightarrow> True | _ \<Rightarrow> False)"

definition dates_read_back :: "'d date_host \<Rightarrow> bool" where
  "dates_read_back h \<longleftrightarrow> (\<forall>c d. date_parse h c (date_text h c d) = Some d)"

lemma encoded_object: "encode h Tagged v = Inr j \<Longrightarrow> is_record j \<longleftrightarrow> object_value v"
  by (cases v) (auto simp: object_value_def tagged_def split: jsnum.splits if_splits)

lemma rebuilt_event:
  assumes "dates_read_back h" and "serialize_event_payload h em ev = Inr payload"
  shows "rehydrate_event h build em payload =
      Inr (build (ev_payload ev) (if em_domain em = None then [] else ev_entity_id ev))"
    and "is_record payload \<longleftrightarrow> em_domain em \<noteq> None \<or> object_value (ev_payload ev)"
proof -
  from assms(2) obtain j where j: "encode h Tagged (ev_payload ev) = Inr j"
    and payload: "payload = (if em_domain em \<noteq> None then JObj [(''entityId'', JStr (ev_entity_id ev)), (''payload'', j)] else j)"
    by (auto simp: serialize_event_payload_def serialize_queue_payload_def encode_date_time_values_def split: sum.splits)
  have decoded: "decode h j = Inr (ev_payload ev)"
    using decode_encoded [OF j refl] assms(1) by (simp add: dates_read_back_def)
  show "is_record payload \<longleftrightarrow> em_domain em \<noteq> None \<or> object_value (ev_payload ev)"
    using encoded_object [OF j] by (simp add: payload)
  show "rehydrate_event h build em payload =
      Inr (build (ev_payload ev) (if em_domain em = None then [] else ev_entity_id ev))"
    using decoded by (simp add: payload rehydrate_event_def decode_plain_object doxa_key_def)
qed

lemma envelope_payload_fields:
  "jfield (create_queue_envelope h digest random w c) ''payload'' = Some (wk_payload w)"
  "jfield (create_queue_envelope h digest random w c) ''eventId'' = map_option JStr (wk_event_id w)"
  "jfield (create_queue_envelope h digest random w c) ''eventVersion'' = map_option js_int (wk_event_version w)"
  by (simp_all add: create_queue_envelope_def entry_defs split: option.splits del: map_of_append truthy_string_simps)

lemma object_payload_created:
  "object_payload (create_queue_envelope h digest random w c) = (if is_record (wk_payload w) then Some (wk_payload w) else None)"
  by (cases "wk_payload w") (simp_all add: object_payload_def envelope_payload_fields)

lemma record_trace_frame [simp]:
  "ws_execution (record_attempt_trace w i n t st) = ws_execution st"
  "ws_database (record_attempt_trace w i n t st) = ws_database st"
  "ws_sent (record_attempt_trace w i n t st) = ws_sent st"
  by (simp_all add: record_attempt_trace_def split: option.split)

lemma clear_traces_frame [simp]:
  "ws_execution (clear_attempt_traces w i st) = ws_execution st"
  "ws_database (clear_attempt_traces w i st) = ws_database st"
  "ws_sent (clear_attempt_traces w i st) = ws_sent st"
  by (simp_all add: clear_attempt_traces_def)

text \<open>A delivery that is accepted and admitted is its work and the end of its bookkeeping.\<close>

lemma handled:
  assumes "assert_queue_delivery (wr_queue_host w) envelope (js_int attempt) = Inr ()"
    and "rt_state (wr_runtime w) = ''ready''" and "\<not> rt_inside (wr_runtime w)"
    and "create_execution_context (rt_intl (wr_runtime w)) (rt_time (wr_runtime w)) ids
       (Some (queue_attempt_span_id (wr_digest w) (envelope_text envelope ''id'') (nat attempt)))
       (queue_seed (wr_queue_host w) envelope attempt
         (if attempt > 1 then find_attempt_trace w (envelope_text envelope ''id'') (attempt - 1) st else None)) = Inr c"
    and "delivery_work w envelope attempt c st = (e, st1)"
  shows "handle_queue_delivery w ids [] envelope attempt st =
    (map_option (Delivery_failed \<circ> Work_error) e,
     if e = None \<or> of_int attempt \<ge> envelope_retries envelope + 1
     then clear_attempt_traces w (envelope_text envelope ''id'') st1 else st1)"
  using assms by (cases e) (simp_all add: handle_queue_delivery_def admit_execution_def Let_def)

text \<open>
  C8. A listener hears through the queue the event that was dispatched. When a worker accepts the
  envelope of a queued listener, made in some execution, and its manifest still declares the listener
  and the event, then it runs that listener, once, as the actor, initiator and tenant of that
  execution, with an event built of the payload (and the entity) that was dispatched, dates included;
  the delivery fails exactly when the listener is refused or fails. An event that is not a domain
  event and whose payload is not an object is queued all the same, but no worker ever delivers it.
\<close>

theorem queued_listener_hears_event:
  assumes laws: "queue_instants_read_back (wr_queue_host w)" "hex_digest (wr_digest w)" "uuid_text random"
      "intl_resolves (rt_intl (wr_runtime w))" "dates_read_back (wr_date_host w)"
    and author: "create_execution_context (rt_intl (wr_runtime w)) d ids0 span0 seed = Inr c"
    and payload: "serialize_event_payload (wr_date_host w) em ev = Inr payload"
    and envelope: "envelope = create_queue_envelope (wr_queue_host w) (wr_digest w) random
        (event_work Listener_work (ls_id l) em payload) c"
    and accepted: "assert_queue_delivery (wr_queue_host w) envelope (js_int attempt) = Inr ()"
    and ready: "rt_state (wr_runtime w) = ''ready''" "\<not> rt_inside (wr_runtime w)"
    and declared: "find (\<lambda>m. ls_id m = ls_id l) (wr_listeners w) = Some l"
      "find (\<lambda>m. em_id m = em_id em) (wr_events w) = Some em" "em_id em \<noteq> []" "wr_constructors w (em_id em) = Some build"
    and run: "handle_queue_delivery w ids [] envelope attempt st = (r, st')"
  shows "\<exists>c'. ec_actor c' = ec_actor c \<and> ec_initiator c' = ec_initiator c \<and> ec_tenant c' = ec_tenant c \<and>
    (if em_domain em \<noteq> None \<or> object_value (ev_payload ev)
     then (map_option (Delivery_failed \<circ> Work_error) (fst (invoke_listener (wr_environment w c') l
         (build (ev_payload ev) (if em_domain em = None then [] else ev_entity_id ev)) (ws_execution st))) = r \<and>
       ws_execution st' = snd (invoke_listener (wr_environment w c') l
         (build (ev_payload ev) (if em_domain em = None then [] else ev_entity_id ev)) (ws_execution st)))
     else r \<noteq> None \<and> ws_execution st' = ws_execution st)"
proof -
  let ?w = "event_work Listener_work (ls_id l) em payload"
  let ?i = "envelope_text envelope ''id''"
  let ?prior = "if attempt > 1 then find_attempt_trace w ?i (attempt - 1) st else None"
  obtain c' where c': "create_execution_context (rt_intl (wr_runtime w)) (rt_time (wr_runtime w)) ids
       (Some (queue_attempt_span_id (wr_digest w) ?i (nat attempt))) (queue_seed (wr_queue_host w) envelope attempt ?prior) = Inr c'"
    and principals: "ec_actor c' = ec_actor c" "ec_initiator c' = ec_initiator c" "ec_tenant c' = ec_tenant c"
    using queued_work_same_author [OF laws(1-4) author accepted [unfolded envelope], folded envelope] by metis
  obtain e st1 where work: "delivery_work w envelope attempt c' st = (e, st1)" by fastforce
  note run' = run [unfolded handled [OF accepted ready c' work]]
  have kind: "jfield envelope ''kind'' = Some (JStr ''listener'')" and target: "envelope_text envelope ''targetId'' = ls_id l"
    and eid: "jfield envelope ''eventId'' = Some (JStr (em_id em))"
    and version: "jfield envelope ''eventVersion'' = Some (js_int (em_payload_version em))"
    and object_: "object_payload envelope = (if is_record payload then Some payload else None)"
    unfolding envelope envelope_text_def object_payload_created envelope_fields envelope_payload_fields
    by (simp_all add: event_work_def or_text_def)
  let ?st = "record_attempt_trace w ?i attempt (ec_trace c') st"
  have "delivery_work w envelope attempt c' st = deliver_listener w (wr_environment w c') envelope ?st"
    by (simp add: delivery_work_def deliver_kind_def Let_def kind)
  also have "\<dots> = (if is_record payload then act (invoke_listener (wr_environment w c') l
         (build (ev_payload ev) (if em_domain em = None then [] else ev_entity_id ev))) ?st
       else refuse (''Queued event '' @ em_id em @ '' cannot be rehydrated.'') ?st)"
    using declared rebuilt_event(1) [OF laws(5) payload, of build]
    by (simp add: deliver_listener_def Let_def target eid version object_)
  finally have "if is_record payload then act (invoke_listener (wr_environment w c') l
         (build (ev_payload ev) (if em_domain em = None then [] else ev_entity_id ev))) ?st = (e, st1)
       else e \<noteq> None \<and> st1 = ?st"
    using work by (auto simp: refuse_def split: if_splits)
  then have "if is_record payload then e = fst (invoke_listener (wr_environment w c') l
         (build (ev_payload ev) (if em_domain em = None then [] else ev_entity_id ev)) (ws_execution st)) \<and>
       ws_execution st1 = snd (invoke_listener (wr_environment w c') l
         (build (ev_payload ev) (if em_domain em = None then [] else ev_entity_id ev)) (ws_execution st))
       else e \<noteq> None \<and> ws_execution st1 = ws_execution st"
    by (auto simp: act_def split: prod.splits if_splits)
  then show ?thesis
    using run' principals rebuilt_event(2) [OF laws(5) payload] by (intro exI [of _ c']) (auto split: if_splits)
qed

subsection \<open>Redelivery\<close>

text \<open>
  The queue hands a worker an envelope again while it fails, with the next attempt number, up to as
  many times as it has attempts left: \<open>attempt: job.retryCount + 1\<close> of
  \<open>packages/queue-pg-boss\<close>, with the retry limit of the policy.
\<close>

fun redeliver :: "'d worker \<Rightarrow> (int \<Rightarrow> execution_ids) \<Rightarrow> (int \<Rightarrow> work_error list) \<Rightarrow> json \<Rightarrow> nat \<Rightarrow> int \<Rightarrow>
    'd worker_state \<Rightarrow> delivery_error option list \<times> 'd worker_state" where
  "redeliver w ids dispose envelope 0 attempt st = ([], st)"
| "redeliver w ids dispose envelope (Suc left) attempt st =
     (case handle_queue_delivery w (ids attempt) (dispose attempt) envelope attempt st of
        (None, st') \<Rightarrow> ([None], st')
      | (Some e, st') \<Rightarrow> (case redeliver w ids dispose envelope left (attempt + 1) st' of (rs, st'') \<Rightarrow> (Some e # rs, st'')))"

text \<open>A failure reported after the tables were committed.\<close>

definition late_failure :: "delivery_error option \<Rightarrow> bool" where
  "late_failure r = (case r of
     Some (Delivery_failed (Work_error (After_commit_failure es))) \<Rightarrow> True
   | Some (Delivery_failed (Cleanup_error es)) \<Rightarrow> True
   | Some (Delivery_failed (Failure_and_cleanup (After_commit_failure es) cs)) \<Rightarrow> True
   | _ \<Rightarrow> False)"

lemma transact_rolled_back:
  "transact env work db s = (Some e, db', s') \<Longrightarrow> (\<And>es. e \<noteq> After_commit_failure es) \<Longrightarrow> db' = db"
  by (auto simp: transact_def split: if_splits prod.splits option.splits)

lemma act_on_tables_rolled_back:
  assumes "act_on_tables (transact env work) st = (Some e, st')" and "\<And>es. e \<noteq> After_commit_failure es"
  shows "ws_database st' = ws_database st"
  using assms transact_rolled_back [of env work "ws_database st" "ws_execution st" e]
  by (auto simp: act_on_tables_def split: prod.splits)

lemma deliver_job_rolled_back:
  assumes "deliver_job w env envelope attempt st = (Some e, st')" and "\<And>es. e \<noteq> After_commit_failure es"
  shows "ws_database st' = ws_database st"
proof -
  have "ws_database st1 = ws_database st"
    if "act_on_tables (invoke_job env t j h) st = (Some e, st1)" for t j h st1
  proof (cases t)
    case True
    then have "act_on_tables (transact env (guarded env (jb_access j) h)) st = (Some e, st1)"
      using that by (simp add: act_on_tables_def invoke_job_def)
    then show ?thesis using assms(2) by (rule act_on_tables_rolled_back)
  next
    case False
    then show ?thesis using that by (auto simp: act_on_tables_def invoke_job_def)
  qed
  then show ?thesis using assms(1)
    by (auto simp: deliver_job_def refuse_def split: option.splits sum.splits)
qed

lemma failed_job_attempt:
  assumes kind: "jfield envelope ''kind'' = Some (JStr ''job'')"
    and run: "handle_queue_delivery w ids dispose envelope attempt st = (Some e, st')" and plain: "\<not> late_failure (Some e)"
  shows "ws_database st' = ws_database st"
proof (cases "assert_queue_delivery (wr_queue_host w) envelope (js_int attempt)")
  case (Inl m)
  then show ?thesis using run by (simp add: handle_queue_delivery_def)
next
  case (Inr u)
  let ?i = "envelope_text envelope ''id''"
  let ?prior = "if attempt > 1 then find_attempt_trace w ?i (attempt - 1) st else None"
  let ?made = "create_execution_context (rt_intl (wr_runtime w)) (rt_time (wr_runtime w)) ids
    (Some (queue_attempt_span_id (wr_digest w) ?i (nat attempt))) (queue_seed (wr_queue_host w) envelope attempt ?prior)"
  show ?thesis
  proof (cases "rt_state (wr_runtime w) = ''ready'' \<and> \<not> rt_inside (wr_runtime w) \<and> \<not> isl ?made")
    case False
    then have "ws_database (snd (handle_queue_delivery w ids dispose envelope attempt st)) = ws_database st"
      using Inr by (auto simp: handle_queue_delivery_def admit_execution_def Let_def isl_def split: sum.splits)
    with run show ?thesis by simp
  next
    case True
    then obtain c where made: "?made = Inr c" by (cases ?made) auto
    obtain r st1 where work: "delivery_work w envelope attempt c st = (r, st1)" by fastforce
    have job: "deliver_job w (wr_environment w c) envelope attempt (record_attempt_trace w ?i attempt (ec_trace c) st) = (r, st1)"
      using work by (simp add: delivery_work_def deliver_kind_def Let_def kind)
    from run True made work Inr
    have "ws_database st' = ws_database st1" and "e = Delivery_failed (case r of
        Some x \<Rightarrow> if dispose = [] then Work_error x else Failure_and_cleanup x dispose | None \<Rightarrow> Cleanup_error dispose)"
      by (auto simp: handle_queue_delivery_def admit_execution_def Let_def split: option.splits if_splits)
    moreover from this(2) plain obtain x where "r = Some x" "\<And>es. x \<noteq> After_commit_failure es"
      by (cases r) (auto simp: late_failure_def split: if_splits work_error.splits)
    ultimately show ?thesis
      using deliver_job_rolled_back [of w "wr_environment w c" envelope attempt
          "record_attempt_trace w ?i attempt (ec_trace c) st" x st1] job by simp
  qed
qed

text \<open>
  C9. Retrying a job does not repeat it. However many attempts the queue makes, as long as no failure
  is reported after a commit, every attempt runs on the tables as they were before the first one; if
  none succeeds they are left so, and if one does it is the last, and what it committed is all that
  changed. The failures that are reported after a commit, of a callback or of disposing of the scope,
  are the ones that make a job run again although it has taken effect.
\<close>

theorem retried_job_applied_once:
  assumes "jfield envelope ''kind'' = Some (JStr ''job'')"
    and "redeliver w ids dispose envelope left attempt st = (rs, st')" and "list_all (\<lambda>r. \<not> late_failure r) rs"
  shows "(None \<notin> set rs \<and> ws_database st' = ws_database st) \<or>
    (\<exists>failed st1. rs = failed @ [None] \<and> None \<notin> set failed \<and> ws_database st1 = ws_database st \<and>
       handle_queue_delivery w (ids (attempt + int (length failed))) (dispose (attempt + int (length failed))) envelope
         (attempt + int (length failed)) st1 = (None, st'))"
  using assms(2,3)
proof (induction left arbitrary: attempt st rs)
  case (Suc left)
  obtain r st1 where one: "handle_queue_delivery w (ids attempt) (dispose attempt) envelope attempt st = (r, st1)" by fastforce
  show ?case
  proof (cases r)
    case None
    with one Suc.prems(1) have "rs = [] @ [None]" "st1 = st'" by auto
    with one None show ?thesis by (intro disjI2 exI [of _ "[]"] exI [of _ st]) simp
  next
    case (Some e)
    obtain rest where rest: "redeliver w ids dispose envelope left (attempt + 1) st1 = (rest, st')" "rs = Some e # rest"
      using Suc.prems(1) one Some by (auto split: prod.splits)
    have same: "ws_database st1 = ws_database st"
      using failed_job_attempt [OF assms(1) one [unfolded Some]] Suc.prems(2) rest(2) by simp
    from Suc.IH [OF rest(1)] Suc.prems(2) rest(2) consider
        (none) "None \<notin> set rest" "ws_database st' = ws_database st1"
      | (one) failed st2 where "rest = failed @ [None]" "None \<notin> set failed" "ws_database st2 = ws_database st1"
         "handle_queue_delivery w (ids (attempt + 1 + int (length failed))) (dispose (attempt + 1 + int (length failed)))
           envelope (attempt + 1 + int (length failed)) st2 = (None, st')" by auto
    then show ?thesis
    proof cases
      case none
      then show ?thesis using rest(2) same by simp
    next
      case (one failed st2)
      then show ?thesis using rest(2) same
        by (intro disjI2 exI [of _ "Some e # failed"] exI [of _ st2]) (simp add: ac_simps)
    qed
  qed
qed simp

subsection \<open>Attempt traces\<close>

abbreviation other_traces :: "string \<Rightarrow> 'd worker_state \<Rightarrow> (string \<times> int, string \<times> string) omap" where
  "other_traces i st \<equiv> filter (\<lambda>e. fst (fst e) \<noteq> i) (ws_traces st)"

lemma act_traces: "ws_traces (snd (act a st)) = ws_traces st" "ws_traces (snd (act_on_tables t st)) = ws_traces st"
  "ws_traces (snd (refuse m st)) = ws_traces st" "ws_traces (snd (reconcile env d st)) = ws_traces st"
  by (simp_all add: act_def act_on_tables_def refuse_def reconcile_def split: prod.split)

lemma deliver_traces: "ws_traces (snd (deliver_kind w env envelope attempt st)) = ws_traces st"
proof -
  have "ws_traces (snd (deliver_job w env envelope attempt st)) = ws_traces st"
    by (auto simp: deliver_job_def act_traces split: option.split sum.split)
  moreover have "ws_traces (snd (invoke_communication w env ch envelope st)) = ws_traces st" for ch
  proof -
    have "ws_traces st2 = ws_traces st1" if "reconcile env d st1 = (e, st2)" for d st1 e st2
      using act_traces(4) [of env d st1] that by simp
    then show ?thesis
      by (auto simp: invoke_communication_def act_traces Let_def split: option.split sum.split transport_answer.split prod.split)
  qed
  moreover have "ws_traces (snd (deliver_broadcast w env envelope st)) = ws_traces st"
    by (auto simp: deliver_broadcast_def act_traces Let_def split: option.split sum.split)
  moreover have "ws_traces (snd (deliver_listener w env envelope st)) = ws_traces st"
    by (auto simp: deliver_listener_def act_traces Let_def split: option.split sum.split)
  ultimately show ?thesis by (simp add: deliver_kind_def Let_def)
qed

lemma filter_om_set: "\<not> P (k, v) \<Longrightarrow> (\<And>v'. \<not> P (k, v')) \<Longrightarrow> filter P (om_set k v m) = filter P m"
  by (induction m) auto

lemma attempt_other_traces:
  "other_traces (envelope_text envelope ''id'') (snd (delivery_work w envelope attempt c st)) =
     other_traces (envelope_text envelope ''id'') st"
  by (simp add: delivery_work_def deliver_traces record_attempt_trace_def filter_om_set split: option.split)

lemma admitted_keeps:
  assumes "admit_execution rt ids own_span seed work (\<lambda>st. (dispose, st)) st = (e, st')" and "\<And>c. f (snd (work c st)) = f st"
  shows "f st' = f st"
proof (cases "rt_state rt = ''ready'' \<and> \<not> rt_inside rt")
  case True
  show ?thesis
  proof (cases "create_execution_context (rt_intl rt) (rt_time rt) ids own_span seed")
    case (Inr c)
    obtain r st1 where "work c st = (r, st1)" by fastforce
    with True Inr assms(1) assms(2) [of c] show ?thesis by (simp add: admit_execution_def)
  qed (use True assms(1) in \<open>simp add: admit_execution_def\<close>)
qed (use assms(1) in \<open>auto simp: admit_execution_def split: if_splits\<close>)

lemma handled_traces:
  assumes "handle_queue_delivery w ids dispose envelope attempt st = (r, st')" and "wr_traces_work w"
    and "assert_queue_delivery (wr_queue_host w) envelope (js_int attempt) = Inr ()"
  shows "other_traces (envelope_text envelope ''id'') st' = other_traces (envelope_text envelope ''id'') st \<and>
    (r = None \<or> of_int attempt \<ge> envelope_retries envelope + 1 \<longrightarrow>
      ws_traces st' = other_traces (envelope_text envelope ''id'') st)"
proof -
  let ?i = "envelope_text envelope ''id''"
  let ?prior = "if attempt > 1 then find_attempt_trace w ?i (attempt - 1) st else None"
  obtain e st1 where admitted: "admit_execution (wr_runtime w) ids (Some (queue_attempt_span_id (wr_digest w) ?i (nat attempt)))
      (queue_seed (wr_queue_host w) envelope attempt ?prior) (delivery_work w envelope attempt) (\<lambda>st. (dispose, st)) st = (e, st1)"
    by fastforce
  then have kept: "other_traces ?i st1 = other_traces ?i st"
    by (rule admitted_keeps) (rule attempt_other_traces)
  have "r = map_option Delivery_failed e"
    "st' = (if e = None \<or> of_int attempt \<ge> envelope_retries envelope + 1 then clear_attempt_traces w ?i st1 else st1)"
    using assms(1,3) admitted by (simp_all add: handle_queue_delivery_def Let_def)
  with kept assms(2) show ?thesis by (simp add: clear_attempt_traces_def)
qed

lemma accepted_later:
  assumes "assert_queue_delivery h envelope (js_int m) = Inr ()" and "1 \<le> n" and "n \<le> 101"
  shows "assert_queue_delivery h envelope (js_int n) = Inr ()"
  using assms unfolding assert_queue_delivery_def run_checks_Inr queue_delivery_checks_def Let_def by simp

lemma accepted_retries:
  assumes "assert_queue_delivery h envelope (js_int m) = Inr ()"
  obtains n :: nat where "envelope_retries envelope = of_nat n" "n \<le> 100"
proof -
  from assms have "integer_between (ofield (jfield envelope ''policy'') ''retries'') 0 100"
    unfolding assert_queue_delivery_def run_checks_Inr queue_delivery_checks_def Let_def by simp
  then obtain k where k: "safe_integer (number_value (ofield (jfield envelope ''policy'') ''retries'')) = Some k" "0 \<le> k" "k \<le> 100"
    by (auto simp: integer_between_def split: option.splits)
  then have "envelope_retries envelope = of_int k"
    by (auto simp: envelope_retries_def safe_integer_def split: option.splits if_splits)
  with k show thesis by (intro that [of "nat k"]) auto
qed

lemma redelivered_traces:
  assumes "wr_traces_work w" and "assert_queue_delivery (wr_queue_host w) envelope (js_int m) = Inr ()"
    and "envelope_retries envelope = of_nat n" and "n \<le> 100"
  shows "redeliver w ids dispose envelope (Suc left) attempt st = (rs, st') \<Longrightarrow> 1 \<le> attempt \<Longrightarrow>
    attempt + int left = int n + 1 \<Longrightarrow> ws_traces st' = other_traces (envelope_text envelope ''id'') st"
proof (induction left arbitrary: attempt st rs)
  case 0
  obtain r st1 where one: "handle_queue_delivery w (ids attempt) (dispose attempt) envelope attempt st = (r, st1)" by fastforce
  have "assert_queue_delivery (wr_queue_host w) envelope (js_int attempt) = Inr ()"
    using accepted_later [OF assms(2), of attempt] 0(2,3) assms(4) by simp
  from handled_traces [OF one assms(1) this] have "ws_traces st1 = other_traces (envelope_text envelope ''id'') st"
    using 0(3) assms(3) by simp
  with one 0(1) show ?case by (auto split: option.splits)
next
  case (Suc left)
  obtain r st1 where one: "handle_queue_delivery w (ids attempt) (dispose attempt) envelope attempt st = (r, st1)" by fastforce
  have "assert_queue_delivery (wr_queue_host w) envelope (js_int attempt) = Inr ()"
    using accepted_later [OF assms(2), of attempt] Suc.prems(2,3) assms(4) by simp
  note traces = handled_traces [OF one assms(1) this]
  show ?case
  proof (cases r)
    case None
    then show ?thesis using traces one Suc.prems(1) by simp
  next
    case (Some e)
    obtain rest where "redeliver w ids dispose envelope (Suc left) (attempt + 1) st1 = (rest, st')"
      using Suc.prems(1) one Some by (auto split: prod.splits option.splits)
    from Suc.IH [OF this] Suc.prems(2,3) traces show ?thesis by simp
  qed
qed

text \<open>
  No attempt trace outlives its job. When the queue has delivered an envelope for the last time,
  because an attempt succeeded or because its retries are used up, the table of attempt traces holds
  nothing of it any more, whatever failed on the way, and everything of every other job that it held before.
\<close>

theorem attempt_traces_swept:
  assumes "wr_traces_work w" and "assert_queue_delivery (wr_queue_host w) envelope (js_int 1) = Inr ()"
    and "redeliver w ids dispose envelope (nat \<lfloor>envelope_retries envelope\<rfloor> + 1) 1 st = (rs, st')"
  shows "ws_traces st' = filter (\<lambda>e. fst (fst e) \<noteq> envelope_text envelope ''id'') (ws_traces st)"
proof -
  obtain n where n: "envelope_retries envelope = of_nat n" "n \<le> 100" using accepted_retries [OF assms(2)] .
  then have "nat \<lfloor>envelope_retries envelope\<rfloor> + 1 = Suc n" by simp
  with assms(3) have "redeliver w ids dispose envelope (Suc n) 1 st = (rs, st')" by (simp only:)
  from redelivered_traces [OF assms(1,2) n this] show ?thesis by simp
qed

subsection \<open>Mail and text messages\<close>

lemma transact_transition:
  assumes "xe_uow s = None" and "truthy_string (dt_event_id t) = None"
  shows "transact env (uow_operation (Transition t)) db s = (None, snd (transition_delivery t db), s)"
proof -
  from assms(1) have "s\<lparr>xe_uow := None\<rparr> = s" by (cases s) simp
  with assms show ?thesis
    by (simp add: transact_def within_transaction_def uow_operation_def run_operation_def new_unit_of_work_def
        transition_delivery_def)
qed

lemma reconciled:
  assumes "xe_uow (ws_execution st) = None" and "truthy_string (dt_event_id t) = None"
    and "delivery_state_of (ws_database st) (dt_message_id t) = Some s"
  shows "\<exists>db. reconcile env t st = (None, st\<lparr>ws_database := db\<rparr>) \<and>
    delivery_state_of db (dt_message_id t) = Some (if s \<le> dt_state t then dt_state t else s)"
proof (intro exI conjI)
  show "reconcile env t st = (None, st\<lparr>ws_database := snd (transition_delivery t (ws_database st))\<rparr>)"
    using transact_transition [OF assms(1,2), of env "ws_database st"] by (simp add: reconcile_def act_on_tables_def)
  show "delivery_state_of (snd (transition_delivery t (ws_database st))) (dt_message_id t) =
      Some (if s \<le> dt_state t then dt_state t else s)"
    using transition_delivery_state(1) [OF assms(3)] assms(2) by (simp add: reported_def)
qed

text \<open>
  The ledger of messages records what the transport answered. A delivery of a mail or a text
  message hands it to the transport exactly once. When the transport accepts it, or refuses it as
  transient, suppressed, opted out or permanent, its state moves to the one that stands for the
  answer, or stays if the order of states forbids that; only a transient refusal is a failure the
  queue retries.
\<close>

theorem message_outcome_recorded:
  assumes "wr_transactions w" and "wr_transport w ch = Some send" and "decode_payload w envelope = Inr msg"
    and "xe_uow (ws_execution st) = None" and "invoke_communication w env ch envelope st = (r, st')"
  shows "ws_sent st' = ws_sent st @ [(ch, msg)] \<and>
    (\<forall>t s. send msg = Acceptance t \<longrightarrow> truthy_string (dt_event_id t) = None \<longrightarrow>
       delivery_state_of (ws_database st) (dt_message_id t) = Some s \<longrightarrow>
       r = None \<and> delivery_state_of (ws_database st') (dt_message_id t) = Some (if s \<le> dt_state t then dt_state t else s)) \<and>
    (\<forall>k code s. send msg = Delivery_error k code \<longrightarrow>
       delivery_state_of (ws_database st) (payload_message_id envelope) = Some s \<longrightarrow>
       (r = None \<longleftrightarrow> k \<noteq> Transient_failure) \<and> delivery_state_of (ws_database st') (payload_message_id envelope) =
         Some (if s \<le> failure_state k then failure_state k else s))"
proof -
  let ?sent = "st\<lparr>ws_sent := ws_sent st @ [(ch, msg)]\<rparr>"
  have sent: "ws_sent (snd (reconcile env t ?sent)) = ws_sent st @ [(ch, msg)]" for t
    by (simp add: reconcile_def act_on_tables_def split: prod.split)
  have "ws_sent st' = ws_sent st @ [(ch, msg)]"
  proof (cases "send msg")
    case (Acceptance t)
    with assms show ?thesis using sent [of t] by (simp add: invoke_communication_def Let_def)
  next
    case (Delivery_error k code)
    let ?t = "\<lparr>dt_message_id = payload_message_id envelope, dt_state = failure_state k, dt_provider_message_id = None,
      dt_event_id = None, dt_failure_kind = Some (failure_kind_text k), dt_code = Some code\<rparr>"
    obtain e st1 where "reconcile env ?t ?sent = (e, st1)" by fastforce
    moreover from this sent [of ?t] have "ws_sent st1 = ws_sent st @ [(ch, msg)]" by simp
    ultimately show ?thesis using assms Delivery_error
      by (auto simp: invoke_communication_def Let_def split: option.splits)
  next
    case (Transport_threw e)
    with assms show ?thesis by (auto simp: invoke_communication_def Let_def)
  qed
  moreover have "r = None \<and> delivery_state_of (ws_database st') (dt_message_id t) = Some (if s \<le> dt_state t then dt_state t else s)"
    if "send msg = Acceptance t" "truthy_string (dt_event_id t) = None"
      "delivery_state_of (ws_database st) (dt_message_id t) = Some s" for t s
  proof -
    from that(3) have "delivery_state_of (ws_database ?sent) (dt_message_id t) = Some s" by simp
    from reconciled [OF _ that(2) this, of env] assms that(1) show ?thesis by (auto simp: invoke_communication_def Let_def)
  qed
  moreover have "(r = None \<longleftrightarrow> k \<noteq> Transient_failure) \<and> delivery_state_of (ws_database st') (payload_message_id envelope) =
      Some (if s \<le> failure_state k then failure_state k else s)"
    if "send msg = Delivery_error k code" "delivery_state_of (ws_database st) (payload_message_id envelope) = Some s" for k code s
  proof -
    let ?t = "\<lparr>dt_message_id = payload_message_id envelope, dt_state = failure_state k, dt_provider_message_id = None,
      dt_event_id = None, dt_failure_kind = Some (failure_kind_text k), dt_code = Some code\<rparr>"
    from that(2) have "delivery_state_of (ws_database ?sent) (dt_message_id ?t) = Some s" by simp
    from reconciled [OF _ _ this, of env] assms that(1) show ?thesis
      by (auto simp: invoke_communication_def Let_def split: if_splits)
  qed
  ultimately show ?thesis by blast
qed

text \<open>
  An acceptance after a transient refusal is lost, with the identifier the provider gave it: the order
  of states has no way from the one to the other.
\<close>

lemma acceptance_after_transient_failure_lost:
  assumes "delivery_state_of db (dt_message_id t) = Some Undelivered" and "dt_state t = Accepted"
    and "truthy_string (dt_event_id t) = None"
  shows "om_get (db_deliveries (snd (transition_delivery t db))) i = om_get (db_deliveries db) i"
proof -
  from assms(1) obtain row where row: "om_get (db_deliveries db) (dt_message_id t) = Some row" "dr_state row = Undelivered"
    by (auto simp: delivery_state_of_def)
  then have "apply_transition t row = row"
    using assms(2) by (simp add: apply_transition_def allowed_delivery_previous_states_def delivery_states_def
        can_apply_delivery_transition_def)
  with row assms(3) show ?thesis by (simp add: transition_delivery_def update_delivery_def)
qed

text \<open>A job whose input is \<open>undefined\<close>, as that of a \<open>Job<void>\<close> is, cannot be queued.\<close>

lemma job_without_input_refused:
  "fst (dispatch_job env jobs now i VOther options s) \<noteq> None \<and> snd (dispatch_job env jobs now i VOther options s) = s"
  by (auto simp: dispatch_job_def fail_def serialize_queue_payload_def encode_date_time_values_def split: option.split sum.split)

subsection \<open>Witnesses\<close>

definition payload_event :: "string event" where
  "payload_event = \<lparr>ev_payload = VObj [(''at'', VDate Instant ''now'')], ev_entity_id = [], ev_broadcast_on = None,
     ev_broadcast_as = None, ev_broadcast_with = None\<rparr>"

definition plain_manifest :: event_manifest where
  "plain_manifest = \<lparr>em_id = ''event:x'', em_payload_version = 1, em_domain = None, em_after_commit = False,
     em_broadcast = No_broadcast\<rparr>"

definition queued_listener :: listener where
  "queued_listener = \<lparr>ls_id = ''listener:c'', ls_delivery = Queued, ls_access = ''public''\<rparr>"

definition build_event :: "string jsvalue \<Rightarrow> string \<Rightarrow> string event" where
  "build_event v i = \<lparr>ev_payload = v, ev_entity_id = i, ev_broadcast_on = None, ev_broadcast_as = None, ev_broadcast_with = None\<rparr>"

text \<open>A worker whose job fails on its first attempt and stores a fact on its second.\<close>

definition sample_worker :: "(channel \<Rightarrow> (string jsvalue \<Rightarrow> transport_answer) option) \<Rightarrow> string worker" where
  "sample_worker transport = \<lparr>wr_runtime = \<lparr>rt_state = ''ready'', rt_inside = False, rt_intl = sample_intl, rt_time = sample_defaults\<rparr>,
     wr_environment = (\<lambda>c. sample_environment False), wr_queue_host = sample_queue_host, wr_date_host = sample_date_host,
     wr_digest = sample_digest, wr_jobs = [\<lparr>jb_id = ''job:a/b'', jb_access = ''public'', jb_policy = event_policy\<rparr>],
     wr_schedules = [], wr_listeners = [queued_listener], wr_events = [plain_manifest],
     wr_constructors = (\<lambda>i. Some build_event),
     wr_handle_job = (\<lambda>i r v. if jr_attempt r = 1 then fail (Application_failure ''busy'')
       else uow_operation (Record \<lparr>jf_id = ''f'', jf_type = i, jf_version = 1, jf_entity_type = [], jf_entity_id = [], jf_payload = JNull\<rparr>)),
     wr_transactions = True, wr_transport = transport, wr_traces_work = True\<rparr>"

definition idle_worker_state :: "string worker_state" where
  "idle_worker_state = \<lparr>ws_traces = [((''other'', 1), (''t'', ''s''))], ws_database = empty_database, ws_execution = fresh_execution, ws_sent = []\<rparr>"

theorem queued_listener_hears_event_witness:
  "\<exists>st'. handle_queue_delivery (sample_worker (\<lambda>ch. None)) sample_ids []
       (create_queue_envelope sample_queue_host sample_digest sample_uuid
          (event_work Listener_work ''listener:c'' plain_manifest
             (JObj [(''at'', JObj [(doxa_key, JStr ''instant@1''), (''value'', JStr ''now'')])])) sample_context) 1
       idle_worker_state = (None, st') \<and>
     xe_log (ws_execution st') = [Listener_handled ''listener:c'' payload_event]"
proof -
  let ?w = "sample_worker (\<lambda>ch. None)"
  let ?payload = "JObj [(''at'', JObj [(doxa_key, JStr ''instant@1''), (''value'', JStr ''now'')])]"
  let ?work = "event_work Listener_work (ls_id queued_listener) plain_manifest ?payload"
  let ?envelope = "create_queue_envelope (wr_queue_host ?w) (wr_digest ?w) sample_uuid ?work sample_context"
  have host: "wr_queue_host ?w = sample_queue_host" "wr_digest ?w = sample_digest" "wr_date_host ?w = sample_date_host"
    by (simp_all add: sample_worker_def)
  have laws: "queue_instants_read_back (wr_queue_host ?w)" "hex_digest (wr_digest ?w)" "uuid_text sample_uuid"
    "intl_resolves (rt_intl (wr_runtime ?w))" "dates_read_back (wr_date_host ?w)"
    using sample_host_ok by (simp_all add: sample_worker_def dates_read_back_def sample_date_host_def)
  have author: "create_execution_context (rt_intl (wr_runtime ?w)) sample_defaults sample_ids None sample_seed = Inr sample_context"
    using sample_context_created by (simp add: sample_worker_def)
  have payload: "serialize_event_payload (wr_date_host ?w) plain_manifest payload_event = Inr ?payload"
    unfolding host by code_simp
  have "\<exists>n. (3::rat) = rat_of_int n \<and> 0 \<le> n \<and> n \<le> 100" by (rule exI [of _ 3]) simp
  then have "work_deliverable ?work"
    by (simp add: work_deliverable_def event_work_def queued_listener_def event_policy_def text_within_def policy_deliverable_def)
  then have accepted: "assert_queue_delivery (wr_queue_host ?w) ?envelope (js_int 1) = Inr ()"
    using envelope_accepted [OF laws(1-3)] sample_context_deliverable by (simp add: host)
  have declared: "find (\<lambda>m. ls_id m = ls_id queued_listener) (wr_listeners ?w) = Some queued_listener"
    "find (\<lambda>m. em_id m = em_id plain_manifest) (wr_events ?w) = Some plain_manifest" "em_id plain_manifest \<noteq> []"
    "wr_constructors ?w (em_id plain_manifest) = Some build_event" "rt_state (wr_runtime ?w) = ''ready''" "\<not> rt_inside (wr_runtime ?w)"
    by (simp_all add: sample_worker_def plain_manifest_def)
  obtain r st' where run: "handle_queue_delivery ?w sample_ids [] ?envelope 1 idle_worker_state = (r, st')" by fastforce
  have "object_value (ev_payload payload_event)" by (simp add: object_value_def payload_event_def)
  with queued_listener_hears_event [OF laws author payload refl accepted declared(5,6,1-4) run]
  have "r = None \<and> xe_log (ws_execution st') = [Listener_handled ''listener:c'' payload_event]"
    by (auto simp: invoke_listener_def perform_def sample_worker_def sample_environment_def queued_listener_def plain_manifest_def
        build_event_def payload_event_def idle_worker_state_def fresh_execution_def)
  with run show ?thesis by (auto simp: host queued_listener_def)
qed

definition sample_redelivery :: "delivery_error option list \<times> string worker_state" where
  "sample_redelivery = redeliver (sample_worker (\<lambda>ch. None)) (\<lambda>n. sample_ids) (\<lambda>n. []) (sample_envelope 3) 4 1 idle_worker_state"

lemma sample_redelivery_results:
  "fst sample_redelivery = [Some (Delivery_failed (Work_error (Application_failure ''busy''))), None]"
  by code_simp

lemma sample_redelivery_run:
  "redeliver (sample_worker (\<lambda>ch. None)) (\<lambda>n. sample_ids) (\<lambda>n. []) (sample_envelope 3) 4 1 idle_worker_state =
     (fst sample_redelivery, snd sample_redelivery)"
  by (simp add: sample_redelivery_def)

theorem retried_job_applied_once_witness:
  "\<exists>st1. ws_database st1 = empty_database \<and>
     handle_queue_delivery (sample_worker (\<lambda>ch. None)) sample_ids [] (sample_envelope 3) 2 st1 = (None, snd sample_redelivery)"
proof -
  have "jfield (sample_envelope 3) ''kind'' = Some (JStr ''job'')" by (simp add: envelope_fields sample_work_def)
  moreover have "list_all (\<lambda>r. \<not> late_failure r) (fst sample_redelivery)" by (simp add: sample_redelivery_results late_failure_def)
  ultimately consider "None \<notin> set (fst sample_redelivery)" | failed st1 where "fst sample_redelivery = failed @ [None]"
      "ws_database st1 = ws_database idle_worker_state"
      "handle_queue_delivery (sample_worker (\<lambda>ch. None)) sample_ids [] (sample_envelope 3) (1 + int (length failed)) st1 =
         (None, snd sample_redelivery)"
    using retried_job_applied_once [OF _ sample_redelivery_run] by blast
  then show ?thesis
  proof cases
    case 1
    then show ?thesis by (simp add: sample_redelivery_results)
  next
    case (2 failed st1)
    then have "length failed = 1" by (simp add: sample_redelivery_results append_eq_Cons_conv) auto
    with 2 show ?thesis by (auto simp: idle_worker_state_def)
  qed
qed

theorem attempt_traces_swept_witness: "ws_traces (snd sample_redelivery) = [((''other'', 1), (''t'', ''s''))]"
proof -
  have accepted: "assert_queue_delivery (wr_queue_host (sample_worker (\<lambda>ch. None))) (sample_envelope 3) (js_int 1) = Inr ()" by code_simp
  have works: "wr_traces_work (sample_worker (\<lambda>ch. None))" by (simp add: sample_worker_def)
  have retries: "envelope_retries (sample_envelope 3) = 3"
    by (simp add: envelope_retries_def envelope_fields policy_fields sample_work_def)
  have "nat \<lfloor>envelope_retries (sample_envelope 3)\<rfloor> + 1 = 4" by (simp add: retries)
  with attempt_traces_swept [OF works accepted] sample_redelivery_run
  have "ws_traces (snd sample_redelivery) =
      filter (\<lambda>e. fst (fst e) \<noteq> envelope_text (sample_envelope 3) ''id'') (ws_traces idle_worker_state)" by metis
  moreover have "envelope_text (sample_envelope 3) ''id'' \<noteq> ''other''" by code_simp
  ultimately show ?thesis by (simp add: idle_worker_state_def)
qed

definition busy_transport :: "channel \<Rightarrow> (string jsvalue \<Rightarrow> transport_answer) option" where
  "busy_transport ch = Some (\<lambda>v. Delivery_error Transient_failure ''busy'')"

definition mail_envelope :: json where
  "mail_envelope = JObj [(''kind'', JStr ''mail''), (''payload'', JObj [(''id'', JStr ''m1'')])]"

definition pending_mail :: "string worker_state" where
  "pending_mail = idle_worker_state\<lparr>ws_database := snd (stage_delivery
     \<lparr>sd_id = ''m1'', sd_channel = ''mail'', sd_recipients = [], sd_payload = JNull\<rparr> empty_database)\<rparr>"

theorem message_outcome_recorded_witness:
  "delivery_state_of (ws_database (snd (invoke_communication (sample_worker busy_transport) (sample_environment False)
     Mail_channel mail_envelope pending_mail))) ''m1'' = Some Undelivered"
proof -
  let ?w = "sample_worker busy_transport"
  obtain r st' where run: "invoke_communication ?w (sample_environment False) Mail_channel mail_envelope pending_mail = (r, st')" by fastforce
  have given: "wr_transactions ?w" "wr_transport ?w Mail_channel = Some (\<lambda>v. Delivery_error Transient_failure ''busy'')"
    "decode_payload ?w mail_envelope = Inr (VObj [(''id'', VStr ''m1'')])" "xe_uow (ws_execution pending_mail) = None"
    "payload_message_id mail_envelope = ''m1''" "delivery_state_of (ws_database pending_mail) ''m1'' = Some Pending"
    by (simp add: sample_worker_def, simp add: sample_worker_def busy_transport_def, code_simp, code_simp, code_simp, code_simp)
  from message_outcome_recorded [OF given(1-4) run] given(5,6)
  have "delivery_state_of (ws_database st') ''m1'' =
      Some (if Pending \<le> failure_state Transient_failure then failure_state Transient_failure else Pending)"
    by (metis (no_types, lifting))
  with run show ?thesis
    by (simp add: failure_state_def less_eq_delivery_state_def can_apply_delivery_transition_def)
qed

end
