(* ===== verification/RealtimeCommands.thy ===== *)
theory RealtimeCommands
  imports Operations
begin

text \<open>
  Realtime commands: \<open>dispatchRealtimeCommand\<close> and \<open>settleAtDeadline\<close> of
  \<open>packages/runtime/src/runtime.ts\<close>.

  Time is the host's clock in milliseconds. What the throttle, the schema of the command, the
  authorization and the command do is the environment's: each ends at some time, or never. The abort
  of the execution and the fallback of the answer are two timers of the same deadline, which may be
  late; they are given as the times they fire at.
\<close>

subsection \<open>Commands and their environment\<close>

record command_entry =
  cd_id :: string
  cd_command :: string
  cd_access :: string
  cd_timeout :: int

record command_request =
  cq_id :: string
  cq_command :: string
  cq_payload :: json

record connection_admission =
  ad_actor :: actor
  ad_initiator :: "actor option"
  ad_delegation :: "hop list option"
  ad_authentication :: authentication
  ad_tenant :: "string option"
  ad_correlation_id :: string

datatype command_answer = Succeeded string | Failed_command string string string "int option"

fun answer_id :: "command_answer \<Rightarrow> string" where
  "answer_id (Succeeded i) = i"
| "answer_id (Failed_command i code message retry) = i"

fun answer_code :: "command_answer \<Rightarrow> string option" where
  "answer_code (Succeeded i) = None"
| "answer_code (Failed_command i code message retry) = Some code"

datatype command_error = Cancelled_command | Not_authorized | Command_threw

text \<open>A step that is waited for: it ends with a value or an error at a time, or hangs.\<close>

datatype 'a timed = Done_at 'a int | Raised_at command_error int | Hangs

fun and_await :: "'a timed \<Rightarrow> ('a \<Rightarrow> int \<Rightarrow> 'b timed) \<Rightarrow> 'b timed" where
  "and_await (Done_at x t) f = f x t"
| "and_await (Raised_at e t) f = Raised_at e t"
| "and_await Hangs f = Hangs"

record 'i command_environment =
  ce_commands :: "command_entry list"
  ce_registry :: "string list"
  ce_throttle :: "string \<Rightarrow> string \<Rightarrow> string \<Rightarrow> int \<Rightarrow> (bool \<times> int option) timed"
  ce_validate :: "string \<Rightarrow> json \<Rightarrow> int \<Rightarrow> 'i option timed"
  ce_authorize :: "string \<Rightarrow> 'i \<Rightarrow> int \<Rightarrow> unit timed"
  ce_resolves :: "string \<Rightarrow> bool"
  ce_handle :: "string \<Rightarrow> 'i \<Rightarrow> int \<Rightarrow> unit timed"

definition unauthenticated :: "connection_admission \<Rightarrow> bool" where
  "unauthenticated a \<longleftrightarrow> is_anonymous (ad_actor a) \<or> truthy_string (actor_id (ad_actor a)) = None \<or>
     au_state (ad_authentication a) \<noteq> JStr ''authenticated''"

definition command_seed :: "connection_admission \<Rightarrow> command_request \<Rightarrow> command_entry \<Rightarrow> int \<Rightarrow> execution_seed" where
  "command_seed a q d now = \<lparr>es_source_execution_id = None, es_correlation_id = Some (ad_correlation_id a),
     es_causation_id = Some (JStr (cq_id q)), es_actor = ad_actor a, es_initiator = ad_initiator a,
     es_delegation = ad_delegation a, es_tenant = ad_tenant a, es_authentication = Some (ad_authentication a),
     es_transport = \<lparr>tp_kind = Websocket, tp_name = Some (''realtime.command:'' @ cd_command d)\<rparr>,
     es_trace = None, es_locale = None, es_time_zone = None, es_deadline = Some ((now + cd_timeout d) * 1000)\<rparr>"

text \<open>\<open>store.boundary\<close>: what makes an execution that of a realtime command.\<close>

definition realtime_boundary :: "transport \<Rightarrow> bool" where
  "realtime_boundary t \<longleftrightarrow> tp_kind t = Websocket \<and>
     (case tp_name t of None \<Rightarrow> False | Some n \<Rightarrow> take 17 n = ''realtime.command:'')"

subsection \<open>The command\<close>

definition throw_if_aborted :: "int \<Rightarrow> int \<Rightarrow> unit timed" where
  "throw_if_aborted abort_at t = (if abort_at \<le> t then Raised_at Cancelled_command t else Done_at () t)"

text \<open>Up to the command: an early answer, or the validated input.\<close>

definition prepare_command :: "'i command_environment \<Rightarrow> int \<Rightarrow> string \<Rightarrow> command_request \<Rightarrow> command_entry \<Rightarrow> int \<Rightarrow>
    (command_answer + 'i) timed" where
  "prepare_command env abort_at actor q d now =
     and_await (throw_if_aborted abort_at now) (\<lambda>_ t.
     and_await (ce_throttle env actor (cd_command d) (cq_id q) t) (\<lambda>(allowed, retry) t.
     and_await (throw_if_aborted abort_at t) (\<lambda>_ t.
       if \<not> allowed
       then Done_at (Inl (Failed_command (cq_id q) ''command_throttled'' ''That command is being sent too frequently.'' retry)) t
       else and_await (ce_validate env (cd_id d) (cq_payload q) t) (\<lambda>valid t.
         and_await (throw_if_aborted abort_at t) (\<lambda>_ t. case valid of
           None \<Rightarrow> Done_at (Inl (Failed_command (cq_id q) ''command_invalid'' ''The command payload is invalid.'' None)) t
         | Some input \<Rightarrow>
             and_await (ce_authorize env (cd_access d) input t) (\<lambda>_ t.
             and_await (throw_if_aborted abort_at t) (\<lambda>_ t.
               if ce_resolves env (cd_id d) then Done_at (Inr input) t else Raised_at Command_threw t)))))))"

text \<open>With the input the command was run with, and when it began, if it was run.\<close>

definition run_command :: "'i command_environment \<Rightarrow> int \<Rightarrow> string \<Rightarrow> command_request \<Rightarrow> command_entry \<Rightarrow> int \<Rightarrow>
    ('i \<times> int) option \<times> command_answer timed" where
  "run_command env abort_at actor q d now = (case prepare_command env abort_at actor q d now of
     Done_at (Inl answer) t \<Rightarrow> (None, Done_at answer t)
   | Done_at (Inr input) t \<Rightarrow> (Some (input, t),
       and_await (ce_handle env (cd_id d) input t) (\<lambda>_ t.
         and_await (throw_if_aborted abort_at t) (\<lambda>_ t. Done_at (Succeeded (cq_id q)) t)))
   | Raised_at e t \<Rightarrow> (None, Raised_at e t)
   | Hangs \<Rightarrow> (None, Hangs))"

definition catch_command :: "int \<Rightarrow> string \<Rightarrow> command_answer timed \<Rightarrow> command_answer timed" where
  "catch_command abort_at i r = (case r of
     Raised_at Not_authorized t \<Rightarrow> Done_at (Failed_command i ''command_forbidden'' ''That command is not allowed.'' None) t
   | Raised_at e t \<Rightarrow> Done_at (if abort_at \<le> t
       then Failed_command i ''command_timeout'' ''That command exceeded its execution deadline.'' None
       else Failed_command i ''command_failed'' ''That command could not be processed.'' None) t
   | r \<Rightarrow> r)"

text \<open>\<open>settleAtDeadline\<close>: the answer of the execution, or the fallback once its timer has fired.\<close>

definition settle_at_deadline :: "'a timed \<Rightarrow> int \<Rightarrow> 'a \<Rightarrow> 'a timed" where
  "settle_at_deadline work expire_at fallback = (case work of
     Done_at x t \<Rightarrow> if t \<le> expire_at then Done_at x t else Done_at fallback expire_at
   | Raised_at e t \<Rightarrow> if t \<le> expire_at then Raised_at e t else Done_at fallback expire_at
   | Hangs \<Rightarrow> Done_at fallback expire_at)"

text \<open>
  The answer, when it is given, and how the command was run. The runtime may refuse to admit the
  execution, and disposing of its scope may fail.
\<close>

definition dispatch_realtime_command :: "'i command_environment \<Rightarrow> runtime \<Rightarrow> execution_ids \<Rightarrow> bool \<Rightarrow> int \<Rightarrow> int \<Rightarrow>
    connection_admission \<Rightarrow> command_request \<Rightarrow> int \<Rightarrow> command_answer \<times> int \<times> ('i \<times> int) option" where
  "dispatch_realtime_command env rt ids cleanup_fails abort_at expire_at a q now =
     (let failure = Failed_command (cq_id q) ''command_failed'' ''That command could not be processed.'' None in
      if unauthenticated a
      then (Failed_command (cq_id q) ''command_unauthenticated'' ''That command requires authentication.'' None, now, None)
      else (case find (\<lambda>d. cd_command d = cq_command q) (ce_commands env) of
          None \<Rightarrow> (Failed_command (cq_id q) ''command_unknown'' ''That command is not available.'' None, now, None)
        | Some d \<Rightarrow>
          if cd_id d \<notin> set (ce_registry env) then (failure, now, None)
          else if rt_state rt \<noteq> ''ready'' \<or> rt_inside rt \<or>
            isl (create_execution_context (rt_intl rt) (rt_time rt) ids None (command_seed a q d now)) then (failure, now, None)
          else (case run_command env abort_at (case actor_id (ad_actor a) of Some i \<Rightarrow> i) q d now of
            (begun, r) \<Rightarrow>
              (case settle_at_deadline
                  (and_await (catch_command abort_at (cq_id q) r)
                     (\<lambda>answer t. if cleanup_fails then Raised_at Command_threw t else Done_at answer t))
                  expire_at
                  (Failed_command (cq_id q) ''command_timeout'' ''That command exceeded its execution deadline.'' None) of
                 Done_at answer t \<Rightarrow> (answer, t, begun)
               | Raised_at e t \<Rightarrow> (failure, t, begun)
               | Hangs \<Rightarrow> (failure, expire_at, begun)))))"

subsection \<open>When a command runs\<close>

lemma and_await_Done: "and_await a f = Done_at y t \<longleftrightarrow> (\<exists>x u. a = Done_at x u \<and> f x u = Done_at y t)"
  by (cases a) auto

lemma throw_if_aborted_Done [simp]: "throw_if_aborted abort_at t = Done_at u t' \<longleftrightarrow> t' = t \<and> t < abort_at"
  by (auto simp: throw_if_aborted_def)

lemma prepared:
  assumes "prepare_command env abort_at actor q d now = Done_at (Inr input) t"
  shows "t < abort_at \<and> ce_resolves env (cd_id d) \<and>
    (\<exists>t1 t2 retry. ce_throttle env actor (cd_command d) (cq_id q) now = Done_at (True, retry) t1 \<and>
       ce_validate env (cd_id d) (cq_payload q) t1 = Done_at (Some input) t2 \<and> ce_authorize env (cd_access d) input t2 = Done_at () t)"
proof -
  from assms obtain allowed retry t1 where throttle: "ce_throttle env actor (cd_command d) (cq_id q) now = Done_at (allowed, retry) t1"
    and rest: "(if \<not> allowed
       then Done_at (Inl (Failed_command (cq_id q) ''command_throttled'' ''That command is being sent too frequently.'' retry)) t1
       else and_await (ce_validate env (cd_id d) (cq_payload q) t1) (\<lambda>valid t.
         and_await (throw_if_aborted abort_at t) (\<lambda>_ t. case valid of
           None \<Rightarrow> Done_at (Inl (Failed_command (cq_id q) ''command_invalid'' ''The command payload is invalid.'' None)) t
         | Some input \<Rightarrow>
             and_await (ce_authorize env (cd_access d) input t) (\<lambda>_ t.
             and_await (throw_if_aborted abort_at t) (\<lambda>_ t.
               if ce_resolves env (cd_id d) then Done_at (Inr input) t else Raised_at Command_threw t))))) = Done_at (Inr input) t"
    by (auto simp: prepare_command_def and_await_Done)
  then have "allowed" by (auto split: if_splits)
  with rest obtain valid t2 where "ce_validate env (cd_id d) (cq_payload q) t1 = Done_at valid t2"
    and "(case valid of
           None \<Rightarrow> Done_at (Inl (Failed_command (cq_id q) ''command_invalid'' ''The command payload is invalid.'' None)) t2
         | Some input \<Rightarrow>
             and_await (ce_authorize env (cd_access d) input t2) (\<lambda>_ t.
             and_await (throw_if_aborted abort_at t) (\<lambda>_ t.
               if ce_resolves env (cd_id d) then Done_at (Inr input) t else Raised_at Command_threw t))) = Done_at (Inr input) t"
    by (auto simp: and_await_Done)
  moreover from this(2) obtain input' where "valid = Some input'" by (cases valid) auto
  ultimately show ?thesis using throttle \<open>allowed\<close>
    by (auto simp: and_await_Done split: if_splits)
qed

lemma prepared_early:
  assumes "prepare_command env abort_at actor q d now = Done_at (Inl answer) t"
  shows "answer_code answer \<in> {Some ''command_throttled'', Some ''command_invalid''} \<and> answer_id answer = cq_id q"
  using assms by (auto simp: prepare_command_def and_await_Done split: prod.splits if_splits option.splits)

lemma caught:
  "catch_command abort_at i r \<noteq> Raised_at e t"
  "catch_command abort_at i r = Hangs \<longleftrightarrow> r = Hangs"
  "catch_command abort_at i r = Done_at answer t \<Longrightarrow> r = Done_at answer t \<or>
     (\<exists>e. r = Raised_at e t) \<and> answer_id answer = i \<and>
     answer_code answer \<in> {Some ''command_forbidden'', Some ''command_timeout'', Some ''command_failed''}"
  by (auto simp: catch_command_def split: timed.splits command_error.splits if_splits)

lemma run_began:
  assumes "run_command env abort_at actor q d now = (begun, r)"
  shows "begun = (case prepare_command env abort_at actor q d now of Done_at (Inr input) t \<Rightarrow> Some (input, t) | _ \<Rightarrow> None)"
  using assms by (auto simp: run_command_def split: timed.splits sum.splits)

lemma run_answers:
  assumes "run_command env abort_at actor q d now = (begun, Done_at answer t)"
  shows "answer_id answer = cq_id q \<and>
    (answer_code answer = None \<longrightarrow> t < abort_at \<and> (\<exists>input u. begun = Some (input, u) \<and> ce_handle env (cd_id d) input u = Done_at () t)) \<and>
    (answer_code answer \<noteq> None \<longrightarrow> begun = None \<and> answer_code answer \<in> {Some ''command_throttled'', Some ''command_invalid''})"
proof (cases "prepare_command env abort_at actor q d now")
  case (Done_at x u)
  show ?thesis
  proof (cases x)
    case (Inl early)
    with assms Done_at have "begun = None" "answer = early" by (simp_all add: run_command_def)
    then show ?thesis using prepared_early [of env abort_at actor q d now early u] Done_at Inl by auto
  next
    case (Inr input)
    with assms Done_at show ?thesis by (auto simp: run_command_def and_await_Done)
  qed
qed (use assms in \<open>simp_all add: run_command_def\<close>)

lemma caught_run:
  assumes "run_command env abort_at actor q d now = (begun, r)" "catch_command abort_at (cq_id q) r = Done_at answer t"
  shows "answer_id answer = cq_id q \<and>
    (answer_code answer = None \<longrightarrow> t < abort_at \<and> (\<exists>input u. begun = Some (input, u) \<and> ce_handle env (cd_id d) input u = Done_at () t)) \<and>
    (answer_code answer \<in> {Some ''command_throttled'', Some ''command_invalid''} \<longrightarrow> begun = None) \<and>
    answer_code answer \<noteq> Some ''command_unauthenticated'' \<and> answer_code answer \<noteq> Some ''command_unknown''"
proof -
  from caught(3) [OF assms(2)] consider "r = Done_at answer t"
    | "answer_id answer = cq_id q" "answer_code answer \<in> {Some ''command_forbidden'', Some ''command_timeout'', Some ''command_failed''}"
    by blast
  then show ?thesis
  proof cases
    case 1
    then show ?thesis using run_answers [of env abort_at actor q d now begun answer t] assms(1) by auto
  next
    case 2
    then show ?thesis by auto
  qed
qed

lemma settled_cases:
  assumes "settle_at_deadline work expire_at fallback = Done_at x t"
  shows "work = Done_at x t \<and> t \<le> expire_at \<or> x = fallback \<and> t = expire_at"
  using assms by (auto simp: settle_at_deadline_def split: timed.splits if_splits)

lemma settles: "settle_at_deadline work expire_at fallback \<noteq> Hangs"
  by (auto simp: settle_at_deadline_def split: timed.splits)

lemma settled_raise:
  "settle_at_deadline work expire_at fallback = Raised_at e t \<Longrightarrow> work = Raised_at e t \<and> t \<le> expire_at"
  by (auto simp: settle_at_deadline_def split: timed.splits if_splits)

definition command_admitted :: "'i command_environment \<Rightarrow> runtime \<Rightarrow> execution_ids \<Rightarrow> connection_admission \<Rightarrow>
    command_request \<Rightarrow> command_entry \<Rightarrow> int \<Rightarrow> bool" where
  "command_admitted env rt ids a q d now \<longleftrightarrow> \<not> unauthenticated a \<and>
     find (\<lambda>d. cd_command d = cq_command q) (ce_commands env) = Some d \<and> cd_id d \<in> set (ce_registry env) \<and>
     rt_state rt = ''ready'' \<and> \<not> rt_inside rt \<and>
     \<not> isl (create_execution_context (rt_intl rt) (rt_time rt) ids None (command_seed a q d now))"

lemma dispatched_cases:
  assumes "dispatch_realtime_command env rt ids cleanup_fails abort_at expire_at a q now = (answer, t, begun)"
  obtains (refused) code message where "answer = Failed_command (cq_id q) code message None" "t = now" "begun = None"
      "code \<in> {''command_unauthenticated'', ''command_unknown'', ''command_failed''}"
  | (ran) d r where "command_admitted env rt ids a q d now"
      "run_command env abort_at (case actor_id (ad_actor a) of Some i \<Rightarrow> i) q d now = (begun, r)"
      "t \<le> expire_at"
      "catch_command abort_at (cq_id q) r = Done_at answer t \<and> \<not> cleanup_fails \<or>
       answer = Failed_command (cq_id q) ''command_timeout'' ''That command exceeded its execution deadline.'' None \<and> t = expire_at \<or>
       answer = Failed_command (cq_id q) ''command_failed'' ''That command could not be processed.'' None"
proof (cases "\<exists>d. command_admitted env rt ids a q d now")
  case False
  then show ?thesis using assms refused
    by (auto simp: dispatch_realtime_command_def command_admitted_def Let_def split: if_splits option.splits)
next
  case True
  then obtain d where admitted: "command_admitted env rt ids a q d now" ..
  obtain b r where run: "run_command env abort_at (case actor_id (ad_actor a) of Some i \<Rightarrow> i) q d now = (b, r)" by fastforce
  let ?fallback = "Failed_command (cq_id q) ''command_timeout'' ''That command exceeded its execution deadline.'' None"
  let ?failure = "Failed_command (cq_id q) ''command_failed'' ''That command could not be processed.'' None"
  define w where "w = and_await (catch_command abort_at (cq_id q) r)
     (\<lambda>answer t. if cleanup_fails then Raised_at Command_threw t else Done_at answer t)"
  have result: "(answer, t, begun) = (case settle_at_deadline w expire_at ?fallback of
       Done_at answer t \<Rightarrow> (answer, t, b) | Raised_at e t \<Rightarrow> (?failure, t, b) | Hangs \<Rightarrow> (?failure, expire_at, b))"
    using assms admitted run unfolding dispatch_realtime_command_def command_admitted_def Let_def w_def by simp
  show ?thesis
  proof (cases "settle_at_deadline w expire_at ?fallback")
    case (Done_at x u)
    from settled_cases [OF Done_at] have "w = Done_at x u \<and> u \<le> expire_at \<or> x = ?fallback \<and> u = expire_at" .
    moreover have "w = Done_at x u \<Longrightarrow> catch_command abort_at (cq_id q) r = Done_at x u \<and> \<not> cleanup_fails"
      unfolding w_def by (auto simp: and_await_Done split: if_splits)
    ultimately show ?thesis using ran [OF admitted, of r] run result Done_at by auto
  next
    case (Raised_at e u)
    then show ?thesis using settled_raise [OF Raised_at] ran [OF admitted, of r] run result by auto
  next
    case Hangs
    then show ?thesis by (simp add: settles)
  qed
qed

text \<open>
  C21. Every realtime command gets one answer, which names its request and comes by the deadline, also
  when the command hangs. The command is run only for an authenticated connection, in a ready
  runtime, after the throttle let it pass, with the input its schema made of the payload and that the
  policy of the command allowed, and only before the abort; it has succeeded only if it was run to its
  end before the abort, and an answer that refuses it means that it was not run.
\<close>

theorem realtime_command_contract:
  assumes "dispatch_realtime_command env rt ids cleanup_fails abort_at expire_at a q now = (answer, t, begun)"
  shows "answer_id answer = cq_id q \<and> t \<le> max now expire_at \<and>
    (\<forall>input u. begun = Some (input, u) \<longrightarrow> (\<exists>d t1 t2 retry. command_admitted env rt ids a q d now \<and> u < abort_at \<and>
       ce_throttle env (the (actor_id (ad_actor a))) (cd_command d) (cq_id q) now = Done_at (True, retry) t1 \<and>
       ce_validate env (cd_id d) (cq_payload q) t1 = Done_at (Some input) t2 \<and>
       ce_authorize env (cd_access d) input t2 = Done_at () u)) \<and>
    (answer = Succeeded (cq_id q) \<longrightarrow> t < abort_at \<and> (\<exists>d input u. begun = Some (input, u) \<and>
       command_admitted env rt ids a q d now \<and> ce_handle env (cd_id d) input u = Done_at () t)) \<and>
    (answer_code answer \<in> {Some ''command_unauthenticated'', Some ''command_unknown'', Some ''command_throttled'',
       Some ''command_invalid''} \<longrightarrow> begun = None)"
  using assms
proof (cases rule: dispatched_cases)
  case (ran d r)
  have "\<not> unauthenticated a" using ran(1) by (simp add: command_admitted_def)
  then obtain i where i: "actor_id (ad_actor a) = Some i"
    by (cases "actor_id (ad_actor a)") (auto simp: unauthenticated_def)
  have begun: "begun = Some (input, u) \<Longrightarrow> prepare_command env abort_at i q d now = Done_at (Inr input) u" for input u
    using run_began [OF ran(2)] i by (auto split: timed.splits sum.splits)
  have first: "\<forall>input u. begun = Some (input, u) \<longrightarrow> (\<exists>d t1 t2 retry. command_admitted env rt ids a q d now \<and> u < abort_at \<and>
       ce_throttle env (the (actor_id (ad_actor a))) (cd_command d) (cq_id q) now = Done_at (True, retry) t1 \<and>
       ce_validate env (cd_id d) (cq_payload q) t1 = Done_at (Some input) t2 \<and>
       ce_authorize env (cd_access d) input t2 = Done_at () u)"
  proof (intro allI impI)
    fix input u assume "begun = Some (input, u)"
    from prepared [OF begun [OF this]] show "\<exists>d t1 t2 retry. command_admitted env rt ids a q d now \<and> u < abort_at \<and>
       ce_throttle env (the (actor_id (ad_actor a))) (cd_command d) (cq_id q) now = Done_at (True, retry) t1 \<and>
       ce_validate env (cd_id d) (cq_payload q) t1 = Done_at (Some input) t2 \<and>
       ce_authorize env (cd_access d) input t2 = Done_at () u" using ran(1) i by fastforce
  qed
  from ran(4) consider "catch_command abort_at (cq_id q) r = Done_at answer t"
    | "answer_id answer = cq_id q" "answer_code answer \<in> {Some ''command_timeout'', Some ''command_failed''}" by auto
  then show ?thesis
  proof cases
    case 1
    from caught_run [OF ran(2) 1] show ?thesis using first ran(1,3) by (auto simp: max_def)
  next
    case 2
    then show ?thesis using first ran(3) by auto
  qed
qed auto

text \<open>The execution of a command is one: that is what the boundary looks for.\<close>

lemma command_seed_boundary: "realtime_boundary (es_transport (command_seed a q d now))"
  by (simp add: realtime_boundary_def command_seed_def)

subsection \<open>Witness\<close>

text \<open>A command that takes 40 of its 100 milliseconds, and one that never ends.\<close>

definition sample_commands :: "nat command_environment" where
  "sample_commands = \<lparr>ce_commands = [\<lparr>cd_id = ''command:p'', cd_command = ''ping'', cd_access = ''public'', cd_timeout = 100\<rparr>,
       \<lparr>cd_id = ''command:w'', cd_command = ''wait'', cd_access = ''public'', cd_timeout = 100\<rparr>],
     ce_registry = [''command:p'', ''command:w''], ce_throttle = (\<lambda>actor c i t. Done_at (True, None) (t + 10)),
     ce_validate = (\<lambda>i p t. Done_at (Some 7) t), ce_authorize = (\<lambda>a i t. Done_at () t), ce_resolves = (\<lambda>i. True),
     ce_handle = (\<lambda>i n t. if i = ''command:p'' then Done_at () (t + 30) else Hangs)\<rparr>"

definition sample_admission :: connection_admission where
  "sample_admission = \<lparr>ad_actor = demo_user, ad_initiator = None, ad_delegation = None,
     ad_authentication = demo_authentication, ad_tenant = None, ad_correlation_id = ''c''\<rparr>"

abbreviation sample_dispatch :: "string \<Rightarrow> command_answer \<times> int \<times> (nat \<times> int) option" where
  "sample_dispatch c \<equiv> dispatch_realtime_command sample_commands
     \<lparr>rt_state = ''ready'', rt_inside = False, rt_intl = sample_intl, rt_time = sample_defaults\<rparr> sample_ids False
     1100 1101 sample_admission \<lparr>cq_id = ''r1'', cq_command = c, cq_payload = JNull\<rparr> 1000"

lemma sample_dispatched:
  "sample_dispatch ''ping'' = (Succeeded ''r1'', 1040, Some (7, 1010))"
  "sample_dispatch ''wait'' =
     (Failed_command ''r1'' ''command_timeout'' ''That command exceeded its execution deadline.'' None, 1101, Some (7, 1010))"
  by code_simp+

theorem realtime_command_contract_witness:
  "(\<exists>(d :: command_entry) u. ce_handle sample_commands (cd_id d) 7 u = Done_at () 1040) \<and> snd (snd (sample_dispatch ''wait'')) = Some (7, 1010)"
  using realtime_command_contract [OF sample_dispatched(1)] sample_dispatched(2) by auto

end
