(* ===== verification/QueueEngine.thy ===== *)
theory QueueEngine
  imports QueueDelivery "HOL-Library.Product_Lexorder"
begin

text \<open>
  The queue engine, \<open>packages/queue-pg-boss/src/index.ts\<close>: what is sent to pg-boss, and the outbox
  that hands committed work over to it.

  pg-boss is not part of the repository. It keeps a table of jobs, and \<open>send\<close> is an argument of what
  calls it: it fails, or answers the id of the job it has added, or null. That a job is added exactly
  when its id is answered, and that nothing else changes, is the hypothesis \<open>boss_stores\<close>. Times are
  those of the database, in milliseconds.
\<close>

subsection \<open>Jobs\<close>

datatype cadence = Cron string | Every_seconds int

datatype overlap_policy = Allow_overlap | Serialize_overlap

datatype misfire_policy = Skip_misfire | Catch_up_once

record schedule_definition =
  sc_id :: string
  sc_target :: string
  sc_cadence :: cadence
  sc_time_zone :: string
  sc_overlap :: overlap_policy
  sc_misfire :: misfire_policy
  sc_input :: json
  sc_policy :: queue_policy

datatype job_data = Enveloped json | Scheduled schedule_definition

record send_options =
  so_retry_limit :: json
  so_retry_delay :: json
  so_retry_backoff :: json
  so_expire_in :: json
  so_start_after :: "int option"
  so_singleton_key :: "string option"

record boss_job =
  bj_queue :: string
  bj_id :: string
  bj_data :: job_data
  bj_options :: send_options

type_synonym send = "boss_job \<Rightarrow> boss_job list \<Rightarrow> (string + string option) \<times> boss_job list"

definition queue_name :: string where
  "queue_name = ''doxa-jobs''"

definition holds_job :: "string \<Rightarrow> string \<Rightarrow> boss_job list \<Rightarrow> bool" where
  "holds_job q i jobs \<longleftrightarrow> list_ex (\<lambda>j. bj_queue j = q \<and> bj_id j = i) jobs"

definition boss_stores :: "send \<Rightarrow> bool" where
  "boss_stores send \<longleftrightarrow> (\<forall>job jobs. case send job jobs of
     (Inr (Some i), jobs') \<Rightarrow> i = bj_id job \<and> \<not> holds_job (bj_queue job) i jobs \<and> jobs' = jobs @ [job]
   | (_, jobs') \<Rightarrow> jobs' = jobs)"

text \<open>A pg-boss that takes every job it does not have yet.\<close>

definition willing :: "send \<Rightarrow> bool" where
  "willing send \<longleftrightarrow> (\<forall>job jobs. \<exists>r. fst (send job jobs) = Inr r \<and>
     (r = None \<longrightarrow> holds_job (bj_queue job) (bj_id job) jobs))"

text \<open>\<open>sendOptions\<close>\<close>

definition send_options_of :: "queue_host \<Rightarrow> json \<Rightarrow> send_options" where
  "send_options_of h envelope =
     (let policy = jfield envelope ''policy'' in
      \<lparr>so_retry_limit = opt_json (ofield policy ''retries''), so_retry_delay = opt_json (ofield policy ''retryDelay''),
       so_retry_backoff = opt_json (ofield policy ''backoff''), so_expire_in = opt_json (ofield policy ''timeout''),
       so_start_after = (case opt_string (truthy_json (jfield envelope ''availableAt'')) of
         None \<Rightarrow> None | Some t \<Rightarrow> qh_instant_parse h t),
       so_singleton_key = None\<rparr>)"

definition envelope_job :: "queue_host \<Rightarrow> json \<Rightarrow> boss_job" where
  "envelope_job h envelope = \<lparr>bj_queue = queue_name, bj_id = envelope_text envelope ''id'',
     bj_data = Enveloped envelope, bj_options = send_options_of h envelope\<rparr>"

text \<open>\<open>enqueue\<close>, of a started manager\<close>

definition enqueue :: "queue_host \<Rightarrow> send \<Rightarrow> json \<Rightarrow> boss_job list \<Rightarrow> (string + string) \<times> boss_job list" where
  "enqueue h send envelope jobs =
     (let i = envelope_text envelope ''id'' in
      case send (envelope_job h envelope) jobs of
        (Inl e, jobs') \<Rightarrow> (Inl e, jobs')
      | (Inr r, jobs') \<Rightarrow>
        if truthy_string r = None \<and> \<not> holds_job queue_name i jobs'
        then (Inl (''pg-boss rejected Doxa job '' @ i @ ''.''), jobs') else (Inr i, jobs'))"

subsection \<open>The outbox\<close>

record outbox_row =
  ox_message :: outbox_message
  ox_pending :: bool
  ox_available_at :: int
  ox_created_at :: int

record outbox_tables =
  ot_rows :: "outbox_row list"
  ot_jobs :: "boss_job list"

abbreviation ox_id :: "outbox_row \<Rightarrow> string" where
  "ox_id r \<equiv> ob_id (ox_message r)"

text \<open>The row a committed transaction leaves for a message of its unit of work.\<close>

definition stored_row :: "int \<Rightarrow> outbox_message \<Rightarrow> outbox_row" where
  "stored_row now m = \<lparr>ox_message = m, ox_pending = True,
     ox_available_at = (case ob_available_at m of None \<Rightarrow> now | Some t \<Rightarrow> t), ox_created_at = now\<rparr>"

definition outbox_due :: "int \<Rightarrow> outbox_row \<Rightarrow> bool" where
  "outbox_due now r \<longleftrightarrow> ox_pending r \<and> ob_type (ox_message r) = ''doxa.queue'' \<and> ox_available_at r \<le> now"

text \<open>
  \<open>SELECT ... FOR UPDATE SKIP LOCKED LIMIT 50\<close>; which rows other transactions have locked is an
  argument.
\<close>

definition select_due :: "(string \<Rightarrow> bool) \<Rightarrow> int \<Rightarrow> outbox_row list \<Rightarrow> outbox_row list" where
  "select_due locked now rows = take 50 (sort_key (\<lambda>r. (ox_available_at r, ox_created_at r))
     (filter (\<lambda>r. outbox_due now r \<and> \<not> locked (ox_id r)) rows))"

definition mark_dispatched :: "string \<Rightarrow> outbox_row list \<Rightarrow> outbox_row list" where
  "mark_dispatched i = map (\<lambda>r. if ox_id r = i then r\<lparr>ox_pending := False\<rparr> else r)"

fun dispatch_rows :: "queue_host \<Rightarrow> send \<Rightarrow> outbox_row list \<Rightarrow> outbox_tables \<Rightarrow> string + outbox_tables" where
  "dispatch_rows h send [] t = Inr t"
| "dispatch_rows h send (r # rs) t =
     (let payload = ob_payload (ox_message r) in
      case send (envelope_job h payload) (ot_jobs t) of
        (Inl e, jobs) \<Rightarrow> Inl e
      | (Inr answer, jobs) \<Rightarrow>
        if truthy_string answer = None \<and> \<not> holds_job queue_name (envelope_text payload ''id'') jobs
        then Inl (''pg-boss rejected outbox job '' @ envelope_text payload ''id'' @ ''.'')
        else dispatch_rows h send rs
          \<lparr>ot_rows = mark_dispatched (ox_id r) (ot_rows t), ot_jobs = jobs\<rparr>)"

text \<open>\<open>#flushOutbox\<close>: one transaction, which may also fail to commit.\<close>

definition flush_outbox :: "queue_host \<Rightarrow> send \<Rightarrow> bool \<Rightarrow> bool \<Rightarrow> bool \<Rightarrow> (string \<Rightarrow> bool) \<Rightarrow> int \<Rightarrow> outbox_tables \<Rightarrow>
    (string + nat) \<times> outbox_tables" where
  "flush_outbox h send started draining commits locked now t =
     (if \<not> started \<or> draining then (Inr 0, t)
      else (let rows = select_due locked now (ot_rows t) in
        case dispatch_rows h send rows t of
          Inl e \<Rightarrow> (Inl e, t)
        | Inr t' \<Rightarrow> if commits then (Inr (length rows), t') else (Inl ''The connection was lost.'', t)))"

subsection \<open>What one flush does\<close>

lemma holds_job_append [simp]: "holds_job q i (jobs @ jobs') \<longleftrightarrow> holds_job q i jobs \<or> holds_job q i jobs'"
  by (simp add: holds_job_def)

lemma holds_job_single [simp]: "holds_job q i [j] \<longleftrightarrow> bj_queue j = q \<and> bj_id j = i"
  by (simp add: holds_job_def)

lemma envelope_job_key [simp]:
  "bj_queue (envelope_job h e) = queue_name" "bj_id (envelope_job h e) = envelope_text e ''id''"
  by (simp_all add: envelope_job_def)

text \<open>However it is answered, what \<open>send\<close> did is that the job is held or that nothing happened.\<close>

lemma sent:
  assumes "boss_stores send" "send job jobs = (Inr r, jobs')"
    and "\<not> (truthy_string r = None \<and> \<not> holds_job (bj_queue job) (bj_id job) jobs')"
  shows "holds_job (bj_queue job) (bj_id job) jobs' \<and>
    (jobs' = jobs \<or> jobs' = jobs @ [job] \<and> \<not> holds_job (bj_queue job) (bj_id job) jobs)"
proof -
  from assms(1) have "case send job jobs of
     (Inr (Some i), jobs') \<Rightarrow> i = bj_id job \<and> \<not> holds_job (bj_queue job) i jobs \<and> jobs' = jobs @ [job]
   | (_, jobs') \<Rightarrow> jobs' = jobs" by (simp add: boss_stores_def)
  then show ?thesis using assms(2,3) by (cases r) auto
qed

definition dispatched :: "outbox_row list \<Rightarrow> outbox_row list \<Rightarrow> outbox_row list" where
  "dispatched rs = map (\<lambda>r. if ox_id r \<in> ox_id ` set rs then r\<lparr>ox_pending := False\<rparr> else r)"

lemma dispatched_simps:
  "dispatched [] rows = rows" "dispatched rs (mark_dispatched (ox_id r) rows) = dispatched (r # rs) rows"
  by (auto simp: dispatched_def mark_dispatched_def intro!: map_idI)

lemma ids_dispatched [simp]: "map ox_id (dispatched rs rows) = map ox_id rows"
  by (simp add: dispatched_def)

lemma dispatch_rows_result:
  assumes "boss_stores send" "dispatch_rows h send rs t = Inr t'"
  shows "ot_rows t' = dispatched rs (ot_rows t) \<and>
    (\<exists>added. ot_jobs t' = ot_jobs t @ added \<and> set added \<subseteq> (\<lambda>r. envelope_job h (ob_payload (ox_message r))) ` set rs) \<and>
    (\<forall>r\<in>set rs. holds_job queue_name (envelope_text (ob_payload (ox_message r)) ''id'') (ot_jobs t'))"
  using assms(2)
proof (induction rs arbitrary: t)
  case Nil
  then show ?case by (simp add: dispatched_simps)
next
  case (Cons r rs)
  let ?payload = "ob_payload (ox_message r)"
  from Cons.prems obtain answer jobs where sent1: "send (envelope_job h ?payload) (ot_jobs t) = (Inr answer, jobs)"
    and taken: "\<not> (truthy_string answer = None \<and> \<not> holds_job queue_name (envelope_text ?payload ''id'') jobs)"
    and rest: "dispatch_rows h send rs \<lparr>ot_rows = mark_dispatched (ox_id r) (ot_rows t), ot_jobs = jobs\<rparr> = Inr t'"
    by (auto simp: Let_def split: prod.splits sum.splits if_splits)
  from sent [OF assms(1) sent1] taken have held: "holds_job queue_name (envelope_text ?payload ''id'') jobs"
    and grown: "\<exists>added. jobs = ot_jobs t @ added \<and> set added \<subseteq> {envelope_job h ?payload}" by auto
  from Cons.IH [OF rest] show ?case using held grown by (fastforce simp: dispatched_simps)
qed

lemma dispatch_rows_total:
  assumes "boss_stores send" "willing send"
  shows "\<exists>t'. dispatch_rows h send rs t = Inr t'"
proof (induction rs arbitrary: t)
  case (Cons r rs)
  let ?job = "envelope_job h (ob_payload (ox_message r))"
  obtain a jobs where s: "send ?job (ot_jobs t) = (a, jobs)" by fastforce
  with assms(2) obtain x where a: "a = Inr x" and x: "x = None \<longrightarrow> holds_job (bj_queue ?job) (bj_id ?job) (ot_jobs t)"
    unfolding willing_def by (metis fst_conv)
  from assms(1) have "case send ?job (ot_jobs t) of
     (Inr (Some i), jobs') \<Rightarrow> i = bj_id ?job \<and> \<not> holds_job (bj_queue ?job) i (ot_jobs t) \<and> jobs' = ot_jobs t @ [?job]
   | (_, jobs') \<Rightarrow> jobs' = ot_jobs t" by (simp add: boss_stores_def)
  with s a x have "holds_job queue_name (envelope_text (ob_payload (ox_message r)) ''id'') jobs"
    by (cases x) auto
  with s a Cons.IH show ?case by (simp add: Let_def)
qed simp

lemma select_due_due: "r \<in> set (select_due locked now rows) \<Longrightarrow> r \<in> set rows \<and> outbox_due now r \<and> \<not> locked (ox_id r)"
  by (auto simp: select_due_def dest!: in_set_takeD)

lemma distinct_select_due: "distinct (map ox_id rows) \<Longrightarrow> distinct (map ox_id (select_due locked now rows))"
proof -
  assume d: "distinct (map ox_id rows)"
  let ?due = "filter (\<lambda>r. outbox_due now r \<and> \<not> locked (ox_id r)) rows"
  have "distinct (map ox_id (sort_key (\<lambda>r. (ox_available_at r, ox_created_at r)) ?due)) = distinct (map ox_id ?due)"
    by (rule mset_eq_imp_distinct_iff) simp
  moreover have "distinct (map ox_id ?due)" using d by (simp add: distinct_map_filter)
  ultimately have "distinct (map ox_id (sort_key (\<lambda>r. (ox_available_at r, ox_created_at r)) ?due))" by simp
  then show ?thesis by (simp add: select_due_def take_map [symmetric])
qed

subsection \<open>Workers at the same outbox\<close>

text \<open>
  Each worker's flush is a transaction that locks the rows it has selected until it commits or is
  rolled back. Meanwhile applications store rows, and pg-boss may do away with jobs it is done with.
  The history is what was handed over by the transactions that committed.
\<close>

record outbox_cluster =
  oc_tables :: outbox_tables
  oc_batches :: "(nat \<times> outbox_row list) list"
  oc_history :: "outbox_row list"

definition row_locked :: "outbox_cluster \<Rightarrow> string \<Rightarrow> bool" where
  "row_locked c i \<longleftrightarrow> i \<in> ox_id ` set (concat (map snd (oc_batches c)))"

inductive outbox_step :: "queue_host \<Rightarrow> send \<Rightarrow> outbox_cluster \<Rightarrow> outbox_cluster \<Rightarrow> bool" for h send where
  store: "ob_id m \<notin> ox_id ` set (ot_rows (oc_tables c)) \<Longrightarrow> outbox_step h send c
    (c\<lparr>oc_tables := oc_tables c\<lparr>ot_rows := ot_rows (oc_tables c) @ [stored_row now m]\<rparr>\<rparr>)"
| lock: "w \<notin> fst ` set (oc_batches c) \<Longrightarrow> outbox_step h send c
    (c\<lparr>oc_batches := (w, select_due (row_locked c) now (ot_rows (oc_tables c))) # oc_batches c\<rparr>)"
| commit: "oc_batches c = before @ (w, rs) # later \<Longrightarrow> dispatch_rows h send rs (oc_tables c) = Inr t \<Longrightarrow>
    outbox_step h send c \<lparr>oc_tables = t, oc_batches = before @ later, oc_history = oc_history c @ rs\<rparr>"
| rollback: "oc_batches c = before @ (w, rs) # later \<Longrightarrow> outbox_step h send c (c\<lparr>oc_batches := before @ later\<rparr>)"
| clean_up: "set jobs \<subseteq> set (ot_jobs (oc_tables c)) \<Longrightarrow> outbox_step h send c
    (c\<lparr>oc_tables := oc_tables c\<lparr>ot_jobs := jobs\<rparr>\<rparr>)"

inductive outbox_reached :: "queue_host \<Rightarrow> send \<Rightarrow> outbox_cluster \<Rightarrow> bool" for h send where
  empty: "outbox_reached h send \<lparr>oc_tables = \<lparr>ot_rows = [], ot_jobs = jobs\<rparr>, oc_batches = [], oc_history = []\<rparr>"
| later: "outbox_reached h send c \<Longrightarrow> outbox_step h send c c' \<Longrightarrow> outbox_reached h send c'"

definition outbox_ok :: "outbox_cluster \<Rightarrow> bool" where
  "outbox_ok c \<longleftrightarrow> distinct (map ox_id (ot_rows (oc_tables c))) \<and>
     distinct (map ox_id (concat (map snd (oc_batches c)))) \<and>
     (\<forall>r\<in>set (concat (map snd (oc_batches c))). r \<in> set (ot_rows (oc_tables c)) \<and> ox_pending r) \<and>
     distinct (map ox_id (oc_history c)) \<and>
     ox_id ` set (oc_history c) = ox_id ` {r \<in> set (ot_rows (oc_tables c)). \<not> ox_pending r}"

lemma same_row: "distinct (map ox_id rows) \<Longrightarrow> r \<in> set rows \<Longrightarrow> r' \<in> set rows \<Longrightarrow> ox_id r = ox_id r' \<Longrightarrow> r = r'"
  unfolding distinct_map by (blast dest: inj_onD)

lemma distinct_middle:
  assumes "distinct (map f (xs @ ys @ zs))"
  shows "distinct (map f ys)" "distinct (map f (xs @ zs))" "f ` set ys \<inter> f ` set (xs @ zs) = {}"
proof -
  from assms have d: "distinct (map f xs @ map f ys @ map f zs)" by simp
  then show "distinct (map f ys)" and "distinct (map f (xs @ zs))" unfolding map_append by auto
  have "set (map f ys) \<inter> set (map f xs @ map f zs) = {}" using d by auto
  then show "f ` set ys \<inter> f ` set (xs @ zs) = {}" by (simp add: image_Un)
qed

lemma settled_dispatched:
  assumes "distinct (map ox_id rows)" "set rs \<subseteq> set rows"
  shows "ox_id ` {r \<in> set (dispatched rs rows). \<not> ox_pending r} = ox_id ` {r \<in> set rows. \<not> ox_pending r} \<union> ox_id ` set rs"
  using assms(2) by (force simp: dispatched_def image_iff)

lemma locked_still_pending:
  assumes "r \<in> set rows" "ox_id r \<notin> ox_id ` set rs"
  shows "r \<in> set (dispatched rs rows)"
  using assms by (force simp: dispatched_def image_iff)

lemma outbox_commit_ok:
  assumes ok: "outbox_ok c" and batch: "oc_batches c = before @ (w, rs) # later"
    and rows: "ot_rows t = dispatched rs (ot_rows (oc_tables c))"
  shows "outbox_ok \<lparr>oc_tables = t, oc_batches = before @ later, oc_history = oc_history c @ rs\<rparr>"
proof -
  let ?rows = "ot_rows (oc_tables c)" and ?rest = "concat (map snd (before @ later))"
  have distinct_rows: "distinct (map ox_id ?rows)" using ok by (simp add: outbox_ok_def)
  have all: "set (concat (map snd (oc_batches c))) = set rs \<union> set ?rest" using batch by auto
  have rs: "r \<in> set ?rows \<and> ox_pending r" if "r \<in> set rs" for r
    using ok that all unfolding outbox_ok_def by blast
  have rest: "r \<in> set ?rows \<and> ox_pending r" if "r \<in> set ?rest" for r
    using ok that all unfolding outbox_ok_def by blast
  have distinct_rs: "distinct (map ox_id rs)" and apart: "ox_id ` set rs \<inter> ox_id ` set ?rest = {}"
    and distinct_rest: "distinct (map ox_id ?rest)"
    using distinct_middle [of ox_id "concat (map snd before)" rs "concat (map snd later)"] ok batch
    by (simp_all add: outbox_ok_def)
  have history: "ox_id ` set (oc_history c) = ox_id ` {r \<in> set ?rows. \<not> ox_pending r}"
    using ok by (simp add: outbox_ok_def)
  have fresh: "ox_id ` set (oc_history c) \<inter> ox_id ` set rs = {}"
  proof (rule ccontr)
    assume "ox_id ` set (oc_history c) \<inter> ox_id ` set rs \<noteq> {}"
    then obtain r r' where "r \<in> set ?rows" "\<not> ox_pending r" "r' \<in> set rs" "ox_id r = ox_id r'"
      unfolding history by auto
    with same_row [OF distinct_rows, of r r'] rs show False by auto
  qed
  have "set rs \<subseteq> set ?rows" using rs by blast
  note settled = settled_dispatched [OF distinct_rows this]
  have "r \<in> set (dispatched rs ?rows) \<and> ox_pending r" if "r \<in> set ?rest" for r
    using rest [OF that] locked_still_pending [of r ?rows rs] apart that by blast
  then show ?thesis using ok distinct_rest distinct_rs fresh settled history distinct_rows
    unfolding outbox_ok_def by (simp add: rows image_Un Int_commute)
qed

lemma outbox_step_ok:
  assumes "boss_stores send" "outbox_step h send c c'" "outbox_ok c"
  shows "outbox_ok c'"
  using assms(2)
proof cases
  case (store m now)
  then show ?thesis using assms(3) by (auto simp: outbox_ok_def stored_row_def)
next
  case (lock w now)
  let ?new = "select_due (row_locked c) now (ot_rows (oc_tables c))"
  have "distinct (map ox_id ?new)" using assms(3) by (intro distinct_select_due) (simp add: outbox_ok_def)
  moreover have "ox_id r \<notin> ox_id ` set (concat (map snd (oc_batches c)))" if "r \<in> set ?new" for r
    using select_due_due [OF that] by (simp add: row_locked_def)
  moreover have "r \<in> set (ot_rows (oc_tables c)) \<and> ox_pending r" if "r \<in> set ?new" for r
    using select_due_due [OF that] by (simp add: outbox_due_def)
  ultimately show ?thesis using assms(3) lock unfolding outbox_ok_def by (auto simp: image_iff)
next
  case (commit before w rs later t)
  from dispatch_rows_result [OF assms(1) commit(3)] have "ot_rows t = dispatched rs (ot_rows (oc_tables c))" by simp
  from outbox_commit_ok [OF assms(3) commit(2) this] show ?thesis using commit(1) by simp
next
  case (rollback before w rs later)
  have "distinct (map ox_id (concat (map snd before) @ rs @ concat (map snd later)))"
    using assms(3) rollback(2) by (simp add: outbox_ok_def)
  from distinct_middle(2) [OF this] have "distinct (map ox_id (concat (map snd (before @ later))))" by simp
  moreover have "set (concat (map snd (before @ later))) \<subseteq> set (concat (map snd (oc_batches c)))" using rollback(2) by auto
  then have "\<forall>r\<in>set (concat (map snd (before @ later))). r \<in> set (ot_rows (oc_tables c)) \<and> ox_pending r"
    using assms(3) unfolding outbox_ok_def by blast
  ultimately show ?thesis using assms(3) rollback(1) unfolding outbox_ok_def by simp
next
  case (clean_up jobs)
  then show ?thesis using assms(3) by (simp add: outbox_ok_def)
qed

lemma outbox_reached_ok: "boss_stores send \<Longrightarrow> outbox_reached h send c \<Longrightarrow> outbox_ok c"
  by (rotate_tac, induction rule: outbox_reached.induct) (simp add: outbox_ok_def, blast intro: outbox_step_ok)

lemma outbox_step_hands_over:
  assumes "boss_stores send" "outbox_step h send c c'" "r \<in> set (drop (length (oc_history c)) (oc_history c'))"
  shows "holds_job queue_name (envelope_text (ob_payload (ox_message r)) ''id'') (ot_jobs (oc_tables c'))"
  using assms(2)
proof cases
  case (commit before w rs later t)
  with dispatch_rows_result [OF assms(1) commit(3)] assms(3) show ?thesis by simp
qed (use assms(3) in simp_all)

text \<open>
  C10. However many workers flush the outbox at the same time, and however their transactions end, no
  two of them hold the same row, every stored row is handed over to pg-boss by at most one transaction
  that commits, the rows that are dispatched are exactly those that were handed over, and when a
  transaction commits pg-boss has the job of each of its rows. pg-boss is only trusted to add the job
  whose id it answers, and nothing else.
\<close>

theorem outbox_handed_over_once:
  assumes "boss_stores send" "outbox_reached h send c"
  shows "distinct (map ox_id (concat (map snd (oc_batches c)))) \<and> distinct (map ox_id (oc_history c)) \<and>
    (\<forall>r\<in>set (ot_rows (oc_tables c)). ox_pending r \<longleftrightarrow> ox_id r \<notin> ox_id ` set (oc_history c)) \<and>
    (\<forall>c' r. outbox_step h send c c' \<and> r \<in> set (drop (length (oc_history c)) (oc_history c')) \<longrightarrow>
       holds_job queue_name (envelope_text (ob_payload (ox_message r)) ''id'') (ot_jobs (oc_tables c')))"
proof -
  from outbox_reached_ok [OF assms] have ok: "outbox_ok c" .
  then have rows: "distinct (map ox_id (ot_rows (oc_tables c)))"
    and history: "ox_id ` set (oc_history c) = ox_id ` {r \<in> set (ot_rows (oc_tables c)). \<not> ox_pending r}"
    by (simp_all add: outbox_ok_def)
  have "ox_pending r \<longleftrightarrow> ox_id r \<notin> ox_id ` set (oc_history c)" if "r \<in> set (ot_rows (oc_tables c))" for r
    using same_row [OF rows that] that unfolding history by auto
  with ok outbox_step_hands_over [OF assms(1)] show ?thesis by (auto simp: outbox_ok_def)
qed

subsection \<open>The outbox drains\<close>

fun flush_times :: "queue_host \<Rightarrow> send \<Rightarrow> int \<Rightarrow> nat \<Rightarrow> outbox_tables \<Rightarrow> outbox_tables" where
  "flush_times h send now 0 t = t"
| "flush_times h send now (Suc n) t =
     flush_times h send now n (snd (flush_outbox h send True False True (\<lambda>i. False) now t))"

definition due_rows :: "int \<Rightarrow> outbox_row list \<Rightarrow> outbox_row list" where
  "due_rows now = filter (outbox_due now)"

lemma due_dispatched:
  assumes "distinct (map ox_id rows)" "set rs \<subseteq> set rows"
  shows "set (due_rows now (dispatched rs rows)) = set (due_rows now rows) - set rs"
proof -
  have "ox_id r \<in> ox_id ` set rs \<longleftrightarrow> r \<in> set rs" if "r \<in> set rows" for r
    using same_row [OF assms(1) that] assms(2) by auto
  then show ?thesis by (fastforce simp: due_rows_def dispatched_def outbox_due_def image_iff)
qed

lemma flushed:
  assumes "boss_stores send" "willing send" "distinct (map ox_id (ot_rows t))"
    and "t' = snd (flush_outbox h send True False True (\<lambda>i. False) now t)"
  shows "distinct (map ox_id (ot_rows t'))" "map ox_message (ot_rows t') = map ox_message (ot_rows t)"
    "length (due_rows now (ot_rows t')) = length (due_rows now (ot_rows t)) - 50"
    "\<forall>q i. holds_job q i (ot_jobs t) \<longrightarrow> holds_job q i (ot_jobs t')"
    "\<forall>r\<in>set (due_rows now (ot_rows t)). r \<in> set (due_rows now (ot_rows t')) \<or>
       holds_job queue_name (envelope_text (ob_payload (ox_message r)) ''id'') (ot_jobs t')"
proof -
  define rs where "rs = select_due (\<lambda>i. False) now (ot_rows t)"
  obtain t2 where run: "dispatch_rows h send rs t = Inr t2" using dispatch_rows_total [OF assms(1,2)] by blast
  then have t': "t' = t2" using assms(4) by (simp add: flush_outbox_def Let_def rs_def)
  from dispatch_rows_result [OF assms(1) run] have rows: "ot_rows t2 = dispatched rs (ot_rows t)"
    and jobs: "\<exists>added. ot_jobs t2 = ot_jobs t @ added"
    and held: "\<forall>r\<in>set rs. holds_job queue_name (envelope_text (ob_payload (ox_message r)) ''id'') (ot_jobs t2)" by auto
  have sub: "set rs \<subseteq> set (ot_rows t)" and due: "set rs \<subseteq> set (due_rows now (ot_rows t))"
    using select_due_due by (auto simp: rs_def due_rows_def)
  have distinct_due: "distinct (due_rows now (ot_rows t))"
    using assms(3) by (auto simp: due_rows_def dest: distinct_map [THEN iffD1] intro: distinct_filter)
  have distinct_t2: "distinct (map ox_id (ot_rows t2))" using assms(3) by (simp add: rows)
  have distinct_due2: "distinct (due_rows now (ot_rows t2))"
    using distinct_t2 by (auto simp: due_rows_def dest: distinct_map [THEN iffD1] intro: distinct_filter)
  have "length rs = min 50 (length (due_rows now (ot_rows t)))"
    by (simp add: rs_def select_due_def due_rows_def min.commute)
  moreover have "distinct rs" using distinct_select_due [OF assms(3)] by (auto simp: rs_def dest: distinct_map [THEN iffD1])
  moreover have dues: "set (due_rows now (ot_rows t2)) = set (due_rows now (ot_rows t)) - set rs"
    unfolding rows by (rule due_dispatched [OF assms(3) sub])
  ultimately show "length (due_rows now (ot_rows t')) = length (due_rows now (ot_rows t)) - 50"
    using due distinct_due distinct_due2 t' by (simp add: distinct_card [symmetric] card_Diff_subset)
  show "distinct (map ox_id (ot_rows t'))" using distinct_t2 t' by simp
  show "map ox_message (ot_rows t') = map ox_message (ot_rows t)" by (simp add: t' rows dispatched_def)
  show "\<forall>q i. holds_job q i (ot_jobs t) \<longrightarrow> holds_job q i (ot_jobs t')" using jobs t' by auto
  show "\<forall>r\<in>set (due_rows now (ot_rows t)). r \<in> set (due_rows now (ot_rows t')) \<or>
       holds_job queue_name (envelope_text (ob_payload (ox_message r)) ''id'') (ot_jobs t')"
    using held dues t' by auto
qed

lemma flushed_times:
  assumes "boss_stores send" "willing send" "distinct (map ox_id (ot_rows t))"
  shows "length (due_rows now (ot_rows (flush_times h send now n t))) = length (due_rows now (ot_rows t)) - 50 * n \<and>
    (\<forall>q i. holds_job q i (ot_jobs t) \<longrightarrow> holds_job q i (ot_jobs (flush_times h send now n t))) \<and>
    (\<forall>r\<in>set (due_rows now (ot_rows t)). r \<in> set (due_rows now (ot_rows (flush_times h send now n t))) \<or>
       holds_job queue_name (envelope_text (ob_payload (ox_message r)) ''id'') (ot_jobs (flush_times h send now n t)))"
  using assms(3)
proof (induction n arbitrary: t)
  case (Suc n)
  note step = flushed [OF assms(1,2) Suc.prems refl, where h = h and now = now]
  from Suc.IH [OF step(1)] step(3-5) show ?case by auto
qed simp

text \<open>
  C13. Committed work does not stay in the outbox: when pg-boss takes jobs, every flush takes fifty of
  the rows that are due, or all of them if there are fewer, so that after one flush for every fifty
  none is left, and pg-boss has the job of each.
\<close>

theorem outbox_drains:
  assumes "boss_stores send" "willing send" "distinct (map ox_id (ot_rows t))"
    and "length (filter (outbox_due now) (ot_rows t)) \<le> 50 * n"
  shows "filter (outbox_due now) (ot_rows (flush_times h send now n t)) = [] \<and>
    (\<forall>r\<in>set (filter (outbox_due now) (ot_rows t)).
       holds_job queue_name (envelope_text (ob_payload (ox_message r)) ''id'') (ot_jobs (flush_times h send now n t)))"
proof -
  from flushed_times [OF assms(1-3), of now h n] assms(4)
  have none: "due_rows now (ot_rows (flush_times h send now n t)) = []" by (simp add: due_rows_def)
  with flushed_times [OF assms(1-3), of now h n]
  have "\<forall>r\<in>set (due_rows now (ot_rows t)).
      holds_job queue_name (envelope_text (ob_payload (ox_message r)) ''id'') (ot_jobs (flush_times h send now n t))" by simp
  with none show ?thesis unfolding due_rows_def by blast
qed

text \<open>
  But one row that pg-boss does not take, a job with a time limit it refuses for instance, stops the
  whole outbox: the batch is rolled back, and selected again.
\<close>

lemma refused_row_rolls_back:
  assumes "r \<in> set rs" "\<forall>jobs. isl (fst (send (envelope_job h (ob_payload (ox_message r))) jobs))"
  shows "isl (dispatch_rows h send rs t)"
  using assms(1)
proof (induction rs arbitrary: t)
  case (Cons r' rs)
  obtain a jobs where sent1: "send (envelope_job h (ob_payload (ox_message r'))) (ot_jobs t) = (a, jobs)" by fastforce
  show ?case
  proof (cases "r = r'")
    case True
    then have "isl a" using assms(2) sent1 by (metis fst_conv)
    then show ?thesis using sent1 by (cases a) (auto simp: Let_def)
  next
    case False
    then show ?thesis using Cons sent1 by (cases a) (auto simp: Let_def)
  qed
qed simp

lemma refused_row_blocks_outbox:
  assumes "r \<in> set (select_due (\<lambda>i. False) now (ot_rows t))"
    and "\<forall>jobs. isl (fst (send (envelope_job h (ob_payload (ox_message r))) jobs))"
  shows "flush_times h send now n t = t"
proof -
  have "isl (dispatch_rows h send (select_due (\<lambda>i. False) now (ot_rows t)) t)"
    using assms by (intro refused_row_rolls_back) auto
  then have "snd (flush_outbox h send True False True (\<lambda>i. False) now t) = t"
    by (auto simp: flush_outbox_def Let_def split: sum.splits)
  then show ?thesis by (induction n) simp_all
qed

subsection \<open>The jobs an operator sees\<close>

datatype job_state = Created | Retrying | Active | Completed | Cancelled | Failed_job

record job_record =
  jr_id :: string
  jr_state :: job_state
  jr_retry_count :: nat
  jr_retry_limit :: nat
  jr_output :: "json option"

type_synonym job_table = "((string \<times> string) \<times> job_record) list"

text \<open>\<open>inspectQueueJob\<close>: an output that is null is left out.\<close>

definition inspect_queue_job :: "job_table \<Rightarrow> string \<Rightarrow> job_record option" where
  "inspect_queue_job jobs i = map_option (\<lambda>j. j\<lparr>jr_output := (if jr_output j = Some JNull then None else jr_output j)\<rparr>)
     (map_of jobs (queue_name, i))"

definition list_queue_jobs :: "job_table \<Rightarrow> job_state option \<Rightarrow> job_record list" where
  "list_queue_jobs jobs wanted = take 100 (map snd (filter (\<lambda>((q, i), j). q = queue_name \<and>
     (case wanted of None \<Rightarrow> True | Some state \<Rightarrow> jr_state j = state)) (rev jobs)))"

text \<open>The commands ask pg-boss to retry or to cancel; what it then does is the argument.\<close>

definition retry_queue_job :: "(string \<Rightarrow> job_table \<Rightarrow> string + job_table) \<Rightarrow> string \<Rightarrow> job_table \<Rightarrow> string + job_table" where
  "retry_queue_job retry i jobs = (case inspect_queue_job jobs i of
     None \<Rightarrow> Inl (''Only a failed Doxa queue job may be retried: '' @ i @ ''.'')
   | Some j \<Rightarrow> if jr_state j \<noteq> Failed_job then Inl (''Only a failed Doxa queue job may be retried: '' @ i @ ''.'') else retry i jobs)"

definition cancel_queue_job :: "(string \<Rightarrow> job_table \<Rightarrow> string + job_table) \<Rightarrow> string \<Rightarrow> job_table \<Rightarrow> string + job_table" where
  "cancel_queue_job cancel i jobs = (case inspect_queue_job jobs i of
     None \<Rightarrow> Inl (''Only a pending or active Doxa queue job may be cancelled: '' @ i @ ''.'')
   | Some j \<Rightarrow> if jr_state j \<notin> {Created, Retrying, Active}
       then Inl (''Only a pending or active Doxa queue job may be cancelled: '' @ i @ ''.'') else cancel i jobs)"

subsection \<open>Witnesses\<close>

definition sample_send :: send where
  "sample_send job jobs = (if holds_job (bj_queue job) (bj_id job) jobs then (Inr None, jobs)
     else (Inr (Some (bj_id job)), jobs @ [job]))"

lemma sample_send_laws: "boss_stores sample_send" "willing sample_send"
  by (simp_all add: boss_stores_def willing_def sample_send_def)

definition sample_message :: "string \<Rightarrow> outbox_message" where
  "sample_message i = \<lparr>ob_id = i, ob_type = ''doxa.queue'', ob_payload = sample_envelope 3, ob_available_at = None\<rparr>"

definition sample_outbox :: "string list \<Rightarrow> outbox_tables" where
  "sample_outbox is = \<lparr>ot_rows = map (\<lambda>i. stored_row 0 (sample_message i)) is, ot_jobs = []\<rparr>"

definition one_row_cluster :: outbox_cluster where
  "one_row_cluster = \<lparr>oc_tables = sample_outbox [''a''], oc_batches = [], oc_history = []\<rparr>"

lemma one_row_reached: "outbox_reached sample_queue_host sample_send one_row_cluster"
proof -
  have "outbox_reached sample_queue_host sample_send
     \<lparr>oc_tables = \<lparr>ot_rows = [], ot_jobs = []\<rparr>, oc_batches = [], oc_history = []\<rparr>" by (rule outbox_reached.empty)
  from outbox_reached.later [OF this outbox_step.store [of "sample_message ''a''" _ _ _ 0]]
  show ?thesis by (simp add: one_row_cluster_def sample_outbox_def)
qed

text \<open>One worker takes the row and commits.\<close>

definition sample_row :: outbox_row where
  "sample_row = stored_row 0 (sample_message ''a'')"

definition handed_cluster :: outbox_cluster where
  "handed_cluster = \<lparr>oc_tables = \<lparr>ot_rows = [sample_row\<lparr>ox_pending := False\<rparr>],
     ot_jobs = [envelope_job sample_queue_host (sample_envelope 3)]\<rparr>, oc_batches = [], oc_history = [sample_row]\<rparr>"

lemma handed_reached: "outbox_reached sample_queue_host sample_send handed_cluster"
proof -
  let ?locked = "one_row_cluster\<lparr>oc_batches := [(7, [sample_row])]\<rparr>"
  have "select_due (row_locked one_row_cluster) 1 (ot_rows (oc_tables one_row_cluster)) = [sample_row]"
    by (simp add: one_row_cluster_def sample_outbox_def select_due_def row_locked_def outbox_due_def stored_row_def
        sample_message_def sample_row_def)
  with outbox_step.lock [of 7 one_row_cluster sample_queue_host sample_send 1]
  have "outbox_step sample_queue_host sample_send one_row_cluster ?locked" by (simp add: one_row_cluster_def)
  then have locked: "outbox_reached sample_queue_host sample_send ?locked" by (rule outbox_reached.later [OF one_row_reached])
  have "dispatch_rows sample_queue_host sample_send [sample_row] (oc_tables ?locked) = Inr (oc_tables handed_cluster)"
    by (simp add: one_row_cluster_def sample_outbox_def sample_row_def stored_row_def sample_message_def sample_send_def
        handed_cluster_def mark_dispatched_def Let_def holds_job_def)
  from outbox_step.commit [OF _ this, of "[]" 7 "[]"]
  have "outbox_step sample_queue_host sample_send ?locked handed_cluster"
    by (simp add: one_row_cluster_def handed_cluster_def)
  with locked show ?thesis by (rule outbox_reached.later)
qed

theorem outbox_handed_over_once_witness:
  "list_all (\<lambda>r. ox_pending r = (ox_id r \<notin> {''a''})) (ot_rows (oc_tables handed_cluster))"
proof -
  from outbox_handed_over_once [OF sample_send_laws(1) handed_reached]
  have "\<forall>r\<in>set (ot_rows (oc_tables handed_cluster)). ox_pending r \<longleftrightarrow> ox_id r \<notin> ox_id ` set (oc_history handed_cluster)"
    by blast
  then show ?thesis by (simp add: list_all_iff handed_cluster_def sample_row_def stored_row_def sample_message_def)
qed

theorem outbox_drains_witness:
  "filter (outbox_due 5) (ot_rows (flush_times sample_queue_host sample_send 5 1 (sample_outbox [''a'', ''b'']))) = []"
proof -
  have "distinct (map ox_id (ot_rows (sample_outbox [''a'', ''b''])))"
    by (simp add: sample_outbox_def stored_row_def sample_message_def)
  moreover have "length (filter (outbox_due 5) (ot_rows (sample_outbox [''a'', ''b'']))) \<le> 50 * 1"
    by (simp add: sample_outbox_def)
  ultimately show ?thesis using outbox_drains [OF sample_send_laws] by blast
qed

end
