(* ===== verification/Schedules.thy ===== *)
theory Schedules
  imports QueueEngine
begin

text \<open>
  The schedules of the queue engine, \<open>packages/queue-pg-boss/src/index.ts\<close>: which jobs a schedule
  comes to, what is caught up with after a stop, and the cron schedules that pg-boss keeps.

  The cron parser is an argument (the occurrence before a time, if the expression can be read), and so
  are the operations of pg-boss on its schedules; the hypothesis \<open>keeps_schedules\<close> says what they do.
  Times are in milliseconds.
\<close>

subsection \<open>Jobs of a schedule\<close>

definition serial_schedule_queue :: string where
  "serial_schedule_queue = ''doxa-schedules-serial''"

definition parallel_schedule_queue :: string where
  "parallel_schedule_queue = ''doxa-schedules-parallel''"

definition schedule_queue :: "schedule_definition \<Rightarrow> string" where
  "schedule_queue s = (if sc_overlap s = Serialize_overlap then serial_schedule_queue else parallel_schedule_queue)"

text \<open>\<open>id.replace(':', '/')\<close> replaces the first colon.\<close>

fun schedule_key :: "string \<Rightarrow> string" where
  "schedule_key [] = []"
| "schedule_key (c # cs) = (if c = CHR '':'' then CHR ''/'' # cs else c # schedule_key cs)"

definition schedule_options :: "schedule_definition \<Rightarrow> int option \<Rightarrow> send_options" where
  "schedule_options s start = \<lparr>so_retry_limit = JNum (Fin (qp_retries (sc_policy s))),
     so_retry_delay = JNum (Fin (qp_retry_delay (sc_policy s))), so_retry_backoff = JBool (qp_backoff (sc_policy s)),
     so_expire_in = JNum (Fin (qp_timeout (sc_policy s))), so_start_after = start,
     so_singleton_key = (if sc_overlap s = Serialize_overlap then Some (sc_id s) else None)\<rparr>"

definition schedule_job :: "schedule_definition \<Rightarrow> string \<Rightarrow> int option \<Rightarrow> boss_job" where
  "schedule_job s i start = \<lparr>bj_queue = schedule_queue s, bj_id = i, bj_data = Scheduled s,
     bj_options = schedule_options s start\<rparr>"

definition scheduler_actor :: json where
  "scheduler_actor = JObj [(''kind'', JStr ''system''), (''id'', JStr ''doxa:scheduler'')]"

definition schedule_envelope :: "string \<Rightarrow> schedule_definition \<Rightarrow> json" where
  "schedule_envelope i s = JObj [(''id'', JStr i), (''kind'', JStr ''job''), (''targetId'', JStr (sc_target s)),
     (''scheduleId'', JStr (sc_id s)), (''payload'', sc_input s), (''policy'', queue_policy_json (sc_policy s)),
     (''context'', JObj [(''version'', js_int 1), (''sourceExecutionId'', JStr i), (''correlationId'', JStr i),
        (''causationId'', JStr (sc_id s)), (''actor'', scheduler_actor), (''initiator'', scheduler_actor),
        (''delegation'', JArr []),
        (''authentication'', JObj [(''state'', JStr ''authenticated''), (''identityId'', JStr ''doxa:scheduler''),
           (''method'', JStr ''schedule'')]),
        (''trace'', JObj []), (''timeZone'', JStr (sc_time_zone s))])]"

definition deterministic_uuid :: "(string \<Rightarrow> string) \<Rightarrow> string \<Rightarrow> string" where
  "deterministic_uuid digest v =
     (let hex = take 32 (digest v);
          v = hex[12 := CHR ''5'', 16 := variant_digit (hex ! 16)] in
      join ''-'' [take 8 v, take 4 (drop 8 v), take 4 (drop 12 v), take 4 (drop 16 v), drop 20 v])"

definition floor_to :: "int \<Rightarrow> int \<Rightarrow> int" where
  "floor_to step t = t div step * step"

type_synonym cron_parser = "string \<Rightarrow> string \<Rightarrow> int \<Rightarrow> string + int"

definition latest_occurrence :: "cron_parser \<Rightarrow> schedule_definition \<Rightarrow> int \<Rightarrow> int \<Rightarrow> string + int option" where
  "latest_occurrence cron s after through =
     res_bind (case sc_cadence s of
         Every_seconds n \<Rightarrow> Inr (floor_to (n * 1000) through)
       | Cron expression \<Rightarrow> cron expression (sc_time_zone s) through)
       (\<lambda>occurrence. Inr (if occurrence > after then Some occurrence else None))"

subsection \<open>Controls and misfires\<close>

record schedule_control =
  ct_enabled :: bool
  ct_last :: "int option"

record schedule_host =
  sh_digest :: "string \<Rightarrow> string"
  sh_cron :: cron_parser
  sh_iso :: "int \<Rightarrow> string"

text \<open>\<open>#loadScheduleControls\<close>: the table, and \<open>#enabledSchedules\<close>.\<close>

definition load_schedule_controls :: "schedule_definition list \<Rightarrow> (string, schedule_control) omap \<Rightarrow>
    (string, schedule_control) omap \<times> string list" where
  "load_schedule_controls ss controls =
     (let controls' = fold (\<lambda>s m. if om_has m (sc_id s) then m
          else om_set (sc_id s) \<lparr>ct_enabled = True, ct_last = None\<rparr> m) ss controls in
      (controls', map fst (filter (\<lambda>e. ct_enabled (snd e)) controls')))"

definition catch_up_id :: "schedule_host \<Rightarrow> schedule_definition \<Rightarrow> int \<Rightarrow> string" where
  "catch_up_id h s t = deterministic_uuid (sh_digest h) (sc_id s @ '':catch-up:'' @ sh_iso h t)"

definition missed_occurrence :: "schedule_host \<Rightarrow> schedule_definition \<Rightarrow> int option \<Rightarrow> int \<Rightarrow> string + int option" where
  "missed_occurrence h s previous now = (case previous of
     None \<Rightarrow> Inr None
   | Some p \<Rightarrow> if sc_misfire s = Catch_up_once then latest_occurrence (sh_cron h) s p now else Inr None)"

record schedule_tables =
  st_controls :: "(string, schedule_control) omap"
  st_jobs :: "boss_job list"

text \<open>One schedule of \<open>#reconcileMisfires\<close>, in a transaction of its own.\<close>

definition send_missed :: "schedule_host \<Rightarrow> send \<Rightarrow> schedule_definition \<Rightarrow> int option \<Rightarrow> boss_job list \<Rightarrow> string + boss_job list" where
  "send_missed h send s missed jobs = (case missed of
     None \<Rightarrow> Inr jobs
   | Some t \<Rightarrow> (case send (schedule_job s (catch_up_id h s t) None) jobs of
       (Inl e, jobs') \<Rightarrow> Inl e
     | (Inr accepted, jobs') \<Rightarrow>
       if truthy_string accepted = None \<and> \<not> holds_job (schedule_queue s) (catch_up_id h s t) jobs'
       then Inl (''pg-boss rejected Doxa schedule catch-up '' @ catch_up_id h s t @ ''.'') else Inr jobs'))"

definition reconcile_misfire :: "schedule_host \<Rightarrow> send \<Rightarrow> schedule_definition \<Rightarrow> int \<Rightarrow> schedule_tables \<Rightarrow> string + schedule_tables" where
  "reconcile_misfire h send s now t =
     (let control = om_get (st_controls t) (sc_id s) in
      res_bind (missed_occurrence h s (case control of None \<Rightarrow> None | Some c \<Rightarrow> ct_last c) now) (\<lambda>missed.
      res_bind (send_missed h send s missed (st_jobs t)) (\<lambda>jobs.
      Inr \<lparr>st_controls = (case control of None \<Rightarrow> st_controls t
             | Some c \<Rightarrow> om_set (sc_id s) (c\<lparr>ct_last := Some now\<rparr>) (st_controls t)), st_jobs = jobs\<rparr>)))"

text \<open>The first failure ends it; what was committed before stays.\<close>

fun reconcile_misfires :: "schedule_host \<Rightarrow> send \<Rightarrow> string list \<Rightarrow> (string \<Rightarrow> int) \<Rightarrow> schedule_definition list \<Rightarrow> schedule_tables \<Rightarrow>
    string option \<times> schedule_tables" where
  "reconcile_misfires h send enabled now [] t = (None, t)"
| "reconcile_misfires h send enabled now (s # ss) t =
     (if sc_id s \<notin> set enabled then reconcile_misfires h send enabled now ss t
      else (case reconcile_misfire h send s (now (sc_id s)) t of
          Inl e \<Rightarrow> (Some e, t)
        | Inr t' \<Rightarrow> reconcile_misfires h send enabled now ss t'))"

text \<open>\<open>#recordScheduleAdmission\<close>: an update of the row, if there is one.\<close>

definition record_schedule_admission :: "string \<Rightarrow> int \<Rightarrow> (string, schedule_control) omap \<Rightarrow> (string, schedule_control) omap" where
  "record_schedule_admission i now controls = map (\<lambda>(k, c). (k, if k = i
     then c\<lparr>ct_last := Some (case ct_last c of None \<Rightarrow> now | Some p \<Rightarrow> max p now)\<rparr> else c)) controls"

subsection \<open>Intervals\<close>

definition next_slot :: "int \<Rightarrow> int \<Rightarrow> int" where
  "next_slot milliseconds now = now div milliseconds + 1"

definition slot_id :: "schedule_host \<Rightarrow> schedule_definition \<Rightarrow> int \<Rightarrow> string" where
  "slot_id h s slot = deterministic_uuid (sh_digest h) (sc_id s @ CHR '':'' # decimal (nat slot))"

text \<open>\<open>#sendInterval\<close>: what \<open>send\<close> answers is not looked at.\<close>

definition send_interval :: "schedule_host \<Rightarrow> send \<Rightarrow> schedule_definition \<Rightarrow> int \<Rightarrow> int \<Rightarrow> boss_job list \<Rightarrow> string option \<times> boss_job list" where
  "send_interval h send s slot fire_at jobs = (case send (schedule_job s (slot_id h s slot) (Some fire_at)) jobs of
     (Inl e, jobs') \<Rightarrow> (Some e, jobs')
   | (Inr _, jobs') \<Rightarrow> (None, jobs'))"

text \<open>\<open>#armInterval\<close>: the jobs, and when the timer for the next slot fires.\<close>

definition arm_interval :: "schedule_host \<Rightarrow> send \<Rightarrow> bool \<Rightarrow> schedule_definition \<Rightarrow> int \<Rightarrow> int \<Rightarrow> boss_job list \<Rightarrow>
    (string + int option) \<times> boss_job list" where
  "arm_interval h send draining s now later jobs = (case sc_cadence s of
     Cron _ \<Rightarrow> (Inr None, jobs)
   | Every_seconds n \<Rightarrow>
     if draining then (Inr None, jobs)
     else (let milliseconds = n * 1000; slot = next_slot milliseconds now; fire_at = slot * milliseconds in
       case send_interval h send s slot fire_at jobs of
         (Some e, jobs') \<Rightarrow> (Inl e, jobs')
       | (None, jobs') \<Rightarrow> (Inr (Some (later + max 1 (fire_at - later + 25))), jobs')))"

fun start_interval_schedules :: "schedule_host \<Rightarrow> send \<Rightarrow> bool \<Rightarrow> string list \<Rightarrow> (string \<Rightarrow> int \<times> int) \<Rightarrow> schedule_definition list \<Rightarrow>
    boss_job list \<Rightarrow> (string + (string \<times> int) list) \<times> boss_job list" where
  "start_interval_schedules h send draining enabled now [] jobs = (Inr [], jobs)"
| "start_interval_schedules h send draining enabled now (s # ss) jobs =
     (if (case sc_cadence s of Cron _ \<Rightarrow> True | _ \<Rightarrow> False) \<or> sc_id s \<notin> set enabled
      then start_interval_schedules h send draining enabled now ss jobs
      else (case arm_interval h send draining s (fst (now (sc_id s))) (snd (now (sc_id s))) jobs of
          (Inl e, jobs') \<Rightarrow> (Inl e, jobs')
        | (Inr timer, jobs') \<Rightarrow>
          (case start_interval_schedules h send draining enabled now ss jobs' of
             (r, jobs'') \<Rightarrow> (map_sum id (\<lambda>timers. (case timer of None \<Rightarrow> [] | Some t \<Rightarrow> [(sc_id s, t)]) @ timers) r, jobs''))))"

subsection \<open>Cron schedules\<close>

record 'b boss_schedules =
  bs_keys :: "string \<Rightarrow> 'b \<Rightarrow> string + string list"
  bs_unschedule :: "string \<Rightarrow> string \<Rightarrow> 'b \<Rightarrow> string + 'b"
  bs_schedule :: "string \<Rightarrow> string \<Rightarrow> string \<Rightarrow> schedule_definition \<Rightarrow> 'b \<Rightarrow> string + 'b"

text \<open>The schedules pg-boss keeps, by queue and key, and that its operations change no other.\<close>

definition keeps_schedules :: "('b \<Rightarrow> string \<Rightarrow> string \<Rightarrow> (string \<times> schedule_definition) option) \<Rightarrow> 'b boss_schedules \<Rightarrow> bool" where
  "keeps_schedules kept bs \<longleftrightarrow>
     (\<forall>q b ks. bs_keys bs q b = Inr ks \<longrightarrow> set ks = {k. kept b q k \<noteq> None}) \<and>
     (\<forall>q k b b'. bs_unschedule bs q k b = Inr b' \<longrightarrow>
        (\<forall>q' k'. kept b' q' k' = (if q' = q \<and> k' = k then None else kept b q' k'))) \<and>
     (\<forall>q k e s b b'. bs_schedule bs q k e s b = Inr b' \<longrightarrow>
        (\<forall>q' k'. kept b' q' k' = (if q' = q \<and> k' = k then Some (e, s) else kept b q' k')))"

fun each_res :: "('a \<Rightarrow> 'b \<Rightarrow> string + 'b) \<Rightarrow> 'a list \<Rightarrow> 'b \<Rightarrow> string + 'b" where
  "each_res f [] b = Inr b"
| "each_res f (x # xs) b = res_bind (f x b) (each_res f xs)"

definition cron_expression :: "schedule_definition \<Rightarrow> string option" where
  "cron_expression s = (case sc_cadence s of Cron e \<Rightarrow> Some e | Every_seconds _ \<Rightarrow> None)"

definition other_queue :: "string \<Rightarrow> string" where
  "other_queue q = (if q = serial_schedule_queue then parallel_schedule_queue else serial_schedule_queue)"

definition desired_keys :: "string list \<Rightarrow> schedule_definition list \<Rightarrow> string list" where
  "desired_keys enabled ss =
     map (\<lambda>s. schedule_key (sc_id s)) (filter (\<lambda>s. cron_expression s \<noteq> None \<and> sc_id s \<in> set enabled) ss)"

definition drop_undesired :: "'b boss_schedules \<Rightarrow> string list \<Rightarrow> string \<Rightarrow> 'b \<Rightarrow> string + 'b" where
  "drop_undesired bs desired q b = res_bind (bs_keys bs q b)
     (\<lambda>ks. each_res (\<lambda>k b. if k \<in> set desired then Inr b else bs_unschedule bs q k b) ks b)"

definition put_schedule :: "'b boss_schedules \<Rightarrow> string list \<Rightarrow> schedule_definition \<Rightarrow> 'b \<Rightarrow> string + 'b" where
  "put_schedule bs enabled s b = (case cron_expression s of
     None \<Rightarrow> Inr b
   | Some e \<Rightarrow> if sc_id s \<notin> set enabled then Inr b
       else res_bind (bs_unschedule bs (other_queue (schedule_queue s)) (schedule_key (sc_id s)) b)
         (bs_schedule bs (schedule_queue s) (schedule_key (sc_id s)) e s))"

text \<open>\<open>#reconcileCronSchedules\<close>\<close>

definition reconcile_cron_schedules :: "'b boss_schedules \<Rightarrow> string list \<Rightarrow> schedule_definition list \<Rightarrow> 'b \<Rightarrow> string + 'b" where
  "reconcile_cron_schedules bs enabled ss b =
     res_bind (each_res (drop_undesired bs (desired_keys enabled ss)) [serial_schedule_queue, parallel_schedule_queue] b)
       (each_res (put_schedule bs enabled) ss)"

subsection \<open>The worker of the schedule queues\<close>

text \<open>What a worker does with one job of a schedule queue that it has fetched.\<close>

definition deliver_scheduled :: "'d worker \<Rightarrow> execution_ids \<Rightarrow> work_error list \<Rightarrow> string \<Rightarrow> schedule_definition \<Rightarrow> int \<Rightarrow> int \<Rightarrow>
    (string, schedule_control) omap \<times> 'd worker_state \<Rightarrow>
    delivery_error option \<times> (string, schedule_control) omap \<times> 'd worker_state" where
  "deliver_scheduled w ids dispose i s attempt now st =
     (case handle_queue_delivery w ids dispose (schedule_envelope i s) attempt (snd st) of
        (r, ws) \<Rightarrow> (r, record_schedule_admission (sc_id s) now (fst st), ws))"

subsection \<open>A scheduled job arrives\<close>

lemma uuid_within: "uuid_text s \<Longrightarrow> text_within 256 s"
  by (auto simp: uuid_text_def text_within_def uuid_pattern_def Let_def dest: list_all2_lengthD)

lemma scheduler_checks: "list_all fst (queued_actor_checks (Some scheduler_actor) label)"
  by (simp add: queued_actor_checks_def scheduler_actor_def truthy_def actor_kinds_def keys_among_def actor_keys_def
      text_within_def)

lemma schedule_context_checks:
  "list_all fst (queue_context_checks h (jfield (schedule_envelope i s) ''context'')) \<longleftrightarrow>
     uuid_text i \<and> text_within 256 (sc_id s) \<and> text_within 128 (sc_time_zone s)"
proof -
  let ?authentication = "JObj [(''state'', JStr ''authenticated''), (''identityId'', JStr ''doxa:scheduler''),
           (''method'', JStr ''schedule'')]"
  have authentication: "list_all fst (authentication_checks h (Some ?authentication))"
    by (simp add: authentication_checks_def truthy_def keys_among_def authentication_keys_def authentication_states_def
        text_within_def)
  have trace: "truthy (Some (JObj [])) \<and> valid_trace h (JObj [])"
    by (simp add: truthy_def valid_trace_def)
  show ?thesis
    using authentication trace uuid_within [of i] scheduler_checks
    by (auto simp: schedule_envelope_def queue_context_checks_def truthy_def keys_among_def queue_context_keys_def
        uuid_def Let_def)
qed

text \<open>
  The envelope a worker makes of a scheduled job is accepted by the runtime exactly when the
  identifier is a UUID, the attempt is in bounds, the names and the time zone are not too long and the
  policy of the job is one that can be delivered.
\<close>

theorem schedule_envelope_accepted:
  "assert_queue_delivery h (schedule_envelope i s) (js_int n) = Inr () \<longleftrightarrow>
     uuid_text i \<and> 1 \<le> n \<and> n \<le> 101 \<and> text_within 256 (sc_target s) \<and> text_within 256 (sc_id s) \<and>
     text_within 128 (sc_time_zone s) \<and> policy_deliverable (sc_policy s)"
proof -
  have fields: "jfield (schedule_envelope i s) ''id'' = Some (JStr i)"
    "jfield (schedule_envelope i s) ''kind'' = Some (JStr ''job'')"
    "jfield (schedule_envelope i s) ''targetId'' = Some (JStr (sc_target s))"
    "jfield (schedule_envelope i s) ''policy'' = Some (queue_policy_json (sc_policy s))"
    "jfield (schedule_envelope i s) ''availableAt'' = None"
    "jfield (schedule_envelope i s) ''idempotencyKey'' = None"
    "is_object (Some (schedule_envelope i s))"
    by (simp_all add: schedule_envelope_def is_object_def)
  show ?thesis
    unfolding assert_queue_delivery_def run_checks_Inr queue_delivery_checks_def Let_def
    using schedule_context_checks [of h i s] policy_passes [of "sc_policy s"]
    by (auto simp: fields uuid_def work_kinds_def)
qed

subsection \<open>The schedules pg-boss keeps\<close>

lemma keepsD:
  assumes "keeps_schedules kept bs"
  shows "bs_keys bs q b = Inr ks \<Longrightarrow> set ks = {k. kept b q k \<noteq> None}"
    "bs_unschedule bs q k b = Inr b' \<Longrightarrow> kept b' q' k' = (if q' = q \<and> k' = k then None else kept b q' k')"
    "bs_schedule bs q k e s b = Inr b' \<Longrightarrow> kept b' q' k' = (if q' = q \<and> k' = k then Some (e, s) else kept b q' k')"
  using assms unfolding keeps_schedules_def by blast+

lemma unscheduled:
  assumes "keeps_schedules kept bs"
    and "each_res (\<lambda>k b. if k \<in> set desired then Inr b else bs_unschedule bs q k b) ks b = Inr b'"
  shows "kept b' q' k' = (if q' = q \<and> k' \<in> set ks - set desired then None else kept b q' k')"
  using assms(2)
proof (induction ks arbitrary: b)
  case (Cons k ks)
  then show ?case by (auto simp: keepsD(2) [OF assms(1)] split: if_splits)
qed simp

lemma undesired_dropped:
  assumes "keeps_schedules kept bs" "drop_undesired bs desired q b = Inr b'"
  shows "kept b' q' k' = (if q' = q \<and> k' \<notin> set desired then None else kept b q' k')"
proof -
  from assms(2) obtain ks where "bs_keys bs q b = Inr ks"
    and run: "each_res (\<lambda>k b. if k \<in> set desired then Inr b else bs_unschedule bs q k b) ks b = Inr b'"
    by (auto simp: drop_undesired_def)
  with keepsD(1) [OF assms(1)] have "set ks = {k. kept b q k \<noteq> None}" by simp
  with unscheduled [OF assms(1) run, of q' k'] show ?thesis by (cases "kept b q k'") auto
qed

definition wanted :: "string list \<Rightarrow> schedule_definition \<Rightarrow> bool" where
  "wanted enabled s \<longleftrightarrow> cron_expression s \<noteq> None \<and> sc_id s \<in> set enabled"

lemma desired_wanted: "desired_keys enabled ss = map (\<lambda>s. schedule_key (sc_id s)) (filter (wanted enabled) ss)"
  by (simp add: desired_keys_def wanted_def [abs_def])

lemma schedule_queues:
  "schedule_queue s \<in> {serial_schedule_queue, parallel_schedule_queue}"
  "serial_schedule_queue \<noteq> parallel_schedule_queue"
  by (simp_all add: schedule_queue_def serial_schedule_queue_def parallel_schedule_queue_def)

lemma schedule_put:
  assumes "keeps_schedules kept bs" "put_schedule bs enabled s b = Inr b'"
  shows "kept b' q k = (if wanted enabled s \<and> k = schedule_key (sc_id s)
      then (if q = schedule_queue s then Some (the (cron_expression s), s)
        else if q = other_queue (schedule_queue s) then None else kept b q k) else kept b q k)"
proof (cases "wanted enabled s")
  case True
  then obtain e where e: "cron_expression s = Some e" and "sc_id s \<in> set enabled" by (auto simp: wanted_def)
  with assms(2) obtain b1 where "bs_unschedule bs (other_queue (schedule_queue s)) (schedule_key (sc_id s)) b = Inr b1"
    and "bs_schedule bs (schedule_queue s) (schedule_key (sc_id s)) e s b1 = Inr b'"
    by (auto simp: put_schedule_def)
  from keepsD(2) [OF assms(1) this(1)] keepsD(3) [OF assms(1) this(2)] show ?thesis using True e by simp
next
  case False
  with assms(2) have "b' = b" by (auto simp: put_schedule_def wanted_def split: option.splits if_splits)
  with False show ?thesis by simp
qed

lemma schedules_put:
  assumes laws: "keeps_schedules kept bs"
    and "each_res (put_schedule bs enabled) ss b = Inr b'"
    and "distinct (desired_keys enabled ss)"
    and "q \<in> {serial_schedule_queue, parallel_schedule_queue}"
  shows "kept b' q k = (case find (\<lambda>s. wanted enabled s \<and> k = schedule_key (sc_id s)) ss of
      None \<Rightarrow> kept b q k
    | Some s \<Rightarrow> if q = schedule_queue s then Some (the (cron_expression s), s) else None)"
  using assms(2,3)
proof (induction ss arbitrary: b)
  case (Cons s ss)
  from Cons.prems(1) obtain b1 where first: "put_schedule bs enabled s b = Inr b1"
    and rest: "each_res (put_schedule bs enabled) ss b1 = Inr b'" by auto
  have "distinct (desired_keys enabled ss)" using Cons.prems(2) by (simp add: desired_wanted split: if_splits)
  from Cons.IH [OF rest this] have step: "kept b' q k = (case find (\<lambda>s. wanted enabled s \<and> k = schedule_key (sc_id s)) ss of
      None \<Rightarrow> kept b1 q k
    | Some s \<Rightarrow> if q = schedule_queue s then Some (the (cron_expression s), s) else None)" .
  show ?case
  proof (cases "wanted enabled s \<and> k = schedule_key (sc_id s)")
    case True
    have "find (\<lambda>s. wanted enabled s \<and> k = schedule_key (sc_id s)) ss = None"
      using Cons.prems(2) True by (auto simp: desired_wanted find_None_iff image_iff)
    moreover have "q = other_queue (schedule_queue s) \<or> q = schedule_queue s"
      using assms(4) schedule_queues(1) [of s] by (auto simp: other_queue_def)
    moreover have "other_queue (schedule_queue s) \<noteq> schedule_queue s"
      using schedule_queues(1) [of s] schedule_queues(2) by (auto simp: other_queue_def)
    ultimately show ?thesis using True step schedule_put [OF laws first, of q k] by auto
  next
    case False
    then show ?thesis using step schedule_put [OF laws first, of q k] by (auto split: option.splits)
  qed
qed simp

lemma schedule_key_prefixed: "schedule_key (''schedule:'' @ n) = ''schedule/'' @ n"
  by simp

lemma desired_distinct:
  assumes "distinct (map sc_id ss)" "\<forall>s\<in>set ss. take 9 (sc_id s) = ''schedule:''"
  shows "distinct (desired_keys enabled ss)"
proof -
  have key: "schedule_key (sc_id s) = ''schedule/'' @ drop 9 (sc_id s)" if "s \<in> set ss" for s
    using schedule_key_prefixed [of "drop 9 (sc_id s)"] append_take_drop_id [of 9 "sc_id s"] assms(2) that by metis
  have "inj_on (\<lambda>s. schedule_key (sc_id s)) (set ss)"
  proof (rule inj_onI)
    fix s s' assume mem: "s \<in> set ss" "s' \<in> set ss" and "schedule_key (sc_id s) = schedule_key (sc_id s')"
    then have "drop 9 (sc_id s) = drop 9 (sc_id s')" using key by simp
    then have "sc_id s = sc_id s'" using assms(2) mem by (metis append_take_drop_id)
    then show "s = s'" using assms(1) mem by (auto simp: distinct_map dest: inj_onD)
  qed
  then show ?thesis using assms(1)
    by (auto simp: desired_wanted distinct_map intro: inj_on_subset)
qed

text \<open>
  C11. When the scheduler has reconciled its cron schedules, pg-boss keeps in the two schedule queues
  exactly those of the manifest that are enabled: each in the queue of its overlap policy with its
  current expression, none of them in the other queue, and nothing of an earlier deployment. The ids
  are distinct and start as the compiler makes them.
\<close>

theorem cron_schedules_reconciled:
  assumes "keeps_schedules kept bs" "reconcile_cron_schedules bs enabled ss b = Inr b'"
    and "distinct (map sc_id ss)" "\<forall>s\<in>set ss. take 9 (sc_id s) = ''schedule:''"
    and "q \<in> {serial_schedule_queue, parallel_schedule_queue}"
  shows "kept b' q k = Some (e, s) \<longleftrightarrow> s \<in> set ss \<and> sc_cadence s = Cron e \<and> sc_id s \<in> set enabled \<and>
    q = schedule_queue s \<and> k = schedule_key (sc_id s)"
proof -
  let ?desired = "desired_keys enabled ss"
  from assms(2) obtain b1 b2 where drop1: "drop_undesired bs ?desired serial_schedule_queue b = Inr b1"
    and drop2: "drop_undesired bs ?desired parallel_schedule_queue b1 = Inr b2"
    and put: "each_res (put_schedule bs enabled) ss b2 = Inr b'"
    by (auto simp: reconcile_cron_schedules_def)
  have distinct: "distinct ?desired" by (rule desired_distinct [OF assms(3,4)])
  have dropped: "k \<notin> set ?desired \<Longrightarrow> kept b2 q k = None"
    using undesired_dropped [OF assms(1) drop1, of q k] undesired_dropped [OF assms(1) drop2, of q k] assms(5) by auto
  have cron: "cron_expression s = Some e \<longleftrightarrow> sc_cadence s = Cron e" for s e
    by (simp add: cron_expression_def split: cadence.splits)
  show ?thesis
  proof (cases "find (\<lambda>s. wanted enabled s \<and> k = schedule_key (sc_id s)) ss")
    case None
    then have unwanted: "\<not> (\<exists>s\<in>set ss. wanted enabled s \<and> k = schedule_key (sc_id s))" by (simp add: find_None_iff)
    then have "k \<notin> set ?desired" by (auto simp: desired_wanted)
    from schedules_put [OF assms(1) put distinct assms(5), of k] None dropped [OF this] have "kept b' q k = None" by simp
    with unwanted show ?thesis by (auto simp: wanted_def cron)
  next
    case (Some s')
    then have s': "s' \<in> set ss" "wanted enabled s'" "k = schedule_key (sc_id s')" by (auto simp: find_Some_iff)
    have same: "s = s'" if "s \<in> set ss" "wanted enabled s" "k = schedule_key (sc_id s)" for s
    proof -
      have "inj_on (\<lambda>s. schedule_key (sc_id s)) (set (filter (wanted enabled) ss))"
        using distinct by (simp add: desired_wanted distinct_map)
      then show ?thesis using s' that by (auto dest: inj_onD)
    qed
    from schedules_put [OF assms(1) put distinct assms(5), of k] Some
    have "kept b' q k = (if q = schedule_queue s' then Some (the (cron_expression s'), s') else None)" by simp
    then have kept: "kept b' q k = Some (e, s) \<longleftrightarrow> q = schedule_queue s' \<and> e = the (cron_expression s') \<and> s = s'" by auto
    obtain e' where e': "sc_cadence s' = Cron e'" and "sc_id s' \<in> set enabled" using s'(2) by (auto simp: wanted_def cron)
    then have "cron_expression s' = Some e'" by (simp add: cron)
    have "s \<in> set ss \<and> sc_cadence s = Cron e \<and> sc_id s \<in> set enabled \<and> k = schedule_key (sc_id s) \<longleftrightarrow> s = s' \<and> e = e'"
    proof
      assume l: "s \<in> set ss \<and> sc_cadence s = Cron e \<and> sc_id s \<in> set enabled \<and> k = schedule_key (sc_id s)"
      then have "wanted enabled s" using cron [of s e] by (simp add: wanted_def)
      with l same have "s = s'" by blast
      with l e' show "s = s' \<and> e = e'" by simp
    qed (use s' e' \<open>sc_id s' \<in> set enabled\<close> in simp)
    then show ?thesis unfolding kept using \<open>cron_expression s' = Some e'\<close> by auto
  qed
qed

subsection \<open>What is caught up with\<close>

lemma floor_to_bounds:
  assumes "0 < step"
  shows "floor_to step t \<le> t" "t < floor_to step t + step"
proof -
  have "t div step * step = t - t mod step" by (simp add: minus_mod_eq_div_mult)
  moreover have "0 \<le> t mod step" "t mod step < step" using assms by simp_all
  ultimately show "floor_to step t \<le> t" "t < floor_to step t + step" unfolding floor_to_def by linarith+
qed

lemma missed_sent:
  assumes "boss_stores send" "send_missed h send s missed jobs = Inr jobs'"
  shows "\<exists>added. jobs' = jobs @ added \<and> length added \<le> (if missed = None then 0 else 1) \<and>
    (\<forall>t. missed = Some t \<longrightarrow> holds_job (schedule_queue s) (catch_up_id h s t) jobs')"
proof (cases missed)
  case None
  then show ?thesis using assms(2) by (simp add: send_missed_def)
next
  case (Some t)
  let ?job = "schedule_job s (catch_up_id h s t) None"
  have key: "bj_queue ?job = schedule_queue s" "bj_id ?job = catch_up_id h s t" by (simp_all add: schedule_job_def)
  from assms(2) Some obtain r where run: "send ?job jobs = (Inr r, jobs')"
    and taken: "\<not> (truthy_string r = None \<and> \<not> holds_job (schedule_queue s) (catch_up_id h s t) jobs')"
    by (auto simp: send_missed_def split: prod.splits sum.splits if_splits)
  from sent [OF assms(1) run] taken show ?thesis by (auto simp: key Some)
qed

lemma missed_only_caught_up: "missed_occurrence h s previous now = Inr (Some t) \<Longrightarrow> sc_misfire s = Catch_up_once"
  by (auto simp: missed_occurrence_def split: option.splits if_splits)

lemma misfire_reconciled:
  assumes "boss_stores send" "reconcile_misfire h send s now t = Inr t'"
  shows "\<exists>added. st_jobs t' = st_jobs t @ added \<and> length added \<le> (if sc_misfire s = Catch_up_once then 1 else 0)"
    "i \<noteq> sc_id s \<Longrightarrow> om_get (st_controls t') i = om_get (st_controls t) i"
    "om_get (st_controls t) (sc_id s) = Some c \<Longrightarrow> om_get (st_controls t') (sc_id s) = Some (c\<lparr>ct_last := Some now\<rparr>) \<and>
       (\<forall>o'. missed_occurrence h s (ct_last c) now = Inr (Some o') \<longrightarrow>
         holds_job (schedule_queue s) (catch_up_id h s o') (st_jobs t'))"
proof -
  let ?previous = "case om_get (st_controls t) (sc_id s) of None \<Rightarrow> None | Some c \<Rightarrow> ct_last c"
  from assms(2) obtain missed jobs where missed: "missed_occurrence h s ?previous now = Inr missed"
    and sent1: "send_missed h send s missed (st_jobs t) = Inr jobs"
    and t': "t' = \<lparr>st_controls = (case om_get (st_controls t) (sc_id s) of None \<Rightarrow> st_controls t
             | Some c \<Rightarrow> om_set (sc_id s) (c\<lparr>ct_last := Some now\<rparr>) (st_controls t)), st_jobs = jobs\<rparr>"
    by (auto simp: reconcile_misfire_def Let_def)
  from missed_sent [OF assms(1) sent1] obtain added where jobs: "jobs = st_jobs t @ added"
    and few: "length added \<le> (if missed = None then 0 else 1)"
    and held: "\<And>o'. missed = Some o' \<Longrightarrow> holds_job (schedule_queue s) (catch_up_id h s o') jobs" by blast
  have "missed = None \<or> sc_misfire s = Catch_up_once" using missed_only_caught_up missed by (cases missed) auto
  then have "length added \<le> (if sc_misfire s = Catch_up_once then 1 else 0)" using few by (auto split: if_splits)
  then show "\<exists>added. st_jobs t' = st_jobs t @ added \<and> length added \<le> (if sc_misfire s = Catch_up_once then 1 else 0)"
    using jobs t' by auto
  show "i \<noteq> sc_id s \<Longrightarrow> om_get (st_controls t') i = om_get (st_controls t) i"
    using t' by (simp add: om_get_set split: option.splits)
  show "om_get (st_controls t) (sc_id s) = Some c \<Longrightarrow> om_get (st_controls t') (sc_id s) = Some (c\<lparr>ct_last := Some now\<rparr>) \<and>
       (\<forall>o'. missed_occurrence h s (ct_last c) now = Inr (Some o') \<longrightarrow>
         holds_job (schedule_queue s) (catch_up_id h s o') (st_jobs t'))"
    using t' missed held by (auto simp: om_get_set)
qed

abbreviation caught_up_with :: "string list \<Rightarrow> schedule_definition \<Rightarrow> bool" where
  "caught_up_with enabled s \<equiv> sc_id s \<in> set enabled \<and> sc_misfire s = Catch_up_once"

lemma misfires_reconciled:
  assumes stores: "boss_stores send"
    and "reconcile_misfires h send enabled now ss t = (None, t')" "distinct (map sc_id ss)"
  shows "(\<exists>added. st_jobs t' = st_jobs t @ added \<and> length added \<le> length (filter (caught_up_with enabled) ss)) \<and>
    (\<forall>i. i \<notin> sc_id ` set ss \<longrightarrow> om_get (st_controls t') i = om_get (st_controls t) i) \<and>
    (\<forall>s\<in>set ss. \<forall>c. sc_id s \<in> set enabled \<and> om_get (st_controls t) (sc_id s) = Some c \<longrightarrow>
       om_get (st_controls t') (sc_id s) = Some (c\<lparr>ct_last := Some (now (sc_id s))\<rparr>) \<and>
       (\<forall>o'. missed_occurrence h s (ct_last c) (now (sc_id s)) = Inr (Some o') \<longrightarrow>
         holds_job (schedule_queue s) (catch_up_id h s o') (st_jobs t')))"
  using assms(2,3)
proof (induction ss arbitrary: t)
  case (Cons s ss)
  show ?case
  proof (cases "sc_id s \<in> set enabled")
    case False
    with Cons.prems have "reconcile_misfires h send enabled now ss t = (None, t')" "distinct (map sc_id ss)" by simp_all
    from Cons.IH [OF this] False show ?thesis by auto
  next
    case True
    with Cons.prems obtain t1 where first: "reconcile_misfire h send s (now (sc_id s)) t = Inr t1"
      and rest: "reconcile_misfires h send enabled now ss t1 = (None, t')" by (auto split: sum.splits)
    have "distinct (map sc_id ss)" and apart: "sc_id s \<notin> sc_id ` set ss" using Cons.prems(2) by auto
    note IH = Cons.IH [OF rest this(1)]
    note one = misfire_reconciled [OF stores first]
    from one(1) IH obtain a1 a2 where "st_jobs t1 = st_jobs t @ a1" "length a1 \<le> (if sc_misfire s = Catch_up_once then 1 else 0)"
      and grown: "st_jobs t' = st_jobs t1 @ a2" "length a2 \<le> length (filter (caught_up_with enabled) ss)" by blast
    then have "\<exists>added. st_jobs t' = st_jobs t @ added \<and> length added \<le> length (filter (caught_up_with enabled) (s # ss))"
      using True by (intro exI [of _ "a1 @ a2"]) (auto split: if_splits)
    moreover have "om_get (st_controls t') i = om_get (st_controls t) i" if "i \<notin> sc_id ` set (s # ss)" for i
      using IH one(2) that by auto
    moreover have "om_get (st_controls t') (sc_id s') = Some (c\<lparr>ct_last := Some (now (sc_id s'))\<rparr>) \<and>
       (\<forall>o'. missed_occurrence h s' (ct_last c) (now (sc_id s')) = Inr (Some o') \<longrightarrow>
         holds_job (schedule_queue s') (catch_up_id h s' o') (st_jobs t'))"
      if "s' \<in> set (s # ss)" "sc_id s' \<in> set enabled" "om_get (st_controls t) (sc_id s') = Some c" for s' c
    proof (cases "s' = s")
      case True
      then show ?thesis using one(3) [of c] that(3) IH apart grown by auto
    next
      case False
      then have "s' \<in> set ss" "sc_id s' \<noteq> sc_id s" using that(1) apart by (auto simp: image_iff)
      then show ?thesis using IH one(2) [of "sc_id s'"] that(2,3) by simp
    qed
    ultimately show ?thesis by blast
  qed
qed simp

text \<open>The parser looks back, as its \<open>prev\<close> does.\<close>

definition looks_back :: "cron_parser \<Rightarrow> bool" where
  "looks_back cron \<longleftrightarrow> (\<forall>e tz t o'. cron e tz t = Inr o' \<longrightarrow> o' \<le> t)"

definition sensible :: "schedule_definition \<Rightarrow> bool" where
  "sensible s \<longleftrightarrow> (case sc_cadence s of Cron e \<Rightarrow> True | Every_seconds n \<Rightarrow> 0 < n)"

lemma occurrence_within:
  assumes "latest_occurrence cron s after through = Inr (Some o')" "looks_back cron" "sensible s"
  shows "after < o'" "o' \<le> through"
  using assms floor_to_bounds
  by (auto simp: latest_occurrence_def looks_back_def sensible_def split: cadence.splits if_splits)

lemma misfires_again:
  assumes "looks_back (sh_cron h)" "\<forall>s\<in>set ss. sensible s"
    and "\<forall>s\<in>set ss. sc_id s \<in> set enabled \<longrightarrow> (\<exists>c. om_get (st_controls t) (sc_id s) = Some c \<and> ct_last c = Some (now (sc_id s)))"
    and "reconcile_misfires h send enabled now ss t = (r, t')"
  shows "st_jobs t' = st_jobs t"
  using assms(2-4)
proof (induction ss arbitrary: t)
  case (Cons s ss)
  show ?case
  proof (cases "sc_id s \<in> set enabled")
    case True
    then obtain c where c: "om_get (st_controls t) (sc_id s) = Some c" "ct_last c = Some (now (sc_id s))"
      using Cons.prems(2) by auto
    have none: "missed_occurrence h s (Some (now (sc_id s))) (now (sc_id s)) \<noteq> Inr (Some o')" for o'
      using occurrence_within [of "sh_cron h" s "now (sc_id s)" "now (sc_id s)" o'] assms(1) Cons.prems(1)
      by (force simp: missed_occurrence_def split: if_splits)
    show ?thesis
    proof (cases "missed_occurrence h s (Some (now (sc_id s))) (now (sc_id s))")
      case (Inl e)
      with Cons.prems(3) True c show ?thesis by (auto simp: reconcile_misfire_def)
    next
      case (Inr missed)
      with none have "missed = None" by (cases missed) auto
      then have "reconcile_misfire h send s (now (sc_id s)) t = Inr (t\<lparr>st_controls :=
          om_set (sc_id s) (c\<lparr>ct_last := Some (now (sc_id s))\<rparr>) (st_controls t)\<rparr>)"
        using Inr c by (simp add: reconcile_misfire_def send_missed_def)
      with Cons.prems(3) True have rest: "reconcile_misfires h send enabled now ss (t\<lparr>st_controls :=
          om_set (sc_id s) (c\<lparr>ct_last := Some (now (sc_id s))\<rparr>) (st_controls t)\<rparr>) = (r, t')" by simp
      have "\<forall>s'\<in>set ss. sc_id s' \<in> set enabled \<longrightarrow> (\<exists>c'. om_get (st_controls (t\<lparr>st_controls :=
          om_set (sc_id s) (c\<lparr>ct_last := Some (now (sc_id s))\<rparr>) (st_controls t)\<rparr>)) (sc_id s') = Some c' \<and>
          ct_last c' = Some (now (sc_id s')))"
        using Cons.prems(2) by (auto simp: om_get_set)
      from Cons.IH [OF _ this rest] Cons.prems(1) show ?thesis by simp
    qed
  next
    case False
    then show ?thesis using Cons by simp
  qed
qed simp

text \<open>
  C12. Coming back after a stop, the scheduler sends at most one job for each enabled schedule that is
  to be caught up with, however many occurrences it has missed, and none for the others: that of the
  latest occurrence since the schedule was last reconciled, under an identifier that is the same
  whichever scheduler sends it. Coming back again at the same time, it sends none.
\<close>

theorem misfires_caught_up_once:
  assumes "boss_stores send" "looks_back (sh_cron h)"
    and "reconcile_misfires h send enabled now ss t = (None, t')" "distinct (map sc_id ss)"
    and "\<forall>s\<in>set ss. sensible s \<and> om_has (st_controls t) (sc_id s)"
  shows "(\<exists>added. st_jobs t' = st_jobs t @ added \<and>
      length added \<le> length (filter (\<lambda>s. sc_id s \<in> set enabled \<and> sc_misfire s = Catch_up_once) ss)) \<and>
    (\<forall>s\<in>set ss. \<forall>c p o'. sc_id s \<in> set enabled \<and> sc_misfire s = Catch_up_once \<and>
       om_get (st_controls t) (sc_id s) = Some c \<and> ct_last c = Some p \<and>
       latest_occurrence (sh_cron h) s p (now (sc_id s)) = Inr (Some o') \<longrightarrow>
       p < o' \<and> o' \<le> now (sc_id s) \<and> holds_job (schedule_queue s) (catch_up_id h s o') (st_jobs t')) \<and>
    st_jobs (snd (reconcile_misfires h send enabled now ss t')) = st_jobs t'"
proof -
  note result = misfires_reconciled [OF assms(1,3,4)]
  have "\<exists>c. om_get (st_controls t') (sc_id s) = Some c \<and> ct_last c = Some (now (sc_id s))"
    if "s \<in> set ss" "sc_id s \<in> set enabled" for s
  proof -
    from assms(5) that(1) obtain c where "om_get (st_controls t) (sc_id s) = Some c" by (auto simp: om_has_get)
    with result that show ?thesis by fastforce
  qed
  then have again: "st_jobs (snd (reconcile_misfires h send enabled now ss t')) = st_jobs t'"
    using misfires_again [OF assms(2), of ss enabled t' now send] assms(5) by (metis prod.collapse)
  have "p < o' \<and> o' \<le> now (sc_id s) \<and> holds_job (schedule_queue s) (catch_up_id h s o') (st_jobs t')"
    if "s \<in> set ss" "sc_id s \<in> set enabled" "sc_misfire s = Catch_up_once" "om_get (st_controls t) (sc_id s) = Some c"
      "ct_last c = Some p" "latest_occurrence (sh_cron h) s p (now (sc_id s)) = Inr (Some o')" for s c p o'
  proof -
    have "missed_occurrence h s (ct_last c) (now (sc_id s)) = Inr (Some o')" using that by (simp add: missed_occurrence_def)
    with result that show ?thesis using occurrence_within [OF that(6) assms(2)] assms(5) by blast
  qed
  with result again show ?thesis by blast
qed

text \<open>
  What it does send has in one case been sent before: the job of the next slot of an interval is sent
  ahead, to start at its time. If the scheduler is stopped in between and comes back after that time,
  the occurrence is caught up with as well, and the job runs twice.
\<close>

lemma interval_occurrence_sent_twice:
  assumes "sc_cadence s = Every_seconds n" "0 < n" "sc_misfire s = Catch_up_once"
    and "fire = next_slot (n * 1000) now * (n * 1000)"
    and "om_get controls (sc_id s) = Some c" "ct_last c = Some p" "p < fire" "fire \<le> back" "back < fire + n * 1000"
    and "slot_id h s (next_slot (n * 1000) now) \<noteq> catch_up_id h s fire"
  shows "\<exists>t'. reconcile_misfire h sample_send s back
      \<lparr>st_controls = controls, st_jobs = snd (arm_interval h sample_send False s now now [])\<rparr> = Inr t' \<and>
    st_jobs t' = [schedule_job s (slot_id h s (next_slot (n * 1000) now)) (Some fire),
      schedule_job s (catch_up_id h s fire) None]"
proof -
  let ?step = "n * 1000"
  have "back div ?step = next_slot ?step now"
  proof (rule int_div_pos_eq)
    show "back = ?step * next_slot ?step now + (back - fire)" using assms(4) by simp
  qed (use assms(8,9) in auto)
  then have "floor_to ?step back = fire" using assms(4) by (simp add: floor_to_def)
  then have "missed_occurrence h s (Some p) back = Inr (Some fire)"
    using assms(1,3,7) by (simp add: missed_occurrence_def latest_occurrence_def)
  moreover have "snd (arm_interval h sample_send False s now now []) =
      [schedule_job s (slot_id h s (next_slot ?step now)) (Some fire)]"
    using assms(1,4) by (simp add: arm_interval_def send_interval_def sample_send_def holds_job_def Let_def)
  ultimately show ?thesis using assms(5,6,10)
    by (simp add: reconcile_misfire_def send_missed_def sample_send_def holds_job_def schedule_job_def truthy_string_def
        split: option.splits)
qed

subsection \<open>Witnesses\<close>

definition sample_schedule :: "string \<Rightarrow> cadence \<Rightarrow> schedule_definition" where
  "sample_schedule i c = \<lparr>sc_id = ''schedule:'' @ i, sc_target = ''job:a/b'', sc_cadence = c, sc_time_zone = ''UTC'',
     sc_overlap = Serialize_overlap, sc_misfire = Catch_up_once, sc_input = JNull,
     sc_policy = \<lparr>qp_retries = 3, qp_retry_delay = 1, qp_backoff = True, qp_timeout = 30\<rparr>\<rparr>"

type_synonym sample_boss_state = "((string \<times> string) \<times> string \<times> schedule_definition) list"

definition sample_kept :: "sample_boss_state \<Rightarrow> string \<Rightarrow> string \<Rightarrow> (string \<times> schedule_definition) option" where
  "sample_kept b q k = map_of b (q, k)"

definition sample_boss :: "sample_boss_state boss_schedules" where
  "sample_boss = \<lparr>bs_keys = (\<lambda>q b. Inr (map (snd \<circ> fst) (filter (\<lambda>e. fst (fst e) = q) b))),
     bs_unschedule = (\<lambda>q k b. Inr (filter (\<lambda>e. fst e \<noteq> (q, k)) b)),
     bs_schedule = (\<lambda>q k e s b. Inr (((q, k), (e, s)) # filter (\<lambda>e. fst e \<noteq> (q, k)) b))\<rparr>"

lemma map_of_filter_key: "map_of (filter (\<lambda>e. fst e \<noteq> x) b) y = (if y = x then None else map_of b y)"
  by (induction b) auto

lemma sample_boss_keeps: "keeps_schedules sample_kept sample_boss"
proof -
  have "set (map (snd \<circ> fst) (filter (\<lambda>e. fst (fst e) = q) b)) = {k. sample_kept b q k \<noteq> None}" for q b
    by (force simp: sample_kept_def map_of_eq_None_iff image_iff)
  then show ?thesis by (simp add: keeps_schedules_def sample_boss_def sample_kept_def map_of_filter_key)
qed

text \<open>A deployment that drops one schedule and adds another.\<close>

theorem cron_schedules_reconciled_witness:
  "\<exists>b'. reconcile_cron_schedules sample_boss [''schedule:n''] [sample_schedule ''n'' (Cron ''x'')]
       [((serial_schedule_queue, ''schedule/old''), ''y'', sample_schedule ''old'' (Cron ''y''))] = Inr b' \<and>
     sample_kept b' serial_schedule_queue ''schedule/n'' = Some (''x'', sample_schedule ''n'' (Cron ''x'')) \<and>
     sample_kept b' serial_schedule_queue ''schedule/old'' = None"
proof -
  let ?s = "sample_schedule ''n'' (Cron ''x'')"
  let ?b = "[((serial_schedule_queue, ''schedule/old''), ''y'', sample_schedule ''old'' (Cron ''y''))]"
  obtain b' where run: "reconcile_cron_schedules sample_boss [''schedule:n''] [?s] ?b = Inr b'"
    by (auto simp: reconcile_cron_schedules_def drop_undesired_def put_schedule_def sample_boss_def sample_schedule_def
        cron_expression_def desired_keys_def)
  have given: "distinct (map sc_id [?s])" "\<forall>s\<in>set [?s]. take 9 (sc_id s) = ''schedule:''"
    "serial_schedule_queue \<in> {serial_schedule_queue, parallel_schedule_queue}"
    by (simp_all add: sample_schedule_def)
  note kept = cron_schedules_reconciled [OF sample_boss_keeps run given]
  have "sample_kept b' serial_schedule_queue ''schedule/n'' = Some (''x'', ?s)"
    unfolding kept by (simp add: sample_schedule_def schedule_queue_def)
  moreover have "sample_kept b' serial_schedule_queue ''schedule/old'' \<noteq> Some (e, s)" for e s
    unfolding kept by (auto simp: sample_schedule_def)
  ultimately show ?thesis using run by (metis not_None_eq prod.collapse)
qed

definition sample_schedule_host :: schedule_host where
  "sample_schedule_host = \<lparr>sh_digest = sample_digest, sh_cron = (\<lambda>e tz t. Inr (t - 1)), sh_iso = (\<lambda>t. decimal (nat t))\<rparr>"

text \<open>Three minutes of a schedule that runs every minute are missed, and one job is sent.\<close>

theorem misfires_caught_up_once_witness:
  "\<exists>t'. reconcile_misfires sample_schedule_host sample_send [''schedule:m''] (\<lambda>i. 250000)
       [sample_schedule ''m'' (Every_seconds 60)]
       \<lparr>st_controls = [(''schedule:m'', \<lparr>ct_enabled = True, ct_last = Some 30000\<rparr>)], st_jobs = []\<rparr> = (None, t') \<and>
     length (st_jobs t') \<le> 1 \<and>
     holds_job serial_schedule_queue (catch_up_id sample_schedule_host (sample_schedule ''m'' (Every_seconds 60)) 240000) (st_jobs t')"
proof -
  let ?s = "sample_schedule ''m'' (Every_seconds 60)"
  let ?t = "\<lparr>st_controls = [(''schedule:m'', \<lparr>ct_enabled = True, ct_last = Some 30000\<rparr>)], st_jobs = []\<rparr>"
  have latest: "latest_occurrence (sh_cron sample_schedule_host) ?s 30000 250000 = Inr (Some 240000)"
    by (simp add: latest_occurrence_def sample_schedule_def floor_to_def)
  obtain t' where run: "reconcile_misfires sample_schedule_host sample_send [''schedule:m''] (\<lambda>i. 250000) [?s] ?t = (None, t')"
    using latest
    by (simp add: reconcile_misfire_def missed_occurrence_def send_missed_def sample_send_def holds_job_def om_get_def
        sample_schedule_def schedule_job_def split: prod.splits sum.splits)
  have given: "looks_back (sh_cron sample_schedule_host)" "distinct (map sc_id [?s])"
    "\<forall>s\<in>set [?s]. sensible s \<and> om_has (st_controls ?t) (sc_id s)"
    by (simp_all add: looks_back_def sample_schedule_host_def sensible_def sample_schedule_def om_has_def)
  have "om_get (st_controls ?t) (sc_id ?s) = Some \<lparr>ct_enabled = True, ct_last = Some 30000\<rparr>"
    "sc_id ?s \<in> set [''schedule:m'']" "sc_misfire ?s = Catch_up_once" "schedule_queue ?s = serial_schedule_queue"
    by (simp_all add: om_get_def sample_schedule_def schedule_queue_def)
  with misfires_caught_up_once [OF sample_send_laws(1) given(1) run given(2,3)] latest run show ?thesis by fastforce
qed

end
