(* ===== verification/Passwords.thy ===== *)
theory Passwords
  imports AdmissionTickets "HOL-Library.List_Lexorder"
begin

text \<open>
  Password records, \<open>packages/auth-postgres/src/passwords.ts\<close>: creating, verifying, encoding and
  decoding them, the readers of foreign formats, and how strong a stored record may be.

  Argon2, bcrypt, SHA-256, base64 and the printing and parsing of JSON are the host's. A record is the
  JSON value it is stored as; nothing but the comparisons of the code is known of one that was read.
\<close>

record password_host =
  ph_argon2 :: "string \<Rightarrow> string \<Rightarrow> (string \<times> json option) list \<Rightarrow> string option"
  ph_bcrypt :: "string \<Rightarrow> string \<Rightarrow> bool"
  ph_sha256 :: "string \<Rightarrow> string"
  ph_utf8 :: "string \<Rightarrow> string"
  ph_utf8_text :: "string \<Rightarrow> string"
  ph_to_base64url :: "string \<Rightarrow> string"
  ph_from_base64url :: "string \<Rightarrow> string"
  ph_from_base64 :: "string \<Rightarrow> string"
  ph_from_hex :: "string \<Rightarrow> string"
  ph_json_text :: "json \<Rightarrow> string"
  ph_json_parse :: "string \<Rightarrow> json option"
  ph_number :: "json \<Rightarrow> jsnum option"
  ph_buffer :: "json \<Rightarrow> string option"

subsection \<open>Numbers of unknown values\<close>

text \<open>\<open>ToNumber\<close> as a comparison applies it; \<open>None\<close> is \<open>NaN\<close>, which no comparison holds of.\<close>

definition to_number :: "password_host \<Rightarrow> json option \<Rightarrow> jsnum option" where
  "to_number h v = (case v of None \<Rightarrow> None | Some (JNum n) \<Rightarrow> Some n | Some j \<Rightarrow> ph_number h j)"

fun num_less :: "jsnum \<Rightarrow> jsnum \<Rightarrow> bool" where
  "num_less (Fin a) (Fin b) \<longleftrightarrow> a < b"
| "num_less (Fin a) (Inf positive) \<longleftrightarrow> positive"
| "num_less (Inf positive) (Fin b) \<longleftrightarrow> \<not> positive"
| "num_less (Inf positive) (Inf positive') \<longleftrightarrow> \<not> positive \<and> positive'"

definition less_js :: "jsnum option \<Rightarrow> jsnum option \<Rightarrow> bool" where
  "less_js a b = (case (a, b) of (Some x, Some y) \<Rightarrow> num_less x y | _ \<Rightarrow> False)"

definition times_js :: "rat \<Rightarrow> jsnum option \<Rightarrow> jsnum option" where
  "times_js k v = map_option (\<lambda>n. case n of Fin q \<Rightarrow> Fin (k * q) | Inf positive \<Rightarrow> Inf positive) v"

abbreviation below :: "password_host \<Rightarrow> json option \<Rightarrow> rat \<Rightarrow> bool" where
  "below h v q \<equiv> less_js (to_number h v) (Some (Fin q))"

abbreviation above :: "password_host \<Rightarrow> json option \<Rightarrow> rat \<Rightarrow> bool" where
  "above h v q \<equiv> less_js (Some (Fin q)) (to_number h v)"

subsection \<open>Records\<close>

definition password_parameters :: json where
  "password_parameters = JObj [(''algorithm'', JStr ''argon2id''), (''memory'', js_int 19456), (''passes'', js_int 2),
     (''parallelism'', js_int 2), (''tagLength'', js_int 32)]"

definition password_version :: json where
  "password_version = js_int 1"

definition derive_password :: "password_host \<Rightarrow> string \<Rightarrow> string \<Rightarrow> json option \<Rightarrow> string option" where
  "derive_password h password salt parameters = (case parameters of
     None \<Rightarrow> None
   | Some p \<Rightarrow> ph_argon2 h (ph_utf8 h password) salt
       [(''parallelism'', jfield p ''parallelism''), (''tagLength'', jfield p ''tagLength''),
        (''memory'', jfield p ''memory''), (''passes'', jfield p ''passes'')])"

text \<open>The salt is random.\<close>

definition create_password_record :: "password_host \<Rightarrow> string \<Rightarrow> string \<Rightarrow> json option" where
  "create_password_record h salt password =
     map_option (\<lambda>hash. JObj [(''version'', password_version), (''salt'', JStr (ph_to_base64url h salt)),
       (''hash'', JStr (ph_to_base64url h hash)), (''parameters'', password_parameters)])
       (derive_password h password salt (Some password_parameters))"

text \<open>\<open>Buffer.from(v, 'base64url')\<close>, which may throw when \<open>v\<close> is not a string.\<close>

definition buffer_of :: "password_host \<Rightarrow> json option \<Rightarrow> string option" where
  "buffer_of h v = (case v of None \<Rightarrow> None | Some (JStr s) \<Rightarrow> Some (ph_from_base64url h s) | Some j \<Rightarrow> ph_buffer h j)"

definition verify_password :: "password_host \<Rightarrow> string \<Rightarrow> json \<Rightarrow> bool" where
  "verify_password h password rec =
     (case (buffer_of h (jfield rec ''hash''), buffer_of h (jfield rec ''salt'')) of
        (Some expected, Some salt) \<Rightarrow> derive_password h password salt (jfield rec ''parameters'') = Some expected
      | _ \<Rightarrow> False)"

definition needs_rehash :: "password_host \<Rightarrow> json \<Rightarrow> bool" where
  "needs_rehash h rec \<longleftrightarrow> jfield rec ''version'' \<noteq> Some password_version \<or>
     map_option (ph_json_text h) (jfield rec ''parameters'') \<noteq> Some (ph_json_text h password_parameters)"

definition argon2id_prefix :: string where
  "argon2id_prefix = ''doxa-argon2id:''"

definition encode_password_record :: "password_host \<Rightarrow> json \<Rightarrow> string" where
  "encode_password_record h rec = argon2id_prefix @ ph_to_base64url h (ph_utf8 h (ph_json_text h rec))"

text \<open>What a parsed record is refused for.\<close>

definition refused_record :: "password_host \<Rightarrow> json \<Rightarrow> bool" where
  "refused_record h r \<longleftrightarrow>
     (let p = jfield r ''parameters''; f = (\<lambda>k. case p of None \<Rightarrow> None | Some j \<Rightarrow> jfield j k) in
      below h (jfield r ''version'') 1 \<or> f ''algorithm'' \<noteq> Some (JStr ''argon2id'') \<or>
      less_js (to_number h (f ''memory'')) (times_js 8 (to_number h (f ''parallelism''))) \<or> above h (f ''memory'') 262144 \<or>
      below h (f ''passes'') 1 \<or> above h (f ''passes'') 10 \<or>
      below h (f ''parallelism'') 1 \<or> above h (f ''parallelism'') 8 \<or>
      below h (f ''tagLength'') 16 \<or> above h (f ''tagLength'') 64 \<or>
      truthy_json (jfield r ''salt'') = None \<or> truthy_json (jfield r ''hash'') = None)"

text \<open>\<open>None\<close> stands for the \<open>invalid_credentials\<close> error.\<close>

definition decode_password_record :: "password_host \<Rightarrow> string \<Rightarrow> json option" where
  "decode_password_record h v =
     (if take 14 v \<noteq> argon2id_prefix then None
      else (case ph_json_parse h (ph_utf8_text h (ph_from_base64url h (drop 14 v))) of
          None \<Rightarrow> None
        | Some r \<Rightarrow> if refused_record h r then None else Some r))"

subsection \<open>Readers\<close>

datatype preset = Doxa_argon2id | Bcrypt | Argon2id_phc | Sha256_hex

record verification =
  vf_valid :: bool
  vf_weak :: bool
  vf_needs_upgrade :: bool

definition not_valid :: verification where
  "not_valid = \<lparr>vf_valid = False, vf_weak = False, vf_needs_upgrade = False\<rparr>"

definition bcrypt_prefix :: "string \<Rightarrow> bool" where
  "bcrypt_prefix s \<longleftrightarrow> take 2 s = ''$2'' \<and> 4 \<le> length s \<and> s ! 2 \<in> set ''aby'' \<and> s ! 3 = CHR ''$''"

definition bcrypt_cost :: "password_host \<Rightarrow> string \<Rightarrow> bool" where
  "bcrypt_cost h s = (case ph_number h (JStr (take 2 (drop 4 s))) of
     Some (Fin q) \<Rightarrow> q \<in> \<int> \<and> 4 \<le> q \<and> q \<le> 16 | _ \<Rightarrow> False)"

definition hex_lower :: "char \<Rightarrow> bool" where
  "hex_lower c \<longleftrightarrow> is_digit c \<or> char_between (CHR ''a'') (CHR ''f'') c"

definition digits_value :: "string \<Rightarrow> nat" where
  "digits_value ds = foldl (\<lambda>n c. 10 * n + (of_char c - 48)) 0 ds"

definition base64_text :: "string \<Rightarrow> bool" where
  "base64_text s \<longleftrightarrow> s \<noteq> [] \<and> list_all (\<lambda>c. is_alnum c \<or> c = CHR ''+'' \<or> c = CHR ''/'') s"

text \<open>\<open>k=digits\<close>\<close>

definition phc_number :: "char \<Rightarrow> string \<Rightarrow> nat option" where
  "phc_number k s = (if take 2 s = [k, CHR ''=''] \<and> drop 2 s \<noteq> [] \<and> list_all is_digit (drop 2 s)
     then Some (digits_value (drop 2 s)) else None)"

text \<open>The match of the PHC pattern: memory, passes, parallelism, salt and hash.\<close>

definition phc_match :: "string \<Rightarrow> (nat \<times> nat \<times> nat \<times> string \<times> string) option" where
  "phc_match s = (case split_on (CHR ''$'') s of
     [before, algorithm, version, ps, salt, hash] \<Rightarrow>
       if before = [] \<and> algorithm = ''argon2id'' \<and> version = ''v=19'' \<and> base64_text salt \<and> base64_text hash
       then (case split_on (CHR '','') ps of
           [m, t, p] \<Rightarrow> (case (phc_number (CHR ''m'') m, phc_number (CHR ''t'') t, phc_number (CHR ''p'') p) of
             (Some m, Some t, Some p) \<Rightarrow> Some (m, t, p, salt, hash) | _ \<Rightarrow> None)
         | _ \<Rightarrow> None)
       else None
   | _ \<Rightarrow> None)"

definition verify_argon2_phc :: "password_host \<Rightarrow> string \<Rightarrow> string \<Rightarrow> bool" where
  "verify_argon2_phc h password encoded = (case phc_match encoded of
     None \<Rightarrow> False
   | Some (m, t, p, salt64, hash64) \<Rightarrow>
     (let salt = ph_from_base64 h salt64; expected = ph_from_base64 h hash64 in
      if m < 8 * p \<or> m > 262144 \<or> t < 1 \<or> t > 10 \<or> p < 1 \<or> p > 8 \<or> length salt < 8 \<or>
         length expected < 16 \<or> length expected > 64 then False
      else derive_password h password salt (Some (JObj [(''algorithm'', JStr ''argon2id''), (''memory'', js_int (int m)),
        (''passes'', js_int (int t)), (''parallelism'', js_int (int p)), (''tagLength'', js_int (int (length expected)))]))
        = Some expected))"

definition verify_encoded_password :: "password_host \<Rightarrow> string \<Rightarrow> string \<Rightarrow> preset list \<Rightarrow> verification" where
  "verify_encoded_password h password encoded presets =
     (if take 14 encoded = argon2id_prefix \<and> Doxa_argon2id \<in> set presets
      then (case decode_password_record h encoded of
          None \<Rightarrow> not_valid
        | Some r \<Rightarrow> \<lparr>vf_valid = verify_password h password r, vf_weak = False, vf_needs_upgrade = needs_rehash h r\<rparr>)
      else if bcrypt_prefix encoded \<and> Bcrypt \<in> set presets
      then (if \<not> bcrypt_cost h encoded then not_valid
        else \<lparr>vf_valid = ph_bcrypt h password encoded, vf_weak = False, vf_needs_upgrade = True\<rparr>)
      else if take 10 encoded = ''$argon2id$'' \<and> Argon2id_phc \<in> set presets
      then \<lparr>vf_valid = verify_argon2_phc h password encoded, vf_weak = False, vf_needs_upgrade = True\<rparr>
      else if length encoded = 64 \<and> list_all hex_lower encoded \<and> Sha256_hex \<in> set presets
      then \<lparr>vf_valid = ph_sha256 h (ph_utf8 h password) = ph_from_hex h encoded, vf_weak = True, vf_needs_upgrade = True\<rparr>
      else not_valid)"

text \<open>\<open>None\<close> stands for the \<open>invalid_registration\<close> error.\<close>

definition assert_password :: "string \<Rightarrow> unit option" where
  "assert_password password = (if length password < 8 \<or> length password > 64 then None else Some ())"

subsection \<open>The work a stored password can ask for\<close>

text \<open>Parameters that are not numbers are what Argon2 throws at.\<close>

definition argon2_within :: "password_host \<Rightarrow> (string \<times> json option) list \<Rightarrow> bool" where
  "argon2_within h ps \<longleftrightarrow> (case map snd ps of
     [parallelism, tag, memory, passes] \<Rightarrow>
       \<not> below h parallelism 1 \<and> \<not> above h parallelism 8 \<and> \<not> below h tag 16 \<and> \<not> above h tag 64 \<and>
       \<not> above h memory 262144 \<and> \<not> below h passes 1 \<and> \<not> above h passes 10
   | _ \<Rightarrow> False)"

text \<open>A host whose Argon2 does something else altogether out of the bounds.\<close>

definition outside_bounds :: "(string \<Rightarrow> string \<Rightarrow> (string \<times> json option) list \<Rightarrow> string option) \<Rightarrow> password_host \<Rightarrow> password_host" where
  "outside_bounds f h = h\<lparr>ph_argon2 := \<lambda>m n ps. if argon2_within h ps then ph_argon2 h m n ps else f m n ps\<rparr>"

lemma outside_bounds_simps [simp]:
  "ph_bcrypt (outside_bounds f h) = ph_bcrypt h" "ph_sha256 (outside_bounds f h) = ph_sha256 h"
  "ph_utf8 (outside_bounds f h) = ph_utf8 h" "ph_utf8_text (outside_bounds f h) = ph_utf8_text h"
  "ph_to_base64url (outside_bounds f h) = ph_to_base64url h"
  "ph_from_base64url (outside_bounds f h) = ph_from_base64url h" "ph_from_base64 (outside_bounds f h) = ph_from_base64 h"
  "ph_from_hex (outside_bounds f h) = ph_from_hex h" "ph_json_text (outside_bounds f h) = ph_json_text h"
  "ph_json_parse (outside_bounds f h) = ph_json_parse h" "ph_number (outside_bounds f h) = ph_number h"
  "ph_buffer (outside_bounds f h) = ph_buffer h" "to_number (outside_bounds f h) v = to_number h v"
  "buffer_of (outside_bounds f h) v = buffer_of h v"
  by (simp_all add: outside_bounds_def to_number_def buffer_of_def split: option.splits json.splits)

lemma refused_outside_bounds [simp]: "refused_record (outside_bounds f h) r = refused_record h r"
  unfolding refused_record_def outside_bounds_simps by (rule refl)

lemma decoded_outside_bounds [simp]: "decode_password_record (outside_bounds f h) v = decode_password_record h v"
  unfolding decode_password_record_def outside_bounds_simps refused_outside_bounds by (rule refl)

lemma needs_rehash_outside_bounds [simp]: "needs_rehash (outside_bounds f h) r = needs_rehash h r"
  by (simp add: needs_rehash_def)

lemma derived_within:
  assumes "\<And>p. parameters = Some p \<Longrightarrow> argon2_within h [(''parallelism'', jfield p ''parallelism''),
      (''tagLength'', jfield p ''tagLength''), (''memory'', jfield p ''memory''), (''passes'', jfield p ''passes'')]"
  shows "derive_password (outside_bounds f h) password salt parameters = derive_password h password salt parameters"
  using assms by (cases parameters) (simp_all add: derive_password_def, simp add: outside_bounds_def)

lemma decoded_within:
  assumes "decode_password_record h v = Some r" "jfield r ''parameters'' = Some p"
  shows "argon2_within h [(''parallelism'', jfield p ''parallelism''),
      (''tagLength'', jfield p ''tagLength''), (''memory'', jfield p ''memory''), (''passes'', jfield p ''passes'')]"
proof -
  from assms(1) have "\<not> refused_record h r"
    by (auto simp: decode_password_record_def split: if_splits option.splits)
  with assms(2) show ?thesis by (simp add: refused_record_def argon2_within_def)
qed

lemma verified_within:
  assumes "decode_password_record h v = Some r"
  shows "verify_password (outside_bounds f h) password r = verify_password h password r"
proof -
  have "derive_password (outside_bounds f h) password salt (jfield r ''parameters'') =
      derive_password h password salt (jfield r ''parameters'')" for salt
    by (rule derived_within) (rule decoded_within [OF assms])
  then show ?thesis by (simp add: verify_password_def split: option.splits)
qed

lemma phc_within: "verify_argon2_phc (outside_bounds f h) password v = verify_argon2_phc h password v"
proof -
  have "derive_password (outside_bounds f h) password salt (Some (JObj [(''algorithm'', JStr ''argon2id''), (''memory'', js_int (int m)),
        (''passes'', js_int (int t)), (''parallelism'', js_int (int p)), (''tagLength'', js_int (int n))])) =
      derive_password h password salt (Some (JObj [(''algorithm'', JStr ''argon2id''), (''memory'', js_int (int m)),
        (''passes'', js_int (int t)), (''parallelism'', js_int (int p)), (''tagLength'', js_int (int n))]))"
    if "\<not> (m < 8 * p \<or> m > 262144 \<or> t < 1 \<or> t > 10 \<or> p < 1 \<or> p > 8 \<or> n < 16 \<or> n > 64)" for salt m t p n
  proof (rule derived_within)
    fix ps assume "Some (JObj [(''algorithm'', JStr ''argon2id''), (''memory'', js_int (int m)),
        (''passes'', js_int (int t)), (''parallelism'', js_int (int p)), (''tagLength'', js_int (int n))]) = Some ps"
    then have ps: "ps = JObj [(''algorithm'', JStr ''argon2id''), (''memory'', js_int (int m)),
        (''passes'', js_int (int t)), (''parallelism'', js_int (int p)), (''tagLength'', js_int (int n))]" by simp
    have "to_number h (Some (js_int k)) = Some (Fin (of_int k))" for k by (simp add: to_number_def js_int_def)
    with that show "argon2_within h [(''parallelism'', jfield ps ''parallelism''), (''tagLength'', jfield ps ''tagLength''),
        (''memory'', jfield ps ''memory''), (''passes'', jfield ps ''passes'')]"
      by (simp add: ps argon2_within_def less_js_def del: One_nat_def)
  qed
  then show ?thesis by (auto simp: verify_argon2_phc_def Let_def split: option.splits)
qed

text \<open>
  C40. Whatever a password column holds and whichever readers are allowed, verifying a password never
  asks Argon2 for more than 256 MiB, ten passes, eight lanes or 64 bytes, nor for fewer passes, lanes
  or bytes than it has bounds for: the outcome is the same whatever Argon2 does beyond them.
\<close>

theorem password_work_bounded:
  "verify_encoded_password (outside_bounds f h) password encoded presets = verify_encoded_password h password encoded presets"
proof (cases "decode_password_record h encoded")
  case None
  then show ?thesis by (simp add: verify_encoded_password_def phc_within bcrypt_cost_def)
next
  case (Some r)
  then show ?thesis by (simp add: verify_encoded_password_def phc_within verified_within [OF Some] bcrypt_cost_def)
qed

subsection \<open>Records verify what they were made of\<close>

definition password_laws :: "password_host \<Rightarrow> bool" where
  "password_laws h \<longleftrightarrow> (\<forall>s. ph_from_base64url h (ph_to_base64url h s) = s) \<and> (\<forall>s. ph_utf8_text h (ph_utf8 h s) = s)"

lemma created_record:
  assumes "create_password_record h salt password = Some r"
  obtains hash where "derive_password h password salt (Some password_parameters) = Some hash"
    "r = JObj [(''version'', password_version), (''salt'', JStr (ph_to_base64url h salt)),
       (''hash'', JStr (ph_to_base64url h hash)), (''parameters'', password_parameters)]"
  using assms by (auto simp: create_password_record_def)

lemma created_fields:
  assumes "r = JObj [(''version'', password_version), (''salt'', JStr a), (''hash'', JStr b), (''parameters'', password_parameters)]"
  shows "jfield r ''version'' = Some password_version" "jfield r ''salt'' = Some (JStr a)"
    "jfield r ''hash'' = Some (JStr b)" "jfield r ''parameters'' = Some password_parameters"
  using assms by simp_all

lemma parameter_fields:
  "jfield password_parameters ''algorithm'' = Some (JStr ''argon2id'')" "jfield password_parameters ''memory'' = Some (js_int 19456)"
  "jfield password_parameters ''passes'' = Some (js_int 2)" "jfield password_parameters ''parallelism'' = Some (js_int 2)"
  "jfield password_parameters ''tagLength'' = Some (js_int 32)"
  by (simp_all add: password_parameters_def)

lemma to_number_int: "to_number h (Some (js_int k)) = Some (Fin (of_int k))"
  by (simp add: to_number_def js_int_def)

lemma created_accepted:
  assumes "r = JObj [(''version'', password_version), (''salt'', JStr a), (''hash'', JStr b), (''parameters'', password_parameters)]"
    and "a \<noteq> []" "b \<noteq> []"
  shows "\<not> refused_record h r"
  unfolding refused_record_def Let_def created_fields [OF assms(1)] option.case parameter_fields password_version_def to_number_int
  using assms(2,3) by (simp add: less_js_def times_js_def truthy_json_def)

text \<open>
  A password record verifies the password it was made of, and any other password exactly when
  Argon2 does not tell the two apart; it is up to date; and the same holds after it has been encoded
  into a column and decoded again, as long as the reader of the format is allowed.
\<close>

theorem password_record_round_trip:
  assumes "password_laws h" "create_password_record h salt password = Some r"
    and "ph_to_base64url h salt \<noteq> []" "\<And>s. ph_to_base64url h s = [] \<Longrightarrow> s = []" "derive_password h password salt (Some password_parameters) \<noteq> Some []"
    and "ph_json_parse h (ph_json_text h r) = Some r" "Doxa_argon2id \<in> set presets"
  shows "verify_password h password r \<and> \<not> needs_rehash h r \<and>
    (verify_password h other r \<longleftrightarrow>
       derive_password h other salt (Some password_parameters) = derive_password h password salt (Some password_parameters)) \<and>
    verify_encoded_password h other (encode_password_record h r) presets =
      \<lparr>vf_valid = verify_password h other r, vf_weak = False, vf_needs_upgrade = False\<rparr>"
proof -
  obtain hash where hash: "derive_password h password salt (Some password_parameters) = Some hash"
    and r: "r = JObj [(''version'', password_version), (''salt'', JStr (ph_to_base64url h salt)),
       (''hash'', JStr (ph_to_base64url h hash)), (''parameters'', password_parameters)]"
    using created_record [OF assms(2)] .
  note fields = created_fields [OF r]
  have verify: "verify_password h other r \<longleftrightarrow> derive_password h other salt (Some password_parameters) = Some hash" for other
    using assms(1) by (simp add: verify_password_def fields buffer_of_def password_laws_def)
  have fresh: "\<not> needs_rehash h r" by (simp add: needs_rehash_def fields)
  have "hash \<noteq> []" using assms(5) hash by auto
  then have "ph_to_base64url h hash \<noteq> []" using assms(4) by auto
  with created_accepted [OF r assms(3)] have "\<not> refused_record h r" by simp
  then have "decode_password_record h (encode_password_record h r) = Some r"
    using assms(1,6) by (simp add: decode_password_record_def encode_password_record_def argon2id_prefix_def password_laws_def)
  moreover have "take 14 (encode_password_record h r) = argon2id_prefix"
    by (simp add: encode_password_record_def argon2id_prefix_def)
  ultimately have "verify_encoded_password h other (encode_password_record h r) presets =
      \<lparr>vf_valid = verify_password h other r, vf_weak = False, vf_needs_upgrade = False\<rparr>"
    using assms(7) fresh by (simp add: verify_encoded_password_def)
  with verify fresh hash show ?thesis by simp
qed

text \<open>
  A \<open>jsonb\<close> column does not keep the order of the keys: it returns them by length and then by bytes.
  Printed again, the parameters of a record that was stored are another text than those of the code.
\<close>

definition jsonb_before :: "string \<Rightarrow> string \<Rightarrow> bool" where
  "jsonb_before a b \<longleftrightarrow> length a < length b \<or> length a = length b \<and> map of_char a \<le> (map of_char b :: nat list)"

definition jsonb_keys :: "(string \<times> json) list \<Rightarrow> (string \<times> json) list" where
  "jsonb_keys kvs = foldr (\<lambda>kv acc. takeWhile (\<lambda>e. \<not> jsonb_before (fst kv) (fst e)) acc @ kv #
     dropWhile (\<lambda>e. \<not> jsonb_before (fst kv) (fst e)) acc) kvs []"

definition jsonb_object :: "json \<Rightarrow> json" where
  "jsonb_object v = (case v of JObj kvs \<Rightarrow> JObj (jsonb_keys kvs) | _ \<Rightarrow> v)"

lemma jsonb_parameters:
  "jsonb_object password_parameters = JObj [(''memory'', js_int 19456), (''passes'', js_int 2), (''algorithm'', JStr ''argon2id''),
     (''tagLength'', js_int 32), (''parallelism'', js_int 2)]"
  by code_simp

text \<open>So a record of the \<open>doxa_auth_passwords\<close> table always looks out of date.\<close>

lemma stored_record_needs_rehash:
  assumes "\<And>v w. ph_json_text h v = ph_json_text h w \<Longrightarrow> v = w"
  shows "needs_rehash h (JObj [(''version'', password_version), (''salt'', s), (''hash'', d),
    (''parameters'', jsonb_object password_parameters)])"
proof -
  have "jsonb_object password_parameters \<noteq> password_parameters"
    by (simp only: jsonb_parameters) (simp add: password_parameters_def)
  with assms show ?thesis by (auto simp: needs_rehash_def)
qed

subsection \<open>Witness\<close>

definition sample_record :: json where
  "sample_record = JObj [(''version'', password_version), (''salt'', JStr ''salt''), (''hash'', JStr ''saltsecret''),
     (''parameters'', password_parameters)]"

definition sample_password_host :: password_host where
  "sample_password_host = \<lparr>ph_argon2 = (\<lambda>m n ps. Some (n @ m)), ph_bcrypt = (\<lambda>p e. False), ph_sha256 = id, ph_utf8 = id,
     ph_utf8_text = id, ph_to_base64url = id, ph_from_base64url = id, ph_from_base64 = id, ph_from_hex = id,
     ph_json_text = (\<lambda>v. ''{}''), ph_json_parse = (\<lambda>s. Some sample_record), ph_number = (\<lambda>v. None), ph_buffer = (\<lambda>v. None)\<rparr>"

theorem password_record_round_trip_witness:
  "vf_valid (verify_encoded_password sample_password_host ''secret''
     (encode_password_record sample_password_host sample_record) [Bcrypt, Doxa_argon2id]) \<and>
   \<not> vf_valid (verify_encoded_password sample_password_host ''guess''
     (encode_password_record sample_password_host sample_record) [Bcrypt, Doxa_argon2id])"
proof -
  have made: "create_password_record sample_password_host ''salt'' ''secret'' = Some sample_record"
    by (simp add: create_password_record_def sample_password_host_def derive_password_def sample_record_def)
  have laws: "password_laws sample_password_host" by (simp add: password_laws_def sample_password_host_def)
  have "verify_password sample_password_host ''secret'' sample_record \<and>
      (\<forall>other. (verify_password sample_password_host other sample_record \<longleftrightarrow> other = ''secret'') \<and>
      vf_valid (verify_encoded_password sample_password_host other
        (encode_password_record sample_password_host sample_record) [Bcrypt, Doxa_argon2id]) =
      verify_password sample_password_host other sample_record)"
    using password_record_round_trip [OF laws made, of "[Bcrypt, Doxa_argon2id]"]
    by (simp add: sample_password_host_def derive_password_def)
  then show ?thesis by simp
qed

end
