(* ===== verification/RequestAuth.thy ===== *)
theory RequestAuth
  imports Passwords QueueContext
begin

text \<open>
  Credentials of a request, \<open>packages/auth-postgres/src/request-auth.ts\<close> and
  \<open>database-identifiers.ts\<close>: session cookies, trusted origins, identifiers as they are normalised,
  and the names that may stand in a query.

  The URL parser and the normal form of a text (NFC and lower case) are the host's.
\<close>

record request_host =
  rh_origin :: "string \<Rightarrow> string option"
  rh_canonical :: "string \<Rightarrow> string"
  rh_nfc :: "string \<Rightarrow> string"

record auth_request =
  rq_method :: string
  rq_cookie :: "string option"
  rq_authorization :: "string option"
  rq_upgrade :: "string option"
  rq_fetch_site :: "string option"
  rq_origin :: "string option"

subsection \<open>Cookies\<close>

definition token_char :: "char \<Rightarrow> bool" where
  "token_char c \<longleftrightarrow> is_alnum c \<or> c = CHR ''_'' \<or> c = CHR ''-''"

definition session_token :: "string \<Rightarrow> bool" where
  "session_token s \<longleftrightarrow> length s = 43 \<and> list_all token_char s"

text \<open>The text before the first separator and the text after it, if there is one.\<close>

fun split_first :: "char \<Rightarrow> string \<Rightarrow> (string \<times> string) option" where
  "split_first x [] = None"
| "split_first x (c # cs) = (if c = x then Some ([], cs) else map_option (\<lambda>(a, b). (c # a, b)) (split_first x cs))"

fun cookie_in :: "string \<Rightarrow> string list \<Rightarrow> string option" where
  "cookie_in name [] = None"
| "cookie_in name (part # rest) = (case split_first (CHR ''='') part of
     None \<Rightarrow> cookie_in name rest
   | Some (k, v) \<Rightarrow> if js_trim k \<noteq> name then cookie_in name rest
       else if session_token (js_trim v) then Some (js_trim v) else None)"

definition cookie_value :: "string option \<Rightarrow> string \<Rightarrow> string option" where
  "cookie_value header name = (case header of None \<Rightarrow> None | Some h \<Rightarrow> cookie_in name (split_on (CHR '';'') h))"

definition serialize_cookie :: "string \<Rightarrow> string \<Rightarrow> nat option \<Rightarrow> bool \<Rightarrow> string" where
  "serialize_cookie name v max_age secure = join ''; ''
     ([name @ ''='' @ v, ''Path=/'', ''HttpOnly'', ''SameSite=Lax''] @
      (case max_age of None \<Rightarrow> [] | Some n \<Rightarrow> [''Max-Age='' @ decimal n]) @ (if secure then [''Secure''] else []))"

subsection \<open>Origins\<close>

definition safe_methods :: "string list" where
  "safe_methods = [''GET'', ''HEAD'', ''OPTIONS'']"

text \<open>The message of the error, which is answered with status 403.\<close>

definition assert_trusted_origin :: "request_host \<Rightarrow> auth_request \<Rightarrow> string list \<Rightarrow> bool \<Rightarrow> string + unit" where
  "assert_trusted_origin h r trusted always =
     (if \<not> always \<and> map upper_char (rq_method r) \<in> set safe_methods then Inr ()
      else if rq_fetch_site r = Some ''cross-site'' then Inl ''Cross-site cookie-authenticated requests are forbidden.''
      else (case (case truthy_string (rq_origin r) of None \<Rightarrow> None | Some origin \<Rightarrow> rh_origin h origin) of
          Some normalized \<Rightarrow> if normalized \<noteq> [] \<and> normalized \<in> set trusted then Inr ()
            else Inl ''Cookie-authenticated requests require a trusted Origin.''
        | None \<Rightarrow> Inl ''Cookie-authenticated requests require a trusted Origin.''))"

subsection \<open>Identifiers\<close>

datatype normalization = Exact_text | Lowercase | Email | Email_or_domain string

definition email_shape :: "string \<Rightarrow> bool" where
  "email_shape s \<longleftrightarrow> list_all (\<lambda>c. \<not> is_space c) s \<and> (case split_on (CHR ''@'') s of
     [user, domain] \<Rightarrow> user \<noteq> [] \<and> list_ex (\<lambda>i. domain ! i = CHR ''.'') [1..<length domain - 1]
   | _ \<Rightarrow> False)"

definition is_email :: "normalization \<Rightarrow> bool" where
  "is_email n = (case n of Email \<Rightarrow> True | Email_or_domain d \<Rightarrow> True | _ \<Rightarrow> False)"

text \<open>\<open>None\<close> stands for the \<open>invalid_registration\<close> error.\<close>

definition normalize_identifier :: "request_host \<Rightarrow> string \<Rightarrow> normalization \<Rightarrow> bool \<Rightarrow> string option" where
  "normalize_identifier h v n validate =
     (if n = Exact_text then Some (rh_nfc h v)
      else (let normal = rh_canonical h (js_trim v);
                normal = (case n of Email_or_domain d \<Rightarrow> if CHR ''@'' \<in> set normal then normal else normal @ CHR ''@'' # d
                  | _ \<Rightarrow> normal) in
        if validate \<and> is_email n \<and> (length normal > 254 \<or> \<not> email_shape normal) then None else Some normal))"

subsection \<open>Names in a query\<close>

definition valid_identifier :: "string \<Rightarrow> bool" where
  "valid_identifier s = (case s of [] \<Rightarrow> False
     | c # cs \<Rightarrow> (is_lower c \<or> is_upper c \<or> c = CHR ''_'') \<and> list_all (\<lambda>c. is_alnum c \<or> c = CHR ''_'' \<or> c = CHR ''$'') cs)"

definition valid_qualified_identifier :: "string \<Rightarrow> bool" where
  "valid_qualified_identifier s = (let parts = split_on (CHR ''.'') s in length parts \<le> 2 \<and> list_all valid_identifier parts)"

definition quote_identifier :: "string \<Rightarrow> string" where
  "quote_identifier s = CHR 0x22 # concat (map (\<lambda>c. if c = CHR 0x22 then [c, c] else [c]) s) @ [CHR 0x22]"

definition quote_qualified :: "string \<Rightarrow> string" where
  "quote_qualified s = join ''.'' (map quote_identifier (split_on (CHR ''.'') s))"

text \<open>
  \<open>validateAuthMappings\<close> of \<open>postgres-auth.ts\<close>: the names of foreign tables and columns, the fields in
  the order of the code, and the column each reader reads.
\<close>

record auth_mapping =
  am_identity_table :: string
  am_password_table :: string
  am_columns :: "(string \<times> string option) list"
  am_password :: string
  am_readers :: "string list"

definition validate_auth_mappings :: "auth_mapping \<Rightarrow> string + unit" where
  "validate_auth_mappings t =
     (case find (\<lambda>n. \<not> valid_qualified_identifier n) [am_identity_table t, am_password_table t] of
        Some n \<Rightarrow> Inl (''Invalid mapped auth table name '' @ n @ ''.'')
      | None \<Rightarrow>
        (case find (\<lambda>(f, c). case c of None \<Rightarrow> False | Some n \<Rightarrow> \<not> valid_identifier n) (am_columns t) of
           Some (f, c) \<Rightarrow> Inl (''Invalid mapped auth column '' @ f @ ''.'')
         | None \<Rightarrow>
           if am_readers t = [] then Inl ''Mapped auth credentials require at least one reader.''
           else if list_ex (\<lambda>c. c \<noteq> am_password t) (am_readers t)
           then Inl ''Mapped auth credential readers must use the authoritative password column.''
           else Inr ()))"

text \<open>A name that passes stands in a query as it is between quotes: there is nothing in it to escape.\<close>

lemma quoted_plainly: "valid_identifier s \<Longrightarrow> quote_identifier s = CHR 0x22 # s @ [CHR 0x22]"
proof -
  assume "valid_identifier s"
  then have "c \<noteq> CHR 0x22" if "c \<in> set s" for c
    using that by (auto simp: valid_identifier_def list_all_iff char_class_defs split: list.splits)
  then have "map (\<lambda>c. if c = CHR 0x22 then [c, c] else [c]) s = map (\<lambda>c. [c]) s" by auto
  then show ?thesis unfolding quote_identifier_def by (simp only: concat_map_singleton) simp
qed

lemma validated_columns_plain:
  assumes "validate_auth_mappings t = Inr ()" "(f, Some c) \<in> set (am_columns t)"
  shows "quote_identifier c = CHR 0x22 # c @ [CHR 0x22]"
  using assms by (auto simp: validate_auth_mappings_def find_None_iff split: option.splits if_splits intro!: quoted_plainly)

subsection \<open>A cookie comes back\<close>

lemma split_first_append: "x \<notin> set a \<Longrightarrow> split_first x (a @ x # b) = Some (a, b)"
  by (induction a) auto

lemma token_not_space: "token_char c \<Longrightarrow> \<not> is_space c"
  by (auto simp: token_char_def alnum_not_space) (auto simp: is_space_def)

lemma trim_token: "session_token s \<Longrightarrow> js_trim s = s"
  by (intro js_trim_none) (auto simp: session_token_def list_all_iff token_not_space)

text \<open>
  The cookie is the first of its name among the parts of the header, whatever white space the browser
  puts between them.
\<close>

lemma js_trim_leading_space: "js_trim (CHR '' '' # s) = js_trim s"
  by (simp add: js_trim_def is_space_def)

lemma cookie_in_found:
  assumes "session_token v" "CHR ''='' \<notin> set name" "js_trim name = name"
    and "\<And>part k w. part \<in> set before \<Longrightarrow> split_first (CHR ''='') part = Some (k, w) \<Longrightarrow> js_trim k \<noteq> name"
  shows "cookie_in name (before @ (name @ CHR ''='' # v) # later) = Some v"
  using assms(4)
proof (induction before)
  case Nil
  then show ?case using assms(1-3) by (simp add: split_first_append trim_token)
next
  case (Cons part before)
  then show ?case by (fastforce split: option.splits)
qed

lemma cookie_value_own:
  assumes "session_token v" "CHR ''='' \<notin> set name" "CHR '';'' \<notin> set name" "js_trim name = name"
  shows "cookie_value (Some (name @ CHR ''='' # v)) name = Some v"
proof -
  have "CHR '';'' \<notin> set v" using assms(1) by (auto simp: session_token_def list_all_iff token_char_def char_class_defs)
  then have "split_on (CHR '';'') (name @ CHR ''='' # v) = [name @ CHR ''='' # v]" using assms(3) by (intro split_on_no_sep) auto
  then show ?thesis using cookie_in_found [OF assms(1,2,4), of "[]" "[]"] by (simp add: cookie_value_def)
qed

end
