(* ===== verification/AuthStore.thy ===== *)
theory AuthStore
  imports RequestAuth
begin

text \<open>
  The state and the accounts of Postgres authentication,
  \<open>packages/auth-postgres/src/postgres-auth.ts\<close>: the tables, who may authenticate, rate limits,
  registration, passwords, login and the challenges sent by mail.

  An operation is one function of the tables; where the code reads first and writes later in a
  transaction, the reading and the transaction are functions of their own, so that other operations can
  come in between. Tokens, identifiers and salts are random: they are arguments. Times are in
  milliseconds, and a foreign identity table may be changed by its owner at any time.
\<close>

subsection \<open>Settings\<close>

datatype verification_mode = Mapped_verification | Trusted_verification | Unsupported_verification

record auth_settings =
  as_absolute :: int
  as_idle :: int
  as_renewal :: int
  as_grace :: int
  as_impersonation :: int
  as_challenge :: int
  as_secure :: bool
  as_trusted :: "string list"
  as_normalization :: normalization
  as_mapped :: bool
  as_login_only :: bool
  as_verification :: verification_mode
  as_contact :: bool
  as_contact_is_identifier :: bool
  as_direct :: bool
  as_eligibility :: bool
  as_upgrades :: bool
  as_readers :: "preset list"

record auth_host =
  ah_password :: password_host
  ah_request :: request_host
  ah_digest :: "string \<Rightarrow> string"
  ah_lower :: "string \<Rightarrow> string"
  ah_compromised :: "string \<Rightarrow> bool"

datatype auth_code = Ambiguous_credentials | Invalid_credentials | Email_taken | Invalid_registration | Invalid_token |
  Compromised_password | Impersonation_not_allowed | Impersonation_not_active

datatype auth_failure =
    Authentication_error auth_code
  | Rate_limited int
  | Untrusted_origin string
  | Internal_error

subsection \<open>Tables\<close>

record identity_row =
  id_id :: string
  id_identifier :: string
  id_contact :: "string option"
  id_verified :: "int option"
  id_created :: int
  id_eligible :: bool

datatype stored_password = Password_columns json | Encoded_password string

record impersonation =
  im_grant :: string
  im_target :: string
  im_reason :: string
  im_started :: int
  im_expires :: int

record session_row =
  sn_id :: string
  sn_identity :: string
  sn_digest :: string
  sn_previous :: "string option"
  sn_previous_until :: "int option"
  sn_created :: int
  sn_authenticated :: int
  sn_last_seen :: int
  sn_idle_until :: int
  sn_expires :: int
  sn_revoked :: "int option"
  sn_impersonation :: "impersonation option"

record token_row =
  tk_id :: string
  tk_identity :: string
  tk_name :: string
  tk_digest :: string
  tk_constraints :: "string list"
  tk_created :: int
  tk_expires :: int
  tk_last_used :: "int option"
  tk_revoked :: "int option"

datatype purpose = Email_verification | Password_reset

record challenge_row =
  ch_id :: string
  ch_identity :: string
  ch_purpose :: purpose
  ch_digest :: string
  ch_recipient :: string
  ch_expires :: int
  ch_consumed :: "int option"

record rate_row =
  rl_started :: int
  rl_attempts :: int
  rl_blocked :: "int option"

record audit_event =
  ae_type :: string
  ae_identity :: "string option"
  ae_session :: "string option"
  ae_at :: int

record auth_db =
  ad_identities :: "identity_row list"
  ad_passwords :: "(string, stored_password) omap"
  ad_sessions :: "session_row list"
  ad_tokens :: "token_row list"
  ad_challenges :: "challenge_row list"
  ad_rates :: "(string \<times> string, rate_row) omap"
  ad_audit :: "audit_event list"

definition audit :: "string \<Rightarrow> string option \<Rightarrow> string option \<Rightarrow> int \<Rightarrow> auth_db \<Rightarrow> auth_db" where
  "audit event i s now db = db\<lparr>ad_audit := ad_audit db @ [\<lparr>ae_type = event, ae_identity = i, ae_session = s, ae_at = now\<rparr>]\<rparr>"

definition map_where :: "('a \<Rightarrow> bool) \<Rightarrow> ('a \<Rightarrow> 'a) \<Rightarrow> 'a list \<Rightarrow> 'a list" where
  "map_where p f = map (\<lambda>x. if p x then f x else x)"

text \<open>The constraints of the session table: unique identifiers, current tokens and grants.\<close>

definition sessions_clash :: "session_row list \<Rightarrow> bool" where
  "sessions_clash ss \<longleftrightarrow> \<not> distinct (map sn_id ss) \<or> \<not> distinct (map sn_digest ss) \<or>
     \<not> distinct (map im_grant (List.map_filter sn_impersonation ss))"

definition put_sessions :: "session_row list \<Rightarrow> auth_db \<Rightarrow> auth_failure + auth_db" where
  "put_sessions ss db = (if sessions_clash ss then Inl Internal_error else Inr (db\<lparr>ad_sessions := ss\<rparr>))"

definition revoke_sessions :: "string \<Rightarrow> int \<Rightarrow> auth_db \<Rightarrow> auth_db" where
  "revoke_sessions i now db = db\<lparr>ad_sessions :=
     map_where (\<lambda>s. sn_identity s = i \<and> sn_revoked s = None) (\<lambda>s. s\<lparr>sn_revoked := Some now\<rparr>) (ad_sessions db)\<rparr>"

definition revoke_tokens :: "string \<Rightarrow> int \<Rightarrow> auth_db \<Rightarrow> auth_db" where
  "revoke_tokens i now db = db\<lparr>ad_tokens :=
     map_where (\<lambda>t. tk_identity t = i \<and> tk_revoked t = None) (\<lambda>t. t\<lparr>tk_revoked := Some now\<rparr>) (ad_tokens db)\<rparr>"

subsection \<open>Identities\<close>

datatype verification_state = Verified | Unverified | Not_supported

record auth_identity =
  ai_id :: string
  ai_identifier :: string
  ai_contact :: "string option"
  ai_verification :: verification_state

text \<open>\<open>mappedIdentity\<close> and \<open>identityFromStored\<close>\<close>

definition identity_from_stored :: "auth_settings \<Rightarrow> auth_host \<Rightarrow> identity_row \<Rightarrow> auth_identity" where
  "identity_from_stored cfg h r = \<lparr>ai_id = id_id r,
     ai_identifier = (if as_mapped cfg
       then (case normalize_identifier (ah_request h) (id_identifier r) (as_normalization cfg) False of
         None \<Rightarrow> id_identifier r | Some v \<Rightarrow> v)
       else id_identifier r),
     ai_contact = (if \<not> as_mapped cfg then Some (id_identifier r)
       else if as_contact cfg then truthy_string (Some (case truthy_string (id_contact r) of None \<Rightarrow> id_identifier r | Some c \<Rightarrow> c))
       else None),
     ai_verification = (if as_mapped cfg \<and> as_verification cfg = Unsupported_verification then Not_supported
       else if as_mapped cfg \<and> as_verification cfg = Trusted_verification \<or> id_verified r \<noteq> None then Verified
       else Unverified)\<rparr>"

definition identity_row_of :: "string \<Rightarrow> auth_db \<Rightarrow> identity_row option" where
  "identity_row_of i db = find (\<lambda>r. id_id r = i) (ad_identities db)"

text \<open>\<open>#ensureEligible\<close>: an identity that may not authenticate loses what it has.\<close>

definition ensure_eligible :: "auth_settings \<Rightarrow> int \<Rightarrow> string \<Rightarrow> auth_db \<Rightarrow> bool \<times> auth_db" where
  "ensure_eligible cfg now i db =
     (if \<not> as_mapped cfg \<or> \<not> as_eligibility cfg then (True, db)
      else if (case identity_row_of i db of None \<Rightarrow> False | Some r \<Rightarrow> id_eligible r) then (True, db)
      else (False, audit ''identity.ineligible'' (Some i) None now (revoke_tokens i now (revoke_sessions i now db))))"

definition find_identity :: "auth_settings \<Rightarrow> auth_host \<Rightarrow> int \<Rightarrow> string \<Rightarrow> auth_db \<Rightarrow> auth_identity option \<times> auth_db" where
  "find_identity cfg h now i db = (case identity_row_of i db of
     None \<Rightarrow> (None, db)
   | Some r \<Rightarrow>
     if as_mapped cfg
     then (case ensure_eligible cfg now i db of
         (True, db') \<Rightarrow> (Some (identity_from_stored cfg h r), db')
       | (False, db') \<Rightarrow> (None, db'))
     else (Some (identity_from_stored cfg h r), db))"

definition identity_by_identifier :: "auth_settings \<Rightarrow> auth_host \<Rightarrow> string \<Rightarrow> auth_db \<Rightarrow> identity_row option" where
  "identity_by_identifier cfg h v db = find (\<lambda>r. (if as_mapped cfg \<and> \<not> as_direct cfg \<and>
     as_normalization cfg \<noteq> Exact_text then ah_lower h (id_identifier r) else id_identifier r) = v) (ad_identities db)"

definition normalized :: "auth_settings \<Rightarrow> auth_host \<Rightarrow> string \<Rightarrow> bool \<Rightarrow> auth_failure + string" where
  "normalized cfg h v validate = (case normalize_identifier (ah_request h) v (as_normalization cfg) validate of
     None \<Rightarrow> Inl (Authentication_error Invalid_registration) | Some s \<Rightarrow> Inr s)"

definition assert_mutation_allowed :: "auth_settings \<Rightarrow> auth_failure + unit" where
  "assert_mutation_allowed cfg =
     (if as_mapped cfg \<and> as_login_only cfg then Inl (Authentication_error Invalid_credentials) else Inr ())"

definition assert_verification_available :: "auth_settings \<Rightarrow> auth_failure + unit" where
  "assert_verification_available cfg =
     (if as_mapped cfg \<and> as_verification cfg \<noteq> Mapped_verification then Inl (Authentication_error Invalid_credentials) else Inr ())"

subsection \<open>Rate limits\<close>

text \<open>The row after an attempt; the windows are in seconds.\<close>

definition rate_attempt :: "int \<Rightarrow> int \<Rightarrow> int \<Rightarrow> int \<Rightarrow> rate_row option \<Rightarrow> rate_row" where
  "rate_attempt limit window block now row = (case row of
     None \<Rightarrow> \<lparr>rl_started = now, rl_attempts = 1, rl_blocked = None\<rparr>
   | Some r \<Rightarrow>
     (let over = rl_started r \<le> now - window * 1000 in
      \<lparr>rl_started = (if over then now else rl_started r),
       rl_attempts = (if over then 1 else rl_attempts r + 1),
       rl_blocked = (if (case rl_blocked r of None \<Rightarrow> False | Some t \<Rightarrow> t > now) then rl_blocked r
         else if \<not> over \<and> rl_attempts r + 1 > limit then Some (now + block * 1000)
         else None)\<rparr>))"

definition retry_seconds :: "int \<Rightarrow> int" where
  "retry_seconds ms = max 1 (- ((- ms) div 1000))"

definition rate_limit :: "auth_host \<Rightarrow> string \<Rightarrow> string \<Rightarrow> int \<Rightarrow> int \<Rightarrow> int \<Rightarrow> int \<Rightarrow> auth_db \<Rightarrow> (auth_failure + unit) \<times> auth_db" where
  "rate_limit h action v limit window block now db =
     (let key = (action, ah_digest h v);
          r = rate_attempt limit window block now (om_get (ad_rates db) key);
          db = db\<lparr>ad_rates := om_set key r (ad_rates db)\<rparr> in
      case rl_blocked r of
        Some t \<Rightarrow> if t > now
          then (Inl (Rate_limited (retry_seconds (t - now))), audit ''authentication.rate_limited'' None None now db)
          else (Inr (), db)
      | None \<Rightarrow> (Inr (), db))"

definition clear_rate_limit :: "auth_host \<Rightarrow> string \<Rightarrow> string \<Rightarrow> auth_db \<Rightarrow> auth_db" where
  "clear_rate_limit h action v db = db\<lparr>ad_rates := om_delete (action, ah_digest h v) (ad_rates db)\<rparr>"

text \<open>\<open>`${email}\\0${metadata.ipAddress ?? ''}`\<close>\<close>

definition bucket :: "string \<Rightarrow> string option \<Rightarrow> string" where
  "bucket v ip = v @ CHR 0x00 # (case ip of None \<Rightarrow> [] | Some a \<Rightarrow> a)"

subsection \<open>Passwords\<close>

text \<open>A record as the columns of \<open>doxa_auth_passwords\<close> return it.\<close>

definition password_columns :: "json \<Rightarrow> json" where
  "password_columns r = JObj [(''version'', opt_json (jfield r ''version'')), (''salt'', opt_json (jfield r ''salt'')),
     (''hash'', opt_json (jfield r ''hash'')), (''parameters'', jsonb_object (opt_json (jfield r ''parameters'')))]"

definition stored_as :: "auth_settings \<Rightarrow> auth_host \<Rightarrow> json \<Rightarrow> stored_password" where
  "stored_as cfg h r = (if as_mapped cfg then Encoded_password (encode_password_record (ah_password h) r)
     else Password_columns (password_columns r))"

fun verify_candidate :: "auth_settings \<Rightarrow> auth_host \<Rightarrow> string \<Rightarrow> stored_password \<Rightarrow> verification" where
  "verify_candidate cfg h password (Password_columns r) =
     \<lparr>vf_valid = verify_password (ah_password h) password r, vf_weak = False, vf_needs_upgrade = needs_rehash (ah_password h) r\<rparr>"
| "verify_candidate cfg h password (Encoded_password e) = verify_encoded_password (ah_password h) password e (as_readers cfg)"

definition assert_new_password :: "auth_host \<Rightarrow> string \<Rightarrow> auth_failure + unit" where
  "assert_new_password h password =
     (if assert_password password = None then Inl (Authentication_error Invalid_registration)
      else if ah_compromised h password then Inl (Authentication_error Compromised_password) else Inr ())"

definition create_password :: "auth_host \<Rightarrow> string \<Rightarrow> string \<Rightarrow> auth_failure + json" where
  "create_password h salt password = (case create_password_record (ah_password h) salt password of
     None \<Rightarrow> Inl Internal_error | Some r \<Rightarrow> Inr r)"

text \<open>An update of the row of an identity, whatever it holds.\<close>

definition overwrite_password :: "auth_settings \<Rightarrow> auth_host \<Rightarrow> string \<Rightarrow> json \<Rightarrow> auth_db \<Rightarrow> auth_failure + auth_db" where
  "overwrite_password cfg h i r db =
     (if as_mapped cfg \<and> \<not> as_upgrades cfg then Inl (Authentication_error Invalid_credentials)
      else if om_has (ad_passwords db) i then Inr (db\<lparr>ad_passwords := om_set i (stored_as cfg h r) (ad_passwords db)\<rparr>)
      else if as_mapped cfg then Inl (Authentication_error Invalid_credentials) else Inr db)"

text \<open>\<open>upgradeMappedPassword\<close>: an update of the row if it still holds what was observed.\<close>

definition upgrade_password :: "auth_settings \<Rightarrow> auth_host \<Rightarrow> string \<Rightarrow> stored_password \<Rightarrow> json \<Rightarrow> auth_db \<Rightarrow> auth_failure + auth_db" where
  "upgrade_password cfg h i observed r db =
     (if \<not> as_upgrades cfg \<or> om_get (ad_passwords db) i \<noteq> Some observed then Inl (Authentication_error Invalid_credentials)
      else Inr (db\<lparr>ad_passwords := om_set i (stored_as cfg h r) (ad_passwords db)\<rparr>))"

definition replace_password :: "auth_settings \<Rightarrow> auth_host \<Rightarrow> string \<Rightarrow> stored_password \<Rightarrow> json \<Rightarrow> auth_db \<Rightarrow> auth_failure + auth_db" where
  "replace_password cfg h i observed r db =
     (if as_mapped cfg then upgrade_password cfg h i observed r db else overwrite_password cfg h i r db)"

text \<open>Whether a verified password is replaced by a fresh record.\<close>

definition upgrades :: "auth_settings \<Rightarrow> verification \<Rightarrow> bool" where
  "upgrades cfg v \<longleftrightarrow> vf_needs_upgrade v \<and> (as_mapped cfg \<longrightarrow> as_upgrades cfg)"

subsection \<open>Registration\<close>

record registration =
  rg_identifier :: string
  rg_contact :: "string option"
  rg_password :: string

text \<open>The normalised identifier and the contact address of the input.\<close>

definition registration_names :: "auth_settings \<Rightarrow> auth_host \<Rightarrow> registration \<Rightarrow> auth_failure + string \<times> string" where
  "registration_names cfg h input =
     res_bind (normalized cfg h (rg_identifier input) True) (\<lambda>email.
     if as_mapped cfg \<and> as_contact cfg
     then (case normalize_identifier (ah_request h)
             (case rg_contact input of Some c \<Rightarrow> c | None \<Rightarrow> if as_contact_is_identifier cfg then email else []) Email True of
         None \<Rightarrow> Inl (Authentication_error Invalid_registration) | Some contact \<Rightarrow> Inr (email, contact))
     else Inr (email, email))"

text \<open>The checks, and the record of the password.\<close>

definition register_check :: "auth_settings \<Rightarrow> auth_host \<Rightarrow> registration \<Rightarrow> string \<Rightarrow> int \<Rightarrow> auth_db \<Rightarrow>
    (auth_failure + string \<times> string \<times> json) \<times> auth_db" where
  "register_check cfg h input salt now db =
     (case res_bind (assert_mutation_allowed cfg) (\<lambda>_. res_bind (registration_names cfg h input) (\<lambda>names.
         res_bind (assert_new_password h (rg_password input)) (\<lambda>_. Inr names))) of
        Inl e \<Rightarrow> (Inl e, db)
      | Inr (email, contact) \<Rightarrow>
        (case rate_limit h ''register'' email 5 3600 3600 now db of
           (Inl e, db) \<Rightarrow> (Inl e, db)
         | (Inr _, db) \<Rightarrow> (map_sum id (\<lambda>r. (email, contact, r)) (create_password h salt (rg_password input)), db)))"

text \<open>\<open>insertMappedRegistration\<close>, or the same on the tables of Doxa.\<close>

definition insert_registration :: "auth_settings \<Rightarrow> auth_host \<Rightarrow> string \<Rightarrow> string \<Rightarrow> string \<Rightarrow> json \<Rightarrow> bool \<Rightarrow> int \<Rightarrow> auth_db \<Rightarrow>
    (auth_failure + auth_identity) \<times> auth_db" where
  "insert_registration cfg h i email contact r eligible now db =
     (if as_mapped cfg \<and> \<not> as_upgrades cfg then (Inl (Authentication_error Invalid_credentials), db)
      else if identity_row_of i db \<noteq> None \<or> om_has (ad_passwords db) i \<or> identity_by_identifier cfg h email db \<noteq> None
      then (Inl (Authentication_error Email_taken), db)
      else (let row = \<lparr>id_id = i, id_identifier = email,
              id_contact = (if as_mapped cfg \<and> as_contact cfg then Some contact else None), id_verified = None,
              id_created = now, id_eligible = eligible\<rparr> in
        (Inr (identity_from_stored cfg h row),
         audit ''identity.registered'' (Some i) None now
           (db\<lparr>ad_identities := ad_identities db @ [row], ad_passwords := om_set i (stored_as cfg h r) (ad_passwords db)\<rparr>))))"

definition register :: "auth_settings \<Rightarrow> auth_host \<Rightarrow> registration \<Rightarrow> string \<Rightarrow> string \<Rightarrow> bool \<Rightarrow> int \<Rightarrow> auth_db \<Rightarrow>
    (auth_failure + auth_identity) \<times> auth_db" where
  "register cfg h input i salt eligible now db =
     (case register_check cfg h input salt now db of
        (Inl e, db) \<Rightarrow> (Inl e, db)
      | (Inr (email, contact, r), db) \<Rightarrow> insert_registration cfg h i email contact r eligible now db)"

text \<open>
  A managed identity is created by the application, through \<open>registerManagedIdentity\<close> of the runtime,
  which is given the identifiers and what stores the password (\<open>upsertMappedPassword\<close>) in its transaction.
\<close>

definition persist_authentication :: "auth_settings \<Rightarrow> auth_host \<Rightarrow> json \<Rightarrow> int \<Rightarrow> string \<Rightarrow> auth_db \<Rightarrow> auth_failure + auth_db" where
  "persist_authentication cfg h r now i db =
     (if \<not> as_upgrades cfg then Inl (Authentication_error Invalid_credentials)
      else Inr (audit ''identity.registered'' (Some i) None now
        (db\<lparr>ad_passwords := om_set i (stored_as cfg h r) (ad_passwords db)\<rparr>)))"

definition register_managed :: "(string \<Rightarrow> string \<Rightarrow> string option \<Rightarrow> (string \<Rightarrow> auth_db \<Rightarrow> auth_failure + auth_db) \<Rightarrow> auth_db \<Rightarrow>
    (auth_failure + string) \<times> auth_db) \<Rightarrow> auth_settings \<Rightarrow> auth_host \<Rightarrow> registration \<Rightarrow> string \<Rightarrow> string \<Rightarrow> int \<Rightarrow> auth_db \<Rightarrow>
    (auth_failure + auth_identity) \<times> auth_db" where
  "register_managed runtime cfg h input i salt now db =
     (case register_check cfg h input salt now db of
        (Inl e, db) \<Rightarrow> (Inl e, db)
      | (Inr (email, contact, r), db) \<Rightarrow>
        (case runtime i email (truthy_string (Some contact)) (persist_authentication cfg h r now) db of
           (Inl e, db) \<Rightarrow> (Inl e, db)
         | (Inr persisted, db) \<Rightarrow> ((case identity_row_of persisted db of
               None \<Rightarrow> Inl Internal_error | Some row \<Rightarrow> Inr (identity_from_stored cfg h row)), db)))"

subsection \<open>Login\<close>

record pending_login =
  pl_identity :: identity_row
  pl_observed :: stored_password
  pl_upgraded :: "json option"

record session_grant =
  sg_identity :: auth_identity
  sg_session :: session_row
  sg_token :: string

definition credentials_of :: "auth_settings \<Rightarrow> auth_host \<Rightarrow> string \<Rightarrow> auth_db \<Rightarrow> (identity_row \<times> stored_password) option" where
  "credentials_of cfg h email db = (case identity_by_identifier cfg h email db of
     None \<Rightarrow> None
   | Some r \<Rightarrow> map_option (\<lambda>p. (r, p)) (om_get (ad_passwords db) (id_id r)))"

definition upgraded_record :: "auth_settings \<Rightarrow> auth_host \<Rightarrow> verification \<Rightarrow> string \<Rightarrow> string \<Rightarrow> auth_failure + json option" where
  "upgraded_record cfg h v salt password =
     (if upgrades cfg v then map_sum id Some (create_password h salt password) else Inr None)"

definition login_check :: "auth_settings \<Rightarrow> auth_host \<Rightarrow> string \<Rightarrow> string \<Rightarrow> string option \<Rightarrow> string \<Rightarrow> int \<Rightarrow> auth_db \<Rightarrow>
    (auth_failure + pending_login) \<times> auth_db" where
  "login_check cfg h identifier password ip salt now db =
     (case normalized cfg h identifier False of
        Inl e \<Rightarrow> (Inl e, db)
      | Inr email \<Rightarrow>
        (case rate_limit h ''login'' (bucket email ip) 5 900 900 now db of
           (Inl e, db) \<Rightarrow> (Inl e, db)
         | (Inr _, db) \<Rightarrow>
           (case credentials_of cfg h email db of
              None \<Rightarrow> (Inl (Authentication_error Invalid_credentials), audit ''authentication.failed'' None None now db)
            | Some (r, observed) \<Rightarrow>
              (let v = verify_candidate cfg h password observed in
               if \<not> vf_valid v
               then (Inl (Authentication_error Invalid_credentials), audit ''authentication.failed'' None None now db)
               else (case ensure_eligible cfg now (id_id r) db of
                   (False, db) \<Rightarrow> (Inl (Authentication_error Invalid_credentials), db)
                 | (True, db) \<Rightarrow>
                   (case upgraded_record cfg h v salt password of
                      Inl e \<Rightarrow> (Inl e, clear_rate_limit h ''login'' (bucket email ip) db)
                    | Inr upgraded \<Rightarrow> (Inr \<lparr>pl_identity = r, pl_observed = observed, pl_upgraded = upgraded\<rparr>,
                        clear_rate_limit h ''login'' (bucket email ip) db)))))))"

definition new_session :: "auth_settings \<Rightarrow> auth_host \<Rightarrow> string \<Rightarrow> string \<Rightarrow> string \<Rightarrow> int \<Rightarrow> session_row" where
  "new_session cfg h i sid token now = \<lparr>sn_id = sid, sn_identity = i, sn_digest = ah_digest h token, sn_previous = None,
     sn_previous_until = None, sn_created = now, sn_authenticated = now, sn_last_seen = now,
     sn_idle_until = now + as_idle cfg * 1000, sn_expires = now + as_absolute cfg * 1000, sn_revoked = None,
     sn_impersonation = None\<rparr>"

definition login_commit :: "auth_settings \<Rightarrow> auth_host \<Rightarrow> pending_login \<Rightarrow> string \<Rightarrow> string \<Rightarrow> int \<Rightarrow> auth_db \<Rightarrow>
    (auth_failure + session_grant) \<times> auth_db" where
  "login_commit cfg h p sid token now db =
     (let i = id_id (pl_identity p); s = new_session cfg h i sid token now in
      case res_bind (case pl_upgraded p of None \<Rightarrow> Inr db | Some r \<Rightarrow> replace_password cfg h i (pl_observed p) r db)
          (\<lambda>db. put_sessions (ad_sessions db @ [s]) db) of
        Inl e \<Rightarrow> (Inl e, db)
      | Inr db' \<Rightarrow> (Inr \<lparr>sg_identity = identity_from_stored cfg h (pl_identity p), sg_session = s, sg_token = token\<rparr>,
          audit ''session.created'' (Some i) (Some sid) now db'))"

definition login :: "auth_settings \<Rightarrow> auth_host \<Rightarrow> string \<Rightarrow> string \<Rightarrow> string option \<Rightarrow> string \<Rightarrow> string \<Rightarrow> string \<Rightarrow> int \<Rightarrow> auth_db \<Rightarrow>
    (auth_failure + session_grant) \<times> auth_db" where
  "login cfg h identifier password ip salt sid token now db =
     (case login_check cfg h identifier password ip salt now db of
        (Inl e, db) \<Rightarrow> (Inl e, db) | (Inr p, db) \<Rightarrow> login_commit cfg h p sid token now db)"

subsection \<open>Challenges\<close>

definition challenge_event :: "purpose \<Rightarrow> string" where
  "challenge_event p = (case p of Email_verification \<Rightarrow> ''identity.verification_issued'' | Password_reset \<Rightarrow> ''password.reset_issued'')"

record challenge_grant =
  cg_identity :: string
  cg_token :: string
  cg_expires :: int

definition open_of :: "string \<Rightarrow> purpose \<Rightarrow> challenge_row \<Rightarrow> bool" where
  "open_of i p c \<longleftrightarrow> ch_identity c = i \<and> ch_purpose c = p \<and> ch_consumed c = None"

text \<open>\<open>#issueChallenge\<close>: earlier challenges of the same purpose are used up.\<close>

definition issue_challenge :: "auth_settings \<Rightarrow> auth_host \<Rightarrow> string \<Rightarrow> purpose \<Rightarrow> string \<Rightarrow> string \<Rightarrow> string \<Rightarrow> int \<Rightarrow> auth_db \<Rightarrow>
    (auth_failure + challenge_grant) \<times> auth_db" where
  "issue_challenge cfg h i p contact cid token now db =
     (let d = ah_digest h token; expires = now + as_challenge cfg * 1000 in
      if list_ex (\<lambda>c. ch_id c = cid \<or> ch_digest c = d) (ad_challenges db) then (Inl Internal_error, db)
      else (Inr \<lparr>cg_identity = i, cg_token = token, cg_expires = expires\<rparr>,
        audit (challenge_event p) (Some i) None now (db\<lparr>ad_challenges :=
          map_where (open_of i p) (\<lambda>c. c\<lparr>ch_consumed := Some now\<rparr>) (ad_challenges db) @
          [\<lparr>ch_id = cid, ch_identity = i, ch_purpose = p, ch_digest = d, ch_recipient = ah_digest h contact,
            ch_expires = expires, ch_consumed = None\<rparr>]\<rparr>)))"

definition issue_email_verification :: "auth_settings \<Rightarrow> auth_host \<Rightarrow> string \<Rightarrow> string \<Rightarrow> string \<Rightarrow> int \<Rightarrow> auth_db \<Rightarrow>
    (auth_failure + challenge_grant) \<times> auth_db" where
  "issue_email_verification cfg h i cid token now db =
     (case res_bind (assert_mutation_allowed cfg) (\<lambda>_. assert_verification_available cfg) of
        Inl e \<Rightarrow> (Inl e, db)
      | Inr _ \<Rightarrow>
        (case find_identity cfg h now i db of
           (None, db) \<Rightarrow> (Inl (Authentication_error Invalid_credentials), db)
         | (Some identity, db) \<Rightarrow>
           (case ai_contact identity of
              None \<Rightarrow> (Inl (Authentication_error Invalid_credentials), db)
            | Some contact \<Rightarrow> if contact = [] \<or> ai_verification identity = Not_supported
                then (Inl (Authentication_error Invalid_credentials), db)
                else issue_challenge cfg h i Email_verification contact cid token now db)))"

definition issue_password_reset :: "auth_settings \<Rightarrow> auth_host \<Rightarrow> string \<Rightarrow> string option \<Rightarrow> string \<Rightarrow> string \<Rightarrow> int \<Rightarrow> auth_db \<Rightarrow>
    (auth_failure + challenge_grant option) \<times> auth_db" where
  "issue_password_reset cfg h identifier ip cid token now db =
     (case res_bind (assert_mutation_allowed cfg) (\<lambda>_. normalized cfg h identifier False) of
        Inl e \<Rightarrow> (Inl e, db)
      | Inr email \<Rightarrow>
        (case rate_limit h ''password_reset'' (bucket email ip) 3 3600 3600 now db of
           (Inl e, db) \<Rightarrow> (Inl e, db)
         | (Inr _, db) \<Rightarrow>
           (case identity_by_identifier cfg h email db of
              None \<Rightarrow> (Inr None, db)
            | Some r \<Rightarrow>
              (case ensure_eligible cfg now (id_id r) db of
                 (False, db) \<Rightarrow> (Inr None, db)
               | (True, db) \<Rightarrow>
                 (case truthy_string (ai_contact (identity_from_stored cfg h r)) of
                    None \<Rightarrow> (Inr None, db)
                  | Some contact \<Rightarrow>
                    (case issue_challenge cfg h (id_id r) Password_reset contact cid token now db of
                       (Inl e, db) \<Rightarrow> (Inl e, db) | (Inr g, db) \<Rightarrow> (Inr (Some g), db)))))))"

text \<open>The update that uses a challenge up, and the challenge.\<close>

definition open_challenge :: "string \<Rightarrow> purpose \<Rightarrow> int \<Rightarrow> challenge_row \<Rightarrow> bool" where
  "open_challenge d p now c \<longleftrightarrow> ch_digest c = d \<and> ch_purpose c = p \<and> ch_consumed c = None \<and> ch_expires c > now"

definition consume_challenge :: "string \<Rightarrow> purpose \<Rightarrow> int \<Rightarrow> auth_db \<Rightarrow> auth_db" where
  "consume_challenge d p now db = db\<lparr>ad_challenges :=
     map_where (open_challenge d p now) (\<lambda>c. c\<lparr>ch_consumed := Some now\<rparr>) (ad_challenges db)\<rparr>"

definition recipient_matches :: "auth_host \<Rightarrow> challenge_row \<Rightarrow> auth_identity option \<Rightarrow> bool" where
  "recipient_matches h c identity = (case identity of
     None \<Rightarrow> False
   | Some a \<Rightarrow> (case truthy_string (ai_contact a) of None \<Rightarrow> False | Some contact \<Rightarrow> ah_digest h contact = ch_recipient c))"

text \<open>
  A challenge is redeemed in a transaction that also does the work. The check of the recipient reads
  outside of it, so what that does to an identity that may no longer authenticate stays.
\<close>

definition redeem :: "auth_settings \<Rightarrow> auth_host \<Rightarrow> string \<Rightarrow> purpose \<Rightarrow> int \<Rightarrow> (string \<Rightarrow> auth_db \<Rightarrow> auth_failure + auth_db) \<Rightarrow> auth_db \<Rightarrow>
    (auth_failure + string) \<times> auth_db" where
  "redeem cfg h token p now work db =
     (case find (open_challenge (ah_digest h token) p now) (ad_challenges db) of
        None \<Rightarrow> (Inl (Authentication_error Invalid_token), db)
      | Some c \<Rightarrow>
        (case find_identity cfg h now (ch_identity c) db of
           (identity, db1) \<Rightarrow>
             if \<not> recipient_matches h c identity then (Inl (Authentication_error Invalid_token), db1)
             else (case work (ch_identity c) (consume_challenge (ah_digest h token) p now db1) of
                 Inl e \<Rightarrow> (Inl e, db1) | Inr db2 \<Rightarrow> (Inr (ch_identity c), db2))))"

definition mark_verified :: "auth_settings \<Rightarrow> int \<Rightarrow> string \<Rightarrow> auth_db \<Rightarrow> auth_failure + auth_db" where
  "mark_verified cfg now i db =
     (if as_mapped cfg \<and> identity_row_of i db = None then Inl (Authentication_error Invalid_credentials)
      else Inr (audit ''identity.email_verified'' (Some i) None now
        (db\<lparr>ad_identities := map_where (\<lambda>r. id_id r = i) (\<lambda>r. r\<lparr>id_verified := Some now\<rparr>) (ad_identities db)\<rparr>)))"

definition verify_email :: "auth_settings \<Rightarrow> auth_host \<Rightarrow> string \<Rightarrow> int \<Rightarrow> auth_db \<Rightarrow> (auth_failure + auth_identity option) \<times> auth_db" where
  "verify_email cfg h token now db =
     (case res_bind (assert_mutation_allowed cfg) (\<lambda>_. assert_verification_available cfg) of
        Inl e \<Rightarrow> (Inl e, db)
      | Inr _ \<Rightarrow>
        (case redeem cfg h token Email_verification now (mark_verified cfg now) db of
           (Inl e, db) \<Rightarrow> (Inl e, db)
         | (Inr i, db) \<Rightarrow> (case find_identity cfg h now i db of (identity, db) \<Rightarrow> (Inr identity, db))))"

definition put_new_password :: "auth_settings \<Rightarrow> auth_host \<Rightarrow> json \<Rightarrow> int \<Rightarrow> string \<Rightarrow> auth_db \<Rightarrow> auth_failure + auth_db" where
  "put_new_password cfg h r now i db = res_bind (overwrite_password cfg h i r db)
     (\<lambda>db. Inr (audit ''password.reset'' (Some i) None now (revoke_sessions i now db)))"

definition reset_password :: "auth_settings \<Rightarrow> auth_host \<Rightarrow> string \<Rightarrow> string \<Rightarrow> string \<Rightarrow> int \<Rightarrow> auth_db \<Rightarrow> (auth_failure + string) \<times> auth_db" where
  "reset_password cfg h token password salt now db =
     (case res_bind (assert_mutation_allowed cfg) (\<lambda>_. res_bind (assert_new_password h password) (\<lambda>_. create_password h salt password)) of
        Inl e \<Rightarrow> (Inl e, db)
      | Inr r \<Rightarrow> redeem cfg h token Password_reset now (put_new_password cfg h r now) db)"

subsection \<open>Changing a password\<close>

record pending_change =
  pc_observed :: stored_password
  pc_record :: json

definition known_password :: "auth_settings \<Rightarrow> string \<Rightarrow> auth_db \<Rightarrow> stored_password option" where
  "known_password cfg i db = (case om_get (ad_passwords db) i of
     None \<Rightarrow> None | Some p \<Rightarrow> if as_mapped cfg \<and> p = Encoded_password [] then None else Some p)"

definition change_check :: "auth_settings \<Rightarrow> auth_host \<Rightarrow> string \<Rightarrow> string \<Rightarrow> string \<Rightarrow> string \<Rightarrow> int \<Rightarrow> auth_db \<Rightarrow>
    (auth_failure + pending_change) \<times> auth_db" where
  "change_check cfg h i current password salt now db =
     (case assert_mutation_allowed cfg of
        Inl e \<Rightarrow> (Inl e, db)
      | Inr _ \<Rightarrow>
        (case ensure_eligible cfg now i db of
           (False, db) \<Rightarrow> (Inl (Authentication_error Invalid_credentials), db)
         | (True, db) \<Rightarrow>
           (case assert_new_password h password of
              Inl e \<Rightarrow> (Inl e, db)
            | Inr _ \<Rightarrow>
              (case known_password cfg i db of
                 None \<Rightarrow> (Inl (Authentication_error Invalid_credentials), db)
               | Some observed \<Rightarrow>
                 if \<not> vf_valid (verify_candidate cfg h current observed)
                 then (Inl (Authentication_error Invalid_credentials), db)
                 else (map_sum id (\<lambda>r. \<lparr>pc_observed = observed, pc_record = r\<rparr>) (create_password h salt password), db)))))"

definition change_commit :: "auth_settings \<Rightarrow> auth_host \<Rightarrow> string \<Rightarrow> pending_change \<Rightarrow> int \<Rightarrow> auth_db \<Rightarrow> (auth_failure + unit) \<times> auth_db" where
  "change_commit cfg h i p now db =
     (case replace_password cfg h i (pc_observed p) (pc_record p) db of
        Inl e \<Rightarrow> (Inl e, db)
      | Inr db' \<Rightarrow> (Inr (), audit ''password.changed'' (Some i) None now (revoke_sessions i now db')))"

definition change_password :: "auth_settings \<Rightarrow> auth_host \<Rightarrow> string \<Rightarrow> string \<Rightarrow> string \<Rightarrow> string \<Rightarrow> int \<Rightarrow> auth_db \<Rightarrow> (auth_failure + unit) \<times> auth_db" where
  "change_password cfg h i current password salt now db =
     (case change_check cfg h i current password salt now db of
        (Inl e, db) \<Rightarrow> (Inl e, db) | (Inr p, db) \<Rightarrow> change_commit cfg h i p now db)"

end
