(* ===== verification/AuthSessions.thy ===== *)
theory AuthSessions
  imports AuthStore "HOL-Library.Char_ord"
begin

text \<open>
  Sessions, impersonation and access tokens of Postgres authentication,
  \<open>packages/auth-postgres/src/postgres-auth.ts\<close>, and the requests they authenticate. As in
  AuthStore, what an operation reads first and what it writes in a transaction are separate functions.
  The time an access token expires is in microseconds, as every \<open>Instant\<close> of a result is.
\<close>

definition micros :: "int \<Rightarrow> int" where
  "micros t = t * 1000"

abbreviation unauthenticated :: auth_failure where
  "unauthenticated \<equiv> Authentication_error Invalid_credentials"

subsection \<open>Authenticating again\<close>

record pending_reauthentication =
  pr_observed :: stored_password
  pr_upgraded :: "json option"

definition reauthenticate_check :: "auth_settings \<Rightarrow> auth_host \<Rightarrow> string \<Rightarrow> string \<Rightarrow> string \<Rightarrow> string option \<Rightarrow> string \<Rightarrow> int \<Rightarrow>
    auth_db \<Rightarrow> (auth_failure + pending_reauthentication) \<times> auth_db" where
  "reauthenticate_check cfg h i sid password ip salt now db =
     (case ensure_eligible cfg now i db of
        (False, db) \<Rightarrow> (Inl unauthenticated, db)
      | (True, db) \<Rightarrow>
        (case rate_limit h ''reauthenticate'' (bucket i ip) 5 900 900 now db of
           (Inl e, db) \<Rightarrow> (Inl e, db)
         | (Inr _, db) \<Rightarrow>
           (case known_password cfg i db of
              None \<Rightarrow> (Inl unauthenticated, audit ''session.reauthentication_failed'' (Some i) (Some sid) now db)
            | Some observed \<Rightarrow>
              (let v = verify_candidate cfg h password observed in
               if \<not> vf_valid v
               then (Inl unauthenticated, audit ''session.reauthentication_failed'' (Some i) (Some sid) now db)
               else (map_sum id (\<lambda>upgraded. \<lparr>pr_observed = observed, pr_upgraded = upgraded\<rparr>)
                   (upgraded_record cfg h v salt password), db)))))"

definition live_session :: "int \<Rightarrow> session_row \<Rightarrow> bool" where
  "live_session now s \<longleftrightarrow> sn_revoked s = None \<and> sn_expires s > now \<and> sn_idle_until s > now"

definition refresh_session :: "string \<Rightarrow> string \<Rightarrow> int \<Rightarrow> auth_db \<Rightarrow> auth_failure + auth_db" where
  "refresh_session i sid now db =
     (let own = (\<lambda>s. sn_id s = sid \<and> sn_identity s = i \<and> live_session now s) in
      if \<not> list_ex own (ad_sessions db) then Inl unauthenticated
      else Inr (audit ''session.reauthenticated'' (Some i) (Some sid) now (db\<lparr>ad_sessions :=
        map_where own (\<lambda>s. s\<lparr>sn_authenticated := now, sn_last_seen := now\<rparr>) (ad_sessions db)\<rparr>)))"

definition reauthenticate_commit :: "auth_settings \<Rightarrow> auth_host \<Rightarrow> string \<Rightarrow> string \<Rightarrow> string option \<Rightarrow> pending_reauthentication \<Rightarrow> int \<Rightarrow>
    auth_db \<Rightarrow> (auth_failure + int) \<times> auth_db" where
  "reauthenticate_commit cfg h i sid ip p now db =
     (case res_bind (case pr_upgraded p of None \<Rightarrow> Inr db | Some r \<Rightarrow> replace_password cfg h i (pr_observed p) r db)
         (refresh_session i sid now) of
        Inl e \<Rightarrow> (Inl e, db)
      | Inr db' \<Rightarrow> (Inr (micros now), clear_rate_limit h ''reauthenticate'' (bucket i ip) db'))"

subsection \<open>Impersonation\<close>

record impersonation_grant =
  ig_identity :: auth_identity
  ig_target :: auth_identity
  ig_session :: session_row
  ig_token :: string

text \<open>The check constraint of the session table; \<open>btrim\<close> takes spaces away.\<close>

definition btrim :: "string \<Rightarrow> string" where
  "btrim s = rev (dropWhile (\<lambda>c. c = CHR '' '') (rev (dropWhile (\<lambda>c. c = CHR '' '') s)))"

definition impersonation_complete :: "session_row \<Rightarrow> bool" where
  "impersonation_complete s = (case sn_impersonation s of
     None \<Rightarrow> True
   | Some im \<Rightarrow> im_target im \<noteq> sn_identity s \<and> 1 \<le> length (btrim (im_reason im)) \<and> length (btrim (im_reason im)) \<le> 500 \<and>
       im_expires im > im_started im \<and> im_expires im \<le> sn_expires s)"

definition put_impersonations :: "session_row list \<Rightarrow> auth_db \<Rightarrow> auth_failure + auth_db" where
  "put_impersonations ss db = (if list_all impersonation_complete ss then put_sessions ss db else Inl Internal_error)"

definition may_impersonate :: "string \<Rightarrow> string \<Rightarrow> int \<Rightarrow> session_row \<Rightarrow> bool" where
  "may_impersonate i sid now s \<longleftrightarrow> sn_id s = sid \<and> sn_identity s = i \<and> sn_impersonation s = None \<and>
     sn_authenticated s > now - 900000 \<and> live_session now s"

definition start_impersonation_commit :: "auth_settings \<Rightarrow> auth_host \<Rightarrow> string \<Rightarrow> string \<Rightarrow> string \<Rightarrow> string \<Rightarrow> string \<Rightarrow> string \<Rightarrow> int \<Rightarrow>
    auth_db \<Rightarrow> (auth_failure + session_row) \<times> auth_db" where
  "start_impersonation_commit cfg h i sid target reason grant token now db =
     (let started = (\<lambda>s. s\<lparr>sn_digest := ah_digest h token, sn_previous := None, sn_previous_until := None,
        sn_last_seen := now, sn_impersonation := Some \<lparr>im_grant = grant, im_target = target, im_reason = reason,
          im_started = now, im_expires = min (sn_expires s) (now + as_impersonation cfg * 1000)\<rparr>\<rparr>) in
      case find (may_impersonate i sid now) (ad_sessions db) of
        None \<Rightarrow> (Inl (Authentication_error Impersonation_not_allowed), db)
      | Some s \<Rightarrow>
        (case put_impersonations (map_where (may_impersonate i sid now) started (ad_sessions db)) db of
           Inl e \<Rightarrow> (Inl e, db)
         | Inr db' \<Rightarrow> (Inr (started s), audit ''impersonation.started'' (Some i) (Some sid) now db')))"

definition start_impersonation :: "auth_settings \<Rightarrow> auth_host \<Rightarrow> string \<Rightarrow> string \<Rightarrow> string \<Rightarrow> string \<Rightarrow> string \<Rightarrow> string \<Rightarrow> int \<Rightarrow>
    auth_db \<Rightarrow> (auth_failure + impersonation_grant) \<times> auth_db" where
  "start_impersonation cfg h i sid target reason grant token now db =
     (let reason = js_trim reason; refused = Inl (Authentication_error Impersonation_not_allowed) in
      case find_identity cfg h now i db of (identity, db) \<Rightarrow>
      case find_identity cfg h now target db of (aim, db) \<Rightarrow>
      case (identity, aim) of
        (Some identity, Some aim) \<Rightarrow>
          if i = target \<or> length reason < 1 \<or> length reason > 500 then (refused, db)
          else (case ensure_eligible cfg now i db of
              (False, db) \<Rightarrow> (refused, db)
            | (True, db) \<Rightarrow>
              (case ensure_eligible cfg now target db of
                 (False, db) \<Rightarrow> (refused, db)
               | (True, db) \<Rightarrow>
                 (case start_impersonation_commit cfg h i sid target reason grant token now db of
                    (Inl e, db) \<Rightarrow> (Inl e, db)
                  | (Inr s, db) \<Rightarrow> (Inr \<lparr>ig_identity = identity, ig_target = aim, ig_session = s, ig_token = token\<rparr>, db))))
      | _ \<Rightarrow> (refused, db))"

definition revoke_session :: "string \<Rightarrow> int \<Rightarrow> auth_db \<Rightarrow> auth_db" where
  "revoke_session sid now db =
     (let p = (\<lambda>s. sn_id s = sid \<and> sn_revoked s = None) in
      case find p (ad_sessions db) of
        None \<Rightarrow> db
      | Some s \<Rightarrow> audit ''session.revoked'' (Some (sn_identity s)) (Some sid) now
          (db\<lparr>ad_sessions := map_where p (\<lambda>s. s\<lparr>sn_revoked := Some now\<rparr>) (ad_sessions db)\<rparr>))"

definition impersonating :: "string \<Rightarrow> string \<Rightarrow> string \<Rightarrow> int \<Rightarrow> session_row \<Rightarrow> bool" where
  "impersonating i sid grant now s \<longleftrightarrow> sn_id s = sid \<and> sn_identity s = i \<and> sn_revoked s = None \<and>
     (case sn_impersonation s of None \<Rightarrow> False | Some im \<Rightarrow> im_grant im = grant \<and> im_expires im > now)"

definition stop_impersonation_commit :: "auth_host \<Rightarrow> string \<Rightarrow> string \<Rightarrow> string \<Rightarrow> string \<Rightarrow> int \<Rightarrow> auth_db \<Rightarrow>
    (auth_failure + session_row) \<times> auth_db" where
  "stop_impersonation_commit h i sid grant token now db =
     (let stopped = (\<lambda>s. s\<lparr>sn_digest := ah_digest h token, sn_previous := None, sn_previous_until := None,
        sn_last_seen := now, sn_impersonation := None\<rparr>) in
      case find (impersonating i sid grant now) (ad_sessions db) of
        None \<Rightarrow> (Inl (Authentication_error Impersonation_not_active), db)
      | Some s \<Rightarrow>
        (case put_sessions (map_where (impersonating i sid grant now) stopped (ad_sessions db)) db of
           Inl e \<Rightarrow> (Inl e, db)
         | Inr db' \<Rightarrow> (Inr (stopped s), audit ''impersonation.stopped'' (Some i) (Some sid) now db')))"

definition stop_impersonation :: "auth_settings \<Rightarrow> auth_host \<Rightarrow> string \<Rightarrow> string \<Rightarrow> string \<Rightarrow> string \<Rightarrow> int \<Rightarrow> auth_db \<Rightarrow>
    (auth_failure + session_grant) \<times> auth_db" where
  "stop_impersonation cfg h i sid grant token now db =
     (case stop_impersonation_commit h i sid grant token now db of
        (Inl e, db) \<Rightarrow> (Inl e, db)
      | (Inr s, db) \<Rightarrow>
        (case find_identity cfg h now i db of
           (None, db) \<Rightarrow> (Inl unauthenticated, revoke_session sid now db)
         | (Some identity, db) \<Rightarrow> (Inr \<lparr>sg_identity = identity, sg_session = s, sg_token = token\<rparr>, db)))"

subsection \<open>Listing and revoking sessions\<close>

definition list_sessions :: "auth_settings \<Rightarrow> string \<Rightarrow> int \<Rightarrow> auth_db \<Rightarrow> (auth_failure + session_row list) \<times> auth_db" where
  "list_sessions cfg i now db = (case ensure_eligible cfg now i db of
     (False, db) \<Rightarrow> (Inl unauthenticated, db)
   | (True, db) \<Rightarrow> (Inr (filter (\<lambda>s. sn_identity s = i) (ad_sessions db)), db))"

definition revoke_all_sessions :: "string \<Rightarrow> int \<Rightarrow> auth_db \<Rightarrow> nat \<times> auth_db" where
  "revoke_all_sessions i now db =
     (length (filter (\<lambda>s. sn_identity s = i \<and> sn_revoked s = None) (ad_sessions db)),
      audit ''sessions.revoked_all'' (Some i) None now (revoke_sessions i now db))"

subsection \<open>Access tokens\<close>

record token_request =
  tq_name :: string
  tq_constraints :: "string list"
  tq_expires :: "int option"

definition token_constraint :: "string \<Rightarrow> bool" where
  "token_constraint s = (case s of [] \<Rightarrow> False
     | c # cs \<Rightarrow> is_lower c \<and> length cs \<le> 127 \<and> list_all (\<lambda>c. is_lower c \<or> is_digit c \<or> c \<in> set ''._:-'') cs)"

definition token_text :: "string \<Rightarrow> string \<Rightarrow> string" where
  "token_text tid secret = ''doxa_pat_'' @ tid @ ''_'' @ secret"

definition access_token_material :: "auth_host \<Rightarrow> string \<Rightarrow> token_request \<Rightarrow> string \<Rightarrow> string \<Rightarrow> int \<Rightarrow> auth_failure + token_row" where
  "access_token_material h i input tid secret now =
     (let name = js_trim (tq_name input); constraints = sort (remdups (tq_constraints input));
          expires = (case tq_expires input of Some t \<Rightarrow> t | None \<Rightarrow> micros (now + 30 * 24 * 60 * 60 * 1000)) in
      if length name < 1 \<or> length name > 100 \<or> length constraints > 100 \<or> \<not> list_all token_constraint constraints \<or>
         expires \<le> micros now
      then Inl (Authentication_error Invalid_registration)
      else Inr \<lparr>tk_id = tid, tk_identity = i, tk_name = name, tk_digest = ah_digest h (token_text tid secret),
        tk_constraints = constraints, tk_created = now, tk_expires = expires, tk_last_used = None, tk_revoked = None\<rparr>)"

definition put_token :: "token_row \<Rightarrow> auth_db \<Rightarrow> auth_failure + auth_db" where
  "put_token t db = (if list_ex (\<lambda>u. tk_id u = tk_id t \<or> tk_digest u = tk_digest t) (ad_tokens db) then Inl Internal_error
     else Inr (db\<lparr>ad_tokens := ad_tokens db @ [t]\<rparr>))"

record token_grant =
  tg_row :: token_row
  tg_token :: string

definition issue_access_token :: "auth_settings \<Rightarrow> auth_host \<Rightarrow> string \<Rightarrow> token_request \<Rightarrow> string \<Rightarrow> string \<Rightarrow> int \<Rightarrow> auth_db \<Rightarrow>
    (auth_failure + token_grant) \<times> auth_db" where
  "issue_access_token cfg h i input tid secret now db =
     (case find_identity cfg h now i db of
        (None, db) \<Rightarrow> (Inl unauthenticated, db)
      | (Some _, db) \<Rightarrow>
        (case access_token_material h i input tid secret now of
           Inl e \<Rightarrow> (Inl e, db)
         | Inr t \<Rightarrow>
           (case put_token t db of
              Inl e \<Rightarrow> (Inl e, db)
            | Inr db' \<Rightarrow> (Inr \<lparr>tg_row = t, tg_token = token_text tid secret\<rparr>,
                audit ''access_token.issued'' (Some i) None now db'))))"

definition list_access_tokens :: "auth_settings \<Rightarrow> string \<Rightarrow> int \<Rightarrow> auth_db \<Rightarrow> (auth_failure + token_row list) \<times> auth_db" where
  "list_access_tokens cfg i now db = (case ensure_eligible cfg now i db of
     (False, db) \<Rightarrow> (Inl unauthenticated, db)
   | (True, db) \<Rightarrow> (Inr (filter (\<lambda>t. tk_identity t = i) (ad_tokens db)), db))"

text \<open>A rotation reads the token to replace before the transaction that replaces it.\<close>

definition rotate_check :: "auth_settings \<Rightarrow> string \<Rightarrow> string \<Rightarrow> int \<Rightarrow> auth_db \<Rightarrow> (auth_failure + token_row) \<times> auth_db" where
  "rotate_check cfg i tid now db = (case ensure_eligible cfg now i db of
     (False, db) \<Rightarrow> (Inl unauthenticated, db)
   | (True, db) \<Rightarrow>
     (case find (\<lambda>t. tk_id t = tid \<and> tk_identity t = i \<and> tk_revoked t = None) (ad_tokens db) of
        None \<Rightarrow> (Inl unauthenticated, db) | Some t \<Rightarrow> (Inr t, db)))"

definition rotate_commit :: "auth_host \<Rightarrow> string \<Rightarrow> token_row \<Rightarrow> string \<Rightarrow> string \<Rightarrow> int \<Rightarrow> auth_db \<Rightarrow> (auth_failure + token_grant) \<times> auth_db" where
  "rotate_commit h i existing tid secret now db =
     (case access_token_material h i \<lparr>tq_name = tk_name existing, tq_constraints = tk_constraints existing,
         tq_expires = Some (tk_expires existing)\<rparr> tid secret now of
        Inl e \<Rightarrow> (Inl e, db)
      | Inr t \<Rightarrow>
        (case put_token t (db\<lparr>ad_tokens := map_where (\<lambda>u. tk_id u = tk_id existing) (\<lambda>u. u\<lparr>tk_revoked := Some now\<rparr>) (ad_tokens db)\<rparr>) of
           Inl e \<Rightarrow> (Inl e, db)
         | Inr db' \<Rightarrow> (Inr \<lparr>tg_row = t, tg_token = token_text tid secret\<rparr>,
             audit ''access_token.rotated'' (Some i) None now db')))"

definition rotate_access_token :: "auth_settings \<Rightarrow> auth_host \<Rightarrow> string \<Rightarrow> string \<Rightarrow> string \<Rightarrow> string \<Rightarrow> int \<Rightarrow> auth_db \<Rightarrow>
    (auth_failure + token_grant) \<times> auth_db" where
  "rotate_access_token cfg h i old tid secret now db = (case rotate_check cfg i old now db of
     (Inl e, db) \<Rightarrow> (Inl e, db) | (Inr t, db) \<Rightarrow> rotate_commit h i t tid secret now db)"

definition revoke_access_token :: "auth_settings \<Rightarrow> string \<Rightarrow> string \<Rightarrow> int \<Rightarrow> auth_db \<Rightarrow> (auth_failure + unit) \<times> auth_db" where
  "revoke_access_token cfg i tid now db = (case ensure_eligible cfg now i db of
     (False, db) \<Rightarrow> (Inl unauthenticated, db)
   | (True, db) \<Rightarrow>
     (let p = (\<lambda>t. tk_id t = tid \<and> tk_identity t = i \<and> tk_revoked t = None) in
      (Inr (), if list_ex p (ad_tokens db)
        then audit ''access_token.revoked'' (Some i) None now
          (db\<lparr>ad_tokens := map_where p (\<lambda>t. t\<lparr>tk_revoked := Some now\<rparr>) (ad_tokens db)\<rparr>)
        else db)))"

end
