(* ===== verification/AuthRequests.thy ===== *)
theory AuthRequests
  imports AuthSessions Advisories
begin

text \<open>
  The requests Postgres authentication resolves, \<open>packages/auth-postgres/src/postgres-auth.ts\<close>: session
  cookies with their renewal and the impersonations they carry, bearer tokens, and the later check
  that an actor is still authenticated. Instants of a result are in microseconds.
\<close>

record resolved =
  rv_actor :: actor
  rv_initiator :: "actor option"
  rv_delegation :: "hop list option"
  rv_authentication :: authentication
  rv_cookie :: "string option"

definition user_actor :: "string \<Rightarrow> actor" where
  "user_actor i = \<lparr>actor_kind = JStr ''user'', actor_id = Some i\<rparr>"

definition anonymous_authentication :: resolved where
  "anonymous_authentication = \<lparr>rv_actor = \<lparr>actor_kind = JStr ''anonymous'', actor_id = None\<rparr>, rv_initiator = None,
     rv_delegation = None, rv_authentication = \<lparr>au_state = JStr ''anonymous'', au_identity_id = None, au_method = None,
       au_assurance = None, au_authenticated_at = None, au_session_id = None, au_impersonation_grant_id = None,
       au_credential_id = None, au_constraints = None\<rparr>, rv_cookie = None\<rparr>"

subsection \<open>Bearer tokens\<close>

text \<open>\<open>/^Bearer (doxa_pat_([A-Za-z0-9_-]{16})_[A-Za-z0-9_-]{43})$/\<close>: the token and its identifier.\<close>

definition bearer_token :: "string \<Rightarrow> (string \<times> string) option" where
  "bearer_token s = (let token = drop 7 s; tid = take 16 (drop 9 token); secret = drop 26 token in
     if take 7 s = ''Bearer '' \<and> take 9 token = ''doxa_pat_'' \<and> length tid = 16 \<and> list_all token_char tid \<and>
       take 1 (drop 25 token) = ''_'' \<and> length secret = 43 \<and> list_all token_char secret
     then Some (token, tid) else None)"

definition live_token :: "int \<Rightarrow> token_row \<Rightarrow> bool" where
  "live_token now t \<longleftrightarrow> tk_revoked t = None \<and> tk_expires t > micros now"

definition resolved_token :: "auth_identity \<Rightarrow> token_row \<Rightarrow> int \<Rightarrow> resolved" where
  "resolved_token identity t now = \<lparr>rv_actor = user_actor (ai_id identity), rv_initiator = None, rv_delegation = None,
     rv_authentication = \<lparr>au_state = JStr ''authenticated'', au_identity_id = Some (ai_id identity), au_method = Some ''bearer'',
       au_assurance = Some (JStr ''single-factor''), au_authenticated_at = Some (micros now), au_session_id = None,
       au_impersonation_grant_id = None, au_credential_id = Some (tk_id t), au_constraints = Some (tk_constraints t)\<rparr>,
     rv_cookie = None\<rparr>"

definition resolve_bearer :: "auth_settings \<Rightarrow> auth_host \<Rightarrow> string \<Rightarrow> int \<Rightarrow> auth_db \<Rightarrow> (auth_failure + resolved) \<times> auth_db" where
  "resolve_bearer cfg h authorization now db =
     (case bearer_token authorization of
        None \<Rightarrow> (Inl unauthenticated, db)
      | Some (token, tid) \<Rightarrow>
        (case find (\<lambda>t. tk_id t = tid \<and> tk_digest t = ah_digest h token \<and> live_token now t) (ad_tokens db) of
           None \<Rightarrow> (Inl unauthenticated, db)
         | Some t \<Rightarrow>
           (case find_identity cfg h now (tk_identity t) db of
              (None, db) \<Rightarrow> (Inl unauthenticated, db)
            | (Some identity, db) \<Rightarrow>
              (case ensure_eligible cfg now (tk_identity t) db of
                 (False, db) \<Rightarrow> (Inl unauthenticated, db)
               | (True, db) \<Rightarrow> (Inr (resolved_token identity t now), db\<lparr>ad_tokens :=
                   map_where (\<lambda>u. tk_id u = tk_id t) (\<lambda>u. u\<lparr>tk_last_used := Some now\<rparr>) (ad_tokens db)\<rparr>)))))"

subsection \<open>Session cookies\<close>

definition cookie_name :: "auth_settings \<Rightarrow> string" where
  "cookie_name cfg = (if as_secure cfg then ''__Host-doxa_session'' else ''doxa_session'')"

definition session_cookie :: "auth_settings \<Rightarrow> string \<Rightarrow> string" where
  "session_cookie cfg token = serialize_cookie (cookie_name cfg) token None (as_secure cfg)"

definition expired_session_cookie :: "auth_settings \<Rightarrow> string" where
  "expired_session_cookie cfg = serialize_cookie (cookie_name cfg) [] (Some 0) (as_secure cfg)"

definition upgrade_request :: "auth_request \<Rightarrow> bool" where
  "upgrade_request r \<longleftrightarrow> map_option (map lower_char) (rq_upgrade r) = Some ''websocket''"

text \<open>The session of a token, current or just replaced.\<close>

definition token_session :: "string \<Rightarrow> int \<Rightarrow> session_row \<Rightarrow> bool" where
  "token_session d now s \<longleftrightarrow> (sn_digest s = d \<or> sn_previous s = Some d \<and>
     (case sn_previous_until s of None \<Rightarrow> False | Some t \<Rightarrow> t > now)) \<and> live_session now s"

definition read_session :: "auth_host \<Rightarrow> string \<Rightarrow> int \<Rightarrow> auth_db \<Rightarrow> session_row option" where
  "read_session h token now db = find (token_session (ah_digest h token) now) (ad_sessions db)"

datatype party = Own | Acting impersonation auth_identity | Ended impersonation

definition party_of :: "auth_settings \<Rightarrow> auth_host \<Rightarrow> int \<Rightarrow> session_row \<Rightarrow> auth_db \<Rightarrow> party \<times> auth_db" where
  "party_of cfg h now s db = (case sn_impersonation s of
     None \<Rightarrow> (Own, db)
   | Some im \<Rightarrow>
     (case find_identity cfg h now (im_target im) db of
        (None, db) \<Rightarrow> (Ended im, db)
      | (Some target, db) \<Rightarrow>
        if \<not> im_expires im > now then (Ended im, db)
        else (case ensure_eligible cfg now (im_target im) db of
            (True, db) \<Rightarrow> (Acting im target, db) | (False, db) \<Rightarrow> (Ended im, db))))"

text \<open>An impersonation that has ended is cleared, unless it was taken away in the meantime.\<close>

definition carries :: "session_row \<Rightarrow> impersonation \<Rightarrow> session_row \<Rightarrow> bool" where
  "carries s im u \<longleftrightarrow> sn_id u = sn_id s \<and> sn_revoked u = None \<and> (case sn_impersonation u of
     None \<Rightarrow> False | Some j \<Rightarrow> im_grant j = im_grant im \<and> im_target j = im_target im)"

definition clear_impersonation :: "session_row \<Rightarrow> impersonation \<Rightarrow> int \<Rightarrow> auth_db \<Rightarrow> bool \<times> auth_db" where
  "clear_impersonation s im now db =
     (if \<not> list_ex (carries s im) (ad_sessions db) then (False, db)
      else (True, audit (if im_expires im > now then ''impersonation.ended'' else ''impersonation.expired'')
        (Some (sn_identity s)) (Some (sn_id s)) now
        (db\<lparr>ad_sessions := map_where (carries s im) (\<lambda>u. u\<lparr>sn_impersonation := None\<rparr>) (ad_sessions db)\<rparr>)))"

text \<open>The session was seen; when it is time its token is replaced, and the old one still serves a while.\<close>

definition renewal_due :: "auth_settings \<Rightarrow> auth_host \<Rightarrow> bool \<Rightarrow> string \<Rightarrow> int \<Rightarrow> session_row \<Rightarrow> bool" where
  "renewal_due cfg h upgrade token now s \<longleftrightarrow>
     \<not> upgrade \<and> sn_digest s = ah_digest h token \<and> now - sn_last_seen s \<ge> as_renewal cfg * 1000"

definition touch_session :: "auth_settings \<Rightarrow> auth_host \<Rightarrow> bool \<Rightarrow> string \<Rightarrow> int \<Rightarrow> session_row \<Rightarrow> string \<Rightarrow> auth_db \<Rightarrow>
    (auth_failure + string option) \<times> auth_db" where
  "touch_session cfg h upgrade token now s replacement db =
     (let idle = min (sn_expires s) (now + as_idle cfg * 1000);
          current = (\<lambda>u. sn_id u = sn_id s \<and> sn_digest u = sn_digest s \<and> sn_revoked u = None) in
      if renewal_due cfg h upgrade token now s
      then (case put_sessions (map_where current (\<lambda>u. u\<lparr>sn_digest := ah_digest h replacement, sn_previous := Some (sn_digest s),
          sn_previous_until := Some (now + as_grace cfg * 1000), sn_last_seen := now, sn_idle_until := idle\<rparr>) (ad_sessions db)) db of
          Inl e \<Rightarrow> (Inl e, db)
        | Inr db' \<Rightarrow> (Inr (if list_ex current (ad_sessions db) then Some (session_cookie cfg replacement) else None), db'))
      else (Inr None, db\<lparr>ad_sessions :=
        map_where (\<lambda>u. sn_id u = sn_id s) (\<lambda>u. u\<lparr>sn_last_seen := now, sn_idle_until := idle\<rparr>) (ad_sessions db)\<rparr>))"

definition resolved_session :: "auth_identity \<Rightarrow> party \<Rightarrow> session_row \<Rightarrow> string option \<Rightarrow> resolved" where
  "resolved_session identity p s cookie =
     (let acting = (case p of Acting im target \<Rightarrow> Some (im, target) | _ \<Rightarrow> None) in
      \<lparr>rv_actor = user_actor (case acting of None \<Rightarrow> ai_id identity | Some (im, target) \<Rightarrow> ai_id target),
       rv_initiator = Some (user_actor (ai_id identity)),
       rv_delegation = Some (case acting of None \<Rightarrow> []
         | Some (im, target) \<Rightarrow> [\<lparr>hop_from = user_actor (ai_id identity), hop_to = user_actor (im_target im),
             hop_grant_id = im_grant im, hop_reason = im_reason im, hop_expires_at = Some (micros (im_expires im))\<rparr>]),
       rv_authentication = \<lparr>au_state = JStr ''authenticated'', au_identity_id = Some (ai_id identity), au_method = Some ''password'',
         au_assurance = Some (JStr ''single-factor''), au_authenticated_at = Some (micros (sn_authenticated s)),
         au_session_id = Some (sn_id s), au_impersonation_grant_id = map_option (\<lambda>(im, target). im_grant im) acting,
         au_credential_id = None, au_constraints = None\<rparr>,
       rv_cookie = cookie\<rparr>)"

text \<open>The end of the work once the party is known.\<close>

definition answer_session :: "auth_settings \<Rightarrow> auth_host \<Rightarrow> auth_request \<Rightarrow> string \<Rightarrow> int \<Rightarrow> string \<Rightarrow> session_row \<Rightarrow> auth_identity \<Rightarrow>
    party \<Rightarrow> auth_db \<Rightarrow> (auth_failure + resolved) \<times> auth_db" where
  "answer_session cfg h r token now replacement s identity p db =
     (case assert_trusted_origin (ah_request h) r (as_trusted cfg) (upgrade_request r) of
        Inl message \<Rightarrow> (Inl (Untrusted_origin message), db)
      | Inr _ \<Rightarrow>
        (case touch_session cfg h (upgrade_request r) token now s replacement db of
           (Inl e, db) \<Rightarrow> (Inl e, db) | (Inr cookie, db) \<Rightarrow> (Inr (resolved_session identity p s cookie), db)))"

text \<open>One attempt with the session that was read; \<open>None\<close> asks for another one.\<close>

definition resolve_session :: "auth_settings \<Rightarrow> auth_host \<Rightarrow> auth_request \<Rightarrow> string \<Rightarrow> int \<Rightarrow> string \<Rightarrow> session_row \<Rightarrow> auth_db \<Rightarrow>
    (auth_failure + resolved) option \<times> auth_db" where
  "resolve_session cfg h r token now replacement s db =
     (case find_identity cfg h now (sn_identity s) db of
        (None, db) \<Rightarrow> (Some (Inr anonymous_authentication), db)
      | (Some identity, db) \<Rightarrow>
        (case ensure_eligible cfg now (sn_identity s) db of
           (False, db) \<Rightarrow> (Some (Inr anonymous_authentication), db)
         | (True, db) \<Rightarrow>
           (case party_of cfg h now s db of
              (Ended im, db) \<Rightarrow>
                (case clear_impersonation s im now db of
                   (False, db) \<Rightarrow> (None, db)
                 | (True, db) \<Rightarrow> apfst Some (answer_session cfg h r token now replacement s identity Own db))
            | (p, db) \<Rightarrow> apfst Some (answer_session cfg h r token now replacement s identity p db))))"

text \<open>\<open>resolveHttp\<close>, which calls itself; the fuel bounds how often.\<close>

fun resolve_cookie :: "nat \<Rightarrow> auth_settings \<Rightarrow> auth_host \<Rightarrow> auth_request \<Rightarrow> string \<Rightarrow> int \<Rightarrow> string \<Rightarrow> auth_db \<Rightarrow>
    (auth_failure + resolved) option \<times> auth_db" where
  "resolve_cookie 0 cfg h r token now replacement db = (None, db)"
| "resolve_cookie (Suc n) cfg h r token now replacement db =
     (case read_session h token now db of
        None \<Rightarrow> (Some (Inr anonymous_authentication), db)
      | Some s \<Rightarrow> (case resolve_session cfg h r token now replacement s db of
            (None, db) \<Rightarrow> resolve_cookie n cfg h r token now replacement db
          | (answer, db) \<Rightarrow> (answer, db)))"

definition resolve_http :: "nat \<Rightarrow> auth_settings \<Rightarrow> auth_host \<Rightarrow> auth_request \<Rightarrow> int \<Rightarrow> string \<Rightarrow> auth_db \<Rightarrow>
    (auth_failure + resolved) option \<times> auth_db" where
  "resolve_http n cfg h r now replacement db =
     (case (cookie_value (rq_cookie r) (cookie_name cfg), truthy_string (rq_authorization r)) of
        (Some token, Some authorization) \<Rightarrow> (Some (Inl (Authentication_error Ambiguous_credentials)), db)
      | (None, Some authorization) \<Rightarrow> apfst Some (resolve_bearer cfg h authorization now db)
      | (None, None) \<Rightarrow> (Some (Inr anonymous_authentication), db)
      | (Some token, None) \<Rightarrow> resolve_cookie n cfg h r token now replacement db)"

subsection \<open>An authentication that was resolved before\<close>

text \<open>\<open>validateAuthentication\<close>\<close>

definition validate_authentication :: "auth_settings \<Rightarrow> auth_host \<Rightarrow> actor \<Rightarrow> authentication \<Rightarrow> int \<Rightarrow> auth_db \<Rightarrow> bool \<times> auth_db" where
  "validate_authentication cfg h a au now db =
     (if au_state au = JStr ''anonymous'' then (actor_kind a = JStr ''anonymous'', db)
      else (case (truthy_string (actor_id a), truthy_string (au_identity_id au)) of
        (Some who, Some i) \<Rightarrow>
          if actor_kind a \<noteq> JStr ''user'' then (False, db)
          else if au_method au = Some ''password'' \<and>
            (truthy_string (au_session_id au) \<noteq> None \<or> truthy_string (au_impersonation_grant_id au) \<noteq> None)
          then (case find (\<lambda>s. (case truthy_string (au_session_id au) of Some sid \<Rightarrow> sn_id s = sid
                | None \<Rightarrow> map_option im_grant (sn_impersonation s) = au_impersonation_grant_id au) \<and>
                sn_identity s = i \<and> live_session now s) (ad_sessions db) of
              None \<Rightarrow> (False, db)
            | Some s \<Rightarrow> (case find_identity cfg h now (sn_identity s) db of
                (None, db) \<Rightarrow> (False, db)
              | (Some _, db) \<Rightarrow>
                if au_impersonation_grant_id au \<noteq> None \<and>
                  map_option im_grant (sn_impersonation s) \<noteq> au_impersonation_grant_id au
                then (False, db)
                else (case sn_impersonation s of
                    None \<Rightarrow> (who = sn_identity s, db)
                  | Some im \<Rightarrow> if im_target im = [] \<or> \<not> im_expires im > now then (who = sn_identity s, db)
                    else (case find_identity cfg h now (im_target im) db of
                        (None, db) \<Rightarrow> (who = sn_identity s, db) | (Some _, db) \<Rightarrow> (who = im_target im, db)))))
          else (case (au_method au = Some ''bearer'', truthy_string (au_credential_id au)) of
              (True, Some tid) \<Rightarrow>
                (case find (\<lambda>t. tk_id t = tid \<and> tk_identity t = i \<and> live_token now t) (ad_tokens db) of
                   None \<Rightarrow> (False, db)
                 | Some t \<Rightarrow> if who \<noteq> tk_identity t then (False, db)
                   else (case find_identity cfg h now who db of (identity, db) \<Rightarrow> (identity \<noteq> None, db)))
            | _ \<Rightarrow> (False, db))
      | _ \<Rightarrow> (False, db)))"

text \<open>\<open>isRecentPasswordAuthentication\<close> of \<open>packages/core/src/auth.ts\<close>, the age in seconds\<close>

definition recent_password_authentication :: "authentication \<Rightarrow> int \<Rightarrow> int \<Rightarrow> bool" where
  "recent_password_authentication au max_age now \<longleftrightarrow>
     (let limit = max_age * 1000000; age = (case au_authenticated_at au of None \<Rightarrow> -1 | Some t \<Rightarrow> now - t) in
      \<bar>limit\<bar> \<le> 9007199254740991 \<and> 0 \<le> limit \<and> au_state au = JStr ''authenticated'' \<and> au_method au = Some ''password'' \<and>
      truthy_string (au_session_id au) \<noteq> None \<and> truthy_string (au_identity_id au) \<noteq> None \<and> 0 \<le> age \<and> age \<le> limit)"

end
