(* ===== verification/AuthRuns.thy ===== *)
theory AuthRuns
  imports AuthRequests
begin

text \<open>
  Runs of Postgres authentication: any operations in any order, each at its time, with whatever an
  operation carries from what it read before, and with the changes the owner of foreign tables makes.
  The tables stay consistent, what was revoked stays revoked, and a challenge is redeemed once.
\<close>

subsection \<open>Steps\<close>

datatype auth_call =
    Register registration string string bool
  | Register_check registration string
  | Persist_authentication string json
  | Login_check string string "string option" string
  | Login_commit pending_login string string
  | Issue_verification string string string
  | Verify_email string
  | Issue_reset string "string option" string string
  | Reset_password string string string
  | Change_check string string string string
  | Change_commit string pending_change
  | Reauthenticate_check string string string "string option" string
  | Reauthenticate_commit string string "string option" pending_reauthentication
  | Start_impersonation_commit string string string string string string
  | Stop_impersonation_commit string string string string
  | Find_identity string
  | Ensure_eligible string
  | Revoke_session string
  | Revoke_all_sessions string
  | Issue_token string token_request string string
  | Rotate_commit string token_row string string
  | Revoke_token string string
  | Clear_impersonation session_row impersonation
  | Touch_session bool string session_row string
  | Resolve_bearer string
  | Validate actor authentication
  | Owner_change "identity_row list" "(string, stored_password) omap"

fun auth_step :: "auth_settings \<Rightarrow> auth_host \<Rightarrow> int \<Rightarrow> auth_call \<Rightarrow> auth_db \<Rightarrow> auth_db" where
  "auth_step cfg h now (Register input i salt eligible) db = snd (register cfg h input i salt eligible now db)"
| "auth_step cfg h now (Register_check input salt) db = snd (register_check cfg h input salt now db)"
| "auth_step cfg h now (Persist_authentication i r) db = (case persist_authentication cfg h r now i db of Inl e \<Rightarrow> db | Inr db' \<Rightarrow> db')"
| "auth_step cfg h now (Login_check v password ip salt) db = snd (login_check cfg h v password ip salt now db)"
| "auth_step cfg h now (Login_commit p sid token) db = snd (login_commit cfg h p sid token now db)"
| "auth_step cfg h now (Issue_verification i cid token) db = snd (issue_email_verification cfg h i cid token now db)"
| "auth_step cfg h now (Verify_email token) db = snd (verify_email cfg h token now db)"
| "auth_step cfg h now (Issue_reset v ip cid token) db = snd (issue_password_reset cfg h v ip cid token now db)"
| "auth_step cfg h now (Reset_password token password salt) db = snd (reset_password cfg h token password salt now db)"
| "auth_step cfg h now (Change_check i current password salt) db = snd (change_check cfg h i current password salt now db)"
| "auth_step cfg h now (Change_commit i p) db = snd (change_commit cfg h i p now db)"
| "auth_step cfg h now (Reauthenticate_check i sid password ip salt) db = snd (reauthenticate_check cfg h i sid password ip salt now db)"
| "auth_step cfg h now (Reauthenticate_commit i sid ip p) db = snd (reauthenticate_commit cfg h i sid ip p now db)"
| "auth_step cfg h now (Start_impersonation_commit i sid target reason grant token) db =
     snd (start_impersonation_commit cfg h i sid target reason grant token now db)"
| "auth_step cfg h now (Stop_impersonation_commit i sid grant token) db = snd (stop_impersonation_commit h i sid grant token now db)"
| "auth_step cfg h now (Find_identity i) db = snd (find_identity cfg h now i db)"
| "auth_step cfg h now (Ensure_eligible i) db = snd (ensure_eligible cfg now i db)"
| "auth_step cfg h now (Revoke_session sid) db = revoke_session sid now db"
| "auth_step cfg h now (Revoke_all_sessions i) db = snd (revoke_all_sessions i now db)"
| "auth_step cfg h now (Issue_token i input tid secret) db = snd (issue_access_token cfg h i input tid secret now db)"
| "auth_step cfg h now (Rotate_commit i t tid secret) db = snd (rotate_commit h i t tid secret now db)"
| "auth_step cfg h now (Revoke_token i tid) db = snd (revoke_access_token cfg i tid now db)"
| "auth_step cfg h now (Clear_impersonation s im) db = snd (clear_impersonation s im now db)"
| "auth_step cfg h now (Touch_session upgrade token s replacement) db = snd (touch_session cfg h upgrade token now s replacement db)"
| "auth_step cfg h now (Resolve_bearer authorization) db = snd (resolve_bearer cfg h authorization now db)"
| "auth_step cfg h now (Validate a au) db = snd (validate_authentication cfg h a au now db)"
| "auth_step cfg h now (Owner_change ids ps) db = db\<lparr>ad_identities := ids, ad_passwords := ps\<rparr>"

definition auth_run :: "auth_settings \<Rightarrow> auth_host \<Rightarrow> (int \<times> auth_call) list \<Rightarrow> auth_db \<Rightarrow> auth_db" where
  "auth_run cfg h steps db = fold (\<lambda>(now, a). auth_step cfg h now a) steps db"

subsection \<open>Consistent tables\<close>

definition sessions_ok :: "session_row list \<Rightarrow> bool" where
  "sessions_ok ss \<longleftrightarrow> \<not> sessions_clash ss \<and> list_all impersonation_complete ss"

definition tokens_ok :: "token_row list \<Rightarrow> bool" where
  "tokens_ok ts \<longleftrightarrow> distinct (map tk_id ts) \<and> distinct (map tk_digest ts)"

definition challenges_ok :: "challenge_row list \<Rightarrow> bool" where
  "challenges_ok cs \<longleftrightarrow> distinct (map ch_id cs) \<and> distinct (map ch_digest cs) \<and>
     (\<forall>i p. length (filter (open_of i p) cs) \<le> 1)"

definition auth_ok :: "auth_db \<Rightarrow> bool" where
  "auth_ok db \<longleftrightarrow> sessions_ok (ad_sessions db) \<and> tokens_ok (ad_tokens db) \<and> challenges_ok (ad_challenges db)"

text \<open>What later rows keep of earlier ones.\<close>

definition keeps :: "('a \<Rightarrow> 'a \<Rightarrow> bool) \<Rightarrow> 'a list \<Rightarrow> 'a list \<Rightarrow> bool" where
  "keeps r xs ys \<longleftrightarrow> (\<forall>x\<in>set xs. \<exists>y\<in>set ys. r x y)"

definition session_later :: "session_row \<Rightarrow> session_row \<Rightarrow> bool" where
  "session_later s u \<longleftrightarrow> sn_id u = sn_id s \<and> sn_identity u = sn_identity s \<and> sn_expires u = sn_expires s \<and>
     (sn_revoked s \<noteq> None \<longrightarrow> sn_revoked u = sn_revoked s)"

definition token_later :: "token_row \<Rightarrow> token_row \<Rightarrow> bool" where
  "token_later t u \<longleftrightarrow> tk_id u = tk_id t \<and> tk_identity u = tk_identity t \<and> tk_digest u = tk_digest t \<and>
     tk_expires u = tk_expires t \<and> (tk_revoked t \<noteq> None \<longrightarrow> tk_revoked u \<noteq> None)"

definition challenge_later :: "challenge_row \<Rightarrow> challenge_row \<Rightarrow> bool" where
  "challenge_later c d \<longleftrightarrow> ch_id d = ch_id c \<and> ch_identity d = ch_identity c \<and> ch_purpose d = ch_purpose c \<and>
     ch_digest d = ch_digest c \<and> (ch_consumed c \<noteq> None \<longrightarrow> ch_consumed d \<noteq> None)"

definition evolves :: "auth_db \<Rightarrow> auth_db \<Rightarrow> bool" where
  "evolves db db' \<longleftrightarrow> (auth_ok db \<longrightarrow> auth_ok db') \<and> keeps session_later (ad_sessions db) (ad_sessions db') \<and>
     keeps token_later (ad_tokens db) (ad_tokens db') \<and> keeps challenge_later (ad_challenges db) (ad_challenges db')"

lemma keeps_trans:
  assumes "\<And>x y z. r x y \<Longrightarrow> r y z \<Longrightarrow> r x z" "keeps r xs ys" "keeps r ys zs"
  shows "keeps r xs zs"
  using assms unfolding keeps_def by meson

lemma keeps_refl: "(\<And>x. r x x) \<Longrightarrow> keeps r xs xs"
  by (auto simp: keeps_def)

lemma keeps_map_where: "(\<And>x. r x x) \<Longrightarrow> (\<And>x. p x \<Longrightarrow> r x (f x)) \<Longrightarrow> keeps r xs (map_where p f xs)"
proof (unfold keeps_def, rule ballI)
  fix x
  assume r: "\<And>x. r x x" "\<And>x. p x \<Longrightarrow> r x (f x)" and x: "x \<in> set xs"
  show "\<exists>y\<in>set (map_where p f xs). r x y"
    using x r by (intro bexI [of _ "if p x then f x else x"]) (auto simp: map_where_def)
qed

lemma keeps_append: "keeps r xs ys \<Longrightarrow> keeps r xs (ys @ zs)"
  by (fastforce simp: keeps_def)

lemma later_refl [simp]: "session_later s s" "token_later t t" "challenge_later c c"
  by (auto simp: session_later_def token_later_def challenge_later_def)

lemma keeps_later_refl [simp]: "keeps session_later ss ss" "keeps token_later ts ts" "keeps challenge_later cs cs"
  by (auto intro: keeps_refl)

lemma evolves_refl [simp]: "evolves db db"
  by (auto simp: evolves_def)

lemma evolves_trans:
  assumes "evolves a b" "evolves b c"
  shows "evolves a c"
proof -
  have "session_later s u \<Longrightarrow> session_later u v \<Longrightarrow> session_later s v" for s u v by (auto simp: session_later_def)
  moreover have "token_later s u \<Longrightarrow> token_later u v \<Longrightarrow> token_later s v" for s u v by (auto simp: token_later_def)
  moreover have "challenge_later s u \<Longrightarrow> challenge_later u v \<Longrightarrow> challenge_later s v" for s u v by (auto simp: challenge_later_def)
  ultimately show ?thesis using assms unfolding evolves_def by (meson keeps_trans)
qed

lemma map_map_where: "(\<And>x. p x \<Longrightarrow> g (f x) = g x) \<Longrightarrow> map g (map_where p f xs) = map g xs"
  by (auto simp: map_where_def)

lemma list_all_map_where: "list_all q xs \<Longrightarrow> (\<And>x. p x \<Longrightarrow> q x \<Longrightarrow> q (f x)) \<Longrightarrow> list_all q (map_where p f xs)"
  by (auto simp: map_where_def list_all_iff)

text \<open>A change of the audit, of the rate limits, of identities or of passwords touches none of this.\<close>

lemma evolves_frame:
  assumes "ad_sessions db' = ad_sessions db" "ad_tokens db' = ad_tokens db" "ad_challenges db' = ad_challenges db"
  shows "evolves db db'"
  using assms by (simp add: evolves_def auth_ok_def)

lemma audit_fields [simp]:
  "ad_sessions (audit e i s now db) = ad_sessions db" "ad_tokens (audit e i s now db) = ad_tokens db"
  "ad_challenges (audit e i s now db) = ad_challenges db" "ad_identities (audit e i s now db) = ad_identities db"
  "ad_passwords (audit e i s now db) = ad_passwords db" "ad_rates (audit e i s now db) = ad_rates db"
  by (auto simp: audit_def)

lemma evolves_audit: "evolves db db' \<Longrightarrow> evolves db (audit e i s now db')"
  by (erule evolves_trans) (simp add: evolves_frame)

subsection \<open>Every operation keeps the tables consistent\<close>

lemma evolves_sessions:
  "(sessions_ok (ad_sessions db) \<Longrightarrow> sessions_ok ss) \<Longrightarrow> keeps session_later (ad_sessions db) ss \<Longrightarrow> evolves db (db\<lparr>ad_sessions := ss\<rparr>)"
  by (auto simp: evolves_def auth_ok_def)

lemma evolves_tokens:
  "(tokens_ok (ad_tokens db) \<Longrightarrow> tokens_ok ts) \<Longrightarrow> keeps token_later (ad_tokens db) ts \<Longrightarrow> evolves db (db\<lparr>ad_tokens := ts\<rparr>)"
  by (auto simp: evolves_def auth_ok_def)

lemma evolves_challenges:
  "(challenges_ok (ad_challenges db) \<Longrightarrow> challenges_ok cs) \<Longrightarrow> keeps challenge_later (ad_challenges db) cs \<Longrightarrow>
    evolves db (db\<lparr>ad_challenges := cs\<rparr>)"
  by (auto simp: evolves_def auth_ok_def)

lemma map_filter_map_where:
  "(\<And>x. p x \<Longrightarrow> g (f x) = g x) \<Longrightarrow> List.map_filter g (map_where p f xs) = List.map_filter g xs"
  by (induction xs) (auto simp: map_where_def List.map_filter_simps split: option.splits)

lemma map_filter_cleared:
  assumes "\<And>x. p x \<Longrightarrow> g (f x) = None"
  shows "set (List.map_filter g (map_where p f xs)) \<subseteq> set (List.map_filter g xs) \<and>
    (distinct (map k (List.map_filter g xs)) \<longrightarrow> distinct (map k (List.map_filter g (map_where p f xs))))"
proof (induction xs)
  case Nil
  then show ?case by (simp add: map_where_def List.map_filter_simps)
next
  case (Cons x xs)
  then show ?case using assms [of x] by (auto simp: map_where_def List.map_filter_simps split: option.splits)
qed

lemma impersonation_complete_cong:
  "sn_impersonation u = sn_impersonation s \<Longrightarrow> sn_identity u = sn_identity s \<Longrightarrow> sn_expires u = sn_expires s \<Longrightarrow>
    impersonation_complete u = impersonation_complete s"
  by (simp add: impersonation_complete_def split: option.splits)

text \<open>An update that leaves identifiers, tokens, grants and expiry as they are.\<close>

lemma evolves_session_update:
  assumes "\<And>s. p s \<Longrightarrow> sn_id (f s) = sn_id s \<and> sn_identity (f s) = sn_identity s \<and> sn_expires (f s) = sn_expires s \<and>
      sn_digest (f s) = sn_digest s \<and> sn_impersonation (f s) = sn_impersonation s \<and>
      (sn_revoked s \<noteq> None \<longrightarrow> sn_revoked (f s) = sn_revoked s)"
  shows "evolves db (db\<lparr>ad_sessions := map_where p f (ad_sessions db)\<rparr>)"
proof (rule evolves_sessions)
  let ?ss = "ad_sessions db"
  show "keeps session_later ?ss (map_where p f ?ss)" using assms by (intro keeps_map_where) (auto simp: session_later_def)
  assume ok: "sessions_ok ?ss"
  have "map sn_id (map_where p f ?ss) = map sn_id ?ss" "map sn_digest (map_where p f ?ss) = map sn_digest ?ss"
    using assms by (auto intro: map_map_where)
  moreover have "List.map_filter sn_impersonation (map_where p f ?ss) = List.map_filter sn_impersonation ?ss"
    using assms by (intro map_filter_map_where) auto
  moreover have "impersonation_complete (f s)" if "p s" "impersonation_complete s" for s
    using impersonation_complete_cong [of "f s" s] assms [OF that(1)] that(2) by simp
  then have "list_all impersonation_complete (map_where p f ?ss)"
    using ok by (intro list_all_map_where) (auto simp: sessions_ok_def)
  ultimately show "sessions_ok (map_where p f ?ss)" using ok by (simp add: sessions_ok_def sessions_clash_def)
qed

text \<open>An update the constraints have accepted.\<close>

lemma evolves_put_sessions:
  assumes "put_sessions (map_where p f (ad_sessions db)) db = Inr db'"
    and "\<And>s. p s \<Longrightarrow> sn_id (f s) = sn_id s \<and> sn_identity (f s) = sn_identity s \<and> sn_expires (f s) = sn_expires s \<and>
      (sn_revoked s \<noteq> None \<longrightarrow> sn_revoked (f s) = sn_revoked s)"
    and "list_all impersonation_complete (ad_sessions db) \<Longrightarrow> list_all impersonation_complete (map_where p f (ad_sessions db))"
  shows "evolves db db'"
proof -
  let ?ss = "ad_sessions db"
  from assms(1) have clash: "\<not> sessions_clash (map_where p f ?ss)" and db': "db' = db\<lparr>ad_sessions := map_where p f ?ss\<rparr>"
    by (auto simp: put_sessions_def split: if_splits)
  have "keeps session_later ?ss (map_where p f ?ss)" using assms(2) by (intro keeps_map_where) (auto simp: session_later_def)
  moreover have "sessions_ok (map_where p f ?ss)" if "sessions_ok ?ss" using that clash assms(3) by (simp add: sessions_ok_def)
  ultimately show ?thesis unfolding db' by (intro evolves_sessions)
qed

lemma evolves_revoke_sessions: "evolves db (revoke_sessions i now db)"
  unfolding revoke_sessions_def by (rule evolves_session_update) auto

lemma evolves_token_update:
  assumes "\<And>t. p t \<Longrightarrow> token_later t (f t)"
  shows "evolves db (db\<lparr>ad_tokens := map_where p f (ad_tokens db)\<rparr>)"
proof (rule evolves_tokens)
  show "keeps token_later (ad_tokens db) (map_where p f (ad_tokens db))" using assms by (intro keeps_map_where) auto
  have "map tk_id (map_where p f (ad_tokens db)) = map tk_id (ad_tokens db)"
    "map tk_digest (map_where p f (ad_tokens db)) = map tk_digest (ad_tokens db)"
    using assms by (auto intro!: map_map_where simp: token_later_def)
  then show "tokens_ok (ad_tokens db) \<Longrightarrow> tokens_ok (map_where p f (ad_tokens db))" by (simp add: tokens_ok_def)
qed

lemma evolves_revoke_tokens: "evolves db (revoke_tokens i now db)"
  unfolding revoke_tokens_def by (rule evolves_token_update) (auto simp: token_later_def)

lemma evolves_put_token:
  assumes "put_token t db = Inr db'"
  shows "evolves db db'"
proof -
  from assms have new: "tk_id t \<notin> tk_id ` set (ad_tokens db)" "tk_digest t \<notin> tk_digest ` set (ad_tokens db)"
    and db': "db' = db\<lparr>ad_tokens := ad_tokens db @ [t]\<rparr>"
    by (auto simp: put_token_def list_ex_iff split: if_splits)
  have "tokens_ok (ad_tokens db) \<Longrightarrow> tokens_ok (ad_tokens db @ [t])" using new by (auto simp: tokens_ok_def)
  then show ?thesis unfolding db' by (intro evolves_tokens keeps_append) simp_all
qed

lemma evolves_ensure: "evolves db (snd (ensure_eligible cfg now i db))"
  unfolding ensure_eligible_def
  by (auto intro: evolves_audit evolves_trans [OF evolves_revoke_sessions evolves_revoke_tokens])

lemma evolves_find: "evolves db (snd (find_identity cfg h now i db))"
  using evolves_ensure [of db cfg now i] by (auto simp: find_identity_def split: option.splits prod.splits bool.splits)

lemma evolves_rate_limit: "evolves db (snd (rate_limit h a v l w b now db))"
  unfolding rate_limit_def by (auto simp: Let_def split: option.splits intro!: evolves_frame)

lemma evolves_clear_rate: "evolves db db' \<Longrightarrow> evolves db (clear_rate_limit h a v db')"
  by (erule evolves_trans) (simp add: evolves_frame clear_rate_limit_def)

lemma evolves_overwrite: "overwrite_password cfg h i r db = Inr db' \<Longrightarrow> evolves db db'"
  by (auto simp: overwrite_password_def split: if_splits intro!: evolves_frame)

lemma evolves_replace: "replace_password cfg h i q r db = Inr db' \<Longrightarrow> evolves db db'"
  by (auto simp: replace_password_def upgrade_password_def evolves_overwrite split: if_splits intro!: evolves_frame)

lemma evolves_pair: "evolves db (snd p) \<Longrightarrow> p = (r, db') \<Longrightarrow> evolves db db'"
  by simp

lemmas evolve_parts = evolves_ensure [THEN evolves_pair] evolves_find [THEN evolves_pair] evolves_rate_limit [THEN evolves_pair]

lemma evolves_register_check: "evolves db (snd (register_check cfg h input salt now db))"
  unfolding register_check_def by (auto split: sum.splits prod.splits dest!: evolve_parts)

lemma evolves_insert: "evolves db (snd (insert_registration cfg h i email contact r eligible now db))"
  unfolding insert_registration_def by (auto simp: Let_def intro!: evolves_audit intro: evolves_frame)

lemma evolves_register: "evolves db (snd (register cfg h input i salt eligible now db))"
  unfolding register_def
  by (auto split: sum.splits prod.splits dest!: evolves_register_check [THEN evolves_pair] intro: evolves_trans [OF _ evolves_insert])

lemma evolves_persist: "persist_authentication cfg h r now i db = Inr db' \<Longrightarrow> evolves db db'"
  by (auto simp: persist_authentication_def split: if_splits intro!: evolves_frame)

lemma evolves_login_check: "evolves db (snd (login_check cfg h v password ip salt now db))"
  unfolding login_check_def
  by (auto simp: Let_def split: sum.splits prod.splits option.splits bool.splits
      dest!: evolve_parts intro!: evolves_audit evolves_clear_rate elim: evolves_trans)

lemma sessions_ok_new:
  assumes "sessions_ok ss" "\<not> sessions_clash (ss @ [s])" "sn_impersonation s = None"
  shows "sessions_ok (ss @ [s])"
  using assms by (simp add: sessions_ok_def impersonation_complete_def)

lemma evolves_login_commit: "evolves db (snd (login_commit cfg h p sid token now db))"
proof -
  have new: "evolves db (db\<lparr>ad_sessions := ad_sessions db @ [s]\<rparr>)"
    if "\<not> sessions_clash (ad_sessions db @ [s])" "sn_impersonation s = None" for s db
    using that by (intro evolves_sessions keeps_append) (simp_all add: sessions_ok_new)
  have own: "sn_impersonation (new_session cfg h i sid token now) = None" for i by (simp add: new_session_def)
  have put: "evolves db db'" if "put_sessions (ad_sessions db @ [new_session cfg h i sid token now]) db = Inr db'" for db db' i
    using that new own by (auto simp: put_sessions_def split: if_splits)
  have "evolves db db'" if "res_bind (case pl_upgraded p of None \<Rightarrow> Inr db | Some r \<Rightarrow> replace_password cfg h i (pl_observed p) r db)
      (\<lambda>db. put_sessions (ad_sessions db @ [new_session cfg h i sid token now]) db) = Inr db'" for db' i
    using that by (auto split: option.splits dest!: put evolves_replace elim: evolves_trans)
  then show ?thesis unfolding login_commit_def by (auto simp: Let_def split: sum.splits intro!: evolves_audit)
qed

lemma filter_map_where: "(\<And>x. q x \<Longrightarrow> \<not> r (f x)) \<Longrightarrow> filter r (map_where q f xs) = filter (\<lambda>x. r x \<and> \<not> q x) xs"
  by (induction xs) (simp_all add: map_where_def)

lemma filter_used:
  "filter (open_of i' p') (map_where (open_of i p) (\<lambda>c. c\<lparr>ch_consumed := Some now\<rparr>) cs) =
    (if i' = i \<and> p' = p then [] else filter (open_of i' p') cs)"
proof -
  have "filter (open_of i' p') (map_where (open_of i p) (\<lambda>c. c\<lparr>ch_consumed := Some now\<rparr>) cs) =
      filter (\<lambda>c. open_of i' p' c \<and> \<not> open_of i p c) cs"
    by (rule filter_map_where) (simp add: open_of_def)
  also have "\<dots> = (if i' = i \<and> p' = p then [] else filter (open_of i' p') cs)"
    by (cases "i' = i \<and> p' = p") (auto simp: open_of_def filter_empty_conv intro!: filter_cong)
  finally show ?thesis .
qed

lemma evolves_issue_challenge: "evolves db (snd (issue_challenge cfg h i p contact cid token now db))"
proof -
  define d where "d = ah_digest h token"
  define used where "used = map_where (open_of i p)
    (\<lambda>c. c\<lparr>ch_consumed := Some now\<rparr>) (ad_challenges db)"
  have names: "map ch_id used = map ch_id (ad_challenges db)" "map ch_digest used = map ch_digest (ad_challenges db)"
    unfolding used_def by (intro map_map_where; simp)+
  have keep: "keeps challenge_later (ad_challenges db) used"
    unfolding used_def by (intro keeps_map_where) (auto simp: challenge_later_def open_of_def)
  have opened: "filter (open_of i' p') used = (if i' = i \<and> p' = p then [] else filter (open_of i' p') (ad_challenges db))" for i' p'
    unfolding used_def by (rule filter_used )
  have "challenges_ok (used @ [c])"
    if ok: "challenges_ok (ad_challenges db)" and new: "\<not> list_ex (\<lambda>c'. ch_id c' = ch_id c \<or> ch_digest c' = ch_digest c) (ad_challenges db)"
      and own: "ch_identity c = i" "ch_purpose c = p" for c
  proof -
    have "ch_id c \<notin> set (map ch_id used)" "ch_digest c \<notin> set (map ch_digest used)"
      using new unfolding names by (auto simp: list_ex_iff)
    moreover have "length (filter (open_of i' p') (used @ [c])) \<le> 1" for i' p'
      using ok own by (auto simp: opened challenges_ok_def open_of_def)
    ultimately show ?thesis using ok by (simp add: challenges_ok_def names)
  qed
  then have "evolves db (db\<lparr>ad_challenges := used @ [c]\<rparr>)"
    if "\<not> list_ex (\<lambda>c'. ch_id c' = ch_id c \<or> ch_digest c' = ch_digest c) (ad_challenges db)" "ch_identity c = i" "ch_purpose c = p" for c
    using that keep by (intro evolves_challenges keeps_append) auto
  then show ?thesis
    unfolding issue_challenge_def Let_def d_def [symmetric] used_def [symmetric] by (auto intro!: evolves_audit)
qed

lemmas issue_challenge_pair = evolves_issue_challenge [THEN evolves_pair]

lemma evolves_issue_verification: "evolves db (snd (issue_email_verification cfg h i cid token now db))"
  unfolding issue_email_verification_def
  by (auto split: sum.splits prod.splits option.splits dest!: evolve_parts issue_challenge_pair elim: evolves_trans
      intro: evolves_trans [OF _ evolves_issue_challenge])

lemma evolves_issue_reset: "evolves db (snd (issue_password_reset cfg h v ip cid token now db))"
  unfolding issue_password_reset_def
  by (auto split: sum.splits prod.splits option.splits bool.splits dest!: evolve_parts issue_challenge_pair elim: evolves_trans
      intro: evolves_trans [OF _ evolves_trans])

lemma evolves_consume: "evolves db (consume_challenge d p now db)"
proof -
  let ?cs = "ad_challenges db" and ?used = "map_where (open_challenge d p now) (\<lambda>c. c\<lparr>ch_consumed := Some now\<rparr>) (ad_challenges db)"
  have names: "map ch_id ?used = map ch_id ?cs" "map ch_digest ?used = map ch_digest ?cs"
    by (intro map_map_where; simp)+
  have "length (filter (open_of i q) ?used) \<le> length (filter (open_of i q) ?cs)" for i q
  proof -
    have "filter (open_of i q) ?used = filter (\<lambda>c. open_of i q c \<and> \<not> open_challenge d p now c) ?cs"
      by (rule filter_map_where) (simp add: open_of_def)
    also have "\<dots> = filter (\<lambda>c. \<not> open_challenge d p now c) (filter (open_of i q) ?cs)" by (simp add: conj_commute)
    finally have eq: "filter (open_of i q) ?used = filter (\<lambda>c. \<not> open_challenge d p now c) (filter (open_of i q) ?cs)" .
    show ?thesis unfolding eq by (rule length_filter_le)
  qed
  then have "challenges_ok ?cs \<Longrightarrow> challenges_ok ?used" unfolding challenges_ok_def names by (meson le_trans)
  moreover have "keeps challenge_later ?cs ?used" by (intro keeps_map_where) (auto simp: challenge_later_def open_challenge_def)
  ultimately show ?thesis unfolding consume_challenge_def by (intro evolves_challenges)
qed

lemma evolves_redeem:
  assumes "\<And>i db db'. work i db = Inr db' \<Longrightarrow> evolves db db'"
  shows "evolves db (snd (redeem cfg h token p now work db))"
  unfolding redeem_def
  by (auto split: option.splits prod.splits sum.splits dest!: evolve_parts assms
      elim: evolves_trans [OF _ evolves_trans [OF evolves_consume]])

lemma evolves_mark_verified: "mark_verified cfg now i db = Inr db' \<Longrightarrow> evolves db db'"
  by (auto simp: mark_verified_def split: if_splits intro!: evolves_frame)

lemma evolves_put_new_password: "put_new_password cfg h r now i db = Inr db' \<Longrightarrow> evolves db db'"
  unfolding put_new_password_def
  by (auto intro!: evolves_audit dest!: evolves_overwrite elim: evolves_trans [OF _ evolves_revoke_sessions])

lemma evolves_verify_email: "evolves db (snd (verify_email cfg h token now db))"
proof -
  have "evolves db (snd (redeem cfg h token Email_verification now (mark_verified cfg now) db))"
    by (rule evolves_redeem [OF evolves_mark_verified])
  note redeemed = this [THEN evolves_pair]
  show ?thesis
    unfolding verify_email_def by (auto split: sum.splits prod.splits dest!: evolve_parts dest: redeemed elim: evolves_trans)
qed

lemma evolves_reset_password: "evolves db (snd (reset_password cfg h token password salt now db))"
  unfolding reset_password_def by (auto split: sum.splits intro: evolves_redeem [OF evolves_put_new_password])

lemma evolves_change_check: "evolves db (snd (change_check cfg h i current password salt now db))"
  unfolding change_check_def by (auto split: sum.splits prod.splits option.splits bool.splits dest!: evolve_parts)

lemma evolves_change_commit: "evolves db (snd (change_commit cfg h i p now db))"
  unfolding change_commit_def
  by (auto split: sum.splits intro!: evolves_audit dest!: evolves_replace elim: evolves_trans [OF _ evolves_revoke_sessions])

lemma evolves_reauthenticate_check: "evolves db (snd (reauthenticate_check cfg h i sid password ip salt now db))"
  unfolding reauthenticate_check_def
  by (auto simp: Let_def split: sum.splits prod.splits option.splits bool.splits dest!: evolve_parts
      intro!: evolves_audit elim: evolves_trans)

lemma evolves_refresh_session: "refresh_session i sid now db = Inr db' \<Longrightarrow> evolves db db'"
  by (auto simp: refresh_session_def Let_def split: if_splits intro!: evolves_audit evolves_session_update)

lemma evolves_reauthenticate_commit: "evolves db (snd (reauthenticate_commit cfg h i sid ip p now db))"
  unfolding reauthenticate_commit_def
  by (auto split: sum.splits option.splits intro!: evolves_clear_rate dest!: evolves_replace evolves_refresh_session
      elim: evolves_trans)

lemma evolves_put_impersonations:
  assumes "put_impersonations (map_where p f (ad_sessions db)) db = Inr db'"
    and "\<And>s. p s \<Longrightarrow> sn_id (f s) = sn_id s \<and> sn_identity (f s) = sn_identity s \<and> sn_expires (f s) = sn_expires s \<and>
      (sn_revoked s \<noteq> None \<longrightarrow> sn_revoked (f s) = sn_revoked s)"
  shows "evolves db db'"
  using assms by (intro evolves_put_sessions [of p f]) (auto simp: put_impersonations_def split: if_splits)

lemma evolves_start_impersonation: "evolves db (snd (start_impersonation_commit cfg h i sid target reason grant token now db))"
  unfolding start_impersonation_commit_def
  by (auto simp: Let_def split: option.splits sum.splits intro!: evolves_audit elim!: evolves_put_impersonations)

lemma evolves_stop_impersonation: "evolves db (snd (stop_impersonation_commit h i sid grant token now db))"
proof -
  have "impersonation_complete (s\<lparr>sn_digest := d, sn_previous := None, sn_previous_until := None, sn_last_seen := now, sn_impersonation := None\<rparr>)"
    for s d by (simp add: impersonation_complete_def)
  then show ?thesis
    unfolding stop_impersonation_commit_def
    by (auto simp: Let_def split: option.splits sum.splits intro!: evolves_audit elim!: evolves_put_sessions intro: list_all_map_where)
qed

lemma evolves_revoke_session: "evolves db (revoke_session sid now db)"
  by (auto simp: revoke_session_def Let_def split: option.splits intro!: evolves_audit evolves_session_update)

lemma evolves_issue_token: "evolves db (snd (issue_access_token cfg h i input tid secret now db))"
  unfolding issue_access_token_def
  by (auto split: option.splits prod.splits sum.splits intro!: evolves_audit dest!: evolve_parts evolves_put_token elim: evolves_trans)

lemma evolves_rotate_commit: "evolves db (snd (rotate_commit h i t tid secret now db))"
proof -
  have "evolves db (db\<lparr>ad_tokens := map_where (\<lambda>u. tk_id u = tk_id t) (\<lambda>u. u\<lparr>tk_revoked := Some now\<rparr>) (ad_tokens db)\<rparr>)"
    by (rule evolves_token_update) (simp add: token_later_def)
  then show ?thesis
    unfolding rotate_commit_def by (auto split: sum.splits intro!: evolves_audit dest!: evolves_put_token elim: evolves_trans)
qed

lemma evolves_revoke_token: "evolves db (snd (revoke_access_token cfg i tid now db))"
  unfolding revoke_access_token_def
  by (auto simp: Let_def split: prod.splits bool.splits intro!: evolves_audit dest!: evolve_parts
      elim!: evolves_trans intro!: evolves_token_update simp: token_later_def)

lemma evolves_clear_impersonation: "evolves db (snd (clear_impersonation s im now db))"
proof -
  let ?ss = "ad_sessions db" and ?new = "map_where (carries s im) (\<lambda>u. u\<lparr>sn_impersonation := None\<rparr>) (ad_sessions db)"
  have names: "map sn_id ?new = map sn_id ?ss" "map sn_digest ?new = map sn_digest ?ss" by (intro map_map_where; simp)+
  have "distinct (map im_grant (List.map_filter sn_impersonation ?ss)) \<longrightarrow> distinct (map im_grant (List.map_filter sn_impersonation ?new))"
    using map_filter_cleared [of "carries s im" sn_impersonation "\<lambda>u. u\<lparr>sn_impersonation := None\<rparr>" ?ss im_grant] by simp
  moreover have "list_all impersonation_complete ?ss \<Longrightarrow> list_all impersonation_complete ?new"
    by (rule list_all_map_where) (auto simp: impersonation_complete_def)
  ultimately have "sessions_ok ?ss \<Longrightarrow> sessions_ok ?new" by (auto simp: sessions_ok_def sessions_clash_def names)
  moreover have "keeps session_later ?ss ?new" by (intro keeps_map_where) (auto simp: session_later_def)
  ultimately show ?thesis unfolding clear_impersonation_def by (auto intro!: evolves_audit evolves_sessions)
qed

lemma evolves_touch_session: "evolves db (snd (touch_session cfg h upgrade token now s replacement db))"
proof -
  have "list_all impersonation_complete (map_where p f ss)"
    if "list_all impersonation_complete ss" "\<And>u. impersonation_complete (f u) = impersonation_complete u" for p f ss
    using that by (auto intro: list_all_map_where)
  moreover have "impersonation_complete (u\<lparr>sn_digest := d, sn_previous := q, sn_previous_until := t, sn_last_seen := now, sn_idle_until := i\<rparr>)
      = impersonation_complete u" for u d q t i
    by (rule impersonation_complete_cong) simp_all
  ultimately show ?thesis
    unfolding touch_session_def
    by (auto simp: Let_def split: sum.splits elim!: evolves_put_sessions intro!: evolves_session_update)
qed

lemma evolves_resolve_bearer: "evolves db (snd (resolve_bearer cfg h authorization now db))"
proof -
  have "evolves db (db\<lparr>ad_tokens := map_where (\<lambda>u. tk_id u = tid) (\<lambda>u. u\<lparr>tk_last_used := Some now\<rparr>) (ad_tokens db)\<rparr>)" for db tid
    by (rule evolves_token_update) (simp add: token_later_def)
  then show ?thesis
    unfolding resolve_bearer_def
    by (auto split: option.splits prod.splits bool.splits dest!: evolve_parts elim: evolves_trans evolves_trans [OF _ evolves_trans])
qed

lemma evolves_validate: "evolves db (snd (validate_authentication cfg h a au now db))"
  unfolding validate_authentication_def
  by (auto split: option.splits prod.splits bool.splits dest!: evolves_find [THEN evolves_pair] elim: evolves_trans)

lemmas evolves_ops = evolves_register evolves_register_check evolves_login_check evolves_login_commit evolves_issue_verification evolves_verify_email
  evolves_issue_reset evolves_reset_password evolves_change_check evolves_change_commit evolves_reauthenticate_check
  evolves_reauthenticate_commit evolves_start_impersonation evolves_stop_impersonation evolves_find evolves_ensure
  evolves_revoke_session evolves_issue_token evolves_rotate_commit evolves_revoke_token evolves_clear_impersonation
  evolves_touch_session evolves_resolve_bearer evolves_validate

lemma evolves_step: "evolves db (auth_step cfg h now a db)"
  by (cases a) (auto simp: evolves_ops revoke_all_sessions_def evolves_audit evolves_revoke_sessions evolves_frame
      split: sum.splits dest: evolves_persist)

lemma auth_run_simps [simp]:
  "auth_run cfg h [] db = db"
  "auth_run cfg h ((now, a) # steps) db = auth_run cfg h steps (auth_step cfg h now a db)"
  by (simp_all add: auth_run_def)

lemma evolves_run: "evolves db (auth_run cfg h steps db)"
proof (induction steps arbitrary: db)
  case (Cons x steps)
  obtain now a where x: "x = (now, a)" by (cases x)
  show ?case unfolding x by (simp add: evolves_trans [OF evolves_step Cons.IH])
qed simp

subsection \<open>What was revoked stays revoked\<close>

definition session_ended :: "string \<Rightarrow> auth_db \<Rightarrow> bool" where
  "session_ended sid db \<longleftrightarrow> (\<exists>s\<in>set (ad_sessions db). sn_id s = sid \<and> sn_revoked s \<noteq> None)"

lemma session_ended_evolves: "evolves db db' \<Longrightarrow> session_ended sid db \<Longrightarrow> session_ended sid db'"
  unfolding evolves_def keeps_def session_ended_def session_later_def by metis

lemma ended_not_live:
  assumes "auth_ok db" "session_ended sid db" "s \<in> set (ad_sessions db)" "sn_id s = sid"
  shows "sn_revoked s \<noteq> None"
proof -
  have "distinct (map sn_id (ad_sessions db))" using assms(1) by (simp add: auth_ok_def sessions_ok_def sessions_clash_def)
  moreover obtain u where "u \<in> set (ad_sessions db)" "sn_id u = sid" "sn_revoked u \<noteq> None"
    using assms(2) by (auto simp: session_ended_def)
  ultimately show ?thesis using assms(3,4) by (auto simp: distinct_map dest: inj_onD)
qed

lemma find_some: "find p xs = Some x \<Longrightarrow> x \<in> set xs \<and> p x"
  by (auto simp: find_Some_iff)

lemma evolves_party: "evolves db (snd (party_of cfg h now s db))"
  unfolding party_of_def by (auto split: option.splits prod.splits bool.splits dest!: evolve_parts elim: evolves_trans)

lemma evolves_answer: "evolves db (snd (answer_session cfg h r token now replacement s identity p db))"
  unfolding answer_session_def
  by (auto split: sum.splits prod.splits dest!: evolves_touch_session [THEN evolves_pair])

lemmas resolve_parts = evolve_parts evolves_party [THEN evolves_pair] evolves_clear_impersonation [THEN evolves_pair]
  evolves_answer [THEN evolves_pair]

lemma evolves_resolve_session: "evolves db (snd (resolve_session cfg h r token now replacement s db))"
proof -
  have "evolves a (snd (answer_session cfg h r token now replacement s identity p db))" if "evolves a db" for a identity p db
    using that evolves_answer by (rule evolves_trans)
  then show ?thesis
    unfolding resolve_session_def
    by (auto split: option.splits prod.splits bool.splits party.splits dest!: evolve_parts evolves_party [THEN evolves_pair]
      evolves_clear_impersonation [THEN evolves_pair] elim: evolves_trans intro: evolves_trans [OF _ evolves_trans])
qed

lemma resolve_session_names:
  assumes "fst (resolve_session cfg h r token now replacement s db) = Some (Inr rv)"
  shows "au_session_id (rv_authentication rv) = None \<or> au_session_id (rv_authentication rv) = Some (sn_id s)"
proof -
  have "au_session_id (rv_authentication rv) = Some (sn_id s)"
    if "fst (answer_session cfg h r token now replacement s identity p db) = Inr rv" for identity p db
    using that by (auto simp: answer_session_def resolved_session_def Let_def split: sum.splits prod.splits)
  then show ?thesis
    using assms unfolding resolve_session_def
    by (auto simp: anonymous_authentication_def split: option.splits prod.splits bool.splits party.splits)
qed

lemma resolve_cookie_not_ended:
  assumes "auth_ok db" "session_ended sid db" "fst (resolve_cookie n cfg h r token now replacement db) = Some (Inr rv)"
  shows "au_session_id (rv_authentication rv) \<noteq> Some sid"
  using assms
proof (induction n arbitrary: db)
  case (Suc n)
  show ?case
  proof (cases "read_session h token now db")
    case None
    then show ?thesis using Suc.prems(3) by (auto simp: anonymous_authentication_def)
  next
    case (Some s)
    then have live: "s \<in> set (ad_sessions db)" "sn_revoked s = None"
      using find_some by (fastforce simp: read_session_def token_session_def live_session_def)+
    then have other: "sn_id s \<noteq> sid" using ended_not_live [OF Suc.prems(1,2) live(1)] by auto
    obtain answer db1 where answer: "resolve_session cfg h r token now replacement s db = (answer, db1)" by fastforce
    then have later: "evolves db db1" using evolves_resolve_session [of db cfg h r token now replacement s] by simp
    show ?thesis
    proof (cases answer)
      case None
      then have "fst (resolve_cookie n cfg h r token now replacement db1) = Some (Inr rv)"
        using Suc.prems(3) Some answer by simp
      then show ?thesis
        using Suc.IH Suc.prems(1,2) later session_ended_evolves by (auto simp: evolves_def)
    next
      case (Some a)
      then have "fst (resolve_session cfg h r token now replacement s db) = Some (Inr rv)"
        using Suc.prems(3) \<open>read_session h token now db = Some s\<close> answer by simp
      then show ?thesis using resolve_session_names other by fastforce
    qed
  qed
qed simp

lemma resolve_http_not_ended:
  assumes "auth_ok db" "session_ended sid db" "fst (resolve_http n cfg h r now replacement db) = Some (Inr rv)"
  shows "au_session_id (rv_authentication rv) \<noteq> Some sid"
proof (cases "cookie_value (rq_cookie r) (cookie_name cfg)")
  case None
  then show ?thesis using assms(3)
    by (auto simp: resolve_http_def anonymous_authentication_def resolve_bearer_def resolved_token_def
        split: option.splits prod.splits bool.splits)
next
  case (Some token)
  then show ?thesis using assms resolve_cookie_not_ended
    by (auto simp: resolve_http_def split: option.splits)
qed

lemma validate_not_ended:
  assumes "auth_ok db" "session_ended sid db" "sid \<noteq> []"
    and "au_session_id au = Some sid" "au_method au = Some ''password''" "au_state au \<noteq> JStr ''anonymous''"
  shows "\<not> fst (validate_authentication cfg h a au now db)"
proof -
  have "find (\<lambda>s. sn_id s = sid \<and> sn_identity s = i \<and> live_session now s) (ad_sessions db) = None" for i
    using ended_not_live [OF assms(1,2)] by (auto simp: find_None_iff live_session_def)
  moreover have "truthy_string (au_session_id au) = Some sid" using assms(3,4) by (simp add: truthy_string_def)
  ultimately show ?thesis
    using assms(5,6) unfolding validate_authentication_def
    by (cases "truthy_string (actor_id a)"; cases "truthy_string (au_identity_id au)") simp_all
qed

lemma map_where_in: "x \<in> set xs \<Longrightarrow> (if p x then f x else x) \<in> set (map_where p f xs)"
  unfolding map_where_def set_map by (rule imageI)

lemma revoked_sessions: "ad_sessions (revoke_sessions i now db) =
    map_where (\<lambda>s. sn_identity s = i \<and> sn_revoked s = None) (\<lambda>s. s\<lparr>sn_revoked := Some now\<rparr>) (ad_sessions db)"
  by (simp add: revoke_sessions_def)

lemma revoke_ends: "s \<in> set (ad_sessions db) \<Longrightarrow> sn_identity s = i \<Longrightarrow> session_ended (sn_id s) (revoke_sessions i now db)"
proof -
  assume s: "s \<in> set (ad_sessions db)" "sn_identity s = i"
  let ?f = "\<lambda>u. if sn_identity u = i \<and> sn_revoked u = None then u\<lparr>sn_revoked := Some now\<rparr> else u"
  have "?f s \<in> set (ad_sessions (revoke_sessions i now db))"
    using map_where_in [OF s(1)] unfolding revoked_sessions .
  moreover have "sn_id (?f s) = sn_id s" "sn_revoked (?f s) \<noteq> None" using s(2) by auto
  ultimately show ?thesis unfolding session_ended_def by blast
qed

lemma revoke_audit_ends:
  assumes "evolves db db1" "s \<in> set (ad_sessions db)" "sn_identity s = i"
  shows "session_ended (sn_id s) (audit e i' s' now (revoke_sessions i now db1))"
proof -
  obtain u where "u \<in> set (ad_sessions db1)" "session_later s u" using assms by (auto simp: evolves_def keeps_def)
  then have "session_ended (sn_id s) (revoke_sessions i now db1)" using revoke_ends [of u db1 i now] assms(3) by (simp add: session_later_def)
  then show ?thesis by (simp add: session_ended_def)
qed

lemma reset_ends:
  assumes "reset_password cfg h token password salt now db = (Inr i, db1)" "s \<in> set (ad_sessions db)" "sn_identity s = i"
  shows "session_ended (sn_id s) db1"
proof -
  from assms(1) obtain r identity db0 db2 where steps: "find_identity cfg h now i db = (identity, db0)"
      "overwrite_password cfg h i r (consume_challenge (ah_digest h token) Password_reset now db0) = Inr db2"
      "db1 = audit ''password.reset'' (Some i) None now (revoke_sessions i now db2)"
    by (auto simp: reset_password_def redeem_def put_new_password_def split: sum.splits option.splits prod.splits if_splits)
  have "evolves db db2"
    using evolves_find [THEN evolves_pair, OF steps(1)] evolves_overwrite [OF steps(2)] evolves_consume by (blast intro: evolves_trans)
  then show ?thesis unfolding steps(3) using assms(2,3) by (rule revoke_audit_ends)
qed

lemma change_ends:
  assumes "change_commit cfg h i p now db = (Inr (), db1)" "s \<in> set (ad_sessions db)" "sn_identity s = i"
  shows "session_ended (sn_id s) db1"
proof -
  from assms(1) obtain db2 where steps: "replace_password cfg h i (pc_observed p) (pc_record p) db = Inr db2"
      "db1 = audit ''password.changed'' (Some i) None now (revoke_sessions i now db2)"
    by (auto simp: change_commit_def split: sum.splits)
  show ?thesis unfolding steps(2) using evolves_replace [OF steps(1)] assms(2,3) by (rule revoke_audit_ends)
qed

lemma ineligible_ends:
  assumes "ensure_eligible cfg now i db = (False, db1)" "s \<in> set (ad_sessions db)" "sn_identity s = i"
  shows "session_ended (sn_id s) db1"
proof -
  have "db1 = audit ''identity.ineligible'' (Some i) None now (revoke_tokens i now (revoke_sessions i now db))"
    using assms(1) by (auto simp: ensure_eligible_def split: if_splits)
  moreover have "session_ended (sn_id s) (revoke_sessions i now db)" using assms(2,3) by (rule revoke_ends)
  ultimately show ?thesis by (simp add: session_ended_def revoke_tokens_def)
qed

text \<open>Any of the operations that take all sessions of an identity away.\<close>

definition takes_sessions :: "auth_settings \<Rightarrow> auth_host \<Rightarrow> string \<Rightarrow> int \<Rightarrow> auth_call \<Rightarrow> auth_db \<Rightarrow> bool" where
  "takes_sessions cfg h i now a db \<longleftrightarrow> (case a of
     Reset_password token password salt \<Rightarrow> fst (reset_password cfg h token password salt now db) = Inr i
   | Change_commit i' p \<Rightarrow> i' = i \<and> fst (change_commit cfg h i p now db) = Inr ()
   | Revoke_all_sessions i' \<Rightarrow> i' = i
   | Ensure_eligible i' \<Rightarrow> i' = i \<and> \<not> fst (ensure_eligible cfg now i db)
   | _ \<Rightarrow> False)"

lemma taken_ends:
  assumes "takes_sessions cfg h i now a db" "s \<in> set (ad_sessions db)" "sn_identity s = i"
  shows "session_ended (sn_id s) (auth_step cfg h now a db)"
  using assms
  by (cases a) (auto simp: takes_sessions_def revoke_all_sessions_def prod_eq_iff intro: revoke_audit_ends [OF evolves_refl] reset_ends change_ends ineligible_ends)

subsection \<open>A challenge is redeemed once\<close>

definition redeems :: "auth_settings \<Rightarrow> auth_host \<Rightarrow> string \<Rightarrow> int \<Rightarrow> auth_call \<Rightarrow> auth_db \<Rightarrow> bool" where
  "redeems cfg h token now a db \<longleftrightarrow> (case a of
     Verify_email t \<Rightarrow> t = token \<and> \<not> isl (fst (verify_email cfg h t now db))
   | Reset_password t password salt \<Rightarrow> t = token \<and> \<not> isl (fst (reset_password cfg h t password salt now db))
   | _ \<Rightarrow> False)"

fun redemptions :: "auth_settings \<Rightarrow> auth_host \<Rightarrow> string \<Rightarrow> (int \<times> auth_call) list \<Rightarrow> auth_db \<Rightarrow> nat" where
  "redemptions cfg h token [] db = 0"
| "redemptions cfg h token ((now, a) # steps) db =
     (if redeems cfg h token now a db then 1 else 0) + redemptions cfg h token steps (auth_step cfg h now a db)"

definition challenge_used :: "string \<Rightarrow> auth_db \<Rightarrow> bool" where
  "challenge_used d db \<longleftrightarrow> (\<exists>c\<in>set (ad_challenges db). ch_digest c = d \<and> ch_consumed c \<noteq> None)"

lemma challenge_used_evolves: "evolves db db' \<Longrightarrow> challenge_used d db \<Longrightarrow> challenge_used d db'"
  unfolding evolves_def keeps_def challenge_used_def challenge_later_def by metis

lemma find_keeps_challenges: "ad_challenges (snd (find_identity cfg h now i db)) = ad_challenges db"
  by (auto simp: find_identity_def ensure_eligible_def revoke_tokens_def revoke_sessions_def split: option.splits prod.splits bool.splits if_splits)

lemma redeem_uses:
  assumes "redeem cfg h token p now work db = (Inr i, db')" "\<And>i db db'. work i db = Inr db' \<Longrightarrow> evolves db db'"
  shows "challenge_used (ah_digest h token) db' \<and> (auth_ok db \<longrightarrow> \<not> challenge_used (ah_digest h token) db)"
proof -
  let ?d = "ah_digest h token"
  from assms(1) obtain c identity db1 where c: "find (open_challenge ?d p now) (ad_challenges db) = Some c"
      and steps: "find_identity cfg h now (ch_identity c) db = (identity, db1)"
      "work (ch_identity c) (consume_challenge ?d p now db1) = Inr db'"
    by (auto simp: redeem_def split: option.splits prod.splits sum.splits if_splits)
  have same: "ad_challenges db1 = ad_challenges db" using find_keeps_challenges [of cfg h now "ch_identity c" db] steps(1) by simp
  have opened: "c \<in> set (ad_challenges db)" "open_challenge ?d p now c" using find_some [OF c] by auto
  have "c\<lparr>ch_consumed := Some now\<rparr> \<in> set (ad_challenges (consume_challenge ?d p now db1))"
    using map_where_in [OF opened(1), of "open_challenge ?d p now" "\<lambda>c. c\<lparr>ch_consumed := Some now\<rparr>"] opened(2)
    by (simp add: consume_challenge_def same)
  then have "challenge_used ?d (consume_challenge ?d p now db1)"
    unfolding challenge_used_def using opened(2) by (intro bexI) (auto simp: open_challenge_def)
  then have "challenge_used ?d db'" using assms(2) [OF steps(2)] challenge_used_evolves by blast
  moreover have "\<not> challenge_used ?d db" if "auth_ok db"
  proof -
    have "distinct (map ch_digest (ad_challenges db))" using that by (simp add: auth_ok_def challenges_ok_def)
    then have "c' = c" if "c' \<in> set (ad_challenges db)" "ch_digest c' = ch_digest c" for c'
      using that opened(1) by (auto simp: distinct_map dest: inj_onD)
    then show ?thesis using opened by (auto simp: challenge_used_def open_challenge_def)
  qed
  ultimately show ?thesis by blast
qed

lemma redeems_uses:
  assumes "redeems cfg h token now a db"
  shows "challenge_used (ah_digest h token) (auth_step cfg h now a db) \<and> (auth_ok db \<longrightarrow> \<not> challenge_used (ah_digest h token) db)"
proof (cases a)
  case (Verify_email t)
  then obtain i db1 where "redeem cfg h token Email_verification now (mark_verified cfg now) db = (Inr i, db1)"
      "auth_step cfg h now a db = snd (find_identity cfg h now i db1)"
    using assms by (auto simp: redeems_def verify_email_def split: sum.splits prod.splits)
  then show ?thesis
    using redeem_uses [OF _ evolves_mark_verified] challenge_used_evolves [OF evolves_find] by simp
next
  case (Reset_password t password salt)
  then obtain i db1 r where "redeem cfg h token Password_reset now (put_new_password cfg h r now) db = (Inr i, db1)"
      "auth_step cfg h now a db = db1"
    using assms by (cases "fst (reset_password cfg h t password salt now db)")
      (auto simp: redeems_def reset_password_def prod_eq_iff split: sum.splits)
  then show ?thesis
    using redeem_uses [OF _ evolves_put_new_password] by simp
qed (use assms in \<open>simp_all add: redeems_def\<close>)

lemma used_no_redemption:
  "auth_ok db \<Longrightarrow> challenge_used (ah_digest h token) db \<Longrightarrow> redemptions cfg h token steps db = 0"
proof (induction steps arbitrary: db)
  case (Cons x steps)
  obtain now a where x: "x = (now, a)" by (cases x)
  have "auth_ok (auth_step cfg h now a db)" using evolves_step Cons.prems(1) by (auto simp: evolves_def)
  moreover have "challenge_used (ah_digest h token) (auth_step cfg h now a db)"
    using challenge_used_evolves [OF evolves_step] Cons.prems(2) .
  ultimately show ?case using Cons.IH redeems_uses [of cfg h token now a db] Cons.prems by (auto simp: x)
qed simp

lemma redemptions_bound: "auth_ok db \<Longrightarrow> redemptions cfg h token steps db \<le> 1"
proof (induction steps arbitrary: db)
  case (Cons x steps)
  obtain now a where x: "x = (now, a)" by (cases x)
  have ok: "auth_ok (auth_step cfg h now a db)" using evolves_step Cons.prems by (auto simp: evolves_def)
  show ?case using Cons.IH [OF ok] used_no_redemption [OF ok] redeems_uses [of cfg h token now a db] by (auto simp: x)
qed simp



subsection \<open>Witnesses\<close>

definition sample_auth_settings :: auth_settings where
  "sample_auth_settings = \<lparr>as_absolute = 1000, as_idle = 600, as_renewal = 300, as_grace = 30, as_impersonation = 900,
     as_challenge = 3600, as_secure = False, as_trusted = [''https://app''], as_normalization = Email, as_mapped = False,
     as_login_only = False, as_verification = Mapped_verification, as_contact = False, as_contact_is_identifier = False,
     as_direct = False, as_eligibility = False, as_upgrades = False, as_readers = []\<rparr>"

definition sample_request_host :: request_host where
  "sample_request_host = \<lparr>rh_origin = Some, rh_canonical = id, rh_nfc = id\<rparr>"

definition sample_auth_host :: auth_host where
  "sample_auth_host = \<lparr>ah_password = sample_password_host, ah_request = sample_request_host, ah_digest = id, ah_lower = id,
     ah_compromised = (\<lambda>p. False)\<rparr>"

definition sample_session :: session_row where
  "sample_session = \<lparr>sn_id = ''session'', sn_identity = ''ann'', sn_digest = ''token'', sn_previous = None, sn_previous_until = None,
     sn_created = 0, sn_authenticated = 0, sn_last_seen = 0, sn_idle_until = 600000, sn_expires = 1000000, sn_revoked = None,
     sn_impersonation = None\<rparr>"

definition sample_auth_db :: auth_db where
  "sample_auth_db = \<lparr>ad_identities = [\<lparr>id_id = ''ann'', id_identifier = ''ann@x.io'', id_contact = None, id_verified = None,
      id_created = 0, id_eligible = True\<rparr>],
     ad_passwords = [(''ann'', Password_columns (password_columns sample_record))], ad_sessions = [sample_session], ad_tokens = [],
     ad_challenges = [\<lparr>ch_id = ''reset'', ch_identity = ''ann'', ch_purpose = Password_reset, ch_digest = ''mail'',
       ch_recipient = ''ann@x.io'', ch_expires = 3600000, ch_consumed = None\<rparr>], ad_rates = [], ad_audit = []\<rparr>"

definition sample_reset :: auth_call where
  "sample_reset = Reset_password ''mail'' ''new secret'' ''pepper''"

lemma sample_auth_ok: "auth_ok sample_auth_db"
proof -
  have "challenges_ok [c]" for c by (simp add: challenges_ok_def)
  then show ?thesis
    by (simp add: auth_ok_def sample_auth_db_def tokens_ok_def sessions_ok_def sessions_clash_def sample_session_def
        impersonation_complete_def List.map_filter_simps)
qed

lemma sample_reset_takes: "takes_sessions sample_auth_settings sample_auth_host ''ann'' 5 sample_reset sample_auth_db"
  by code_simp



end
