(* ===== verification/AuthContracts.thy ===== *)
theory AuthContracts
  imports AuthRuns
begin

text \<open>
  What Postgres authentication promises its callers: an authenticated request carries a live
  credential, from a trusted origin, of an identity that may authenticate; a session that was granted
  and an access token that was issued authenticate; a rotation hands an access token over; guesses are
  bounded; and what happens when operations overlap.
\<close>

subsection \<open>Who may authenticate\<close>

definition may_authenticate :: "auth_settings \<Rightarrow> string \<Rightarrow> auth_db \<Rightarrow> bool" where
  "may_authenticate cfg i db \<longleftrightarrow> (case identity_row_of i db of
     None \<Rightarrow> False | Some r \<Rightarrow> as_mapped cfg \<and> as_eligibility cfg \<longrightarrow> id_eligible r)"

lemma ensured: "ensure_eligible cfg now i db = (True, db') \<Longrightarrow> db' = db"
  by (auto simp: ensure_eligible_def split: if_splits)

lemma ensured_eligible: "may_authenticate cfg i db \<Longrightarrow> ensure_eligible cfg now i db = (True, db)"
  by (auto simp: may_authenticate_def ensure_eligible_def split: option.splits)

lemma identity_row_id: "identity_row_of i db = Some r \<Longrightarrow> id_id r = i"
  by (auto simp: identity_row_of_def dest: find_some)

lemma found_identity:
  assumes "find_identity cfg h now i db = (Some a, db')"
  shows "db' = db \<and> may_authenticate cfg i db \<and> ai_id a = i"
  using assms
  by (auto simp: find_identity_def may_authenticate_def identity_from_stored_def ensure_eligible_def
      split: option.splits prod.splits bool.splits if_splits dest: identity_row_id)

lemma find_may:
  assumes "may_authenticate cfg i db"
  obtains a where "find_identity cfg h now i db = (Some a, db)" "ai_id a = i"
proof -
  obtain r where r: "identity_row_of i db = Some r" using assms by (auto simp: may_authenticate_def split: option.splits)
  then have "find_identity cfg h now i db = (Some (identity_from_stored cfg h r), db)"
    using ensured_eligible [OF assms] by (simp add: find_identity_def)
  moreover have "ai_id (identity_from_stored cfg h r) = i" using identity_row_id [OF r] by (simp add: identity_from_stored_def)
  ultimately show thesis by (rule that)
qed

text \<open>Looking an identity up touches no session of another one.\<close>

lemma ensure_other_sessions:
  assumes "s \<in> set (ad_sessions db)" "sn_identity s \<noteq> i"
  shows "s \<in> set (ad_sessions (snd (ensure_eligible cfg now i db)))"
proof -
  have "s \<in> set (ad_sessions (revoke_sessions i now db))"
    using map_where_in [OF assms(1), of "\<lambda>s. sn_identity s = i \<and> sn_revoked s = None"] assms(2) unfolding revoked_sessions by auto
  then show ?thesis using assms(1) by (simp add: ensure_eligible_def revoke_tokens_def)
qed

lemma find_other_sessions:
  "s \<in> set (ad_sessions db) \<Longrightarrow> sn_identity s \<noteq> i \<Longrightarrow> s \<in> set (ad_sessions (snd (find_identity cfg h now i db)))"
  using ensure_other_sessions [of s db i cfg now]
  by (auto simp: find_identity_def split: option.splits prod.splits bool.splits)

subsection \<open>One attempt is enough\<close>

lemma party_cases:
  assumes "party_of cfg h now s db = (p, db')"
  shows "(\<forall>im. sn_impersonation s \<noteq> Some im) \<and> p = Own \<and> db' = db \<or>
    (\<exists>im target. sn_impersonation s = Some im \<and> p = Acting im target \<and> db' = db \<and> im_expires im > now \<and>
      may_authenticate cfg (im_target im) db \<and> ai_id target = im_target im) \<or>
    (\<exists>im. sn_impersonation s = Some im \<and> p = Ended im)"
  using assms
  by (auto simp: party_of_def split: option.splits prod.splits bool.splits if_splits dest: found_identity ensured)

lemma party_ended_sessions:
  assumes "party_of cfg h now s db = (Ended im, db')" "s \<in> set (ad_sessions db)" "impersonation_complete s"
  shows "s \<in> set (ad_sessions db')"
proof -
  have im: "sn_impersonation s = Some im" using party_cases [OF assms(1)] by auto
  then have other: "sn_identity s \<noteq> im_target im" using assms(3) by (auto simp: impersonation_complete_def)
  obtain target db1 where found: "find_identity cfg h now (im_target im) db = (target, db1)" by fastforce
  have s1: "s \<in> set (ad_sessions db1)" using find_other_sessions [OF assms(2) other, of cfg h now] found by simp
  show ?thesis
    using assms(1) s1 ensure_other_sessions [OF s1 other, of cfg now] im found
    by (auto simp: party_of_def split: option.splits prod.splits bool.splits if_splits)
qed

lemma answer_genuine:
  assumes "fst (answer_session cfg h r token now replacement s identity p db) = Inr rv"
  shows "assert_trusted_origin (ah_request h) r (as_trusted cfg) (upgrade_request r) = Inr () \<and>
    (\<exists>cookie. rv = resolved_session identity p s cookie)"
  using assms by (auto simp: answer_session_def split: sum.splits prod.splits)

text \<open>What is known of a request that a session authenticated.\<close>

definition session_answer :: "auth_settings \<Rightarrow> auth_host \<Rightarrow> auth_request \<Rightarrow> int \<Rightarrow> auth_db \<Rightarrow> session_row \<Rightarrow> resolved \<Rightarrow> bool" where
  "session_answer cfg h r now db s rv \<longleftrightarrow>
     may_authenticate cfg (sn_identity s) db \<and>
     assert_trusted_origin (ah_request h) r (as_trusted cfg) (upgrade_request r) = Inr () \<and>
     rv_initiator rv = Some (user_actor (sn_identity s)) \<and>
     au_identity_id (rv_authentication rv) = Some (sn_identity s) \<and>
     au_session_id (rv_authentication rv) = Some (sn_id s) \<and>
     (rv_actor rv = user_actor (sn_identity s) \<and> rv_delegation rv = Some [] \<or>
      (\<exists>im. sn_impersonation s = Some im \<and> im_expires im > now \<and> may_authenticate cfg (im_target im) db \<and>
         rv_actor rv = user_actor (im_target im) \<and>
         rv_delegation rv = Some [\<lparr>hop_from = user_actor (sn_identity s), hop_to = user_actor (im_target im),
           hop_grant_id = im_grant im, hop_reason = im_reason im, hop_expires_at = Some (micros (im_expires im))\<rparr>]))"

lemma resolve_session_answers:
  assumes "s \<in> set (ad_sessions db)" "impersonation_complete s" "sn_revoked s = None"
  shows "\<exists>answer. fst (resolve_session cfg h r token now replacement s db) = Some answer \<and>
    (\<forall>rv. answer = Inr rv \<longrightarrow> rv = anonymous_authentication \<or> session_answer cfg h r now db s rv)"
proof -
  obtain found db1 where found: "find_identity cfg h now (sn_identity s) db = (found, db1)" by fastforce
  show ?thesis
  proof (cases found)
    case None
    then show ?thesis using found by (simp add: resolve_session_def)
  next
    case (Some identity)
    then have db1: "db1 = db" and may: "may_authenticate cfg (sn_identity s) db" and own: "ai_id identity = sn_identity s"
      using found_identity found by auto
    note ensure = ensured_eligible [OF may]
    obtain p db2 where party: "party_of cfg h now s db = (p, db2)" by fastforce
    have genuine: "fst (answer_session cfg h r token now replacement s identity q db') = Inr rv \<Longrightarrow>
        q = Own \<or> (\<exists>im target. q = Acting im target \<and> sn_impersonation s = Some im \<and> im_expires im > now \<and>
          may_authenticate cfg (im_target im) db \<and> ai_id target = im_target im) \<Longrightarrow> session_answer cfg h r now db s rv" for q db' rv
      using may own by (auto simp: session_answer_def resolved_session_def Let_def dest!: answer_genuine)
    show ?thesis
    proof (cases "\<exists>im. p = Ended im")
      case True
      then obtain im where p: "p = Ended im" by blast
      then have "s \<in> set (ad_sessions db2)" "sn_impersonation s = Some im"
        using party_ended_sessions party_cases [OF party] party assms by auto
      then have "list_ex (carries s im) (ad_sessions db2)"
        using assms(3) by (auto simp: list_ex_iff carries_def intro!: bexI [of _ s])
      then obtain db3 where "clear_impersonation s im now db2 = (True, db3)" by (simp add: clear_impersonation_def)
      then show ?thesis using Some found db1 ensure party p genuine [of Own]
        by (simp add: resolve_session_def)
    next
      case False
      then have "fst (resolve_session cfg h r token now replacement s db) =
          Some (fst (answer_session cfg h r token now replacement s identity p db2))"
        using Some found db1 ensure party by (cases p) (simp_all add: resolve_session_def)
      moreover have "p = Own \<or> (\<exists>im target. p = Acting im target \<and> sn_impersonation s = Some im \<and> im_expires im > now \<and>
          may_authenticate cfg (im_target im) db \<and> ai_id target = im_target im)"
        using party_cases [OF party] False by auto
      ultimately show ?thesis using genuine by blast
    qed
  qed
qed

lemma bearer_genuine:
  assumes "fst (resolve_bearer cfg h authorization now db) = Inr rv"
  shows "\<exists>token t. bearer_token authorization = Some (token, tk_id t) \<and> t \<in> set (ad_tokens db) \<and>
    tk_digest t = ah_digest h token \<and> live_token now t \<and> may_authenticate cfg (tk_identity t) db \<and>
    rv_actor rv = user_actor (tk_identity t) \<and> au_constraints (rv_authentication rv) = Some (tk_constraints t)"
proof -
  from assms obtain token tid t identity db1 where steps: "bearer_token authorization = Some (token, tid)"
      "find (\<lambda>t. tk_id t = tid \<and> tk_digest t = ah_digest h token \<and> live_token now t) (ad_tokens db) = Some t"
      "find_identity cfg h now (tk_identity t) db = (Some identity, db1)" "rv = resolved_token identity t now"
    by (auto simp: resolve_bearer_def split: option.splits prod.splits bool.splits)
  show ?thesis
    using find_some [OF steps(2)] found_identity [OF steps(3)] steps(1,4)
    by (intro exI [of _ token] exI [of _ t]) (auto simp: resolved_token_def)
qed


subsection \<open>A granted session authenticates\<close>

lemma find_append_last: "(\<And>x. x \<in> set xs \<Longrightarrow> \<not> p x) \<Longrightarrow> p y \<Longrightarrow> find p (xs @ [y]) = Some y"
  by (induction xs) auto

lemma rate_limit_fields:
  assumes "rate_limit h a v l w b now db = (r, db')"
  shows "ad_identities db' = ad_identities db \<and> ad_sessions db' = ad_sessions db \<and> ad_tokens db' = ad_tokens db"
  using assms by (auto simp: rate_limit_def Let_def split: option.splits if_splits)

lemma clear_rate_fields [simp]:
  "ad_identities (clear_rate_limit h a v db) = ad_identities db" "ad_sessions (clear_rate_limit h a v db) = ad_sessions db"
  by (simp_all add: clear_rate_limit_def)

lemma identity_row_of_cong: "ad_identities db = ad_identities db' \<Longrightarrow> identity_row_of i db = identity_row_of i db'"
  by (simp add: identity_row_of_def)

lemma may_authenticate_cong: "ad_identities db = ad_identities db' \<Longrightarrow> may_authenticate cfg i db = may_authenticate cfg i db'"
  by (simp add: may_authenticate_def identity_row_of_def)

lemma identity_by_identifier_row:
  assumes "identity_by_identifier cfg h v db = Some r" "distinct (map id_id (ad_identities db))"
  shows "identity_row_of (id_id r) db = Some r"
proof -
  have r: "r \<in> set (ad_identities db)" using assms(1) by (auto simp: identity_by_identifier_def dest: find_some)
  then obtain u where u: "identity_row_of (id_id r) db = Some u"
    by (cases "identity_row_of (id_id r) db") (auto simp: identity_row_of_def find_None_iff)
  then have "u \<in> set (ad_identities db)" "id_id u = id_id r" by (auto simp: identity_row_of_def dest: find_some)
  then have "u = r" using assms(2) r by (auto simp: distinct_map dest: inj_onD)
  with u show ?thesis by simp
qed

lemma eligible_may:
  assumes "ensure_eligible cfg now i db = (True, db')" "identity_row_of i db = Some r"
  shows "may_authenticate cfg i db"
  using assms by (auto simp: ensure_eligible_def may_authenticate_def split: if_splits)

lemma login_checked:
  assumes "login_check cfg h v password ip salt now db = (Inr p, db1)" "distinct (map id_id (ad_identities db))"
  shows "ad_identities db1 = ad_identities db \<and> ad_sessions db1 = ad_sessions db \<and> may_authenticate cfg (id_id (pl_identity p)) db"
proof -
  from assms(1) obtain email r db0 db2 where steps: "rate_limit h ''login'' (bucket email ip) 5 900 900 now db = (Inr (), db0)"
      "identity_by_identifier cfg h email db0 = Some r" "ensure_eligible cfg now (id_id r) db0 = (True, db2)"
      "db1 = clear_rate_limit h ''login'' (bucket email ip) db2" "pl_identity p = r"
    by (auto simp: login_check_def credentials_of_def Let_def split: sum.splits prod.splits option.splits bool.splits if_splits)
  have same: "ad_identities db0 = ad_identities db" "ad_sessions db0 = ad_sessions db" using rate_limit_fields [OF steps(1)] by auto
  have "identity_row_of (id_id r) db0 = Some r" using identity_by_identifier_row [OF steps(2)] assms(2) same by simp
  then have "may_authenticate cfg (id_id r) db0" using eligible_may [OF steps(3)] by simp
  then show ?thesis using same may_authenticate_cong [OF same(1)] steps(4,5) ensured [OF steps(3)] by simp
qed

lemma replace_fields:
  assumes "replace_password cfg h i q r db = Inr db'"
  shows "ad_identities db' = ad_identities db \<and> ad_sessions db' = ad_sessions db"
  using assms by (auto simp: replace_password_def upgrade_password_def overwrite_password_def split: if_splits)

lemma login_committed:
  assumes "login_commit cfg h p sid token now db = (Inr g, db1)"
  shows "ad_identities db1 = ad_identities db \<and>
    ad_sessions db1 = ad_sessions db @ [new_session cfg h (id_id (pl_identity p)) sid token now] \<and>
    \<not> sessions_clash (ad_sessions db1) \<and> ai_id (sg_identity g) = id_id (pl_identity p) \<and> sg_token g = token"
proof -
  define s where "s = new_session cfg h (id_id (pl_identity p)) sid token now"
  from assms obtain db2 db3 where replaced: "(case pl_upgraded p of None \<Rightarrow> Inr db
        | Some r \<Rightarrow> replace_password cfg h (id_id (pl_identity p)) (pl_observed p) r db) = Inr db2"
      and put: "put_sessions (ad_sessions db2 @ [s]) db2 = Inr db3"
      and done_: "db1 = audit ''session.created'' (Some (id_id (pl_identity p))) (Some sid) now db3"
      and g: "g = \<lparr>sg_identity = identity_from_stored cfg h (pl_identity p), sg_session = s, sg_token = token\<rparr>"
    by (auto simp: login_commit_def Let_def s_def split: sum.splits)
  have "ad_identities db2 = ad_identities db \<and> ad_sessions db2 = ad_sessions db"
    using replaced by (auto split: option.splits dest: replace_fields)
  moreover have "\<not> sessions_clash (ad_sessions db2 @ [s]) \<and> db3 = db2\<lparr>ad_sessions := ad_sessions db2 @ [s]\<rparr>"
    using put by (simp add: put_sessions_def split: if_splits)
  ultimately show ?thesis using done_ g by (simp add: s_def identity_from_stored_def)
qed

lemma session_resolves:
  assumes "read_session h token t db = Some s" "may_authenticate cfg (sn_identity s) db" "sn_impersonation s = None"
    and "assert_trusted_origin (ah_request h) r (as_trusted cfg) (upgrade_request r) = Inr ()"
    and "\<not> renewal_due cfg h (upgrade_request r) token t s"
  obtains a db' where "resolve_cookie (Suc n) cfg h r token t replacement db = (Some (Inr (resolved_session a Own s None)), db')"
    "ai_id a = sn_identity s"
proof -
  obtain a where a: "find_identity cfg h t (sn_identity s) db = (Some a, db)" "ai_id a = sn_identity s"
    using find_may [OF assms(2)] .
  obtain db' where "touch_session cfg h (upgrade_request r) token t s replacement db = (Inr None, db')"
    using assms(5) by (auto simp: touch_session_def Let_def)
  then have "resolve_session cfg h r token t replacement s db = (Some (Inr (resolved_session a Own s None)), db')"
    using assms(3,4) a ensured_eligible [OF assms(2)] by (simp add: resolve_session_def party_of_def answer_session_def)
  then have "resolve_cookie (Suc n) cfg h r token t replacement db = (Some (Inr (resolved_session a Own s None)), db')"
    using assms(1) by simp
  then show thesis using a(2) by (rule that)
qed

lemma cookie_names: "CHR ''='' \<notin> set (cookie_name cfg)" "CHR '';'' \<notin> set (cookie_name cfg)" "js_trim (cookie_name cfg) = cookie_name cfg"
  by (cases "as_secure cfg"; simp add: cookie_name_def; code_simp)+


subsection \<open>Access tokens\<close>

lemma bearer_token_text:
  assumes "length tid = 16" "list_all token_char tid" "length secret = 43" "list_all token_char secret"
  shows "bearer_token (''Bearer '' @ token_text tid secret) = Some (token_text tid secret, tid)"
  using assms by (simp add: bearer_token_def token_text_def)

lemma material_fields:
  assumes "access_token_material h i input tid secret now = Inr t"
  shows "tk_id t = tid \<and> tk_identity t = i \<and> tk_digest t = ah_digest h (token_text tid secret) \<and> tk_revoked t = None \<and>
    tk_constraints t = sort (remdups (tq_constraints input)) \<and> tk_expires t > micros now \<and>
    (\<forall>e. tq_expires input = Some e \<longrightarrow> tk_expires t = e)"
  using assms by (auto simp: access_token_material_def Let_def split: if_splits option.splits)

text \<open>A token that was revoked is never accepted again.\<close>

definition token_ended :: "string \<Rightarrow> auth_db \<Rightarrow> bool" where
  "token_ended tid db \<longleftrightarrow> (\<exists>t\<in>set (ad_tokens db). tk_id t = tid \<and> tk_revoked t \<noteq> None)"

lemma token_ended_evolves: "evolves db db' \<Longrightarrow> token_ended tid db \<Longrightarrow> token_ended tid db'"
  unfolding evolves_def keeps_def token_ended_def token_later_def by metis

lemma ended_token_refused:
  assumes "auth_ok db" "token_ended tid db" "bearer_token authorization = Some (token, tid)"
  shows "fst (resolve_bearer cfg h authorization now db) = Inl unauthenticated"
proof -
  have unique: "t = u" if "t \<in> set (ad_tokens db)" "u \<in> set (ad_tokens db)" "tk_id t = tk_id u" for t u
    using that assms(1) by (auto simp: auth_ok_def tokens_ok_def distinct_map dest: inj_onD)
  have "find (\<lambda>t. tk_id t = tid \<and> tk_digest t = ah_digest h token \<and> live_token now t) (ad_tokens db) = None"
    using assms(2) unique by (fastforce simp: find_None_iff token_ended_def live_token_def)
  then show ?thesis using assms(3) by (simp add: resolve_bearer_def)
qed

lemma new_token_resolves:
  assumes "put_token t db = Inr db1" "tk_digest t = ah_digest h token" "tk_revoked t = None" "tk_expires t > micros later"
    and "bearer_token authorization = Some (token, tk_id t)" "may_authenticate cfg (tk_identity t) db"
    and "ad_identities db2 = ad_identities db1" "ad_tokens db2 = ad_tokens db1"
  shows "\<exists>rv. fst (resolve_bearer cfg h authorization later db2) = Inr rv \<and> rv_actor rv = user_actor (tk_identity t) \<and>
    au_credential_id (rv_authentication rv) = Some (tk_id t) \<and> au_constraints (rv_authentication rv) = Some (tk_constraints t)"
proof -
  have tokens: "ad_tokens db2 = ad_tokens db @ [t]" "ad_identities db2 = ad_identities db"
    and new: "\<forall>u\<in>set (ad_tokens db). tk_id u \<noteq> tk_id t"
    using assms(1,7,8) by (auto simp: put_token_def list_ex_iff split: if_splits)
  have found: "find (\<lambda>u. tk_id u = tk_id t \<and> tk_digest u = ah_digest h token \<and> live_token later u) (ad_tokens db2) = Some t"
    unfolding tokens(1) using new assms(2-4) by (intro find_append_last) (auto simp: live_token_def)
  have may: "may_authenticate cfg (tk_identity t) db2" using assms(6) may_authenticate_cong [OF tokens(2)] by simp
  obtain a where "find_identity cfg h later (tk_identity t) db2 = (Some a, db2)" "ai_id a = tk_identity t" using find_may [OF may] .
  then show ?thesis using found assms(5) ensured_eligible [OF may] by (simp add: resolve_bearer_def resolved_token_def)
qed

lemma issued_token_resolves:
  assumes "issue_access_token cfg h i input tid secret now db = (Inr g, db1)"
    and "length tid = 16" "list_all token_char tid" "length secret = 43" "list_all token_char secret"
    and "micros later < tk_expires (tg_row g)"
  shows "\<exists>rv. fst (resolve_bearer cfg h (''Bearer '' @ tg_token g) later db1) = Inr rv \<and> rv_actor rv = user_actor i \<and>
    au_constraints (rv_authentication rv) = Some (sort (remdups (tq_constraints input)))"
proof -
  from assms(1) obtain a db0 t db2 where steps: "find_identity cfg h now i db = (Some a, db0)"
      "access_token_material h i input tid secret now = Inr t" "put_token t db0 = Inr db2"
      "db1 = audit ''access_token.issued'' (Some i) None now db2" "g = \<lparr>tg_row = t, tg_token = token_text tid secret\<rparr>"
    by (auto simp: issue_access_token_def split: option.splits prod.splits sum.splits)
  note t = material_fields [OF steps(2)]
  have "may_authenticate cfg (tk_identity t) db0" using found_identity [OF steps(1)] t by simp
  then show ?thesis
    using new_token_resolves [OF steps(3), of h "token_text tid secret" later "''Bearer '' @ token_text tid secret" cfg db1]
      bearer_token_text [OF assms(2-5)] t steps(4,5) assms(6) by auto
qed

text \<open>
  C39. A rotation that succeeds hands an access token over: the new token authenticates the same identity
  with the same constraints until the old one would have expired, and the old one is refused from then
  on, whatever else is done.
\<close>

theorem rotation_hands_over:
  assumes "rotate_access_token cfg h i old tid secret now db = (Inr g, db1)" "auth_ok db" "may_authenticate cfg i db"
    and "length tid = 16" "list_all token_char tid" "length secret = 43" "list_all token_char secret"
    and "t \<in> set (ad_tokens db)" "tk_id t = old" "micros later < tk_expires t" "bearer_token authorization = Some (token, old)"
  shows "tk_identity t = i \<and> tk_revoked t = None \<and>
    (\<exists>rv. fst (resolve_bearer cfg h (''Bearer '' @ tg_token g) later db1) = Inr rv \<and> rv_actor rv = user_actor i \<and>
      au_constraints (rv_authentication rv) = Some (sort (remdups (tk_constraints t)))) \<and>
    fst (resolve_bearer cfg h authorization anytime (auth_run cfg h steps db1)) = Inl unauthenticated"
proof -
  from assms(1,3) obtain u where checked: "find (\<lambda>t. tk_id t = old \<and> tk_identity t = i \<and> tk_revoked t = None) (ad_tokens db) = Some u"
      "rotate_commit h i u tid secret now db = (Inr g, db1)"
    using ensured_eligible [OF assms(3)] by (auto simp: rotate_access_token_def rotate_check_def split: option.splits)
  have u: "u \<in> set (ad_tokens db)" "tk_id u = old" "tk_identity u = i" "tk_revoked u = None" using find_some [OF checked(1)] by auto
  have same: "u = t" using u(1,2) assms(2,8,9) by (auto simp: auth_ok_def tokens_ok_def distinct_map dest: inj_onD)
  define revoked where "revoked = db\<lparr>ad_tokens := map_where (\<lambda>v. tk_id v = tk_id u) (\<lambda>v. v\<lparr>tk_revoked := Some now\<rparr>) (ad_tokens db)\<rparr>"
  from checked(2) obtain m db2 where steps: "access_token_material h i \<lparr>tq_name = tk_name u, tq_constraints = tk_constraints u,
        tq_expires = Some (tk_expires u)\<rparr> tid secret now = Inr m" "put_token m revoked = Inr db2"
      "db1 = audit ''access_token.rotated'' (Some i) None now db2" "g = \<lparr>tg_row = m, tg_token = token_text tid secret\<rparr>"
    by (auto simp: rotate_commit_def revoked_def split: sum.splits)
  note m = material_fields [OF steps(1)]
  have may: "may_authenticate cfg (tk_identity m) revoked"
    using assms(3) m may_authenticate_cong [of revoked db] by (simp add: revoked_def)
  have "\<exists>rv. fst (resolve_bearer cfg h (''Bearer '' @ tg_token g) later db1) = Inr rv \<and> rv_actor rv = user_actor i \<and>
      au_constraints (rv_authentication rv) = Some (sort (remdups (tk_constraints t)))"
    using new_token_resolves [OF steps(2), of h "token_text tid secret" later "''Bearer '' @ token_text tid secret" cfg db1]
      bearer_token_text [OF assms(4-7)] m may steps(3,4) assms(10) same by auto
  moreover have "token_ended old revoked"
    using map_where_in [OF u(1), of "\<lambda>v. tk_id v = tk_id u" "\<lambda>v. v\<lparr>tk_revoked := Some now\<rparr>"] u(2)
    by (auto simp: token_ended_def revoked_def intro!: bexI [of _ "u\<lparr>tk_revoked := Some now\<rparr>"])
  then have "token_ended old db1"
    using steps(2,3) by (auto simp: put_token_def token_ended_def split: if_splits)
  then have "token_ended old (auth_run cfg h steps db1)" by (rule token_ended_evolves [OF evolves_run])
  moreover have "evolves db db1" using evolves_rotate_commit [of db h i u tid secret now] checked(2) by simp
  then have "auth_ok (auth_run cfg h steps db1)"
    using assms(2) evolves_run [of db1 cfg h steps] by (simp add: evolves_def)
  ultimately show ?thesis using ended_token_refused assms(11) u same by blast
qed

subsection \<open>Guesses are bounded\<close>

text \<open>How many attempts a row still lets through before \<open>start + window\<close>.\<close>

definition attempts_left :: "int \<Rightarrow> int \<Rightarrow> rate_row option \<Rightarrow> int" where
  "attempts_left limit start row = (case row of
     None \<Rightarrow> limit
   | Some r \<Rightarrow> max 0 (limit - rl_attempts r) + (if rl_started r < start then limit else 0))"

definition rate_blocks :: "int \<Rightarrow> rate_row \<Rightarrow> bool" where
  "rate_blocks now r \<longleftrightarrow> (case rl_blocked r of None \<Rightarrow> False | Some t \<Rightarrow> t > now)"

lemma rate_attempt_left:
  assumes "0 < limit" "0 < block" "\<forall>r. row = Some r \<longrightarrow> 0 < rl_attempts r" "start \<le> now" "now < start + window * 1000"
  shows "attempts_left limit start (Some (rate_attempt limit window block now row)) +
      (if rate_blocks now (rate_attempt limit window block now row) then 0 else 1) \<le> attempts_left limit start row"
    and "0 < rl_attempts (rate_attempt limit window block now row)"
proof -
  show "0 < rl_attempts (rate_attempt limit window block now row)"
    using assms(3) by (auto simp: rate_attempt_def Let_def split: option.splits)
  show "attempts_left limit start (Some (rate_attempt limit window block now row)) +
      (if rate_blocks now (rate_attempt limit window block now row) then 0 else 1) \<le> attempts_left limit start row"
  proof (cases row)
    case None
    then show ?thesis using assms(1,4) by (simp add: rate_attempt_def attempts_left_def rate_blocks_def)
  next
    case (Some r)
    show ?thesis
    proof (cases "rl_started r \<le> now - window * 1000")
      case True
      then have "rl_started r < start" using assms(5) by simp
      then show ?thesis using True Some assms(1,4) by (auto simp: rate_attempt_def attempts_left_def rate_blocks_def Let_def max_def)
    next
      case False
      then show ?thesis using Some assms(1,2)
        by (auto simp: rate_attempt_def attempts_left_def rate_blocks_def Let_def split: option.splits if_splits)
    qed
  qed
qed

lemma rate_limit_row:
  "om_get (ad_rates (snd (rate_limit h a v l w b now db))) (a, ah_digest h v) =
     Some (rate_attempt l w b now (om_get (ad_rates db) (a, ah_digest h v)))"
  "isl (fst (rate_limit h a v l w b now db)) = rate_blocks now (rate_attempt l w b now (om_get (ad_rates db) (a, ah_digest h v)))"
  by (simp_all add: rate_limit_def Let_def rate_blocks_def split: option.splits)

lemma ensure_rates: "ad_rates (snd (ensure_eligible cfg now i db)) = ad_rates db"
  by (simp add: ensure_eligible_def revoke_tokens_def revoke_sessions_def)

text \<open>
  Attempts to log in with one identifier from one address, each after some change of the tables: how many
  passwords are found wrong before one is let in.
\<close>

fun wrong_guesses :: "auth_settings \<Rightarrow> auth_host \<Rightarrow> string \<Rightarrow> string option \<Rightarrow> ((auth_db \<Rightarrow> auth_db) \<times> string \<times> string \<times> int) list \<Rightarrow>
    auth_db \<Rightarrow> nat" where
  "wrong_guesses cfg h v ip [] db = 0"
| "wrong_guesses cfg h v ip ((f, password, salt, now) # rest) db =
     (case login_check cfg h v password ip salt now (f db) of
        (Inl (Authentication_error Invalid_credentials), db) \<Rightarrow> Suc (wrong_guesses cfg h v ip rest db)
      | (Inl (Rate_limited seconds), db) \<Rightarrow> wrong_guesses cfg h v ip rest db
      | _ \<Rightarrow> 0)"

lemma login_check_limits:
  assumes "normalized cfg h v False = Inr email" "login_check cfg h v password ip salt now db = (Inl e, db')"
    and "key = (''login'', ah_digest h (bucket email ip))" "e = unauthenticated \<or> (\<exists>s. e = Rate_limited s)"
  shows "om_get (ad_rates db') key = Some (rate_attempt 5 900 900 now (om_get (ad_rates db) key))"
    and "e = unauthenticated \<Longrightarrow> \<not> rate_blocks now (rate_attempt 5 900 900 now (om_get (ad_rates db) key))"
proof -
  obtain r db1 where limited: "rate_limit h ''login'' (bucket email ip) 5 900 900 now db = (r, db1)" by fastforce
  have row: "om_get (ad_rates db1) key = Some (rate_attempt 5 900 900 now (om_get (ad_rates db) key))"
    and blocks: "isl r = rate_blocks now (rate_attempt 5 900 900 now (om_get (ad_rates db) key))"
    using rate_limit_row [of h "''login''" "bucket email ip" 5 900 900 now db] limited assms(3) by auto
  have limit_error: "r = Inl e' \<Longrightarrow> \<exists>s. e' = Rate_limited s" for e'
    using limited by (auto simp: rate_limit_def Let_def split: option.splits if_splits)
  have after: "ad_rates db' = ad_rates db1 \<and> isl r = (\<exists>s. e = Rate_limited s)"
  proof (cases r)
    case (Inl e')
    then show ?thesis using assms(1,2) limited limit_error [OF Inl] by (auto simp: login_check_def)
  next
    case (Inr u)
    have refused: "upgraded_record cfg h x salt password = Inl e' \<Longrightarrow> e' = Internal_error" for x e'
      by (auto simp: upgraded_record_def create_password_def split: if_splits option.splits sum.splits)
    show ?thesis
      using assms(1,2,4) limited Inr ensure_rates
      by (auto simp: login_check_def credentials_of_def Let_def split: option.splits prod.splits bool.splits sum.splits if_splits
          dest!: refused) (metis snd_conv)+
  qed
  show "om_get (ad_rates db') key = Some (rate_attempt 5 900 900 now (om_get (ad_rates db) key))" using row after by simp
  show "e = unauthenticated \<Longrightarrow> \<not> rate_blocks now (rate_attempt 5 900 900 now (om_get (ad_rates db) key))" using blocks after by auto
qed

lemma wrong_guesses_left:
  assumes "normalized cfg h v False = Inr email" "key = (''login'', ah_digest h (bucket email ip))"
    and "\<forall>(f, _, _, now)\<in>set attempts. start \<le> now \<and> now < start + 900000 \<and> (\<forall>db. om_get (ad_rates (f db)) key = om_get (ad_rates db) key)"
    and "\<forall>r. om_get (ad_rates db) key = Some r \<longrightarrow> 0 < rl_attempts r"
  shows "int (wrong_guesses cfg h v ip attempts db) \<le> attempts_left 5 start (om_get (ad_rates db) key)"
  using assms(3,4)
proof (induction attempts arbitrary: db)
  case Nil
  then show ?case by (auto simp: attempts_left_def split: option.splits)
next
  case (Cons x rest)
  obtain f password salt now where x: "x = (f, password, salt, now)" by (cases x)
  obtain answer db' where checked: "login_check cfg h v password ip salt now (f db) = (answer, db')" by fastforce
  let ?row = "om_get (ad_rates db) key" and ?next = "rate_attempt 5 900 900 now (om_get (ad_rates db) key)"
  have env: "om_get (ad_rates (f db)) key = ?row" "start \<le> now" "now < start + 900 * 1000" using Cons.prems(1) by (auto simp: x)
  note left = rate_attempt_left [of 5 900 ?row start now 900, OF _ _ Cons.prems(2) env(2,3)]
  have bound: "0 \<le> attempts_left 5 start ?row" by (simp add: attempts_left_def split: option.splits)
  show ?case
  proof (cases "answer = Inl unauthenticated \<or> (\<exists>s. answer = Inl (Rate_limited s))")
    case False
    then show ?thesis using bound checked by (auto simp: x split: sum.splits auth_failure.splits auth_code.splits)
  next
    case True
    then obtain e where e: "answer = Inl e" "e = unauthenticated \<or> (\<exists>s. e = Rate_limited s)" by auto
    note limits = login_check_limits [OF assms(1) checked [unfolded e(1)] assms(2) e(2), unfolded env(1)]
    have "int (wrong_guesses cfg h v ip rest db') \<le> attempts_left 5 start (Some ?next)"
      using Cons.IH [of db'] Cons.prems(1) limits(1) left(2) by auto
    then show ?thesis using e checked left(1) limits(2) by (auto simp: x split: if_splits)
  qed
qed


subsection \<open>Witnesses\<close>

definition sample_token :: string where
  "sample_token = replicate 43 (CHR ''t'')"

definition sample_cookie_request :: "string \<Rightarrow> auth_request" where
  "sample_cookie_request token = \<lparr>rq_method = ''GET'', rq_cookie = Some (''doxa_session'' @ CHR ''='' # token), rq_authorization = None,
     rq_upgrade = None, rq_fetch_site = None, rq_origin = None\<rparr>"

definition sample_live_db :: auth_db where
  "sample_live_db = sample_auth_db\<lparr>ad_sessions := [sample_session\<lparr>sn_digest := sample_token\<rparr>]\<rparr>"

definition sample_access_token :: token_row where
  "sample_access_token = \<lparr>tk_id = replicate 16 (CHR ''o''), tk_identity = ''ann'', tk_name = ''ci'',
     tk_digest = token_text (replicate 16 (CHR ''o'')) sample_token, tk_constraints = [''read'', ''write''], tk_created = 0,
     tk_expires = 9000000, tk_last_used = None, tk_revoked = None\<rparr>"

definition sample_token_db :: auth_db where
  "sample_token_db = sample_auth_db\<lparr>ad_tokens := [sample_access_token]\<rparr>"

lemma sample_live_ok: "auth_ok sample_live_db"
  using sample_auth_ok
  by (simp add: auth_ok_def sample_live_db_def sample_auth_db_def sessions_ok_def sessions_clash_def sample_session_def
      impersonation_complete_def List.map_filter_simps)

lemma sample_token_ok: "auth_ok sample_token_db"
  using sample_auth_ok by (simp add: auth_ok_def sample_token_db_def sample_auth_db_def tokens_ok_def)


definition sample_login :: "(auth_failure + session_grant) \<times> auth_db" where
  "sample_login = login sample_auth_settings sample_auth_host ''ann@x.io'' ''secret'' None ''pepper'' ''fresh'' sample_token 1000 sample_auth_db"


definition sample_rotation :: "(auth_failure + token_grant) \<times> auth_db" where
  "sample_rotation = rotate_access_token sample_auth_settings sample_auth_host ''ann'' (replicate 16 (CHR ''o''))
     (replicate 16 (CHR ''n'')) (replicate 43 (CHR ''s'')) 5 sample_token_db"

theorem rotation_hands_over_witness:
  "\<exists>rv. fst (resolve_bearer sample_auth_settings sample_auth_host (''Bearer '' @ token_text (replicate 16 (CHR ''n'')) (replicate 43 (CHR ''s''))) 6
     (snd sample_rotation)) = Inr rv \<and> au_constraints (rv_authentication rv) = Some [''read'', ''write'']"
proof -
  have rotated: "(case fst sample_rotation of
      Inr g \<Rightarrow> tg_token g = token_text (replicate 16 (CHR ''n'')) (replicate 43 (CHR ''s'')) | Inl e \<Rightarrow> False)"
    by code_simp
  then obtain g where g: "fst sample_rotation = Inr g" "tg_token g = token_text (replicate 16 (CHR ''n'')) (replicate 43 (CHR ''s''))"
    by (auto split: sum.splits)
  then have rotate: "rotate_access_token sample_auth_settings sample_auth_host ''ann'' (replicate 16 (CHR ''o''))
     (replicate 16 (CHR ''n'')) (replicate 43 (CHR ''s'')) 5 sample_token_db = (Inr g, snd sample_rotation)"
    by (simp add: prod_eq_iff flip: sample_rotation_def)
  have may: "may_authenticate sample_auth_settings ''ann'' sample_token_db" by code_simp
  have old: "bearer_token (''Bearer '' @ token_text (replicate 16 (CHR ''o'')) sample_token) =
      Some (token_text (replicate 16 (CHR ''o'')) sample_token, replicate 16 (CHR ''o''))" by code_simp
  have chars: "list_all token_char (replicate 16 (CHR ''n''))" "list_all token_char (replicate 43 (CHR ''s''))" by code_simp+
  have t: "sample_access_token \<in> set (ad_tokens sample_token_db)" "tk_id sample_access_token = replicate 16 (CHR ''o'')"
      "micros 6 < tk_expires sample_access_token" "sort (remdups (tk_constraints sample_access_token)) = [''read'', ''write'']"
    by (simp_all add: sample_token_db_def sample_access_token_def micros_def)
  show ?thesis
    using rotation_hands_over [OF rotate sample_token_ok may _ chars(1) _ chars(2) t(1-3) old, of 0 "[]"] g(2) t(4) by auto
qed


subsection \<open>Operations that overlap\<close>

text \<open>
  A rotation reads its token before the transaction that replaces it, and the transaction does not look
  whether it was revoked in the meantime: a token that its owner revoked then lives on as another one.
\<close>

lemma rotation_survives_revocation:
  assumes "rotate_check cfg i old now db = (Inr t, db0)"
  defines "db1 \<equiv> snd (revoke_access_token cfg i old now db0)"
  assumes "access_token_material h i \<lparr>tq_name = tk_name t, tq_constraints = tk_constraints t, tq_expires = Some (tk_expires t)\<rparr> tid secret now = Inr m"
    and "\<forall>u\<in>set (ad_tokens db0). tk_id u \<noteq> tid \<and> tk_digest u \<noteq> tk_digest m"
  shows "\<exists>g. fst (rotate_commit h i t tid secret now db1) = Inr g \<and> tk_revoked (tg_row g) = None"
proof -
  have "\<forall>u\<in>set (ad_tokens db1). tk_id u \<noteq> tid \<and> tk_digest u \<noteq> tk_digest m"
    using assms(4) unfolding db1_def
    by (auto simp: revoke_access_token_def ensure_eligible_def revoke_tokens_def revoke_sessions_def map_where_def Let_def split: prod.splits bool.splits if_splits)
  then show ?thesis
    using assms(3) material_fields [OF assms(3)]
    by (auto simp: rotate_commit_def put_token_def map_where_def list_ex_iff split: sum.splits if_splits)
qed

text \<open>
  Neither is a password that the operation has read compared with the one it replaces, unless the table
  is foreign: a login that was checked before a reset puts the old password back, because it rehashes a
  record of \<open>doxa_auth_passwords\<close> every time, and opens a session the reset should have prevented; and
  so does a change that was checked before.
\<close>

definition telling_host :: auth_host where
  "telling_host = sample_auth_host\<lparr>ah_password := sample_password_host\<lparr>ph_json_text :=
     \<lambda>v. case v of JObj ((k, j) # kvs) \<Rightarrow> k | _ \<Rightarrow> []\<rparr>\<rparr>"

definition accepts_password :: "string \<Rightarrow> auth_db \<Rightarrow> bool" where
  "accepts_password password db = (case om_get (ad_passwords db) ''ann'' of
     None \<Rightarrow> False | Some p \<Rightarrow> vf_valid (verify_candidate sample_auth_settings telling_host password p))"

lemma login_undoes_reset:
  "case login_check sample_auth_settings telling_host ''ann@x.io'' ''secret'' None ''pepper'' 5 sample_auth_db of
     (Inr pending, db1) \<Rightarrow>
       (case reset_password sample_auth_settings telling_host ''mail'' ''new secret'' ''salt'' 6 db1 of
          (Inr i, db2) \<Rightarrow> accepts_password ''new secret'' db2 \<and> \<not> accepts_password ''secret'' db2 \<and>
            (case login_commit sample_auth_settings telling_host pending ''late'' ''late token'' 7 db2 of
               (Inr g, db3) \<Rightarrow> accepts_password ''secret'' db3 \<and> \<not> accepts_password ''new secret'' db3 \<and>
                 (\<exists>s\<in>set (ad_sessions db3). sn_id s = ''late'' \<and> sn_revoked s = None)
             | _ \<Rightarrow> False)
        | _ \<Rightarrow> False)
   | _ \<Rightarrow> False"
  by code_simp

lemma change_undoes_reset:
  "case change_check sample_auth_settings telling_host ''ann'' ''secret'' ''chosen one'' ''pepper'' 5 sample_auth_db of
     (Inr pending, db1) \<Rightarrow>
       (case reset_password sample_auth_settings telling_host ''mail'' ''new secret'' ''salt'' 6 db1 of
          (Inr i, db2) \<Rightarrow>
            (case change_commit sample_auth_settings telling_host ''ann'' pending 7 db2 of
               (Inr u, db3) \<Rightarrow> accepts_password ''chosen one'' db3 \<and> \<not> accepts_password ''new secret'' db3
             | _ \<Rightarrow> False)
        | _ \<Rightarrow> False)
   | _ \<Rightarrow> False"
  by code_simp

end
