(* ===== verification/AuthErrors.thy ===== *)
theory AuthErrors
  imports AuthContracts
begin

text \<open>
  The errors of Postgres authentication: an operation that is refused has changed no account, whatever
  it had already done when it was.
\<close>

definition eligible_identity :: "auth_settings \<Rightarrow> string \<Rightarrow> auth_db \<Rightarrow> bool" where
  "eligible_identity cfg i db \<longleftrightarrow> \<not> as_mapped cfg \<or> \<not> as_eligibility cfg \<or> may_authenticate cfg i db"

text \<open>All but the rate limits, the audit and what an identity has that may no longer authenticate.\<close>

definition accounts_kept :: "auth_settings \<Rightarrow> auth_db \<Rightarrow> auth_db \<Rightarrow> bool" where
  "accounts_kept cfg db db' \<longleftrightarrow>
     ad_identities db' = ad_identities db \<and> ad_passwords db' = ad_passwords db \<and> ad_challenges db' = ad_challenges db \<and>
     map sn_id (ad_sessions db') = map sn_id (ad_sessions db) \<and> map tk_id (ad_tokens db') = map tk_id (ad_tokens db) \<and>
     (\<forall>s\<in>set (ad_sessions db). eligible_identity cfg (sn_identity s) db \<longrightarrow> s \<in> set (ad_sessions db')) \<and>
     (\<forall>t\<in>set (ad_tokens db). eligible_identity cfg (tk_identity t) db \<longrightarrow> t \<in> set (ad_tokens db'))"

lemma kept_refl [simp]: "accounts_kept cfg db db"
  by (simp add: accounts_kept_def)

lemma kept_trans:
  assumes "accounts_kept cfg a b" "accounts_kept cfg b c"
  shows "accounts_kept cfg a c"
proof -
  have "ad_identities b = ad_identities a" using assms(1) by (simp add: accounts_kept_def)
  then have "eligible_identity cfg i b = eligible_identity cfg i a" for i
    by (simp add: eligible_identity_def may_authenticate_def identity_row_of_def)
  then show ?thesis using assms by (simp add: accounts_kept_def)
qed

lemma kept_frame:
  assumes "ad_identities db' = ad_identities db" "ad_passwords db' = ad_passwords db" "ad_challenges db' = ad_challenges db"
    "ad_sessions db' = ad_sessions db" "ad_tokens db' = ad_tokens db"
  shows "accounts_kept cfg db db'"
  using assms by (simp add: accounts_kept_def)

lemma kept_audit: "accounts_kept cfg db db' \<Longrightarrow> accounts_kept cfg db (audit e i s now db')"
  by (erule kept_trans) (simp add: kept_frame)

lemma kept_rate_limit: "accounts_kept cfg db (snd (rate_limit h a v l w b now db))"
  unfolding rate_limit_def by (auto simp: Let_def split: option.splits intro!: kept_frame)

lemma kept_clear_rate: "accounts_kept cfg db db' \<Longrightarrow> accounts_kept cfg db (clear_rate_limit h a v db')"
  by (erule kept_trans) (simp add: kept_frame clear_rate_limit_def)

lemma kept_ensure: "accounts_kept cfg db (snd (ensure_eligible cfg now i db))"
proof (cases "fst (ensure_eligible cfg now i db)")
  case True
  then show ?thesis using ensured [of cfg now i db] by (metis kept_refl prod.collapse)
next
  case False
  define db0 where "db0 = revoke_tokens i now (revoke_sessions i now db)"
  from False have refused: "\<not> eligible_identity cfg i db" and db': "snd (ensure_eligible cfg now i db) = audit ''identity.ineligible'' (Some i) None now db0"
    by (auto simp: ensure_eligible_def eligible_identity_def may_authenticate_def db0_def split: if_splits option.splits)
  have sessions: "ad_sessions db0 = map_where (\<lambda>s. sn_identity s = i \<and> sn_revoked s = None) (\<lambda>s. s\<lparr>sn_revoked := Some now\<rparr>) (ad_sessions db)"
    and tokens: "ad_tokens db0 = map_where (\<lambda>t. tk_identity t = i \<and> tk_revoked t = None) (\<lambda>t. t\<lparr>tk_revoked := Some now\<rparr>) (ad_tokens db)"
    and rest: "ad_identities db0 = ad_identities db" "ad_passwords db0 = ad_passwords db" "ad_challenges db0 = ad_challenges db"
    by (simp_all add: db0_def revoke_tokens_def revoke_sessions_def)
  have "map sn_id (ad_sessions db0) = map sn_id (ad_sessions db)" "map tk_id (ad_tokens db0) = map tk_id (ad_tokens db)"
    unfolding sessions tokens by (intro map_map_where; simp)+
  moreover have "s \<in> set (ad_sessions db0)" if "s \<in> set (ad_sessions db)" "sn_identity s \<noteq> i" for s
    using map_where_in [OF that(1), of "\<lambda>s. sn_identity s = i \<and> sn_revoked s = None"] that(2) unfolding sessions by auto
  moreover have "t \<in> set (ad_tokens db0)" if "t \<in> set (ad_tokens db)" "tk_identity t \<noteq> i" for t
    using map_where_in [OF that(1), of "\<lambda>t. tk_identity t = i \<and> tk_revoked t = None"] that(2) unfolding tokens by auto
  ultimately have "accounts_kept cfg db db0" using refused rest unfolding accounts_kept_def by blast
  then show ?thesis unfolding db' by (rule kept_audit)
qed

lemma kept_find: "accounts_kept cfg db (snd (find_identity cfg h now i db))"
  using kept_ensure [of cfg db now i] by (auto simp: find_identity_def split: option.splits prod.splits bool.splits)

lemma kept_pair: "accounts_kept cfg db (snd p) \<Longrightarrow> p = (r, db') \<Longrightarrow> accounts_kept cfg db db'"
  by simp

lemmas kept_parts = kept_ensure [THEN kept_pair] kept_find [THEN kept_pair] kept_rate_limit [THEN kept_pair]

text \<open>The operations that can be refused, and whether they were.\<close>

definition refused :: "auth_settings \<Rightarrow> auth_host \<Rightarrow> int \<Rightarrow> auth_call \<Rightarrow> auth_db \<Rightarrow> bool" where
  "refused cfg h now a db \<longleftrightarrow> (case a of
     Register input i salt eligible \<Rightarrow> isl (fst (register cfg h input i salt eligible now db))
   | Register_check input salt \<Rightarrow> isl (fst (register_check cfg h input salt now db))
   | Persist_authentication i r \<Rightarrow> isl (persist_authentication cfg h r now i db)
   | Login_check v password ip salt \<Rightarrow> isl (fst (login_check cfg h v password ip salt now db))
   | Login_commit p sid token \<Rightarrow> isl (fst (login_commit cfg h p sid token now db))
   | Issue_verification i cid token \<Rightarrow> isl (fst (issue_email_verification cfg h i cid token now db))
   | Verify_email token \<Rightarrow> isl (fst (verify_email cfg h token now db))
   | Issue_reset v ip cid token \<Rightarrow> isl (fst (issue_password_reset cfg h v ip cid token now db))
   | Reset_password token password salt \<Rightarrow> isl (fst (reset_password cfg h token password salt now db))
   | Change_check i current password salt \<Rightarrow> isl (fst (change_check cfg h i current password salt now db))
   | Change_commit i p \<Rightarrow> isl (fst (change_commit cfg h i p now db))
   | Reauthenticate_check i sid password ip salt \<Rightarrow> isl (fst (reauthenticate_check cfg h i sid password ip salt now db))
   | Reauthenticate_commit i sid ip p \<Rightarrow> isl (fst (reauthenticate_commit cfg h i sid ip p now db))
   | Start_impersonation_commit i sid target reason grant token \<Rightarrow>
       isl (fst (start_impersonation_commit cfg h i sid target reason grant token now db))
   | Stop_impersonation_commit i sid grant token \<Rightarrow> isl (fst (stop_impersonation_commit h i sid grant token now db))
   | Issue_token i input tid secret \<Rightarrow> isl (fst (issue_access_token cfg h i input tid secret now db))
   | Rotate_commit i t tid secret \<Rightarrow> isl (fst (rotate_commit h i t tid secret now db))
   | Revoke_token i tid \<Rightarrow> isl (fst (revoke_access_token cfg i tid now db))
   | Touch_session upgrade token s replacement \<Rightarrow> isl (fst (touch_session cfg h upgrade token now s replacement db))
   | Resolve_bearer authorization \<Rightarrow> isl (fst (resolve_bearer cfg h authorization now db))
   | _ \<Rightarrow> False)"

lemma kept_register_check: "accounts_kept cfg db (snd (register_check cfg h input salt now db))"
  unfolding register_check_def by (auto split: sum.splits prod.splits dest!: kept_parts [where cfg = cfg])

lemma kept_register: "register cfg h input i salt eligible now db = (Inl e, db') \<Longrightarrow> accounts_kept cfg db db'"
  unfolding register_def insert_registration_def
  by (auto simp: Let_def split: sum.splits prod.splits if_splits dest!: kept_register_check [where cfg = cfg, THEN kept_pair])

lemma kept_login_check: "login_check cfg h v password ip salt now db = (Inl e, db') \<Longrightarrow> accounts_kept cfg db db'"
  unfolding login_check_def
  by (auto simp: Let_def split: sum.splits prod.splits option.splits bool.splits if_splits dest!: kept_parts [where cfg = cfg]
      intro!: kept_audit kept_clear_rate elim: kept_trans)

lemma kept_issue_verification: "issue_email_verification cfg h i cid token now db = (Inl e, db') \<Longrightarrow> accounts_kept cfg db db'"
  unfolding issue_email_verification_def issue_challenge_def
  by (auto simp: Let_def split: sum.splits prod.splits option.splits if_splits dest!: kept_parts [where cfg = cfg])

lemma kept_issue_reset: "issue_password_reset cfg h v ip cid token now db = (Inl e, db') \<Longrightarrow> accounts_kept cfg db db'"
  unfolding issue_password_reset_def issue_challenge_def
  by (auto simp: Let_def split: sum.splits prod.splits option.splits bool.splits if_splits dest!: kept_parts [where cfg = cfg] elim: kept_trans)

lemma kept_redeem: "redeem cfg h token p now work db = (Inl e, db') \<Longrightarrow> accounts_kept cfg db db'"
  unfolding redeem_def by (auto split: option.splits prod.splits sum.splits if_splits dest!: kept_parts [where cfg = cfg])

lemma kept_reauthenticate_check: "reauthenticate_check cfg h i sid password ip salt now db = (Inl e, db') \<Longrightarrow> accounts_kept cfg db db'"
  unfolding reauthenticate_check_def
  by (auto simp: Let_def split: sum.splits prod.splits option.splits bool.splits if_splits dest!: kept_parts [where cfg = cfg]
      intro!: kept_audit elim: kept_trans)

lemma kept_change_check: "accounts_kept cfg db (snd (change_check cfg h i current password salt now db))"
  unfolding change_check_def by (auto split: sum.splits prod.splits option.splits bool.splits dest!: kept_parts [where cfg = cfg])

lemma kept_issue_token: "issue_access_token cfg h i input tid secret now db = (Inl e, db') \<Longrightarrow> accounts_kept cfg db db'"
  unfolding issue_access_token_def by (auto split: sum.splits prod.splits option.splits dest!: kept_parts [where cfg = cfg])

lemma kept_resolve_bearer: "resolve_bearer cfg h authorization now db = (Inl e, db') \<Longrightarrow> accounts_kept cfg db db'"
  unfolding resolve_bearer_def
  by (auto split: prod.splits option.splits bool.splits dest!: kept_parts [where cfg = cfg] elim: kept_trans)

lemma kept_commits:
  "isl (fst (login_commit cfg h p sid token now db)) \<Longrightarrow> snd (login_commit cfg h p sid token now db) = db"
  "isl (fst (change_commit cfg h i q now db)) \<Longrightarrow> snd (change_commit cfg h i q now db) = db"
  "isl (fst (reauthenticate_commit cfg h i sid ip r now db)) \<Longrightarrow> snd (reauthenticate_commit cfg h i sid ip r now db) = db"
  "isl (fst (start_impersonation_commit cfg h i sid target reason grant token now db)) \<Longrightarrow>
    snd (start_impersonation_commit cfg h i sid target reason grant token now db) = db"
  "isl (fst (stop_impersonation_commit h i sid grant token now db)) \<Longrightarrow> snd (stop_impersonation_commit h i sid grant token now db) = db"
  "isl (fst (rotate_commit h i t tid secret now db)) \<Longrightarrow> snd (rotate_commit h i t tid secret now db) = db"
  "isl (fst (touch_session cfg h upgrade token now s replacement db)) \<Longrightarrow> snd (touch_session cfg h upgrade token now s replacement db) = db"
  by (auto simp: login_commit_def change_commit_def reauthenticate_commit_def start_impersonation_commit_def
      stop_impersonation_commit_def rotate_commit_def touch_session_def Let_def split: sum.splits option.splits if_splits)

lemma kept_revoke_token: "isl (fst (revoke_access_token cfg i tid now db)) \<Longrightarrow>
    accounts_kept cfg db (snd (revoke_access_token cfg i tid now db))"
  by (auto simp: revoke_access_token_def Let_def split: prod.splits bool.splits dest!: kept_parts [where cfg = cfg])



end
