(* ===== verification/Spec2Isabelle.thy ===== *)
theory Spec2Isabelle
  imports Prelude Ledger Protocol PublishAuth AdmissionTickets Throttle RedisPresence KeryxServer KeryxHub
    RealtimeClient ClientServer ProviderGraph Advisories Lifecycle Authorization DateTimeCodec
    ExecutionContext QueueContext Cache UnitOfWork EventDispatch RuntimeGraph Configuration ExecutionScope
    Operations QueueDelivery RealtimeCommands QueueEngine Schedules Passwords RequestAuth AuthStore AuthSessions
    AuthRequests AuthRuns AuthContracts AuthErrors
begin

text \<open>
  A verification library of the Doxa framework (the TypeScript packages under \<open>src/packages\<close>).

  \<^bold>\<open>The program.\<close> Doxa compiles an application's classes into a manifest, boots it in a runtime
  that owns its life cycle, executions, transactions, events, queued work and authorization, and
  connects browsers to it over the Keryx realtime server, whose client is the realtime package.
  Modelled here are the realtime protocol with both of its ends, the compiler's checks of the manifest
  graph, and of the runtime how it boots its singletons and configuration, its life cycle, its
  authorization decisions, executions with their scopes and operations, the unit of work of a
  transaction, the dispatch of events, realtime commands, and the work that goes through a queue with
  the envelope that carries it; and the two caches an application may be given.

  \<^bold>\<open>Shared theories.\<close> \<open>Prelude\<close>: JavaScript values (\<open>json\<close>, with what \<open>JSON.parse\<close> gives), the
  insertion-ordered \<open>Map\<close> (\<open>omap\<close>), fallible results as sums, the string operations the
  sources use. \<open>Ledger\<close>: the locale \<open>once_ledger\<close> of a table that remembers an identifier until a
  deadline, with the lemma that nothing is taken twice; it is interpreted on the nonces of
  \<open>PublishAuth\<close>, on the Redis keys and tickets of \<open>RedisPresence\<close> and on the consumed tickets of
  \<open>KeryxServer\<close>.

  \<^bold>\<open>The realtime server\<close> (\<open>packages/keryx/src\<close>).
  \<^item> \<open>Protocol\<close> (\<open>protocol.ts\<close>): destinations and their keys, actors, client frames, published
    messages, the payload check.
  \<^item> \<open>PublishAuth\<close> and \<open>AdmissionTickets\<close> (\<open>security.ts\<close>): signing and verifying a publish
    request; issuing, sealing, opening and parsing the ticket of a connection. Hash, cipher, base64 and
    JSON printing are fields of a host record; the round-trip properties have their laws as hypotheses.
  \<^item> \<open>Throttle\<close> (\<open>index.ts\<close>, \<open>redis-backplane.ts\<close>, \<open>packages/testing\<close>): the in-memory table,
    the Redis script and the fake, each an interpretation of the locale \<open>sliding_window\<close>.
  \<^item> \<open>RedisPresence\<close> (\<open>redis-backplane.ts\<close>): the Lua scripts over a registry of channels,
    the frames on the backplane, its starting, failing and stopping.
  \<^item> \<open>KeryxServer\<close> (\<open>index.ts\<close>): options, roles, tickets, deduplication, HTTP, and the life cycle
    as the step relation \<open>life_step\<close>, where an \<open>await\<close> splits an operation in two steps.
  \<^item> \<open>KeryxHub\<close> (\<open>index.ts\<close>): the connections, their frame queues, subscriptions, presence,
    broadcasts and the pulse; runs are lists of hub events, an answer of the gateway being one.

  \<^bold>\<open>The browser client.\<close> \<open>RealtimeClient\<close> (\<open>packages/realtime/src/index.ts\<close>): every method is an
  action on the record \<open>realtime\<close>; sockets, timers and answers are events. \<open>ClientServer\<close> puts it
  against the server: frames are parsed as sent, the ticket arrives.

  \<^bold>\<open>The compiler.\<close> \<open>ProviderGraph\<close> and \<open>Advisories\<close> (\<open>packages/compiler/src/manifest-validation.ts\<close>):
  the closures that walk the graph are functions with termination proofs (the ids not yet visited
  grow fewer); the two checks that walk are interpretations of the locale \<open>closure_walk\<close>.

  \<^bold>\<open>The runtime.\<close> \<open>RuntimeGraph\<close> (\<open>constructSingletonGraph\<close>: the singletons in the order of their
  dependencies, or the first failure) and \<open>Configuration\<close> (the \<open>.env\<close> file and
  \<open>materializeConfigurations\<close>) prepare the boot. \<open>Lifecycle\<close> (\<open>packages/runtime/src/lifecycle.ts\<close> and the loops of \<open>boot\<close> and
  \<open>#performShutdown\<close> in \<open>runtime.ts\<close>): time is a number, what a method does an argument.
  \<open>Authorization\<close> (\<open>decideAuthorization\<close> and its callees in \<open>runtime.ts\<close>). \<open>ExecutionContext\<close>:
  \<open>createExecutionContext\<close>, from a seed and the parent of an execution. \<open>ExecutionScope\<close>: what an
  execution constructs, shares and disposes of. \<open>Operations\<close>: the admission of an execution, actions,
  queries and jobs. \<open>RealtimeCommands\<close>: \<open>dispatchRealtimeCommand\<close> with its deadline; what it waits
  for is a value that ends at a time, or never. \<open>UnitOfWork\<close>: the
  transaction manager, its nesting, its after-commit hooks and the buffer of deliveries with their
  states. \<open>EventDispatch\<close>: the listeners of an event, immediate or after commit, queued or not, and
  what is broadcast; the code is a program over the small alphabet \<open>action\<close>, so that who hears
  an event is a statement on the list of deliveries it leaves.

  \<^bold>\<open>Work through a queue.\<close> \<open>DateTimeCodec\<close> (\<open>packages/core/src\<close>): the encoding of dates inside JSON
  values. \<open>QueueContext\<close> (\<open>runtime.ts\<close>): the envelope written beside a queued job or event, the
  check on its way back and the seed of the execution that runs it. \<open>QueueDelivery\<close> (\<open>runtime.ts\<close>):
  dispatching jobs and messages, and \<open>handleQueueDelivery\<close>, which runs jobs, listeners, broadcasts and
  messages as executions and keeps the traces of failed attempts; \<open>redeliver\<close> is a queue that tries
  again as often as the policy allows.

  \<^bold>\<open>Caches.\<close> \<open>Cache\<close> (\<open>packages/core/src/cache.ts\<close>,
  \<open>packages/postgres-drizzle/src/postgres-cache.ts\<close>): the locale \<open>cache_contract\<close>, with the memory and the table as its
  interpretations.

  \<^bold>\<open>What the lemmas show.\<close> The properties are the theorems whose text starts with an identifier
  C1 to C40. They say what is accepted only once (\<open>PublishAuth\<close>, \<open>KeryxServer\<close>, \<open>UnitOfWork\<close>);
  who may subscribe, hear and decide (\<open>KeryxHub\<close>, \<open>Authorization\<close>, \<open>EventDispatch\<close>); that three
  throttles are one and two caches are one (\<open>Throttle\<close>, \<open>Cache\<close>); what every command, delivery and
  participant comes to (\<open>RealtimeClient\<close>, \<open>RealtimeCommands\<close>, \<open>UnitOfWork\<close>, \<open>QueueDelivery\<close>,
  \<open>Lifecycle\<close>); in which order providers are made and unmade, and that they are shared
  (\<open>RuntimeGraph\<close>, \<open>ExecutionScope\<close>); that a job tried again is applied once (\<open>QueueDelivery\<close>); that tickets, frames, dates and
  queued envelopes survive the wire (\<open>AdmissionTickets\<close>, \<open>ClientServer\<close>, \<open>DateTimeCodec\<close>,
  \<open>QueueContext\<close>); that checks accept exactly what they should (\<open>ProviderGraph\<close>,
  \<open>QueueContext\<close>, \<open>Configuration\<close>); the invariants of presence (\<open>KeryxHub\<close>, \<open>RedisPresence\<close>); and bounds on what a
  client can make a server keep (\<open>Throttle\<close>, \<open>KeryxHub\<close>).

  \<^bold>\<open>Bounds.\<close> No function uses fuel: recursion is structural or has a measure. Numbers are
  unbounded integers or rationals; the sources stay inside the safe integers of a JavaScript
  number wherever they compute with them. Characters are one-byte code units.

  \<^bold>\<open>Not modelled.\<close> The compiler's reading of TypeScript (through an API outside the repository), the
  packages that are adapters over third-party services, the command line, documentation data, and, so
  far, routes and console commands, model records and queries, signals and observations, Postgres
  authentication, the queue engine and the observation store. Listeners of the
  browser application do not call back into the client; socket writes of the server do not fail except
  where its model says so.
\<close>

end
